(* ===== verification/KPrelude.thy ===== *)
theory KPrelude
  imports
    Main
    "HOL-Library.AList"
    "HOL-Library.Char_ord"
    "HOL-Library.List_Lexorder"
    "HOL-Library.Product_Lexorder"
    "HOL-Library.Multiset"
begin

text \<open>
  Shared vocabulary of the development: the part of the ECMAScript standard library
  that the checkpoint engine uses, and the generic lemmas the components share.

  \<^item> JavaScript strings are lists of code units. The model keeps code units below 256
    (type \<^typ>\<open>char\<close>); on that range \<open>js_trim\<close> and \<open>js_lower\<close> compute what
    \<open>trim\<close> and \<open>toLowerCase\<close> compute, and the default array sort (by code units) is the
    lexicographic order of \<^typ>\<open>string\<close>.
  \<^item> A JavaScript \<open>Map\<close> iterates in insertion order and a \<open>set\<close> on a present key keeps
    its place: this is the association list with \<open>AList.update\<close> and \<open>AList.delete\<close>.
  \<^item> A JavaScript \<open>Set\<close> is a list without duplicates, first insertion first.
  \<^item> An optional property is an \<open>option\<close>; the operator \<open>||\<close> on strings is \<open>js_or\<close>.
\<close>

named_theorems js_simps \<open>rewrite rules for the ECMAScript library model\<close>

section \<open>Strings\<close>

definition js_space :: "char \<Rightarrow> bool" where
  "js_space c \<longleftrightarrow> (of_char c :: nat) \<in> {9, 10, 11, 12, 13, 32, 160}"

definition js_trim :: "string \<Rightarrow> string" where
  "js_trim s = rev (dropWhile js_space (rev (dropWhile js_space s)))"

definition lower_char :: "char \<Rightarrow> char" where
  "lower_char c =
     (let n = (of_char c :: nat)
      in if (65 \<le> n \<and> n \<le> 90) \<or> (192 \<le> n \<and> n \<le> 222 \<and> n \<noteq> 215) then char_of (n + 32) else c)"

definition js_lower :: "string \<Rightarrow> string" where
  "js_lower s = map lower_char s"

definition starts_with :: "string \<Rightarrow> string \<Rightarrow> bool" where
  "starts_with s p \<longleftrightarrow> take (length p) s = p"

definition ends_with :: "string \<Rightarrow> string \<Rightarrow> bool" where
  "ends_with s p \<longleftrightarrow> length p \<le> length s \<and> drop (length s - length p) s = p"

fun str_includes :: "string \<Rightarrow> string \<Rightarrow> bool" where
  "str_includes [] p = (p = [])"
| "str_includes (c # s) p = (starts_with (c # s) p \<or> str_includes s p)"

fun split_on :: "char \<Rightarrow> string \<Rightarrow> string list" where
  "split_on c [] = [[]]"
| "split_on c (x # xs) =
     (if x = c then [] # split_on c xs
      else (case split_on c xs of [] \<Rightarrow> [[x]] | y # ys \<Rightarrow> (x # y) # ys))"

fun join :: "string \<Rightarrow> string list \<Rightarrow> string" where
  "join sep [] = []"
| "join sep [x] = x"
| "join sep (x # y # zs) = x @ sep @ join sep (y # zs)"

definition js_replace_char :: "char \<Rightarrow> char \<Rightarrow> string \<Rightarrow> string" where
  "js_replace_char a b s = map (\<lambda>c. if c = a then b else c) s"

abbreviation backslash :: char where "backslash \<equiv> CHR 0x5C"
abbreviation newline :: char where "newline \<equiv> CHR 0x0A"
abbreviation nul :: char where "nul \<equiv> CHR 0x00"

text \<open>The decimal digits that a template literal prints for a natural number.\<close>

fun show_nat :: "nat \<Rightarrow> string" where
  "show_nat n = (if n < 10 then [''0123456789'' ! n] else show_nat (n div 10) @ [''0123456789'' ! (n mod 10)])"

declare show_nat.simps [simp del]

text \<open>\<open>a || b\<close> on strings (the empty string is falsy), and the truthiness of an optional string.\<close>

definition js_or :: "string \<Rightarrow> string \<Rightarrow> string" where
  "js_or a b = (if a = [] then b else a)"

fun truthy :: "string option \<Rightarrow> string option" where
  "truthy None = None"
| "truthy (Some s) = (if s = [] then None else Some s)"

definition or_else :: "'a option \<Rightarrow> 'a option \<Rightarrow> 'a option" where
  "or_else a b = (case a of None \<Rightarrow> b | Some x \<Rightarrow> Some x)"

definition or_default :: "'a option \<Rightarrow> 'a \<Rightarrow> 'a" where
  "or_default a b = (case a of None \<Rightarrow> b | Some x \<Rightarrow> x)"

lemma or_default_simps [simp]: "or_default None b = b" "or_default (Some x) b = x"
  by (simp_all add: or_default_def)

lemma or_else_simps [simp]: "or_else None b = b" "or_else (Some x) b = Some x"
  by (simp_all add: or_else_def)

lemma truthy_None_iff: "truthy x = None \<longleftrightarrow> x = None \<or> x = Some []"
  by (cases x) auto

lemma truthy_Some_iff: "truthy x = Some s \<longleftrightarrow> x = Some s \<and> s \<noteq> []"
  by (cases x) auto

lemma split_on_not_Nil [simp]: "split_on c s \<noteq> []"
  by (induction s) (auto split: list.splits)

lemma join_Cons: "xs \<noteq> [] \<Longrightarrow> join sep (x # xs) = x @ sep @ join sep xs"
  by (cases xs) auto

lemma join_Cons_hd: "join sep ((c # x) # xs) = c # join sep (x # xs)"
  by (cases xs) auto

lemma join_split_on [simp]: "join [c] (split_on c s) = s"
proof (induction s)
  case Nil
  then show ?case by simp
next
  case (Cons x s)
  show ?case
  proof (cases "split_on c s")
    case Nil
    then show ?thesis by (metis split_on_not_Nil)
  next
    case (Cons y ys)
    then show ?thesis using Cons.IH by (auto simp: join_Cons join_Cons_hd)
  qed
qed

lemma split_on_no_sep: "l \<in> set (split_on c s) \<Longrightarrow> c \<notin> set l"
  by (induction s arbitrary: l) (auto split: list.splits if_splits)

lemma split_on_append_sep: "c \<notin> set l \<Longrightarrow> split_on c (l @ c # s) = l # split_on c s"
  by (induction l) auto

lemma split_on_single: "c \<notin> set l \<Longrightarrow> split_on c l = [l]"
  by (induction l) auto

lemma split_on_join:
  "xs \<noteq> [] \<Longrightarrow> \<forall>l \<in> set xs. c \<notin> set l \<Longrightarrow> split_on c (join [c] xs) = xs"
  by (induction "[c]" xs rule: join.induct) (auto simp: split_on_append_sep split_on_single)

lemma js_trim_idem [simp]: "js_trim (js_trim s) = js_trim s"
proof -
  have dd: "dropWhile P (dropWhile P xs) = dropWhile P xs" for P :: "char \<Rightarrow> bool" and xs
    by (induction xs) auto
  have front: "dropWhile P (rev (dropWhile P (rev xs))) = rev (dropWhile P (rev xs))"
    if "dropWhile P xs = xs" for P :: "char \<Rightarrow> bool" and xs
  proof (cases "rev (dropWhile P (rev xs))")
    case (Cons y ys)
    have "\<exists>zs. xs = rev (dropWhile P (rev xs)) @ zs"
      by (metis rev_append rev_rev_ident takeWhile_dropWhile_id)
    with Cons obtain zs where xs: "xs = y # zs" by (metis append_Cons)
    from that xs have "\<not> P y" by (auto split: if_splits dest: arg_cong [where f = length])
      (metis impossible_Cons length_dropWhile_le)
    with Cons show ?thesis by simp
  next
    case Nil
    then show ?thesis by (simp only: Nil dropWhile.simps)
  qed
  show ?thesis unfolding js_trim_def
    by (simp add: front dd)
qed

section \<open>Maps and sets in insertion order\<close>

type_synonym ('k, 'v) jsmap = "('k \<times> 'v) list"

abbreviation jm_get :: "('k, 'v) jsmap \<Rightarrow> 'k \<Rightarrow> 'v option" where
  "jm_get m k \<equiv> map_of m k"

definition jm_set :: "'k \<Rightarrow> 'v \<Rightarrow> ('k, 'v) jsmap \<Rightarrow> ('k, 'v) jsmap" where
  "jm_set k v m = AList.update k v m"

definition jm_del :: "'k \<Rightarrow> ('k, 'v) jsmap \<Rightarrow> ('k, 'v) jsmap" where
  "jm_del k m = AList.delete k m"

definition jm_keys :: "('k, 'v) jsmap \<Rightarrow> 'k list" where
  "jm_keys m = map fst m"

definition jm_has :: "('k, 'v) jsmap \<Rightarrow> 'k \<Rightarrow> bool" where
  "jm_has m k \<longleftrightarrow> jm_get m k \<noteq> None"

definition jm_of_list :: "('k \<times> 'v) list \<Rightarrow> ('k, 'v) jsmap" where
  "jm_of_list kvs = fold (\<lambda>(k, v). jm_set k v) kvs []"

definition jm_wf :: "('k, 'v) jsmap \<Rightarrow> bool" where
  "jm_wf m \<longleftrightarrow> distinct (map fst m)"

definition set_add :: "'a \<Rightarrow> 'a list \<Rightarrow> 'a list" where
  "set_add x s = (if x \<in> set s then s else s @ [x])"

definition set_of :: "'a list \<Rightarrow> 'a list" where
  "set_of xs = fold set_add xs []"

text \<open>\<open>[...new Set(xs)].sort()\<close>: which duplicate is kept does not matter once sorted.\<close>

definition sorted_set :: "string list \<Rightarrow> string list" where
  "sorted_set xs = sort (remdups xs)"

lemma jm_get_set [simp]: "jm_get (jm_set k v m) k' = (if k = k' then Some v else jm_get m k')"
  by (simp add: jm_set_def update_conv')

lemma jm_get_del [simp]: "jm_get (jm_del k m) k' = (if k = k' then None else jm_get m k')"
  by (simp add: jm_del_def delete_conv')

lemma jm_wf_Nil [simp]: "jm_wf []"
  by (simp add: jm_wf_def)

lemma jm_wf_set [simp]: "jm_wf m \<Longrightarrow> jm_wf (jm_set k v m)"
  by (simp add: jm_wf_def jm_set_def distinct_update)

lemma jm_wf_del [simp]: "jm_wf m \<Longrightarrow> jm_wf (jm_del k m)"
  by (simp add: jm_wf_def jm_del_def distinct_delete)

lemma in_jm_keys: "k \<in> set (jm_keys m) \<longleftrightarrow> jm_get m k \<noteq> None"
  by (simp add: jm_keys_def map_of_eq_None_iff)

lemma jm_keys_wf: "jm_wf m \<Longrightarrow> distinct (jm_keys m)"
  by (simp add: jm_wf_def jm_keys_def)

lemma jm_entries_wf: "jm_wf m \<Longrightarrow> (k, v) \<in> set m \<longleftrightarrow> jm_get m k = Some v"
  by (simp add: jm_wf_def)

lemma jm_of_list_get_gen:
  "jm_get (fold (\<lambda>(k, v). jm_set k v) kvs m) k = or_else (map_of (rev kvs) k) (jm_get m k)"
  by (induction kvs arbitrary: m) (auto simp: or_else_def map_add_def split: option.splits)

lemma jm_of_list_get: "jm_get (jm_of_list kvs) k = map_of (rev kvs) k"
  by (simp add: jm_of_list_def jm_of_list_get_gen or_else_def split: option.splits)

lemma jm_of_list_wf_gen: "jm_wf m \<Longrightarrow> jm_wf (fold (\<lambda>(k, v). jm_set k v) kvs m)"
  by (induction kvs arbitrary: m) auto

lemma jm_of_list_wf [simp]: "jm_wf (jm_of_list kvs)"
  by (simp add: jm_of_list_def jm_of_list_wf_gen)

lemma set_fold_set_add: "set (fold set_add xs s) = set s \<union> set xs"
  by (induction xs arbitrary: s) (auto simp: set_add_def)

lemma distinct_fold_set_add: "distinct s \<Longrightarrow> distinct (fold set_add xs s)"
  by (induction xs arbitrary: s) (auto simp: set_add_def)

lemma set_set_of [simp]: "set (set_of xs) = set xs"
  by (simp add: set_of_def set_fold_set_add)

lemma distinct_set_of [simp]: "distinct (set_of xs)"
  by (simp add: set_of_def distinct_fold_set_add)

lemma set_sorted_set [simp]: "set (sorted_set xs) = set xs"
  by (simp add: sorted_set_def)

lemma distinct_sorted_set [simp]: "distinct (sorted_set xs)"
  by (simp add: sorted_set_def)

lemma sorted_sorted_set [simp]: "sorted (sorted_set xs)"
  by (simp add: sorted_set_def)

section \<open>The interface of a keyed store\<close>

text \<open>
  Every table of the engine (hash states, snapshot indexes, blob objects) is used through
  four operations. The client facts are proved once, for any provider of the laws: a run of
  writes and deletes leaves, for every key, what the last operation on it says.
\<close>

locale keyed_store =
  fixes get :: "'m \<Rightarrow> 'k \<Rightarrow> 'v option"
    and set_key :: "'k \<Rightarrow> 'v \<Rightarrow> 'm \<Rightarrow> 'm"
    and del_key :: "'k \<Rightarrow> 'm \<Rightarrow> 'm"
    and wf :: "'m \<Rightarrow> bool"
  assumes get_set: "get (set_key k v m) k' = (if k = k' then Some v else get m k')"
    and get_del: "get (del_key k m) k' = (if k = k' then None else get m k')"
    and wf_set: "wf m \<Longrightarrow> wf (set_key k v m)"
    and wf_del: "wf m \<Longrightarrow> wf (del_key k m)"
begin

definition put_entry :: "'k \<times> 'v option \<Rightarrow> 'm \<Rightarrow> 'm" where
  "put_entry kv m = (case snd kv of None \<Rightarrow> del_key (fst kv) m | Some v \<Rightarrow> set_key (fst kv) v m)"

definition last_write :: "('k \<times> 'v option) list \<Rightarrow> 'k \<Rightarrow> 'v option option" where
  "last_write ws k = map_of (rev ws) k"

lemma get_put_entry: "get (put_entry (k, ov) m) k' = (if k = k' then ov else get m k')"
  by (auto simp: put_entry_def get_set get_del split: option.splits)

lemma wf_put_entry: "wf m \<Longrightarrow> wf (put_entry kv m)"
  by (auto simp: put_entry_def wf_set wf_del split: option.splits)

lemma get_writes: "get (fold put_entry ws m) k = or_default (last_write ws k) (get m k)"
proof (induction ws arbitrary: m)
  case Nil
  then show ?case by (simp add: last_write_def)
next
  case (Cons w ws)
  then show ?case
    by (cases w) (auto simp: last_write_def get_put_entry map_add_def or_default_def split: option.splits)
qed

lemma wf_writes: "wf m \<Longrightarrow> wf (fold put_entry ws m)"
  by (induction ws arbitrary: m) (auto simp: wf_put_entry)

lemma writes_cong:
  assumes "\<And>k. last_write ws k = last_write ws' k"
  shows "get (fold put_entry ws m) k = get (fold put_entry ws' m) k"
  using assms by (simp add: get_writes)

end

interpretation jm: keyed_store map_of jm_set jm_del jm_wf
  by unfold_locales auto

section \<open>Lists\<close>

fun find_index :: "('a \<Rightarrow> bool) \<Rightarrow> 'a list \<Rightarrow> nat option" where
  "find_index P [] = None"
| "find_index P (x # xs) = (if P x then Some 0 else map_option Suc (find_index P xs))"

definition index_of :: "'a list \<Rightarrow> 'a \<Rightarrow> nat option" where
  "index_of xs x = find_index (\<lambda>y. y = x) xs"

definition last_opt :: "'a list \<Rightarrow> 'a option" where
  "last_opt xs = (if xs = [] then None else Some (last xs))"

definition first_opt :: "'a list \<Rightarrow> 'a option" where
  "first_opt xs = (case xs of [] \<Rightarrow> None | x # _ \<Rightarrow> Some x)"

definition nth_opt :: "'a list \<Rightarrow> nat \<Rightarrow> 'a option" where
  "nth_opt xs i = (if i < length xs then Some (xs ! i) else None)"

lemma find_index_Some:
  "find_index P xs = Some i \<Longrightarrow> i < length xs \<and> P (xs ! i) \<and> (\<forall>j<i. \<not> P (xs ! j))"
proof (induction xs arbitrary: i)
  case (Cons x xs)
  then show ?case
    by (auto simp: nth_Cons split: if_splits nat.splits)
qed simp

lemma find_index_None: "find_index P xs = None \<longleftrightarrow> (\<forall>x \<in> set xs. \<not> P x)"
  by (induction xs) auto

lemma index_of_Some: "index_of xs x = Some i \<Longrightarrow> i < length xs \<and> xs ! i = x"
  by (auto simp: index_of_def dest: find_index_Some)

lemma index_of_None: "index_of xs x = None \<longleftrightarrow> x \<notin> set xs"
  by (auto simp: index_of_def find_index_None)

lemma index_of_distinct: "distinct xs \<Longrightarrow> i < length xs \<Longrightarrow> index_of xs (xs ! i) = Some i"
  by (metis index_of_None index_of_Some not_None_eq nth_eq_iff_index_eq nth_mem)

lemma find_Some_in: "find P xs = Some x \<Longrightarrow> x \<in> set xs \<and> P x"
  by (auto simp: find_Some_iff)

end
