(* ===== verification/Lcs.thy ===== *)
theory Lcs
  imports KPrelude "HOL-Library.Sublist"
begin

text \<open>
  The longest-common-subsequence tables of the engine. The same dynamic program occurs as
  \<open>lcsTable\<close> in \<open>manager/branchLogic.ts\<close> and \<open>manager/blame.ts\<close> (all rows kept) and as
  \<open>lcsLength\<close> in \<open>manager/renameDetect.ts\<close> (two rows). The interface \<open>lcs_recurrence\<close>
  states the recurrence once; its client lemmas say what the numbers mean.
\<close>

lemma subseq_snoc_iff:
  "subseq (ws @ [w]) (xs @ [x]) \<longleftrightarrow> (w = x \<and> subseq ws xs) \<or> subseq (ws @ [w]) xs"
proof
  assume "subseq (ws @ [w]) (xs @ [x])"
  then obtain us vs where *: "ws @ [w] = us @ vs" "subseq us xs" "subseq vs [x]"
    by (auto simp: subseq_append_iff)
  have "length vs \<le> 1" using list_emb_length [OF *(3)] by simp
  then consider "vs = []" | v where "vs = [v]" by (cases vs) auto
  then show "(w = x \<and> subseq ws xs) \<or> subseq (ws @ [w]) xs"
    using * by cases (auto split: if_splits)
qed (auto intro: list_emb_append_mono)

section \<open>The interface\<close>

locale lcs_recurrence =
  fixes tbl :: "'a list \<Rightarrow> 'a list \<Rightarrow> nat \<Rightarrow> nat \<Rightarrow> nat"
  assumes row_zero: "j \<le> length b \<Longrightarrow> tbl a b 0 j = 0"
    and col_zero: "i \<le> length a \<Longrightarrow> tbl a b i 0 = 0"
    and cell_match: "i < length a \<Longrightarrow> j < length b \<Longrightarrow> a ! i = b ! j \<Longrightarrow>
      tbl a b (Suc i) (Suc j) = Suc (tbl a b i j)"
    and cell_differ: "i < length a \<Longrightarrow> j < length b \<Longrightarrow> a ! i \<noteq> b ! j \<Longrightarrow>
      tbl a b (Suc i) (Suc j) = max (tbl a b i (Suc j)) (tbl a b (Suc i) j)"
begin

lemma attained:
  "i \<le> length a \<Longrightarrow> j \<le> length b \<Longrightarrow>
   \<exists>zs. subseq zs (take i a) \<and> subseq zs (take j b) \<and> length zs = tbl a b i j"
proof (induction "i + j" arbitrary: i j rule: less_induct)
  case less
  show ?case
  proof (cases "i = 0 \<or> j = 0")
    case True
    then show ?thesis using less.prems by (auto simp: row_zero col_zero)
  next
    case False
    then obtain i' j' where ij: "i = Suc i'" "j = Suc j'" by (metis not0_implies_Suc)
    have lt: "i' < length a" "j' < length b" using less.prems ij by auto
    have ta: "take i a = take i' a @ [a ! i']" "take j b = take j' b @ [b ! j']"
      using lt ij by (simp_all add: take_Suc_conv_app_nth)
    show ?thesis
    proof (cases "a ! i' = b ! j'")
      case True
      obtain zs where "subseq zs (take i' a)" "subseq zs (take j' b)" "length zs = tbl a b i' j'"
        using less.hyps [of i' j'] ij lt by auto
      then show ?thesis using ta ij cell_match [OF lt True] True
        by (intro exI [of _ "zs @ [a ! i']"]) (auto intro: list_emb_append_mono)
    next
      case False
      obtain zs where z: "subseq zs (take i' a)" "subseq zs (take j b)" "length zs = tbl a b i' j"
        using less.hyps [of i' j] ij lt by auto
      obtain ys where y: "subseq ys (take i a)" "subseq ys (take j' b)" "length ys = tbl a b i j'"
        using less.hyps [of i j'] ij lt by auto
      have "subseq zs (take i a)" "subseq ys (take j b)"
        using z(1) y(2) ta by (auto intro: subseq_order.trans)
      then show ?thesis using z y ij cell_differ [OF lt False] by (metis max_def)
    qed
  qed
qed

lemma upper:
  "i \<le> length a \<Longrightarrow> j \<le> length b \<Longrightarrow> subseq zs (take i a) \<Longrightarrow> subseq zs (take j b) \<Longrightarrow>
   length zs \<le> tbl a b i j"
proof (induction "i + j" arbitrary: i j zs rule: less_induct)
  case less
  show ?case
  proof (cases "i = 0 \<or> j = 0 \<or> zs = []")
    case True
    then have "zs = []" using less.prems by auto
    then show ?thesis by simp
  next
    case False
    then obtain i' j' where ij: "i = Suc i'" "j = Suc j'" by (metis not0_implies_Suc)
    obtain ws w where zs: "zs = ws @ [w]" using False by (metis rev_exhaust)
    have lt: "i' < length a" "j' < length b" using less.prems ij by auto
    have ta: "take i a = take i' a @ [a ! i']" "take j b = take j' b @ [b ! j']"
      using lt ij by (simp_all add: take_Suc_conv_app_nth)
    have sa: "w = a ! i' \<and> subseq ws (take i' a) \<or> subseq zs (take i' a)"
      using less.prems(3) unfolding ta zs by (auto simp: subseq_snoc_iff)
    have sb: "w = b ! j' \<and> subseq ws (take j' b) \<or> subseq zs (take j' b)"
      using less.prems(4) unfolding ta zs by (auto simp: subseq_snoc_iff)
    have sub: "subseq zs xs \<Longrightarrow> subseq ws xs" for xs
      unfolding zs by (metis list_emb_append_mono subseq_order.order_refl list_emb_Nil append_Nil2 subseq_order.trans)
    show ?thesis
    proof (cases "a ! i' = b ! j'")
      case True
      have "length ws \<le> tbl a b i' j'"
        using less.hyps [of i' j' ws] ij lt sa sb sub by auto
      then show ?thesis using cell_match [OF lt True] ij zs by simp
    next
      case False
      then have "subseq zs (take i' a) \<or> subseq zs (take j' b)" using sa sb by auto
      then have "length zs \<le> tbl a b i' j \<or> length zs \<le> tbl a b i j'"
        using less.hyps [of i' j zs] less.hyps [of i j' zs] ij lt less.prems by auto
      then show ?thesis using cell_differ [OF lt False] ij by auto
    qed
  qed
qed

text \<open>An entry of the table is the greatest length of a common subsequence of the two prefixes.\<close>

lemma longest:
  "i \<le> length a \<Longrightarrow> j \<le> length b \<Longrightarrow>
   (\<exists>zs. subseq zs (take i a) \<and> subseq zs (take j b) \<and> length zs = tbl a b i j)
   \<and> (\<forall>zs. subseq zs (take i a) \<and> subseq zs (take j b) \<longrightarrow> length zs \<le> tbl a b i j)"
  using attained upper by blast

lemma bounded: "i \<le> length a \<Longrightarrow> j \<le> length b \<Longrightarrow> tbl a b i j \<le> i \<and> tbl a b i j \<le> j"
  using attained [of i a j b] list_emb_length by fastforce

end

section \<open>The table\<close>

text \<open>One row from the previous one, left to right (\<open>left\<close> is \<open>next[j - 1]\<close>).\<close>

fun lcs_cells :: "'a \<Rightarrow> 'a list \<Rightarrow> nat list \<Rightarrow> nat \<Rightarrow> nat list" where
  "lcs_cells x [] prev left = []"
| "lcs_cells x (y # ys) prev left =
     (let v = (if x = y then prev ! 0 + 1 else max (prev ! 1) left)
      in v # lcs_cells x ys (tl prev) v)"

definition lcs_row :: "'a \<Rightarrow> 'a list \<Rightarrow> nat list \<Rightarrow> nat list" where
  "lcs_row x b prev = 0 # lcs_cells x b prev 0"

fun lcs_rows :: "'a list \<Rightarrow> 'a list \<Rightarrow> nat list \<Rightarrow> nat list list" where
  "lcs_rows [] b prev = [prev]"
| "lcs_rows (x # xs) b prev = prev # lcs_rows xs b (lcs_row x b prev)"

definition lcsTable :: "'a list \<Rightarrow> 'a list \<Rightarrow> nat list list" where
  "lcsTable a b = lcs_rows a b (replicate (length b + 1) 0)"

lemma length_lcs_cells [simp]: "length (lcs_cells x b prev left) = length b"
  by (induction b arbitrary: prev left) (auto simp: Let_def)

lemma length_lcs_row [simp]: "length (lcs_row x b prev) = Suc (length b)"
  by (simp add: lcs_row_def)

lemma lcs_cells_nth:
  "j < length b \<Longrightarrow> length prev = Suc (length b) \<Longrightarrow>
   (left # lcs_cells x b prev left) ! Suc j =
     (if x = b ! j then Suc (prev ! j)
      else max (prev ! Suc j) ((left # lcs_cells x b prev left) ! j))"
proof (induction b arbitrary: j prev left)
  case (Cons y ys)
  show ?case
  proof (cases j)
    case 0
    then show ?thesis by (simp add: Let_def)
  next
    case (Suc k)
    have "length (tl prev) = Suc (length ys)" "prev \<noteq> []" using Cons.prems by auto
    then show ?thesis
      using Cons.IH [of k "tl prev" "if x = y then prev ! 0 + 1 else max (prev ! 1) left"] Cons.prems Suc
      by (simp add: Let_def nth_tl)
  qed
qed simp

lemma lcs_rows_zero: "lcs_rows a b prev ! 0 = prev"
  by (cases a) auto

lemma lcs_rows_step:
  "i < length a \<Longrightarrow> lcs_rows a b prev ! Suc i = lcs_row (a ! i) b (lcs_rows a b prev ! i)"
proof (induction a arbitrary: i prev)
  case (Cons x xs)
  then show ?case by (cases i) (auto simp: lcs_rows_zero)
qed simp

lemma lcs_rows_length:
  "i \<le> length a \<Longrightarrow> length prev = Suc (length b) \<Longrightarrow> length (lcs_rows a b prev ! i) = Suc (length b)"
  by (cases i) (auto simp: lcs_rows_zero lcs_rows_step Suc_le_eq)

interpretation lcs_table: lcs_recurrence "\<lambda>a b i j. lcsTable a b ! i ! j"
proof
  fix a b :: "'a list" and i j
  let ?z = "replicate (length b + 1) 0"
  show "j \<le> length b \<Longrightarrow> lcsTable a b ! 0 ! j = 0"
    by (simp add: lcsTable_def lcs_rows_zero del: replicate.simps)
  show "i \<le> length a \<Longrightarrow> lcsTable a b ! i ! 0 = 0"
    by (cases i) (auto simp: lcsTable_def lcs_rows_zero lcs_rows_step lcs_row_def)
  assume lt: "i < length a" "j < length b"
  have len: "length (lcs_rows a b ?z ! i) = Suc (length b)"
    using lt by (intro lcs_rows_length) auto
  note cell = lcs_cells_nth [OF lt(2) len, of 0 "a ! i", folded lcs_row_def lcs_rows_step [OF lt(1)]]
  show "a ! i = b ! j \<Longrightarrow> lcsTable a b ! Suc i ! Suc j = Suc (lcsTable a b ! i ! j)"
    using cell by (simp add: lcsTable_def lcs_rows_step [OF lt(1)])
  show "a ! i \<noteq> b ! j \<Longrightarrow>
     lcsTable a b ! Suc i ! Suc j = max (lcsTable a b ! i ! Suc j) (lcsTable a b ! Suc i ! j)"
    using cell by (simp add: lcsTable_def lcs_rows_step [OF lt(1)])
qed

text \<open>
  An entry of the dynamic-programming table is the length of a longest common
  subsequence of the two prefixes: some common subsequence has that length and none is longer.
\<close>

theorem lcsTable_longest:
  assumes "i \<le> length a" and "j \<le> length b"
  shows "(\<exists>zs. subseq zs (take i a) \<and> subseq zs (take j b) \<and> length zs = lcsTable a b ! i ! j)
    \<and> (\<forall>zs. subseq zs (take i a) \<and> subseq zs (take j b) \<longrightarrow> length zs \<le> lcsTable a b ! i ! j)"
  using assms by (rule lcs_table.longest)

theorem lcsTable_longest_witness:
  "lcsTable [''a'', ''b'', ''c''] [''b'', ''x'', ''c''] ! 3 ! 3 = 2
   \<and> (\<exists>zs. subseq zs [''a'', ''b'', ''c''] \<and> subseq zs [''b'', ''x'', ''c''] \<and> length zs = 2)
   \<and> (\<nexists>zs. subseq zs [''a'', ''b'', ''c''] \<and> subseq zs [''b'', ''x'', ''c''] \<and> 2 < length zs)"
proof -
  have v: "lcsTable [''a'', ''b'', ''c''] [''b'', ''x'', ''c''] ! 3 ! 3 = 2" by code_simp
  show ?thesis
    using lcsTable_longest [of 3 "[''a'', ''b'', ''c'']" 3 "[''b'', ''x'', ''c'']"] v by (simp, meson leD)
qed

end
