(* ===== verification/CheckpointTypes.thy ===== *)
theory CheckpointTypes
  imports KPrelude
begin

text \<open>
  The data of the checkpoint engine (\<open>manager/types.ts\<close>): snapshots, checkpoint records,
  branches, hash states, merge state, stash entries, and the results the operations return.
  Interfaces are records (an optional property is an \<open>option\<close>), string unions are
  datatypes, dates are milliseconds since the epoch, sizes and counts are natural numbers.
\<close>

section \<open>Snapshots and checkpoints\<close>

datatype capture_mode = Baseline | Delta

datatype skip_reason = TooLarge | Unreadable | BinaryDisabled | UnsafePath

record skipped_file =
  skPath :: string
  skReason :: skip_reason

datatype change_type = Created | Modified | Deleted

record file_snapshot =
  fsRelativePath :: string
  fsContent :: "string option"
  fsHash :: "string option"
  fsEncoding :: string
  fsLastModified :: int
  fsSize :: nat
  fsDeleted :: "bool option"
  fsChangeType :: "change_type option"
  fsRenamedFrom :: "string option"
  fsCopiedFrom :: "string option"

record file_stats =
  stTotal :: nat
  stCreated :: nat
  stDeleted :: nat
  stModified :: nat
  stInventoryCount :: "nat option"
  stRenamed :: "nat option"
  stCopied :: "nat option"

record conversation_context =
  ccMessageContent :: string
  ccRole :: string
  ccTimestamp :: string
  ccIndex :: int
  ccSessionId :: "string option"
  ccAllowEmpty :: "bool option"

record checkpoint_info =
  cpId :: string
  cpDescription :: string
  cpCreated :: int
  cpMessageId :: "string option"
  cpStableId :: "string option"
  cpWorkspacePath :: "string option"
  cpWorkspaceKey :: "string option"
  cpFileSnapshots :: "file_snapshot list option"
  cpFileInventory :: "string list option"
  cpCaptureMode :: "capture_mode option"
  cpSkippedFiles :: "skipped_file list option"
  cpSchemaVersion :: "nat option"
  cpContentSha256 :: "string option"
  cpFileStats :: "file_stats option"
  cpPinned :: "bool option"
  cpTags :: "string list option"
  cpChangedPaths :: "string list option"
  cpSessionId :: "string option"
  cpIntent :: "string option"
  cpLabel :: "string option"
  cpBranchId :: "string option"
  cpParentCheckpointId :: "string option"
  cpParentCheckpointIds :: "string list option"
  cpConversationContext :: "conversation_context option"

text \<open>A checkpoint literal with only its required properties.\<close>

definition new_checkpoint :: "string \<Rightarrow> string \<Rightarrow> int \<Rightarrow> checkpoint_info" where
  "new_checkpoint i d t =
     \<lparr>cpId = i, cpDescription = d, cpCreated = t, cpMessageId = None, cpStableId = None,
      cpWorkspacePath = None, cpWorkspaceKey = None, cpFileSnapshots = None,
      cpFileInventory = None, cpCaptureMode = None, cpSkippedFiles = None,
      cpSchemaVersion = None, cpContentSha256 = None, cpFileStats = None, cpPinned = None,
      cpTags = None, cpChangedPaths = None, cpSessionId = None, cpIntent = None,
      cpLabel = None, cpBranchId = None, cpParentCheckpointId = None,
      cpParentCheckpointIds = None, cpConversationContext = None\<rparr>"

definition new_snapshot :: "string \<Rightarrow> string option \<Rightarrow> string \<Rightarrow> nat \<Rightarrow> change_type \<Rightarrow> file_snapshot" where
  "new_snapshot p h e n ct =
     \<lparr>fsRelativePath = p, fsContent = None, fsHash = h, fsEncoding = e, fsLastModified = 0,
      fsSize = n, fsDeleted = None, fsChangeType = Some ct, fsRenamedFrom = None,
      fsCopiedFrom = None\<rparr>"

definition deleted_snapshot :: "string \<Rightarrow> string \<Rightarrow> int \<Rightarrow> file_snapshot" where
  "deleted_snapshot p e t =
     \<lparr>fsRelativePath = p, fsContent = None, fsHash = None, fsEncoding = e, fsLastModified = t,
      fsSize = 0, fsDeleted = Some True, fsChangeType = Some Deleted, fsRenamedFrom = None,
      fsCopiedFrom = None\<rparr>"

definition snapshots_of :: "checkpoint_info \<Rightarrow> file_snapshot list" where
  "snapshots_of c = or_default (cpFileSnapshots c) []"

definition snapshotIsDeleted :: "file_snapshot \<Rightarrow> bool" where
  "snapshotIsDeleted s \<longleftrightarrow> fsDeleted s = Some True \<or> fsChangeType s = Some Deleted"

section \<open>Branches, hash states and merges\<close>

record checkpoint_branch =
  brId :: string
  brName :: string
  brHead :: string
  brBase :: string
  brParent :: "string option"
  brCreatedAt :: int
  brDescription :: "string option"

record detached_state =
  dtCheckpointId :: string
  dtPreviousBranchId :: "string option"

record file_hash_state =
  hsHash :: "string option"
  hsEncoding :: string
  hsSize :: nat
  hsDeleted :: "bool option"

type_synonym hash_map = "(string, file_hash_state) jsmap"

record merge_conflict =
  mcPath :: string
  mcBaseHash :: "string option"
  mcSourceHash :: "string option"
  mcTargetHash :: "string option"

record branch_merge_result =
  bmSuccess :: bool
  bmMergeCheckpointId :: "string option"
  bmConflicts :: "merge_conflict list"
  bmMergeInProgress :: bool
  bmMessage :: "string option"

datatype merge_operation = OpMerge | OpCherryPick | OpRevert

record auto_merged =
  amPath :: string
  amHash :: "string option"
  amEncoding :: string
  amSize :: nat
  amDeleted :: "bool option"

record merge_state =
  msOperation :: merge_operation
  msSourceId :: string
  msTargetId :: string
  msSourceHeadId :: "string option"
  msTargetHeadId :: string
  msTargetBranchId :: "string option"
  msLcaId :: "string option"
  msConflictPaths :: "string list"
  msAutoMergedPaths :: "string list option"
  msAutoMerged :: "auto_merged list option"
  msInventory :: "string list option"
  msPreMergeCheckpointId :: "string option"
  msStashId :: "string option"
  msSourceName :: "string option"
  msTargetName :: "string option"
  msOursLabel :: "string option"
  msTheirsLabel :: "string option"
  msDescription :: "string option"
  msLabel :: "string option"
  msIntent :: "string option"
  msTags :: "string list option"
  msCreatedAt :: "string option"

record merge_continue_result =
  mrSuccess :: bool
  mrCheckpointId :: "string option"
  mrConflicts :: "string list"
  mrMessage :: "string option"

section \<open>Derived counts\<close>

definition listedCheckpointFileCount :: "checkpoint_info \<Rightarrow> nat" where
  "listedCheckpointFileCount c =
     (case cpFileInventory c of
        Some paths \<Rightarrow> length paths
      | None \<Rightarrow>
          (case cpFileStats c of
             Some st \<Rightarrow>
               (case stInventoryCount st of
                  Some n \<Rightarrow> n
                | None \<Rightarrow> length (filter (\<lambda>s. fsDeleted s \<noteq> Some True) (snapshots_of c)))
           | None \<Rightarrow> length (filter (\<lambda>s. fsDeleted s \<noteq> Some True) (snapshots_of c))))"

definition nonzero :: "nat \<Rightarrow> nat option" where
  "nonzero n = (if n > 0 then Some n else None)"

definition rename_sources :: "file_snapshot list \<Rightarrow> string list" where
  "rename_sources ss = List.map_filter (\<lambda>s. truthy (fsRenamedFrom s)) ss"

definition stat_renamed :: "file_snapshot \<Rightarrow> bool" where
  "stat_renamed s \<longleftrightarrow> truthy (fsRenamedFrom s) \<noteq> None \<and> fsDeleted s \<noteq> Some True"

definition stat_copied :: "file_snapshot \<Rightarrow> bool" where
  "stat_copied s \<longleftrightarrow> truthy (fsCopiedFrom s) \<noteq> None \<and> truthy (fsRenamedFrom s) = None
     \<and> fsDeleted s \<noteq> Some True"

definition stat_created :: "file_snapshot \<Rightarrow> bool" where
  "stat_created s \<longleftrightarrow> fsChangeType s = Some Created \<and> truthy (fsRenamedFrom s) = None
     \<and> truthy (fsCopiedFrom s) = None"

definition stat_deleted :: "string list \<Rightarrow> file_snapshot \<Rightarrow> bool" where
  "stat_deleted sources s \<longleftrightarrow> snapshotIsDeleted s
     \<and> fsRelativePath s \<notin> set sources
     \<and> js_replace_char backslash CHR ''/'' (fsRelativePath s) \<notin> set sources"

definition stat_modified :: "file_snapshot \<Rightarrow> bool" where
  "stat_modified s \<longleftrightarrow> \<not> snapshotIsDeleted s
     \<and> \<not> (truthy (fsRenamedFrom s) \<noteq> None \<or> truthy (fsCopiedFrom s) \<noteq> None
          \<or> fsChangeType s = Some Created)"

definition count_if :: "('a \<Rightarrow> bool) \<Rightarrow> 'a list \<Rightarrow> nat" where
  "count_if P xs = length (filter P xs)"

definition computeCheckpointFileStats :: "checkpoint_info \<Rightarrow> file_stats" where
  "computeCheckpointFileStats c =
     (let ss = snapshots_of c;
          inventory = map_option length (cpFileInventory c);
          recorded = Option.bind (cpFileStats c) stInventoryCount
      in case cpFileStats c of
           Some st \<Rightarrow>
             if ss = [] then
               \<lparr>stTotal = stTotal st, stCreated = stCreated st, stDeleted = stDeleted st,
                stModified = stModified st, stInventoryCount = or_else inventory recorded,
                stRenamed = Option.bind (stRenamed st) nonzero,
                stCopied = Option.bind (stCopied st) nonzero\<rparr>
             else
               \<lparr>stTotal = length ss, stCreated = count_if stat_created ss,
                stDeleted = count_if (stat_deleted (rename_sources ss)) ss,
                stModified = count_if stat_modified ss,
                stInventoryCount = or_else inventory recorded,
                stRenamed = nonzero (count_if stat_renamed ss),
                stCopied = nonzero (count_if stat_copied ss)\<rparr>
         | None \<Rightarrow>
             \<lparr>stTotal = length ss, stCreated = count_if stat_created ss,
              stDeleted = count_if (stat_deleted (rename_sources ss)) ss,
              stModified = count_if stat_modified ss,
              stInventoryCount = or_else inventory recorded,
              stRenamed = nonzero (count_if stat_renamed ss),
              stCopied = nonzero (count_if stat_copied ss)\<rparr>)"

text \<open>
  A snapshot as capture writes it: the \<open>deleted\<close> flag and the change type agree, and a
  deleted path carries no lineage.
\<close>

definition snapshot_wf :: "file_snapshot \<Rightarrow> bool" where
  "snapshot_wf s \<longleftrightarrow> (fsDeleted s = Some True \<longleftrightarrow> fsChangeType s = Some Deleted)
     \<and> (fsDeleted s = Some True \<longrightarrow> truthy (fsRenamedFrom s) = None \<and> truthy (fsCopiedFrom s) = None)"

definition stat_moved_away :: "string list \<Rightarrow> file_snapshot \<Rightarrow> bool" where
  "stat_moved_away sources s \<longleftrightarrow> snapshotIsDeleted s \<and> \<not> stat_deleted sources s"

lemma count_if_partition:
  assumes "\<forall>x \<in> set xs. length (filter (\<lambda>P. P x) Ps) = 1"
  shows "sum_list (map (\<lambda>P. count_if P xs) Ps) = length xs"
  using assms
proof (induction xs)
  case Nil
  then show ?case by (induction Ps) (auto simp: count_if_def)
next
  case (Cons x xs)
  have step: "sum_list (map (\<lambda>P. count_if P (x # xs)) Ps)
      = length (filter (\<lambda>P. P x) Ps) + sum_list (map (\<lambda>P. count_if P xs) Ps)"
    by (induction Ps) (auto simp: count_if_def)
  then show ?case using Cons by simp
qed

lemma stat_partition_one:
  assumes "snapshot_wf s"
  shows "length (filter (\<lambda>P. P s)
    [stat_created, stat_modified, stat_deleted src, stat_renamed, stat_copied, stat_moved_away src]) = 1"
  using assms
  by (auto simp: snapshot_wf_def stat_created_def stat_modified_def stat_deleted_def stat_renamed_def
      stat_copied_def stat_moved_away_def snapshotIsDeleted_def)

lemma or_default_nonzero [simp]: "or_default (nonzero n) 0 = n"
  by (simp add: nonzero_def)

text \<open>
  The file statistics of a checkpoint with well-formed snapshots count every
  snapshot exactly once, as created, modified, deleted, renamed or copied, except the deletions
  that are the source of a rename, which no count includes.
\<close>

theorem fileStats_partition:
  assumes "\<forall>s \<in> set (snapshots_of c). snapshot_wf s" and "snapshots_of c \<noteq> []"
  shows "let st = computeCheckpointFileStats c
    in stTotal st = stCreated st + stModified st + stDeleted st
         + or_default (stRenamed st) 0 + or_default (stCopied st) 0
         + count_if (stat_moved_away (rename_sources (snapshots_of c))) (snapshots_of c)"
proof -
  let ?ss = "snapshots_of c"
  let ?src = "rename_sources ?ss"
  have "sum_list (map (\<lambda>P. count_if P ?ss)
      [stat_created, stat_modified, stat_deleted ?src, stat_renamed, stat_copied, stat_moved_away ?src])
    = length ?ss"
    by (rule count_if_partition) (use assms(1) stat_partition_one in blast)
  then show ?thesis using assms(2)
    by (auto simp: computeCheckpointFileStats_def Let_def split: option.splits)
qed

theorem fileStats_partition_witness:
  "let c = (new_checkpoint ''cp_1'' ''d'' 0)\<lparr>cpFileSnapshots := Some
         [(new_snapshot ''b.ts'' (Some ''h'') ''utf8'' 3 Created)\<lparr>fsRenamedFrom := Some ''a.ts''\<rparr>,
          deleted_snapshot ''a.ts'' ''utf8'' 0, new_snapshot ''c.ts'' (Some ''k'') ''utf8'' 1 Modified]\<rparr>;
       st = computeCheckpointFileStats c
   in stTotal st = 3 \<and> stRenamed st = Some 1 \<and> stDeleted st = 0 \<and> stModified st = 1
      \<and> stTotal st = stCreated st + stModified st + stDeleted st
         + or_default (stRenamed st) 0 + or_default (stCopied st) 0
         + count_if (stat_moved_away (rename_sources (snapshots_of c))) (snapshots_of c)"
proof -
  let ?c = "(new_checkpoint ''cp_1'' ''d'' 0)\<lparr>cpFileSnapshots := Some
         [(new_snapshot ''b.ts'' (Some ''h'') ''utf8'' 3 Created)\<lparr>fsRenamedFrom := Some ''a.ts''\<rparr>,
          deleted_snapshot ''a.ts'' ''utf8'' 0, new_snapshot ''c.ts'' (Some ''k'') ''utf8'' 1 Modified]\<rparr>"
  have wf: "\<forall>s \<in> set (snapshots_of ?c). snapshot_wf s"
    by (simp add: snapshots_of_def snapshot_wf_def new_snapshot_def deleted_snapshot_def)
  have ne: "snapshots_of ?c \<noteq> []" by (simp add: snapshots_of_def)
  have vals: "stTotal (computeCheckpointFileStats ?c) = 3"
    "stRenamed (computeCheckpointFileStats ?c) = Some 1"
    "stDeleted (computeCheckpointFileStats ?c) = 0"
    "stModified (computeCheckpointFileStats ?c) = 1"
    by code_simp+
  show ?thesis using fileStats_partition [OF wf ne] vals by (simp add: Let_def)
qed

end
