(* ===== verification/BranchLogic.thy ===== *)
theory BranchLogic
  imports CheckpointTypes
begin

text \<open>
  \<open>manager/branchLogic.ts\<close>, the part on branches, lines of checkpoints and hash states:
  branch ids and their (de)serialisation, the replay chain of a checkpoint, the lowest common
  ancestor, the replay of snapshots into a hash state, the three-way merge of hash states and
  its rendering as snapshots, and the recovery of branches from manifests.
  The line merge of texts is in theory \<open>TextMerge\<close>.

  JSON values are a datatype. \<open>Date.parse\<close> and \<open>toISOString\<close> are the arguments
  \<open>dparse\<close> and \<open>toISO\<close>; the clock is the argument \<open>now\<close>; random UUIDs are arguments.
\<close>

section \<open>JSON values\<close>

datatype json =
    JNull
  | JBool bool
  | JNum int
  | JStr string
  | JArr "json list"
  | JObj "(string \<times> json) list"
  | JDate int

fun jfield :: "json \<Rightarrow> string \<Rightarrow> json option" where
  "jfield (JObj kvs) k = map_of kvs k"
| "jfield _ k = None"

fun jstring :: "json option \<Rightarrow> string option" where
  "jstring (Some (JStr s)) = Some s"
| "jstring _ = None"

text \<open>A string property that counts only when it is not blank.\<close>

definition jnonblank :: "json option \<Rightarrow> string option" where
  "jnonblank v = (case jstring v of None \<Rightarrow> None | Some s \<Rightarrow> if js_trim s = [] then None else Some s)"

definition jopt :: "string \<Rightarrow> string option \<Rightarrow> (string \<times> json) list" where
  "jopt k v = (case v of None \<Rightarrow> [] | Some s \<Rightarrow> [(k, JStr s)])"

section \<open>Branches\<close>

definition DEFAULT_BRANCH_NAME :: string where "DEFAULT_BRANCH_NAME = ''main''"
definition BRANCH_ID_PREFIX :: string where "BRANCH_ID_PREFIX = ''br_''"

definition hex_char :: "char \<Rightarrow> bool" where
  "hex_char c \<longleftrightarrow> (let n = (of_char (lower_char c) :: nat) in (48 \<le> n \<and> n \<le> 57) \<or> (97 \<le> n \<and> n \<le> 102))"

definition version_char :: "char \<Rightarrow> bool" where
  "version_char c \<longleftrightarrow> (let n = (of_char c :: nat) in 49 \<le> n \<and> n \<le> 56)"

definition variant_char :: "char \<Rightarrow> bool" where
  "variant_char c \<longleftrightarrow> lower_char c \<in> set ''89ab''"

definition uuid_pattern :: "(char \<Rightarrow> bool) list" where
  "uuid_pattern =
     replicate 8 hex_char @ [(=) CHR ''-''] @ replicate 4 hex_char @ [(=) CHR ''-'']
     @ [version_char] @ replicate 3 hex_char @ [(=) CHR ''-'']
     @ [variant_char] @ replicate 3 hex_char @ [(=) CHR ''-''] @ replicate 12 hex_char"

definition uuid_re :: "string \<Rightarrow> bool" where
  "uuid_re s = list_all2 (\<lambda>p c. p c) uuid_pattern s"

definition generateBranchId :: "string \<Rightarrow> string" where
  "generateBranchId uuid = BRANCH_ID_PREFIX @ uuid"

definition isBranchId :: "string \<Rightarrow> bool" where
  "isBranchId v \<longleftrightarrow> starts_with v BRANCH_ID_PREFIX \<and> uuid_re (drop (length BRANCH_ID_PREFIX) v)"

definition serializeBranch :: "(int \<Rightarrow> string) \<Rightarrow> checkpoint_branch \<Rightarrow> json" where
  "serializeBranch toISO b = JObj
     ([(''id'', JStr (brId b)), (''name'', JStr (brName b)),
       (''headCheckpointId'', JStr (brHead b)), (''baseCheckpointId'', JStr (brBase b))]
      @ jopt ''parentBranchId'' (brParent b)
      @ [(''createdAt'', JStr (toISO (brCreatedAt b)))]
      @ jopt ''description'' (brDescription b))"

text \<open>\<open>new Date(value)\<close> for the accepted kinds of value; \<open>None\<close> is an invalid date.\<close>

definition max_time :: int where "max_time = 8640000000000000"

definition parse_created :: "(string \<Rightarrow> int option) \<Rightarrow> int \<Rightarrow> json option \<Rightarrow> int option" where
  "parse_created dparse now v =
     (case v of
        Some (JDate t) \<Rightarrow> Some t
      | Some (JStr s) \<Rightarrow> dparse s
      | Some (JNum n) \<Rightarrow> if \<bar>n\<bar> \<le> max_time then Some n else None
      | _ \<Rightarrow> Some now)"

definition parseBranch :: "(string \<Rightarrow> int option) \<Rightarrow> int \<Rightarrow> json \<Rightarrow> checkpoint_branch option" where
  "parseBranch dparse now v =
     (case v of JObj _ \<Rightarrow>
        (case (jnonblank (jfield v ''id''), jnonblank (jfield v ''name''),
               jnonblank (jfield v ''headCheckpointId''), jnonblank (jfield v ''baseCheckpointId'')) of
           (Some i, Some n, Some h, Some b) \<Rightarrow>
             (case parse_created dparse now (jfield v ''createdAt'') of
                None \<Rightarrow> None
              | Some t \<Rightarrow> Some
                  \<lparr>brId = i, brName = js_trim n, brHead = h, brBase = b,
                   brParent = jnonblank (jfield v ''parentBranchId''), brCreatedAt = t,
                   brDescription = jstring (jfield v ''description'')\<rparr>)
         | _ \<Rightarrow> None)
      | _ \<Rightarrow> None)"

definition parseBranches :: "(string \<Rightarrow> int option) \<Rightarrow> int \<Rightarrow> json \<Rightarrow> checkpoint_branch list" where
  "parseBranches dparse now v =
     (case v of JArr xs \<Rightarrow> List.map_filter (parseBranch dparse now) xs | _ \<Rightarrow> [])"

definition defaultBranch :: "checkpoint_branch list \<Rightarrow> checkpoint_branch option" where
  "defaultBranch bs =
     or_else (find (\<lambda>b. brName b = DEFAULT_BRANCH_NAME \<and> truthy (brParent b) = None) bs)
       (or_else (find (\<lambda>b. truthy (brParent b) = None) bs) (first_opt bs))"

definition findBranchById :: "checkpoint_branch list \<Rightarrow> string \<Rightarrow> checkpoint_branch option" where
  "findBranchById bs i = find (\<lambda>b. brId b = i) bs"

definition findBranchByName :: "checkpoint_branch list \<Rightarrow> string \<Rightarrow> checkpoint_branch option" where
  "findBranchByName bs n =
     (let needle = js_lower (js_trim n) in find (\<lambda>b. js_lower (js_trim (brName b)) = needle) bs)"

text \<open>A branch as \<open>createBranch\<close> and \<open>parseBranch\<close> produce it.\<close>

definition branch_wf :: "checkpoint_branch \<Rightarrow> bool" where
  "branch_wf b \<longleftrightarrow> js_trim (brId b) \<noteq> [] \<and> js_trim (brName b) = brName b \<and> brName b \<noteq> []
     \<and> js_trim (brHead b) \<noteq> [] \<and> js_trim (brBase b) \<noteq> []
     \<and> (\<forall>p. brParent b = Some p \<longrightarrow> js_trim p \<noteq> [])"

lemma parseBranch_serializeBranch:
  assumes "branch_wf b" and "dparse (toISO (brCreatedAt b)) = Some (brCreatedAt b)"
  shows "parseBranch dparse now (serializeBranch toISO b) = Some b"
  using assms
  by (cases b; cases "brParent b"; cases "brDescription b")
     (auto simp: serializeBranch_def parseBranch_def jnonblank_def jopt_def parse_created_def branch_wf_def)

lemma map_filter_all_Some: "\<forall>x \<in> set xs. f (g x) = Some x \<Longrightarrow> List.map_filter f (map g xs) = xs"
  by (induction xs) (auto simp: List.map_filter_simps)

text \<open>
  The branches that \<open>saveCheckpointHistory\<close> writes with \<open>serializeBranch\<close> are
  read back unchanged, in the same order, by \<open>parseBranches\<close>, for every clock, as long as the
  engine's \<open>Date.parse\<close> inverts \<open>toISOString\<close> on their dates.
\<close>

theorem parseBranches_roundtrip:
  assumes "\<forall>b \<in> set bs. branch_wf b"
    and "\<forall>b \<in> set bs. dparse (toISO (brCreatedAt b)) = Some (brCreatedAt b)"
  shows "parseBranches dparse now (JArr (map (serializeBranch toISO) bs)) = bs"
  using assms by (simp add: parseBranches_def map_filter_all_Some parseBranch_serializeBranch)

theorem parseBranches_roundtrip_witness:
  "let b = \<lparr>brId = ''br_1'', brName = ''main'', brHead = ''cp_2'', brBase = ''cp_1'',
            brParent = None, brCreatedAt = 7, brDescription = Some ''Default checkpoint line''\<rparr>
   in parseBranches (\<lambda>s. Some (int (length s))) 0
        (JArr (map (serializeBranch (\<lambda>t. replicate (nat t) CHR ''x'')) [b, b\<lparr>brParent := Some ''br_0''\<rparr>]))
      = [b, b\<lparr>brParent := Some ''br_0''\<rparr>]"
proof -
  let ?b = "\<lparr>brId = ''br_1'', brName = ''main'', brHead = ''cp_2'', brBase = ''cp_1'',
            brParent = None, brCreatedAt = 7, brDescription = Some ''Default checkpoint line''\<rparr>"
  have "\<forall>b \<in> set [?b, ?b\<lparr>brParent := Some ''br_0''\<rparr>]. branch_wf b"
    by (simp add: branch_wf_def js_trim_def js_space_def)
  then show ?thesis unfolding Let_def by (rule parseBranches_roundtrip) simp
qed

section \<open>Lines of checkpoints\<close>

definition cp_key :: "checkpoint_info \<Rightarrow> int \<times> string" where
  "cp_key c = (cpCreated c, cpId c)"

text \<open>
  \<open>sortCheckpointsByCreated\<close>: by date, ties by \<open>localeCompare\<close> on the ids. Ids are the
  prefix \<open>cp_\<close> and a lower-case UUID, on which the collation order is the code unit order.
\<close>

definition sortCheckpointsByCreated :: "checkpoint_info list \<Rightarrow> checkpoint_info list" where
  "sortCheckpointsByCreated hist = sort_key cp_key hist"

definition chronologicalUpTo :: "checkpoint_info list \<Rightarrow> string \<Rightarrow> checkpoint_info list option" where
  "chronologicalUpTo hist t =
     (let sorted = sortCheckpointsByCreated hist
      in case find_index (\<lambda>c. cpId c = t) sorted of
           None \<Rightarrow> None
         | Some i \<Rightarrow> Some (take (Suc i) sorted))"

definition by_id :: "checkpoint_info list \<Rightarrow> string \<Rightarrow> checkpoint_info option" where
  "by_id hist i = jm_get (jm_of_list (map (\<lambda>c. (cpId c, c)) hist)) i"

definition parentOf :: "checkpoint_info \<Rightarrow> string option" where
  "parentOf c = truthy (cpParentCheckpointId c)"

lemma by_id_Some: "by_id hist i = Some c \<Longrightarrow> c \<in> set hist \<and> cpId c = i"
  unfolding by_id_def jm_of_list_get by (auto dest!: map_of_SomeD)

lemma by_id_distinct:
  assumes "distinct (map cpId hist)" and "c \<in> set hist"
  shows "by_id hist (cpId c) = Some c"
proof -
  have "distinct (map fst (rev (map (\<lambda>c. (cpId c, c)) hist)))"
    using assms(1) by (simp add: comp_def flip: rev_map)
  then show ?thesis
    unfolding by_id_def jm_of_list_get using assms(2) by (simp only: map_of_eq_Some_iff) force
qed

lemma by_id_None: "by_id hist i = None \<longleftrightarrow> i \<notin> cpId ` set hist"
  unfolding by_id_def jm_of_list_get by (auto simp: map_of_eq_None_iff image_iff)

text \<open>
  The \<open>while\<close> loop of \<open>lineageCheckpoints\<close>: from a checkpoint along \<open>parentCheckpointId\<close>,
  stopping at a parentless or unknown parent and at an id already seen (a cyclic record).
\<close>

function lineage_walk ::
  "checkpoint_info list \<Rightarrow> string list \<Rightarrow> checkpoint_info list \<Rightarrow> checkpoint_info \<Rightarrow> checkpoint_info list" where
  "lineage_walk hist seen chain cur =
     (if cpId cur \<in> set seen then chain
      else (case parentOf cur of
              None \<Rightarrow> cur # chain
            | Some p \<Rightarrow> (case by_id hist p of
                  None \<Rightarrow> cur # chain
                | Some par \<Rightarrow> lineage_walk hist (cpId cur # seen) (cur # chain) par)))"
  by pat_completeness auto
termination
proof (relation "measure (\<lambda>(hist, seen, chain, cur). card (insert (cpId cur) (cpId ` set hist) - set seen))")
  fix hist chain :: "checkpoint_info list" and cur par :: checkpoint_info and seen p
  assume new: "cpId cur \<notin> set seen" and par: "by_id hist p = Some par"
  have "insert (cpId par) (cpId ` set hist) - set (cpId cur # seen)
      \<subset> insert (cpId cur) (cpId ` set hist) - set seen"
    using new by_id_Some [OF par] by auto
  then show "((hist, cpId cur # seen, cur # chain, par), hist, seen, chain, cur)
    \<in> measure (\<lambda>(hist, seen, chain, cur). card (insert (cpId cur) (cpId ` set hist) - set seen))"
    by (simp add: psubset_card_mono)
qed simp

declare lineage_walk.simps [simp del]

definition lineageCheckpoints :: "checkpoint_info list \<Rightarrow> string \<Rightarrow> checkpoint_info list option" where
  "lineageCheckpoints hist t =
     (case by_id hist t of
        None \<Rightarrow> None
      | Some target \<Rightarrow>
          if parentOf target = None then chronologicalUpTo hist t
          else (let chain = lineage_walk hist [] [] target
                in case chain of
                     [] \<Rightarrow> Some chain
                   | root # _ \<Rightarrow>
                       if parentOf root = None
                       then Some (filter (\<lambda>c. cpId c \<noteq> cpId root)
                                    (or_default (chronologicalUpTo hist (cpId root)) []) @ chain)
                       else Some chain))"

definition lowestCommonAncestorId :: "checkpoint_info list \<Rightarrow> string \<Rightarrow> string \<Rightarrow> string option" where
  "lowestCommonAncestorId hist source target =
     (case lineageCheckpoints hist source of
        None \<Rightarrow> None
      | Some sourceLine \<Rightarrow>
          (case lineageCheckpoints hist target of
             None \<Rightarrow> None
           | Some targetLine \<Rightarrow>
               find (\<lambda>i. i \<in> set (map cpId sourceLine)) (map cpId (rev targetLine))))"


subsection \<open>Parent paths and ancestry\<close>

text \<open>
  The specification the line functions are compared with: \<open>parent_step\<close> is the parent link
  between checkpoints of a history, \<open>par_path\<close> the finite path of parents, and a history is
  well formed when ids are unique, a named parent exists and is strictly older, and only the
  oldest checkpoint has no parent. This is what the engine builds as long as it appends
  every checkpoint to a line (\<open>bindCheckpointToActiveLine\<close>).
\<close>

definition parent_cp :: "checkpoint_info list \<Rightarrow> checkpoint_info \<Rightarrow> checkpoint_info option" where
  "parent_cp hist c = Option.bind (parentOf c) (by_id hist)"

inductive par_path :: "checkpoint_info list \<Rightarrow> checkpoint_info \<Rightarrow> checkpoint_info list \<Rightarrow> bool" for hist where
  path_end: "parent_cp hist c = None \<Longrightarrow> par_path hist c [c]"
| path_step: "parent_cp hist c = Some p \<Longrightarrow> par_path hist p xs \<Longrightarrow> par_path hist c (c # xs)"

inductive_cases par_path_ConsE: "par_path hist c (x # xs)"

inductive ancestor :: "checkpoint_info list \<Rightarrow> checkpoint_info \<Rightarrow> checkpoint_info \<Rightarrow> bool" for hist where
  anc_refl: "ancestor hist c c"
| anc_step: "parent_cp hist c = Some p \<Longrightarrow> ancestor hist a p \<Longrightarrow> ancestor hist a c"

definition line_wf :: "checkpoint_info list \<Rightarrow> bool" where
  "line_wf hist \<longleftrightarrow> distinct (map cpId hist)
     \<and> (\<forall>c \<in> set hist.
          case parentOf c of
            None \<Rightarrow> (\<forall>d \<in> set hist. cp_key c \<le> cp_key d)
          | Some p \<Rightarrow> (case by_id hist p of None \<Rightarrow> False | Some q \<Rightarrow> cp_key q < cp_key c))"

lemma line_wf_distinct: "line_wf hist \<Longrightarrow> distinct (map cpId hist)"
  by (simp add: line_wf_def)

lemma line_wf_root:
  "line_wf hist \<Longrightarrow> c \<in> set hist \<Longrightarrow> parentOf c = None \<Longrightarrow> d \<in> set hist \<Longrightarrow> cp_key c \<le> cp_key d"
  by (fastforce simp: line_wf_def)

lemma line_wf_parent:
  assumes "line_wf hist" and "c \<in> set hist" and "parentOf c = Some p"
  shows "\<exists>q. by_id hist p = Some q \<and> cp_key q < cp_key c"
proof -
  from assms have "case by_id hist p of None \<Rightarrow> False | Some q \<Rightarrow> cp_key q < cp_key c"
    by (fastforce simp: line_wf_def)
  then show ?thesis by (cases "by_id hist p") auto
qed

lemma line_wf_parent_None:
  assumes "line_wf hist" and "c \<in> set hist"
  shows "parent_cp hist c = None \<longleftrightarrow> parentOf c = None"
  using line_wf_parent [OF assms] by (cases "parentOf c") (auto simp: parent_cp_def)

lemma parent_cp_in: "parent_cp hist c = Some p \<Longrightarrow> p \<in> set hist \<and> parentOf c = Some (cpId p)"
  by (auto simp: parent_cp_def bind_eq_Some_conv dest: by_id_Some)

lemma parent_cp_older: "line_wf hist \<Longrightarrow> c \<in> set hist \<Longrightarrow> parent_cp hist c = Some p \<Longrightarrow> cp_key p < cp_key c"
  by (auto simp: parent_cp_def bind_eq_Some_conv dest!: line_wf_parent [of hist c])

lemma ancestor_in: "ancestor hist a c \<Longrightarrow> c \<in> set hist \<Longrightarrow> a \<in> set hist"
  by (induction rule: ancestor.induct) (auto dest: parent_cp_in)

lemma ancestor_key: "ancestor hist a c \<Longrightarrow> line_wf hist \<Longrightarrow> c \<in> set hist \<Longrightarrow> a = c \<or> cp_key a < cp_key c"
proof (induction rule: ancestor.induct)
  case (anc_step c p a)
  have "p \<in> set hist" "cp_key p < cp_key c"
    using anc_step by (auto dest: parent_cp_in parent_cp_older)
  with anc_step show ?case by (auto dest: less_trans)
qed simp

lemma ancestor_trans: "ancestor hist b c \<Longrightarrow> ancestor hist a b \<Longrightarrow> ancestor hist a c"
  by (induction rule: ancestor.induct) (auto intro: ancestor.intros)

lemma par_path_exists:
  assumes "line_wf hist" and "c \<in> set hist"
  shows "\<exists>xs. par_path hist c xs"
  using assms(2)
proof (induction "card {d \<in> set hist. cp_key d < cp_key c}" arbitrary: c rule: less_induct)
  case less
  show ?case
  proof (cases "parent_cp hist c")
    case None
    then show ?thesis by (blast intro: path_end)
  next
    case (Some p)
    from parent_cp_in [OF Some] have p: "p \<in> set hist" ..
    have lt: "cp_key p < cp_key c" using parent_cp_older [OF assms(1) less.prems Some] .
    have "{d \<in> set hist. cp_key d < cp_key p} \<subset> {d \<in> set hist. cp_key d < cp_key c}"
      using lt p by (auto dest: less_trans)
    then have "card {d \<in> set hist. cp_key d < cp_key p} < card {d \<in> set hist. cp_key d < cp_key c}"
      by (intro psubset_card_mono) auto
    from less.hyps [OF this p] show ?thesis using Some by (blast intro: path_step)
  qed
qed

lemma par_path_hd: "par_path hist c xs \<Longrightarrow> \<exists>ys. xs = c # ys"
  by (induction rule: par_path.induct) auto

lemma par_path_unique: "par_path hist c xs \<Longrightarrow> par_path hist c ys \<Longrightarrow> xs = ys"
proof (induction arbitrary: ys rule: par_path.induct)
  case (path_end c)
  from path_end.prems path_end.hyps show ?case by (auto elim: par_path.cases)
next
  case (path_step c p xs)
  from path_step.prems path_step.hyps(1) obtain zs where "ys = c # zs" "par_path hist p zs"
    by (auto elim: par_path.cases)
  then show ?case using path_step.IH by simp
qed

lemma par_path_set: "par_path hist c xs \<Longrightarrow> a \<in> set xs \<longleftrightarrow> ancestor hist a c"
proof (induction rule: par_path.induct)
  case (path_end c)
  then show ?case by (auto intro: anc_refl elim: ancestor.cases)
next
  case (path_step c p xs)
  then show ?case by (auto intro: ancestor.intros elim: ancestor.cases)
qed

lemma par_path_keys:
  "par_path hist c xs \<Longrightarrow> line_wf hist \<Longrightarrow> c \<in> set hist \<Longrightarrow> sorted_wrt (\<lambda>a b. cp_key b < cp_key a) xs"
proof (induction rule: par_path.induct)
  case (path_step c p xs)
  have p: "p \<in> set hist" "cp_key p < cp_key c"
    using path_step.hyps path_step.prems by (auto dest: parent_cp_in parent_cp_older)
  have "cp_key a < cp_key c" if "a \<in> set xs" for a
    using that par_path_set [OF path_step.hyps(2)] ancestor_key [OF _ path_step.prems(1) p(1)] p(2)
    by (metis less_trans)
  then show ?case using path_step p by simp
qed simp

lemma par_path_root: "par_path hist c xs \<Longrightarrow> parent_cp hist (last xs) = None"
  by (induction rule: par_path.induct) (auto dest: par_path_hd)

lemma par_path_tail: "par_path hist c (xs @ a # ys) \<Longrightarrow> par_path hist a (a # ys)"
proof (induction xs arbitrary: c)
  case Nil
  then have "c = a" by (auto elim: par_path.cases)
  with Nil show ?case by simp
next
  case (Cons x xs)
  from Cons.prems obtain p where "par_path hist p (xs @ a # ys)"
    by (auto elim: par_path.cases)
  then show ?case by (rule Cons.IH)
qed


lemma cp_key_inj:
  "line_wf hist \<Longrightarrow> a \<in> set hist \<Longrightarrow> b \<in> set hist \<Longrightarrow> cpId a = cpId b \<Longrightarrow> a = b"
  by (auto dest!: line_wf_distinct dest: inj_onD simp: distinct_map)

lemma sort_key_min_hd:
  assumes "line_wf hist" and "c \<in> set hist" and min: "\<And>d. d \<in> set hist \<Longrightarrow> cp_key c \<le> cp_key d"
  shows "\<exists>rest. sortCheckpointsByCreated hist = c # rest"
proof -
  let ?s = "sort_key cp_key hist"
  have "?s \<noteq> []" using assms(2) by (metis empty_iff list.set(1) set_sort)
  then obtain y ys where s: "?s = y # ys" by (cases ?s) auto
  have y: "y \<in> set hist" by (metis list.set_intros(1) s set_sort)
  have "c = y \<or> c \<in> set ys" using assms(2) s by (metis set_ConsD set_sort)
  moreover have "sorted (map cp_key (y # ys))" using sorted_sort_key [of cp_key hist] s by simp
  ultimately have "cp_key y \<le> cp_key c" by auto
  with min [OF y] have "cp_key y = cp_key c" by simp
  then have "cpId y = cpId c" by (simp add: cp_key_def)
  with cp_key_inj [OF assms(1) y assms(2)] s show ?thesis by (simp add: sortCheckpointsByCreated_def)
qed

lemma chronologicalUpTo_root:
  assumes "line_wf hist" and "c \<in> set hist" and "parentOf c = None"
  shows "chronologicalUpTo hist (cpId c) = Some [c]"
proof -
  have "cp_key c \<le> cp_key d" if "d \<in> set hist" for d
    using line_wf_root [OF assms(1,2,3) that] .
  from sort_key_min_hd [OF assms(1,2) this] obtain rest
    where "sortCheckpointsByCreated hist = c # rest" by blast
  then show ?thesis by (simp add: chronologicalUpTo_def)
qed

lemma lineage_walk_path:
  "par_path hist c xs \<Longrightarrow> distinct (map cpId xs) \<Longrightarrow> set (map cpId xs) \<inter> set seen = {} \<Longrightarrow>
     lineage_walk hist seen chain c = rev xs @ chain"
proof (induction arbitrary: seen chain rule: par_path.induct)
  case (path_end c)
  then show ?case
    by (auto simp: lineage_walk.simps [of hist seen chain c] parent_cp_def split: option.splits)
next
  case (path_step c p xs)
  have "lineage_walk hist (cpId c # seen) (c # chain) p = rev xs @ c # chain"
    using path_step.prems by (intro path_step.IH) auto
  then show ?case using path_step.hyps path_step.prems
    by (auto simp: lineage_walk.simps [of hist seen chain c] parent_cp_def bind_eq_Some_conv)
qed

lemma par_path_subset: "par_path hist c xs \<Longrightarrow> c \<in> set hist \<Longrightarrow> set xs \<subseteq> set hist"
  using par_path_set ancestor_in by blast

lemma par_path_distinct_ids:
  assumes "par_path hist c xs" and "line_wf hist" and "c \<in> set hist"
  shows "distinct (map cpId xs)"
proof -
  have "distinct xs"
    using par_path_keys [OF assms] by (induction xs) auto
  moreover have "inj_on cpId (set xs)"
    using par_path_subset [OF assms(1,3)] cp_key_inj [OF assms(2)] by (meson inj_onI subsetD)
  ultimately show ?thesis by (simp add: distinct_map)
qed

lemma lineage_eq_path:
  assumes wf: "line_wf hist" and c: "by_id hist t = Some c" and path: "par_path hist c xs"
  shows "lineageCheckpoints hist t = Some (rev xs)"
proof (cases "parentOf c")
  case None
  have ch: "c \<in> set hist" "cpId c = t" using by_id_Some [OF c] by auto
  then have "xs = [c]" using path None wf
    by (metis line_wf_parent_None par_path_unique path_end)
  then show ?thesis using None c ch chronologicalUpTo_root [OF wf ch(1) None]
    by (simp add: lineageCheckpoints_def)
next
  case (Some p)
  have ch: "c \<in> set hist" using by_id_Some [OF c] by auto
  have walk: "lineage_walk hist [] [] c = rev xs"
    using lineage_walk_path [OF path par_path_distinct_ids [OF path wf ch], of "[]" "[]"] by simp
  have ne: "xs \<noteq> []" using par_path_hd [OF path] by auto
  then have root: "last xs \<in> set hist" using par_path_subset [OF path ch] by auto
  then have none: "parentOf (last xs) = None"
    using par_path_root [OF path] line_wf_parent_None [OF wf] by simp
  obtain root rest where rx: "rev xs = root # rest"
    using ne by (cases "rev xs") auto
  then have rl: "root = last xs" by (metis hd_rev list.sel(1))
  have "lineage_walk hist [] [] c = root # rest" using walk rx by metis
  then have "lineageCheckpoints hist t = Some (root # rest)"
    using c Some none chronologicalUpTo_root [OF wf root none] rl
    by (simp add: lineageCheckpoints_def Let_def)
  with rx show ?thesis by simp
qed

lemma lineage_facts:
  assumes "line_wf hist" and "by_id hist t = Some c"
  shows "\<exists>line. lineageCheckpoints hist t = Some line
     \<and> set line = {a. ancestor hist a c}
     \<and> sorted_wrt (\<lambda>a b. cp_key a < cp_key b) line
     \<and> line \<noteq> [] \<and> last line = c"
proof -
  have c: "c \<in> set hist" using by_id_Some [OF assms(2)] by simp
  obtain xs where path: "par_path hist c xs" using par_path_exists [OF assms(1) c] ..
  have "sorted_wrt (\<lambda>a b. cp_key a < cp_key b) (rev xs)"
    using par_path_keys [OF path assms(1) c] by (simp add: sorted_wrt_rev)
  moreover have "set (rev xs) = {a. ancestor hist a c}" using par_path_set [OF path] by auto
  moreover have "rev xs \<noteq> [] \<and> last (rev xs) = c" using par_path_hd [OF path] by auto
  ultimately show ?thesis using lineage_eq_path [OF assms path] by blast
qed

text \<open>
  C18 (functional): in a well-formed history the replay chain of a checkpoint is exactly its
  ancestry, itself included: no checkpoint of a sibling branch is ever picked up, none of its
  own line is missed, the chain is ordered oldest first and ends at the checkpoint.
\<close>

theorem lineage_is_ancestry:
  assumes "line_wf hist" and "by_id hist t = Some c"
  shows "\<exists>line. lineageCheckpoints hist t = Some line
     \<and> set line = {a. ancestor hist a c}
     \<and> sorted_wrt (\<lambda>a b. cp_key a < cp_key b) line
     \<and> line \<noteq> [] \<and> last line = c"
  using assms by (rule lineage_facts)

definition sample_history :: "checkpoint_info list" where
  "sample_history =
     [new_checkpoint ''cp_a'' ''root'' 1,
      (new_checkpoint ''cp_b'' ''main 1'' 2)\<lparr>cpParentCheckpointId := Some ''cp_a''\<rparr>,
      (new_checkpoint ''cp_c'' ''feature 1'' 3)\<lparr>cpParentCheckpointId := Some ''cp_a''\<rparr>,
      (new_checkpoint ''cp_d'' ''main 2'' 4)\<lparr>cpParentCheckpointId := Some ''cp_b''\<rparr>]"

lemma sample_history_wf: "line_wf sample_history"
  by code_simp

lemma sample_history_d:
  "by_id sample_history ''cp_d'' = Some (sample_history ! 3)"
  "by_id sample_history ''cp_c'' = Some (sample_history ! 2)"
  by code_simp+

theorem lineage_is_ancestry_witness:
  "(\<exists>line. lineageCheckpoints sample_history ''cp_d'' = Some line
     \<and> set line = {a. ancestor sample_history a (sample_history ! 3)}
     \<and> sorted_wrt (\<lambda>a b. cp_key a < cp_key b) line \<and> line \<noteq> [] \<and> last line = sample_history ! 3)
   \<and> map_option (map cpId) (lineageCheckpoints sample_history ''cp_d'') = Some [''cp_a'', ''cp_b'', ''cp_d'']"
proof
  show "map_option (map cpId) (lineageCheckpoints sample_history ''cp_d'') = Some [''cp_a'', ''cp_b'', ''cp_d'']"
    by code_simp
qed (rule lineage_is_ancestry [OF sample_history_wf sample_history_d(1)])

lemma line_wf_one_root:
  assumes "line_wf hist" and "par_path hist c xs" and "par_path hist d ys"
    and "c \<in> set hist" and "d \<in> set hist"
  shows "last xs = last ys"
proof -
  have in_hist: "last xs \<in> set hist" "last ys \<in> set hist"
    using par_path_subset assms par_path_hd by (metis last_in_set list.distinct(1) subsetD)+
  then have "parentOf (last xs) = None" "parentOf (last ys) = None"
    using assms par_path_root line_wf_parent_None by metis+
  then have "cp_key (last xs) = cp_key (last ys)"
    using in_hist line_wf_root [OF assms(1)] by (meson order.antisym)
  then show ?thesis using cp_key_inj [OF assms(1) in_hist] by (simp add: cp_key_def)
qed

text \<open>
  C27 (functional): in a well-formed history two checkpoints always have a common ancestor, and
  \<open>lowestCommonAncestorId\<close> returns the lowest one: it is an ancestor of both, and every common
  ancestor is an ancestor of it.
\<close>

theorem lowestCommonAncestor_correct:
  assumes "line_wf hist" and "by_id hist s = Some cs" and "by_id hist t = Some ct"
  shows "\<exists>a \<in> set hist. lowestCommonAncestorId hist s t = Some (cpId a)
     \<and> ancestor hist a cs \<and> ancestor hist a ct
     \<and> (\<forall>b. ancestor hist b cs \<longrightarrow> ancestor hist b ct \<longrightarrow> ancestor hist b a)"
proof -
  have c: "cs \<in> set hist" "ct \<in> set hist" using assms(2,3) by_id_Some by blast+
  obtain xs where xs: "par_path hist cs xs" using par_path_exists [OF assms(1) c(1)] ..
  obtain ys where ys: "par_path hist ct ys" using par_path_exists [OF assms(1) c(2)] ..
  have "last ys \<in> set xs \<and> last ys \<in> set ys"
    using line_wf_one_root [OF assms(1) xs ys c] par_path_hd [OF xs] par_path_hd [OF ys]
    by (metis last_in_set list.distinct(1))
  then obtain pre a post where split: "ys = pre @ a # post" "a \<in> set xs" "\<forall>y \<in> set pre. y \<notin> set xs"
    using split_list_first_prop [of ys "\<lambda>y. y \<in> set xs"] by blast
  have sub: "set xs \<subseteq> set hist" "set ys \<subseteq> set hist"
    using par_path_subset xs ys c by blast+
  have a: "a \<in> set hist" "ancestor hist a cs" "ancestor hist a ct"
    using split sub par_path_set [OF xs] par_path_set [OF ys] by auto
  have ids: "cpId y \<in> cpId ` set xs \<longleftrightarrow> y \<in> set xs" if "y \<in> set ys" for y
    using that sub cp_key_inj [OF assms(1)] by (metis (no_types) image_iff subsetD)
  have "\<forall>y \<in> set pre. cpId y \<notin> cpId ` set xs" using split ids by auto
  then have "find (\<lambda>i. i \<in> cpId ` set xs) (map cpId pre @ zs) = find (\<lambda>i. i \<in> cpId ` set xs) zs" for zs
    by (induction pre) auto
  then have "find (\<lambda>i. i \<in> cpId ` set xs) (map cpId ys) = Some (cpId a)"
    using split by simp
  then have "lowestCommonAncestorId hist s t = Some (cpId a)"
    using lineage_eq_path [OF assms(1,2) xs] lineage_eq_path [OF assms(1,3) ys]
    by (simp add: lowestCommonAncestorId_def image_iff)
  moreover have "ancestor hist b a" if "ancestor hist b cs" "ancestor hist b ct" for b
  proof -
    have "b \<in> set xs" "b \<in> set ys" using that par_path_set xs ys by blast+
    then have "b \<in> set (a # post)" using split by auto
    then show ?thesis using par_path_tail [of hist ct pre a post] ys split par_path_set by blast
  qed
  ultimately show ?thesis using a by blast
qed

theorem lowestCommonAncestor_correct_witness:
  "lowestCommonAncestorId sample_history ''cp_d'' ''cp_c'' = Some ''cp_a''
   \<and> (\<exists>a \<in> set sample_history. lowestCommonAncestorId sample_history ''cp_d'' ''cp_c'' = Some (cpId a)
     \<and> ancestor sample_history a (sample_history ! 3) \<and> ancestor sample_history a (sample_history ! 2)
     \<and> (\<forall>b. ancestor sample_history b (sample_history ! 3) \<longrightarrow>
            ancestor sample_history b (sample_history ! 2) \<longrightarrow> ancestor sample_history b a))"
proof
  show "lowestCommonAncestorId sample_history ''cp_d'' ''cp_c'' = Some ''cp_a''" by code_simp
qed (rule lowestCommonAncestor_correct [OF sample_history_wf sample_history_d])

end
