(* ===== verification/HashState.thy ===== *)
theory HashState
  imports BranchLogic
begin

text \<open>
  \<open>manager/branchLogic.ts\<close>, the part on file trees as maps from paths to content hashes:
  replay of snapshots, the three-way merge of three trees, the snapshots of a merge
  checkpoint, and the branches recovered from manifests. The interface \<open>three_way\<close> states
  what every three-way merge of the engine (of hashes here, of texts in \<open>TextMerge\<close>)
  promises its callers.
\<close>

named_theorems hash_simps \<open>unfolding of the hash-state operations\<close>

section \<open>The contract of a three-way merge\<close>

locale three_way =
  fixes same :: "'v \<Rightarrow> 'v \<Rightarrow> bool"
    and merge3 :: "'v \<Rightarrow> 'v \<Rightarrow> 'v \<Rightarrow> 'v option"
  assumes same_refl: "same x x"
    and same_sym: "same x y \<Longrightarrow> same y x"
    and same_trans: "same x y \<Longrightarrow> same y z \<Longrightarrow> same x z"
    and agree: "same s t \<Longrightarrow> \<exists>v. merge3 b s t = Some v \<and> same v t"
    and source_unchanged: "same s b \<Longrightarrow> \<exists>v. merge3 b s t = Some v \<and> same v t"
    and target_unchanged: "same t b \<Longrightarrow> \<exists>v. merge3 b s t = Some v \<and> same v s"
begin

text \<open>A conflict means that both sides changed, and to different contents.\<close>

lemma conflict_means_both_changed:
  "merge3 b s t = None \<Longrightarrow> \<not> same s t \<and> \<not> same s b \<and> \<not> same t b"
  using agree [of s t b] source_unchanged [of s b t] target_unchanged [of t b s] by auto

lemma fast_forward: "\<exists>v. merge3 b s b = Some v \<and> same v s"
  by (rule target_unchanged) (rule same_refl)

lemma already_merged: "\<exists>v. merge3 b b t = Some v \<and> same v t"
  by (rule source_unchanged) (rule same_refl)

text \<open>Merging the same source again, with the source as the new base, changes nothing.\<close>

lemma merge_again: "merge3 b s t = Some v \<Longrightarrow> \<exists>w. merge3 s s v = Some w \<and> same w v"
  by (rule source_unchanged) (rule same_refl)

lemma merge_self: "\<exists>v. merge3 b s s = Some v \<and> same v s"
  by (rule agree) (rule same_refl)

end

section \<open>Replay of snapshots\<close>

definition snapshotToHashState :: "file_snapshot \<Rightarrow> file_hash_state" where
  "snapshotToHashState s =
     (let deleted = snapshotIsDeleted s
      in \<lparr>hsHash = (if deleted then None else fsHash s),
          hsEncoding = js_or (fsEncoding s) ''utf8'',
          hsSize = (if deleted then 0 else fsSize s),
          hsDeleted = Some deleted\<rparr>)"

definition apply_hash_snapshot :: "file_snapshot \<Rightarrow> hash_map \<Rightarrow> hash_map" where
  "apply_hash_snapshot s state =
     (if fsRelativePath s = [] then state
      else (let next_state = snapshotToHashState s
            in if hsDeleted next_state = Some True then jm_del (fsRelativePath s) state
               else jm_set (fsRelativePath s) next_state state))"

definition replayHashState :: "file_snapshot list list \<Rightarrow> hash_map" where
  "replayHashState checkpoints = fold (\<lambda>snaps state. fold apply_hash_snapshot snaps state) checkpoints []"

definition hashKey :: "file_hash_state option \<Rightarrow> string" where
  "hashKey st =
     (case st of
        None \<Rightarrow> ''''
      | Some s \<Rightarrow> if hsDeleted s = Some True then '''' else or_default (hsHash s) '''')"

text \<open>The write that a snapshot performs on a tree, in the vocabulary of \<open>keyed_store\<close>.\<close>

definition snapshot_write :: "file_snapshot \<Rightarrow> string \<times> file_hash_state option" where
  "snapshot_write s = (fsRelativePath s, if snapshotIsDeleted s then None else Some (snapshotToHashState s))"

definition named :: "file_snapshot list \<Rightarrow> file_snapshot list" where
  "named ss = filter (\<lambda>s. fsRelativePath s \<noteq> []) ss"

lemma apply_hash_snapshot_write:
  "apply_hash_snapshot s state = (if fsRelativePath s = [] then state else jm.put_entry (snapshot_write s) state)"
  by (simp add: apply_hash_snapshot_def snapshot_write_def jm.put_entry_def snapshotToHashState_def Let_def)

lemma fold_apply_hash_snapshot:
  "fold apply_hash_snapshot ss state = fold jm.put_entry (map snapshot_write (named ss)) state"
  by (induction ss arbitrary: state) (auto simp: named_def apply_hash_snapshot_write)

lemma replay_concat: "replayHashState css = fold apply_hash_snapshot (concat css) []"
proof -
  have "fold (\<lambda>snaps state. fold apply_hash_snapshot snaps state) css st = fold apply_hash_snapshot (concat css) st" for st
    by (induction css arbitrary: st) auto
  then show ?thesis by (simp add: replayHashState_def)
qed

lemma fold_apply_wf: "jm_wf st \<Longrightarrow> jm_wf (fold apply_hash_snapshot ss st)"
  by (simp add: fold_apply_hash_snapshot jm.wf_writes)

lemma replay_wf [simp]: "jm_wf (replayHashState css)"
  by (simp add: replay_concat fold_apply_wf)

lemma last_write_snapshots:
  "jm.last_write (map snapshot_write (named ss)) p =
     (if p = [] then None
      else map_option (\<lambda>s. snd (snapshot_write s)) (find (\<lambda>s. fsRelativePath s = p) (rev ss)))"
  by (induction ss rule: rev_induct)
     (auto simp: jm.last_write_def named_def snapshot_write_def)

lemma get_fold_apply:
  assumes "p \<noteq> []"
  shows "jm_get (fold apply_hash_snapshot ss st) p =
     (case find (\<lambda>s. fsRelativePath s = p) (rev ss) of
        None \<Rightarrow> jm_get st p
      | Some s \<Rightarrow> if snapshotIsDeleted s then None else Some (snapshotToHashState s))"
  using assms
  by (auto simp: fold_apply_hash_snapshot jm.get_writes last_write_snapshots snapshot_write_def
      split: option.splits)

text \<open>
  After the replay of a chain of checkpoints, a path holds what the last
  snapshot that names it says, in chain order: absent when that snapshot is a deletion (or when
  no snapshot names it), otherwise that snapshot's hash, encoding and size.
\<close>

theorem replayHashState_last_snapshot:
  "p \<noteq> [] \<Longrightarrow> jm_get (replayHashState css) p =
     (case find (\<lambda>s. fsRelativePath s = p) (rev (concat css)) of
        None \<Rightarrow> None
      | Some s \<Rightarrow> if snapshotIsDeleted s then None else Some (snapshotToHashState s))"
  by (simp add: replay_concat get_fold_apply split: option.split)

theorem replayHashState_last_snapshot_witness:
  "jm_get (replayHashState [[new_snapshot ''a'' (Some ''h1'') ''utf8'' 1 Created],
       [new_snapshot ''a'' (Some ''h2'') ''utf8'' 2 Modified, deleted_snapshot ''b'' ''utf8'' 0]]) ''a''
     = Some (snapshotToHashState (new_snapshot ''a'' (Some ''h2'') ''utf8'' 2 Modified))"
  by (subst replayHashState_last_snapshot)
     (simp_all add: new_snapshot_def deleted_snapshot_def snapshotIsDeleted_def)

section \<open>Three-way merge of trees\<close>

definition is_live :: "file_hash_state option \<Rightarrow> bool" where
  "is_live st = (case st of None \<Rightarrow> False | Some s \<Rightarrow> hsDeleted s \<noteq> Some True \<and> hashKey st \<noteq> '''')"

type_synonym merge_acc = "hash_map \<times> merge_conflict list"

definition keep_state :: "string \<Rightarrow> file_hash_state option \<Rightarrow> hash_map \<Rightarrow> hash_map" where
  "keep_state p st merged = (case st of None \<Rightarrow> merged | Some s \<Rightarrow> jm_set p s merged)"

text \<open>The body of the loop over the sorted union of the paths.\<close>

definition merge_path_step :: "hash_map \<Rightarrow> hash_map \<Rightarrow> hash_map \<Rightarrow> string \<Rightarrow> merge_acc \<Rightarrow> merge_acc" where
  "merge_path_step base source target p acc =
     (let baseState = jm_get base p; sourceState = jm_get source p; targetState = jm_get target p;
          baseHash = hashKey baseState; sourceHash = hashKey sourceState; targetHash = hashKey targetState
      in case acc of (merged, conflicts) \<Rightarrow>
        if sourceHash = targetHash then
          if is_live targetState then (keep_state p targetState merged, conflicts)
          else if is_live sourceState then (keep_state p sourceState merged, conflicts)
          else (merged, conflicts)
        else if sourceHash = baseHash then
          if is_live targetState then (keep_state p targetState merged, conflicts) else (merged, conflicts)
        else if targetHash = baseHash then
          if is_live sourceState then (keep_state p sourceState merged, conflicts) else (merged, conflicts)
        else (merged, conflicts @ [\<lparr>mcPath = p, mcBaseHash = truthy (Some baseHash),
                mcSourceHash = truthy (Some sourceHash), mcTargetHash = truthy (Some targetHash)\<rparr>]))"

definition threeWayMergeHashes :: "hash_map \<Rightarrow> hash_map \<Rightarrow> hash_map \<Rightarrow> merge_acc" where
  "threeWayMergeHashes base source target =
     fold (merge_path_step base source target)
       (sorted_set (jm_keys base @ jm_keys source @ jm_keys target)) ([], [])"

text \<open>What the loop decides for one path, as a merge of three optional file states.\<close>

definition merge_choice ::
  "file_hash_state option \<Rightarrow> file_hash_state option \<Rightarrow> file_hash_state option \<Rightarrow> file_hash_state option option" where
  "merge_choice b s t =
     (if hashKey s = hashKey t then Some (if is_live t then t else if is_live s then s else None)
      else if hashKey s = hashKey b then Some (if is_live t then t else None)
      else if hashKey t = hashKey b then Some (if is_live s then s else None)
      else None)"

lemma is_live_iff: "is_live st \<longleftrightarrow> hashKey st \<noteq> ''''"
  by (cases st) (auto simp: is_live_def hashKey_def)

lemma hashKey_None [simp]: "hashKey None = ''''"
  by (simp add: hashKey_def)

interpretation hash_merge: three_way "\<lambda>x y. hashKey x = hashKey y" merge_choice
  by unfold_locales (auto simp: merge_choice_def is_live_iff)

lemma merge_path_step_choice:
  "merge_path_step base source target p (merged, conflicts) =
     (case merge_choice (jm_get base p) (jm_get source p) (jm_get target p) of
        Some v \<Rightarrow> (keep_state p v merged, conflicts)
      | None \<Rightarrow> (merged, conflicts @ [\<lparr>mcPath = p, mcBaseHash = truthy (Some (hashKey (jm_get base p))),
                mcSourceHash = truthy (Some (hashKey (jm_get source p))),
                mcTargetHash = truthy (Some (hashKey (jm_get target p)))\<rparr>]))"
  by (auto simp: merge_path_step_def merge_choice_def keep_state_def Let_def)

lemma fold_merge_conflicts:
  "snd (fold (merge_path_step base source target) ps (m, cs)) =
     cs @ map (\<lambda>p. \<lparr>mcPath = p, mcBaseHash = truthy (Some (hashKey (jm_get base p))),
                mcSourceHash = truthy (Some (hashKey (jm_get source p))),
                mcTargetHash = truthy (Some (hashKey (jm_get target p)))\<rparr>)
          (filter (\<lambda>p. merge_choice (jm_get base p) (jm_get source p) (jm_get target p) = None) ps)"
  by (induction ps arbitrary: m cs) (auto simp: merge_path_step_choice split: option.splits)

lemma fold_merge_get:
  "distinct ps \<Longrightarrow> jm_get (fst (fold (merge_path_step base source target) ps (m, cs))) p =
     (if p \<in> set ps
      then (case merge_choice (jm_get base p) (jm_get source p) (jm_get target p) of
              Some (Some v) \<Rightarrow> Some v | _ \<Rightarrow> jm_get m p)
      else jm_get m p)"
  by (induction ps arbitrary: m cs)
     (auto simp: merge_path_step_choice keep_state_def split: option.splits)

lemma merge_choice_absent: "merge_choice None None None = Some None"
  by (simp add: merge_choice_def is_live_iff)

lemma union_paths: "p \<notin> set (sorted_set (jm_keys a @ jm_keys b @ jm_keys c)) \<longleftrightarrow>
    jm_get a p = None \<and> jm_get b p = None \<and> jm_get c p = None"
  by (auto simp: in_jm_keys simp del: not_None_eq)

lemma merged_get:
  "jm_get (fst (threeWayMergeHashes base source target)) p =
     (case merge_choice (jm_get base p) (jm_get source p) (jm_get target p) of Some v \<Rightarrow> v | None \<Rightarrow> None)"
proof (cases "p \<in> set (sorted_set (jm_keys base @ jm_keys source @ jm_keys target))")
  case True
  then show ?thesis unfolding threeWayMergeHashes_def
    by (simp add: fold_merge_get del: set_sorted_set split: option.splits)
next
  case False
  then have n: "jm_get base p = None \<and> jm_get source p = None \<and> jm_get target p = None"
    by (simp only: union_paths)
  from False show ?thesis unfolding threeWayMergeHashes_def
    by (simp add: fold_merge_get n merge_choice_absent del: set_sorted_set)
qed

lemma conflict_paths:
  "map mcPath (snd (threeWayMergeHashes base source target)) =
     filter (\<lambda>p. merge_choice (jm_get base p) (jm_get source p) (jm_get target p) = None)
       (sorted_set (jm_keys base @ jm_keys source @ jm_keys target))"
  by (simp add: threeWayMergeHashes_def fold_merge_conflicts comp_def)

lemma conflict_path_iff:
  "p \<in> mcPath ` set (snd (threeWayMergeHashes base source target)) \<longleftrightarrow>
     merge_choice (jm_get base p) (jm_get source p) (jm_get target p) = None"
proof -
  have "p \<in> mcPath ` set (snd (threeWayMergeHashes base source target)) \<longleftrightarrow>
      p \<in> set (map mcPath (snd (threeWayMergeHashes base source target)))" by simp
  also have "\<dots> \<longleftrightarrow> merge_choice (jm_get base p) (jm_get source p) (jm_get target p) = None"
    unfolding conflict_paths
    using union_paths [of p base source target] merge_choice_absent by fastforce
  finally show ?thesis .
qed

lemma merge_choice_None_iff:
  "merge_choice b s t = None \<longleftrightarrow> hashKey s \<noteq> hashKey t \<and> hashKey s \<noteq> hashKey b \<and> hashKey t \<noteq> hashKey b"
  by (auto simp: merge_choice_def)

lemma merge_choice_Some_key:
  "merge_choice b s t = Some v \<Longrightarrow> hashKey v = (if hashKey s = hashKey b then hashKey t else hashKey s)"
  by (auto simp: merge_choice_def is_live_iff split: if_splits)

text \<open>
  C1 (safety): the three-way merge of hash states never overwrites a change silently. A path is
  reported as a conflict exactly when both sides changed it, to different contents, and then the
  merged tree does not contain it; any other path ends with the changed side's content (the
  target's when neither or only the target changed it).
\<close>

theorem threeWayMergeHashes_no_silent_overwrite:
  "let (merged, conflicts) = threeWayMergeHashes base source target;
       kb = hashKey (jm_get base p); ks = hashKey (jm_get source p); kt = hashKey (jm_get target p)
   in (p \<in> mcPath ` set conflicts \<longleftrightarrow> ks \<noteq> kt \<and> ks \<noteq> kb \<and> kt \<noteq> kb)
      \<and> hashKey (jm_get merged p) =
          (if ks \<noteq> kt \<and> ks \<noteq> kb \<and> kt \<noteq> kb then '''' else if ks = kb then kt else ks)"
proof -
  obtain merged conflicts where m: "threeWayMergeHashes base source target = (merged, conflicts)"
    by (cases "threeWayMergeHashes base source target")
  have c: "p \<in> mcPath ` set conflicts \<longleftrightarrow>
      merge_choice (jm_get base p) (jm_get source p) (jm_get target p) = None"
    using conflict_path_iff [of p base source target] m by simp
  have g: "jm_get merged p =
     (case merge_choice (jm_get base p) (jm_get source p) (jm_get target p) of Some v \<Rightarrow> v | None \<Rightarrow> None)"
    using merged_get [of base source target p] m by simp
  show ?thesis
  proof (cases "merge_choice (jm_get base p) (jm_get source p) (jm_get target p)")
    case None
    then have "jm_get merged p = None" using g by simp
    then show ?thesis using m c None unfolding merge_choice_None_iff by (simp add: Let_def)
  next
    case (Some v)
    then have "jm_get merged p = v" using g by simp
    moreover have "\<not> (hashKey (jm_get source p) \<noteq> hashKey (jm_get target p)
      \<and> hashKey (jm_get source p) \<noteq> hashKey (jm_get base p)
      \<and> hashKey (jm_get target p) \<noteq> hashKey (jm_get base p))"
      using Some by (metis merge_choice_None_iff option.distinct(1))
    ultimately show ?thesis using m c Some merge_choice_Some_key [OF Some] by (auto simp: Let_def)
  qed
qed

text \<open>
  The merge is symmetric: exchanging source and target gives the same conflict
  paths in the same order and, at every path, the same content hash.
\<close>

theorem threeWayMergeHashes_symmetric:
  "map mcPath (snd (threeWayMergeHashes base source target))
     = map mcPath (snd (threeWayMergeHashes base target source))
   \<and> hashKey (jm_get (fst (threeWayMergeHashes base source target)) p)
     = hashKey (jm_get (fst (threeWayMergeHashes base target source)) p)"
proof
  have swap: "merge_choice b s t = None \<longleftrightarrow> merge_choice b t s = None" for b s t
    by (auto simp: merge_choice_None_iff)
  have keys: "sorted_set (jm_keys base @ jm_keys source @ jm_keys target)
      = sorted_set (jm_keys base @ jm_keys target @ jm_keys source)"
    by (rule sorted_distinct_set_unique) auto
  show "map mcPath (snd (threeWayMergeHashes base source target))
     = map mcPath (snd (threeWayMergeHashes base target source))"
    unfolding conflict_paths keys by (simp add: swap)
  show "hashKey (jm_get (fst (threeWayMergeHashes base source target)) p)
     = hashKey (jm_get (fst (threeWayMergeHashes base target source)) p)"
    unfolding merged_get
    by (auto simp: merge_choice_def is_live_iff split: option.splits if_splits)
qed

lemma merged_live: "jm_get (fst (threeWayMergeHashes base source target)) p = Some v \<Longrightarrow> is_live (Some v)"
  by (auto simp: merged_get merge_choice_def split: option.splits if_splits)

lemma keep_state_wf: "jm_wf m \<Longrightarrow> jm_wf (keep_state p st m)"
  by (auto simp: keep_state_def split: option.splits)

lemma merged_wf: "jm_wf (fst (threeWayMergeHashes base source target))"
proof -
  have "jm_wf (fst acc) \<Longrightarrow> jm_wf (fst (fold (merge_path_step base source target) ps acc))" for ps acc
    by (induction ps arbitrary: acc)
       (auto simp: merge_path_step_choice keep_state_wf split: option.splits prod.splits)
  then show ?thesis by (simp add: threeWayMergeHashes_def)
qed

section \<open>The snapshots of a merge checkpoint\<close>

definition hashStateToSnapshots :: "int \<Rightarrow> hash_map \<Rightarrow> string list \<Rightarrow> file_snapshot list \<times> string list" where
  "hashStateToSnapshots now merged unionPaths =
     (let live = sorted_set (jm_keys merged);
          kept = filter (\<lambda>p. is_live (jm_get merged p)) live;
          written = List.map_filter (\<lambda>p. map_option (\<lambda>st.
             \<lparr>fsRelativePath = p, fsContent = None, fsHash = hsHash st, fsEncoding = hsEncoding st,
              fsLastModified = now, fsSize = hsSize st, fsDeleted = None,
              fsChangeType = Some Modified, fsRenamedFrom = None, fsCopiedFrom = None\<rparr>) (jm_get merged p)) kept;
          gone = map (\<lambda>p. deleted_snapshot p ''utf8'' now)
             (filter (\<lambda>p. p \<notin> set live) (sorted_set unionPaths))
      in (written @ gone, kept))"

lemma find_map_filter_path:
  assumes "distinct ps" and "\<And>q s. f q = Some s \<Longrightarrow> fsRelativePath s = q"
  shows "find (\<lambda>s. fsRelativePath s = p) (rev (List.map_filter f ps)) = (if p \<in> set ps then f p else None)"
  using assms(1)
proof (induction ps rule: rev_induct)
  case Nil
  then show ?case by (simp add: List.map_filter_simps)
next
  case (snoc q ps)
  have app: "List.map_filter f (ps @ [q]) = List.map_filter f ps @ List.map_filter f [q]"
    by (simp add: List.map_filter_def)
  show ?case using snoc assms(2) by (cases "f q") (auto simp: app List.map_filter_simps)
qed

lemma find_append: "find P (xs @ ys) = or_else (find P xs) (find P ys)"
  by (induction xs) auto

lemma find_map_deleted:
  "find (\<lambda>s. fsRelativePath s = p) (rev (map (\<lambda>q. deleted_snapshot q e now) qs)) =
     (if p \<in> set qs then Some (deleted_snapshot p e now) else None)"
  by (induction qs) (auto simp: find_append deleted_snapshot_def)

lemma hashStateToSnapshots_find:
  assumes p: "p \<noteq> []" and live: "\<And>q v. jm_get merged q = Some v \<Longrightarrow> is_live (Some v)"
  shows "find (\<lambda>s. fsRelativePath s = p) (rev (fst (hashStateToSnapshots now merged upaths))) =
     (case jm_get merged p of
        Some st \<Rightarrow> Some \<lparr>fsRelativePath = p, fsContent = None, fsHash = hsHash st, fsEncoding = hsEncoding st,
              fsLastModified = now, fsSize = hsSize st, fsDeleted = None,
              fsChangeType = Some Modified, fsRenamedFrom = None, fsCopiedFrom = None\<rparr>
      | None \<Rightarrow> if p \<in> set upaths then Some (deleted_snapshot p ''utf8'' now) else None)"
proof -
  let ?f = "\<lambda>q. map_option (\<lambda>st.
             \<lparr>fsRelativePath = q, fsContent = None, fsHash = hsHash st, fsEncoding = hsEncoding st,
              fsLastModified = now, fsSize = hsSize st, fsDeleted = None,
              fsChangeType = Some Modified, fsRenamedFrom = None, fsCopiedFrom = None\<rparr>) (jm_get merged q)"
  have w: "find (\<lambda>s. fsRelativePath s = p) (rev (List.map_filter ?f ps)) = (if p \<in> set ps then ?f p else None)"
    if "distinct ps" for ps
    by (rule find_map_filter_path) (use that in auto)
  show ?thesis
    by (auto simp: hashStateToSnapshots_def Let_def find_append find_map_deleted w in_jm_keys is_live_iff
        dest: live split: option.splits)
qed

text \<open>
  C23 (roundtrip): the baseline snapshots that a merge checkpoint stores reproduce the merged tree:
  replaying the target line and then those snapshots gives, at every path, the content hash of
  the three-way merge, provided the recorded union covers the target's paths.
\<close>

theorem merge_checkpoint_reconstructs:
  assumes "p \<noteq> []" and "set (jm_keys (replayHashState targetLine)) \<subseteq> set upaths"
  shows "let merged = fst (threeWayMergeHashes base source (replayHashState targetLine))
    in hashKey (jm_get (replayHashState (targetLine @ [fst (hashStateToSnapshots now merged upaths)])) p)
       = hashKey (jm_get merged p)"
proof -
  let ?m = "fst (threeWayMergeHashes base source (replayHashState targetLine))"
  let ?snaps = "fst (hashStateToSnapshots now ?m upaths)"
  have "replayHashState (targetLine @ [?snaps]) = fold apply_hash_snapshot ?snaps (replayHashState targetLine)"
    by (simp add: replayHashState_def)
  moreover have "p \<notin> set upaths \<Longrightarrow> jm_get (replayHashState targetLine) p = None"
    using assms(2) in_jm_keys [of p "replayHashState targetLine"] by blast
  moreover note find = hashStateToSnapshots_find [OF assms(1), of ?m now upaths,
      OF merged_live [of base source "replayHashState targetLine"]]
  ultimately show ?thesis
  proof (cases "jm_get ?m p")
    case None
    then show ?thesis
      using \<open>p \<notin> set upaths \<Longrightarrow> jm_get (replayHashState targetLine) p = None\<close> find
      by (simp add: Let_def get_fold_apply [OF assms(1)] \<open>replayHashState (targetLine @ [?snaps]) = _\<close>
          snapshotIsDeleted_def deleted_snapshot_def)
  next
    case (Some st)
    have "hsDeleted st \<noteq> Some True" using merged_live [OF Some] by (simp add: is_live_def)
    then show ?thesis using find Some
      by (simp add: Let_def get_fold_apply [OF assms(1)] \<open>replayHashState (targetLine @ [?snaps]) = _\<close>
          snapshotIsDeleted_def snapshotToHashState_def hashKey_def)
  qed
qed

theorem merge_checkpoint_reconstructs_witness:
  "let line = [[new_snapshot ''a'' (Some ''h1'') ''utf8'' 1 Created, new_snapshot ''b'' (Some ''k'') ''utf8'' 1 Created]];
       base = replayHashState line;
       source = replayHashState (line @ [[deleted_snapshot ''b'' ''utf8'' 0]]);
       merged = fst (threeWayMergeHashes base source (replayHashState line))
   in hashKey (jm_get (replayHashState (line @ [fst (hashStateToSnapshots 5 merged [''a'', ''b''])])) ''b'')
        = hashKey (jm_get merged ''b'')
      \<and> hashKey (jm_get merged ''b'') = ''''"
proof -
  let ?line = "[[new_snapshot ''a'' (Some ''h1'') ''utf8'' 1 Created, new_snapshot ''b'' (Some ''k'') ''utf8'' 1 Created]]"
  have k: "set (jm_keys (replayHashState ?line)) \<subseteq> set [''a'', ''b'']" by code_simp
  have v: "hashKey (jm_get (fst (threeWayMergeHashes (replayHashState ?line)
      (replayHashState (?line @ [[deleted_snapshot ''b'' ''utf8'' 0]])) (replayHashState ?line))) ''b'') = ''''"
    by code_simp
  show ?thesis
    using merge_checkpoint_reconstructs [OF _ k, of "''b''" "replayHashState ?line"
        "replayHashState (?line @ [[deleted_snapshot ''b'' ''utf8'' 0]])" 5] v
    by (simp add: Let_def)
qed

section \<open>Recovering branches from manifests\<close>

definition group_add :: "checkpoint_info \<Rightarrow> (string, checkpoint_info list) jsmap \<Rightarrow> (string, checkpoint_info list) jsmap" where
  "group_add c groups =
     (case truthy (cpBranchId c) of
        None \<Rightarrow> groups
      | Some b \<Rightarrow> jm_set b (or_default (jm_get groups b) [] @ [c]) groups)"

definition branch_of_group :: "string \<times> checkpoint_info list \<Rightarrow> checkpoint_branch" where
  "branch_of_group g =
     (let ordered = sortCheckpointsByCreated (snd g); oldest = hd ordered; newest = last ordered
      in \<lparr>brId = fst g, brName = fst g, brHead = cpId newest,
          brBase = or_default (cpParentCheckpointId oldest) (cpId oldest),
          brParent = None, brCreatedAt = cpCreated oldest, brDescription = None\<rparr>)"

definition synthesizeBranchesFromHistory :: "checkpoint_info list \<Rightarrow> checkpoint_branch list" where
  "synthesizeBranchesFromHistory history = map branch_of_group (fold group_add history [])"

lemma group_add_get:
  "jm_get (fold group_add cs groups) b =
     (if \<exists>c \<in> set cs. truthy (cpBranchId c) = Some b
      then Some (or_default (jm_get groups b) [] @ filter (\<lambda>c. truthy (cpBranchId c) = Some b) cs)
      else jm_get groups b)"
  by (induction cs arbitrary: groups) (auto simp: group_add_def split: option.splits)

lemma group_add_wf: "jm_wf groups \<Longrightarrow> jm_wf (fold group_add cs groups)"
  by (induction cs arbitrary: groups) (auto simp: group_add_def split: option.splits)

lemma sort_last_max:
  assumes "xs \<noteq> []"
  shows "last (sortCheckpointsByCreated xs) \<in> set xs
    \<and> (\<forall>x \<in> set xs. cp_key x \<le> cp_key (last (sortCheckpointsByCreated xs)))"
proof -
  let ?s = "sortCheckpointsByCreated xs"
  have s: "?s \<noteq> []" "set ?s = set xs" "sorted (map cp_key ?s)"
    using assms arg_cong [where f = set, of "sort_key cp_key xs" "[]"]
    unfolding sortCheckpointsByCreated_def by (simp_all, metis set_empty set_sort)
  have le: "\<forall>x \<in> set zs. cp_key x \<le> cp_key (last zs)" if "sorted (map cp_key zs)" "zs \<noteq> []" for zs
    using that by (induction zs) (auto split: if_splits)
  show ?thesis using le [OF s(3,1)] last_in_set [OF s(1)] s(2) by simp
qed

text \<open>
  When the index is lost, exactly one branch is recovered per branch id recorded
  on the manifests, and its head is the newest checkpoint of that branch (by date, then id).
\<close>

theorem synthesizeBranches_heads:
  "distinct (map brId (synthesizeBranchesFromHistory history))
   \<and> set (map brId (synthesizeBranchesFromHistory history)) = {b. \<exists>c \<in> set history. truthy (cpBranchId c) = Some b}
   \<and> (\<forall>br \<in> set (synthesizeBranchesFromHistory history).
        \<exists>h \<in> set history. cpId h = brHead br \<and> truthy (cpBranchId h) = Some (brId br)
          \<and> (\<forall>c \<in> set history. truthy (cpBranchId c) = Some (brId br) \<longrightarrow> cp_key c \<le> cp_key h))"
proof -
  let ?g = "fold group_add history []"
  have wf: "jm_wf ?g" by (simp add: group_add_wf)
  have ids: "map brId (synthesizeBranchesFromHistory history) = map fst ?g"
    by (simp add: synthesizeBranchesFromHistory_def branch_of_group_def Let_def comp_def)
  have "distinct (map fst ?g)" using wf by (simp add: jm_wf_def)
  moreover have "set (map fst ?g) = {b. \<exists>c \<in> set history. truthy (cpBranchId c) = Some b}"
  proof -
    have "b \<in> set (map fst ?g) \<longleftrightarrow> (\<exists>c \<in> set history. truthy (cpBranchId c) = Some b)" for b
      unfolding jm_keys_def [symmetric] in_jm_keys group_add_get by simp
    then show ?thesis by blast
  qed
  moreover have "\<exists>h \<in> set history. cpId h = brHead br \<and> truthy (cpBranchId h) = Some (brId br)
          \<and> (\<forall>c \<in> set history. truthy (cpBranchId c) = Some (brId br) \<longrightarrow> cp_key c \<le> cp_key h)"
    if "br \<in> set (synthesizeBranchesFromHistory history)" for br
  proof -
    from that obtain b cs where g: "(b, cs) \<in> set ?g" and br: "br = branch_of_group (b, cs)"
      by (auto simp: synthesizeBranchesFromHistory_def)
    have "jm_get ?g b = Some cs" using g wf by (simp add: jm_entries_wf)
    then have cs: "cs = filter (\<lambda>c. truthy (cpBranchId c) = Some b) history" "cs \<noteq> []"
      by (auto simp: group_add_get filter_empty_conv split: if_splits)
    from sort_last_max [OF cs(2)] show ?thesis
      by (intro bexI [of _ "last (sortCheckpointsByCreated cs)"])
         (auto simp: br branch_of_group_def Let_def cs(1))
  qed
  ultimately show ?thesis unfolding ids by simp
qed

theorem synthesizeBranches_heads_witness:
  "let mk = (\<lambda>i b t. (new_checkpoint i i t)\<lparr>cpBranchId := Some b\<rparr>);
       history = [mk ''cp_1'' ''br'' 1, mk ''cp_3'' ''br'' 3, mk ''cp_2'' ''other'' 2]
   in \<exists>br \<in> set (synthesizeBranchesFromHistory history). brId br = ''br'' \<and> brHead br = ''cp_3''"
proof -
  let ?mk = "\<lambda>i b t. (new_checkpoint i i t)\<lparr>cpBranchId := Some b\<rparr>"
  let ?h = "[?mk ''cp_1'' ''br'' 1, ?mk ''cp_3'' ''br'' 3, ?mk ''cp_2'' ''other'' 2]"
  note facts = synthesizeBranches_heads [of ?h]
  have "''br'' \<in> set (map brId (synthesizeBranchesFromHistory ?h))" using facts by simp
  then obtain br where br: "br \<in> set (synthesizeBranchesFromHistory ?h)" "brId br = ''br''" by auto
  from bspec [OF conjunct2 [OF conjunct2 [OF facts]] br(1)] have "\<exists>h \<in> set ?h. cpId h = brHead br \<and> truthy (cpBranchId h) = Some ''br''
      \<and> (\<forall>c \<in> set ?h. truthy (cpBranchId c) = Some ''br'' \<longrightarrow> cp_key c \<le> cp_key h)"
    unfolding br(2) .
  then have "brHead br = ''cp_3''" by (auto simp: cp_key_def new_checkpoint_def)
  with br show ?thesis unfolding Let_def by blast
qed

end
