(* ===== verification/TextMerge.thy ===== *)
theory TextMerge
  imports Lcs HashState
begin

text \<open>
  The line-level three-way merge of \<open>manager/branchLogic.ts\<close>: line splitting, the diff of a
  side against the base as hunks, the overlap test, the combined application of both sides'
  hunks, and the conflict markers. The specification is line-wise: an edit of \<open>n\<close> base lines
  says what is inserted in front of each line (and at the end) and which lines are dropped.
\<close>

section \<open>Definitions\<close>

definition CONFLICT_OURS_MARK :: string where "CONFLICT_OURS_MARK = ''<<<<<<<''"
definition CONFLICT_MID_MARK :: string where "CONFLICT_MID_MARK = ''=======''"
definition CONFLICT_THEIRS_MARK :: string where "CONFLICT_THEIRS_MARK = ''>>>>>>>''"

definition splitMergeLines :: "string \<Rightarrow> string list" where
  "splitMergeLines text = split_on newline text"

definition joinMergeLines :: "string list \<Rightarrow> string" where
  "joinMergeLines lines = join [newline] lines"

record line_hunk =
  lhStart :: nat
  lhDeleted :: nat
  lhInserted :: "string list"

definition flush_hunk :: "line_hunk option \<Rightarrow> line_hunk list \<Rightarrow> line_hunk list" where
  "flush_hunk pending hunks = (case pending of None \<Rightarrow> hunks | Some h \<Rightarrow> h # hunks)"

text \<open>The backward walk of \<open>diffHunks\<close> through the table \<open>t\<close>, from \<open>(i, j)\<close>.\<close>

function diff_walk ::
  "string list \<Rightarrow> string list \<Rightarrow> nat list list \<Rightarrow> nat \<Rightarrow> nat \<Rightarrow> line_hunk option \<Rightarrow> line_hunk list \<Rightarrow> line_hunk list"
where
  "diff_walk base side t i j pending hunks =
     (if i = 0 \<and> j = 0 then flush_hunk pending hunks
      else if i > 0 \<and> j > 0 \<and> base ! (i - 1) = side ! (j - 1) then
        diff_walk base side t (i - 1) (j - 1) None (flush_hunk pending hunks)
      else if j > 0 \<and> (i = 0 \<or> t ! i ! (j - 1) \<ge> t ! (i - 1) ! j) then
        let p = or_default pending \<lparr>lhStart = i, lhDeleted = 0, lhInserted = []\<rparr>
        in diff_walk base side t i (j - 1) (Some (p\<lparr>lhInserted := side ! (j - 1) # lhInserted p\<rparr>)) hunks
      else
        let p = or_default pending \<lparr>lhStart = i - 1, lhDeleted = 0, lhInserted = []\<rparr>
        in diff_walk base side t (i - 1) j (Some (p\<lparr>lhStart := i - 1, lhDeleted := lhDeleted p + 1\<rparr>)) hunks)"
  by pat_completeness auto
termination by (relation "measure (\<lambda>(b, s, t, i, j, p, h). i + j)") auto

declare diff_walk.simps [simp del]

definition diffHunks :: "string list \<Rightarrow> string list \<Rightarrow> line_hunk list" where
  "diffHunks base side = diff_walk base side (lcsTable base side) (length base) (length side) None []"

definition hunk_overlap :: "line_hunk \<Rightarrow> line_hunk \<Rightarrow> bool" where
  "hunk_overlap a b =
     (let aEnd = lhStart a + max (lhDeleted a) 1; bEnd = lhStart b + max (lhDeleted b) 1
      in if lhStart a < bEnd \<and> lhStart b < aEnd then
           (if lhDeleted a = 0 \<and> lhDeleted b = 0 \<and> lhStart a = lhStart b then True
            else if lhDeleted a > 0 \<and> lhDeleted b > 0 then True
            else if (lhDeleted a = 0 \<and> lhDeleted b > 0 \<and> lhStart a \<ge> lhStart b \<and> lhStart a < bEnd)
                  \<or> (lhDeleted b = 0 \<and> lhDeleted a > 0 \<and> lhStart b \<ge> lhStart a \<and> lhStart b < aEnd) then True
            else False)
         else False)"

definition hunksOverlap :: "line_hunk list \<Rightarrow> line_hunk list \<Rightarrow> bool" where
  "hunksOverlap left right = list_ex (\<lambda>a. list_ex (hunk_overlap a) right) left"

definition slice :: "nat \<Rightarrow> nat \<Rightarrow> 'a list \<Rightarrow> 'a list" where
  "slice a b xs = drop a (take b xs)"

fun apply_from :: "string list \<Rightarrow> nat \<Rightarrow> line_hunk list \<Rightarrow> string list" where
  "apply_from base cursor [] = drop cursor base"
| "apply_from base cursor (h # hs) =
     slice cursor (lhStart h) base @ lhInserted h @ apply_from base (lhStart h + lhDeleted h) hs"

text \<open>The comparator of \<open>applyHunks\<close>: by start, then by deleted count descending.\<close>

definition hunk_key :: "line_hunk \<Rightarrow> int \<times> int" where
  "hunk_key h = (int (lhStart h), - int (lhDeleted h))"

definition applyHunks :: "string list \<Rightarrow> line_hunk list \<Rightarrow> string" where
  "applyHunks base hunks = joinMergeLines (apply_from base 0 (sort_key hunk_key hunks))"

definition threeWayMergeText :: "string \<Rightarrow> string \<Rightarrow> string \<Rightarrow> string option" where
  "threeWayMergeText base ours theirs =
     (if ours = theirs then Some ours
      else if ours = base then Some theirs
      else if theirs = base then Some ours
      else (let baseLines = splitMergeLines base;
                oursHunks = diffHunks baseLines (splitMergeLines ours);
                theirsHunks = diffHunks baseLines (splitMergeLines theirs)
            in if hunksOverlap oursHunks theirsHunks then None
               else Some (applyHunks baseLines (oursHunks @ theirsHunks))))"

definition conflict_body :: "string \<Rightarrow> string" where
  "conflict_body s = (if ends_with s [newline] \<or> s = [] then s else s @ [newline])"

definition formatConflictMarkers :: "string \<Rightarrow> string \<Rightarrow> string \<Rightarrow> string \<Rightarrow> string" where
  "formatConflictMarkers ours theirs oursLabel theirsLabel =
     CONFLICT_OURS_MARK @ '' '' @ oursLabel @ [newline] @ conflict_body ours
       @ CONFLICT_MID_MARK @ [newline] @ conflict_body theirs
       @ CONFLICT_THEIRS_MARK @ '' '' @ theirsLabel @ [newline]"

definition fileHasConflictMarkers :: "string \<Rightarrow> bool" where
  "fileHasConflictMarkers content \<longleftrightarrow>
     str_includes content CONFLICT_OURS_MARK \<and> str_includes content CONFLICT_MID_MARK
     \<and> str_includes content CONFLICT_THEIRS_MARK"

lemma diff_smoke:
  "diffHunks [''a'', ''b'', ''c''] [''a'', ''x'', ''c'', ''d''] =
     [\<lparr>lhStart = 1, lhDeleted = 1, lhInserted = [''x'']\<rparr>, \<lparr>lhStart = 3, lhDeleted = 0, lhInserted = [''d'']\<rparr>]"
  by code_simp

section \<open>The shape of a diff\<close>

definition hunk_end :: "line_hunk \<Rightarrow> nat" where
  "hunk_end h = lhStart h + lhDeleted h"

fun hunks_ok :: "nat \<Rightarrow> nat \<Rightarrow> line_hunk list \<Rightarrow> bool" where
  "hunks_ok n c [] = True"
| "hunks_ok n c (h # hs) =
     (c \<le> lhStart h \<and> hunk_end h \<le> n \<and> (lhDeleted h > 0 \<or> lhInserted h \<noteq> [])
      \<and> hunks_ok n (Suc (hunk_end h)) hs)"

lemma hunks_ok_mono: "hunks_ok n c hs \<Longrightarrow> c' \<le> c \<Longrightarrow> hunks_ok n c' hs"
  by (cases hs) auto

lemma slice_step: "i < b \<Longrightarrow> b \<le> length xs \<Longrightarrow> slice i b xs = xs ! i # slice (Suc i) b xs"
  unfolding slice_def by (metis Cons_nth_drop_Suc length_take min.absorb2 nth_take)

lemma slice_empty [simp]: "slice i i xs = []"
  by (simp add: slice_def)

lemma apply_from_step:
  "hunks_ok n (Suc i) hs \<Longrightarrow> n = length base \<Longrightarrow> i < n \<Longrightarrow>
   apply_from base i hs = base ! i # apply_from base (Suc i) hs"
  by (cases hs) (auto simp: Cons_nth_drop_Suc hunk_end_def slice_step)

definition walk_inv :: "string list \<Rightarrow> string list \<Rightarrow> nat \<Rightarrow> nat \<Rightarrow> line_hunk option \<Rightarrow> line_hunk list \<Rightarrow> bool" where
  "walk_inv base side i j pending hunks \<longleftrightarrow>
     i \<le> length base \<and> j \<le> length side
     \<and> (case pending of
          None \<Rightarrow> hunks_ok (length base) (Suc i) hunks \<and> apply_from base i hunks = drop j side
        | Some p \<Rightarrow> lhStart p = i \<and> hunk_end p \<le> length base \<and> (lhDeleted p > 0 \<or> lhInserted p \<noteq> [])
            \<and> hunks_ok (length base) (Suc (hunk_end p)) hunks
            \<and> lhInserted p @ apply_from base (hunk_end p) hunks = drop j side)"

lemma walk_inv_flush:
  assumes "walk_inv base side i j pending hunks"
  shows "hunks_ok (length base) i (flush_hunk pending hunks)"
    and "apply_from base i (flush_hunk pending hunks) = drop j side"
  using assms
  by (auto simp: walk_inv_def flush_hunk_def hunk_end_def intro: hunks_ok_mono split: option.splits)


lemma diff_walk_correct:
  "walk_inv base side i j pending hunks \<Longrightarrow>
     hunks_ok (length base) 0 (diff_walk base side t i j pending hunks)
     \<and> apply_from base 0 (diff_walk base side t i j pending hunks) = side"
proof (induction base side t i j pending hunks rule: diff_walk.induct)
  case (1 base side t i j pending hunks)
  note flush = walk_inv_flush [OF "1.prems"]
  let ?w = "diff_walk base side t i j pending hunks"
  consider (stop) "i = 0 \<and> j = 0"
    | (keep) "i > 0 \<and> j > 0 \<and> base ! (i - 1) = side ! (j - 1)"
    | (ins) "\<not> (i > 0 \<and> j > 0 \<and> base ! (i - 1) = side ! (j - 1))"
            "j > 0 \<and> (i = 0 \<or> t ! i ! (j - 1) \<ge> t ! (i - 1) ! j)"
    | (del) "\<not> (i = 0 \<and> j = 0)" "\<not> (i > 0 \<and> j > 0 \<and> base ! (i - 1) = side ! (j - 1))"
            "\<not> (j > 0 \<and> (i = 0 \<or> t ! i ! (j - 1) \<ge> t ! (i - 1) ! j))"
    by blast
  then show ?case
  proof cases
    case stop
    then show ?thesis using flush by (simp add: diff_walk.simps [of base side t 0 0])
  next
    case keep
    have b: "i \<le> length base" "j \<le> length side" using "1.prems" by (auto simp: walk_inv_def)
    have "walk_inv base side (i - 1) (j - 1) None (flush_hunk pending hunks)"
      using flush b keep apply_from_step [of "length base" "i - 1" "flush_hunk pending hunks" base]
        Cons_nth_drop_Suc [of "j - 1" side]
      by (auto simp: walk_inv_def)
    then show ?thesis using "1.IH"(1) keep by (simp add: diff_walk.simps [of _ _ _ i])
  next
    case ins
    let ?p = "or_default pending \<lparr>lhStart = i, lhDeleted = 0, lhInserted = []\<rparr>"
    have "walk_inv base side i (j - 1) (Some (?p\<lparr>lhInserted := side ! (j - 1) # lhInserted ?p\<rparr>)) hunks"
      using "1.prems" ins(2) Cons_nth_drop_Suc [of "j - 1" side]
      by (auto simp: walk_inv_def hunk_end_def split: option.splits)
    moreover have "?w = diff_walk base side t i (j - 1)
        (Some (?p\<lparr>lhInserted := side ! (j - 1) # lhInserted ?p\<rparr>)) hunks"
      using ins by (subst diff_walk.simps) (auto simp: Let_def)
    ultimately show ?thesis using "1.IH"(2) ins by simp
  next
    case del
    let ?p = "or_default pending \<lparr>lhStart = i - 1, lhDeleted = 0, lhInserted = []\<rparr>"
    have "i > 0" using del by auto
    then have "walk_inv base side (i - 1) j (Some (?p\<lparr>lhStart := i - 1, lhDeleted := lhDeleted ?p + 1\<rparr>)) hunks"
      using "1.prems"
      by (auto simp: walk_inv_def hunk_end_def split: option.splits)
    moreover have "?w = diff_walk base side t (i - 1) j
        (Some (?p\<lparr>lhStart := i - 1, lhDeleted := lhDeleted ?p + 1\<rparr>)) hunks"
      using del by (subst diff_walk.simps) (auto simp: Let_def)
    ultimately show ?thesis using "1.IH"(3) del by simp
  qed
qed

lemma diffHunks_ok: "hunks_ok (length base) 0 (diffHunks base side)"
  and diffHunks_apply: "apply_from base 0 (diffHunks base side) = side"
  using diff_walk_correct [of base side "length base" "length side" None "[]" "lcsTable base side"]
  by (simp_all add: diffHunks_def walk_inv_def)

definition before :: "line_hunk \<Rightarrow> line_hunk \<Rightarrow> bool" where
  "before a b \<longleftrightarrow> lhStart a < lhStart b \<and> hunk_end a \<le> lhStart b"

lemma hunks_ok_bounds: "hunks_ok n c hs \<Longrightarrow> h \<in> set hs \<Longrightarrow> c \<le> lhStart h \<and> hunk_end h \<le> n"
proof (induction hs arbitrary: c)
  case (Cons g hs)
  show ?case
  proof (cases "h = g")
    case False
    then show ?thesis using Cons.prems Cons.IH [of "Suc (hunk_end g)"] by (auto simp: hunk_end_def)
  qed (use Cons.prems in auto)
qed simp

lemma hunks_ok_before: "hunks_ok n c hs \<Longrightarrow> sorted_wrt before hs"
proof (induction hs arbitrary: c)
  case (Cons h hs)
  then have "\<forall>g \<in> set hs. Suc (hunk_end h) \<le> lhStart g" using hunks_ok_bounds by fastforce
  then show ?case using Cons by (auto simp: before_def hunk_end_def)
qed simp

section \<open>The line-wise specification\<close>

text \<open>
  \<open>render base ins del\<close>: in front of base line \<open>i\<close> stand the lines \<open>ins i\<close>, the line itself stays
  unless \<open>del i\<close>, and \<open>ins (length base)\<close> stands at the end.
\<close>

definition render_from :: "string list \<Rightarrow> (nat \<Rightarrow> string list) \<Rightarrow> (nat \<Rightarrow> bool) \<Rightarrow> nat \<Rightarrow> string list" where
  "render_from base ins del c =
     concat (map (\<lambda>i. ins i @ (if del i then [] else [base ! i])) [c..<length base]) @ ins (length base)"

abbreviation render :: "string list \<Rightarrow> (nat \<Rightarrow> string list) \<Rightarrow> (nat \<Rightarrow> bool) \<Rightarrow> string list" where
  "render base ins del \<equiv> render_from base ins del 0"

definition ins_of :: "line_hunk list \<Rightarrow> nat \<Rightarrow> string list" where
  "ins_of hs i = concat (map lhInserted (filter (\<lambda>h. lhStart h = i) hs))"

definition del_of :: "line_hunk list \<Rightarrow> nat \<Rightarrow> bool" where
  "del_of hs i = list_ex (\<lambda>h. lhStart h \<le> i \<and> i < hunk_end h) hs"

lemma render_from_split:
  assumes "c \<le> k" and "k \<le> length base"
  shows "render_from base ins del c =
     concat (map (\<lambda>i. ins i @ (if del i then [] else [base ! i])) [c..<k]) @ render_from base ins del k"
proof -
  have "[c..<length base] = [c..<k] @ [k..<length base]"
    using assms upt_add_eq_append [of c k "length base - k"] by simp
  then show ?thesis by (simp add: render_from_def)
qed

lemma render_from_cong:
  assumes "\<And>i. c \<le> i \<Longrightarrow> i \<le> length base \<Longrightarrow> ins i = ins' i" and "\<And>i. c \<le> i \<Longrightarrow> i < length base \<Longrightarrow> del i = del' i"
    and "c \<le> length base"
  shows "render_from base ins del c = render_from base ins' del' c"
proof -
  have "map (\<lambda>i. ins i @ (if del i then [] else [base ! i])) [c..<length base] =
      map (\<lambda>i. ins' i @ (if del' i then [] else [base ! i])) [c..<length base]"
    by (rule map_cong) (use assms in auto)
  then show ?thesis by (simp only: render_from_def) (simp add: assms)
qed

lemma render_keep: "(\<And>i. c \<le> i \<Longrightarrow> i < k \<Longrightarrow> ins i = [] \<and> \<not> del i) \<Longrightarrow> k \<le> length base \<Longrightarrow>
    concat (map (\<lambda>i. ins i @ (if del i then [] else [base ! i])) [c..<k]) = slice c k base"
proof (induction "k - c" arbitrary: c)
  case 0
  then show ?case by (simp add: slice_def)
next
  case (Suc d)
  then have "c < k" by simp
  then have "[c..<k] = c # [Suc c..<k]" by (simp add: upt_conv_Cons)
  moreover have "d = k - Suc c" using Suc.hyps by simp
  ultimately show ?case using Suc.prems Suc.hyps(1) [of "Suc c"] \<open>c < k\<close> slice_step [of c k base] by simp
qed

lemma render_drop: "(\<And>i. c \<le> i \<Longrightarrow> i < k \<Longrightarrow> ins i = [] \<and> del i) \<Longrightarrow>
    concat (map (\<lambda>i. ins i @ (if del i then [] else [base ! i])) [c..<k]) = []"
  by simp

lemma ins_of_empty: "(\<And>h. h \<in> set hs \<Longrightarrow> lhStart h \<noteq> i) \<Longrightarrow> ins_of hs i = []"
  by (auto simp: ins_of_def filter_empty_conv)

lemma del_of_iff: "del_of hs i \<longleftrightarrow> (\<exists>h \<in> set hs. lhStart h \<le> i \<and> i < hunk_end h)"
  by (auto simp: del_of_def list_ex_iff)

lemma render_skip:
  assumes b: "\<And>g. g \<in> set hs \<Longrightarrow> before h g" and e: "hunk_end h \<le> length base"
  shows "render_from base (ins_of (h # hs)) (del_of (h # hs)) (lhStart h) =
     lhInserted h @ render_from base (ins_of hs) (del_of hs) (hunk_end h)"
proof -
  let ?s = "lhStart h" and ?e = "hunk_end h"
  let ?I = "ins_of (h # hs)" and ?D = "del_of (h # hs)"
  have gt: "?s < lhStart g \<and> ?e \<le> lhStart g" if "g \<in> set hs" for g
    using b [OF that] by (simp add: before_def)
  have none: "ins_of hs i = []" if "i \<le> ?s \<or> i < ?e" for i
    using gt that by (intro ins_of_empty) fastforce
  have I: "?I i = (if i = ?s then lhInserted h else ins_of hs i)" for i
    using none [of ?s] by (simp add: ins_of_def)
  have D: "?D i \<longleftrightarrow> (?s \<le> i \<and> i < ?e) \<or> del_of hs i" for i
    by (auto simp: del_of_iff)
  show ?thesis
  proof (cases "lhDeleted h = 0")
    case True
    then have se: "?e = ?s" by (simp add: hunk_end_def)
    have rest: "render_from base ?I ?D (Suc ?s) = render_from base (ins_of hs) (del_of hs) (Suc ?s)"
      if "?s < length base"
      by (rule render_from_cong) (use that in \<open>auto simp: I D se\<close>)
    show ?thesis
    proof (cases "?s < length base")
      case True
      then show ?thesis using rest True none [of ?s]
        by (simp add: se render_from_split [of ?s "Suc ?s"] I D)
    next
      case False
      then have "?s = length base" using e se by simp
      then show ?thesis using none [of ?s] by (simp add: se render_from_def I)
    qed
  next
    case False
    then have lt: "?s < ?e" by (simp add: hunk_end_def)
    have "render_from base ?I ?D ?s =
        concat (map (\<lambda>i. ?I i @ (if ?D i then [] else [base ! i])) [?s..<?e]) @ render_from base ?I ?D ?e"
      using lt e by (intro render_from_split) auto
    also have "concat (map (\<lambda>i. ?I i @ (if ?D i then [] else [base ! i])) [?s..<?e]) = lhInserted h"
    proof -
      have "concat (map (\<lambda>i. ?I i @ (if ?D i then [] else [base ! i])) [Suc ?s..<?e]) = []"
        by (rule render_drop) (auto simp: I D none)
      then show ?thesis using lt by (simp add: upt_conv_Cons I D)
    qed
    also have "render_from base ?I ?D ?e = render_from base (ins_of hs) (del_of hs) ?e"
      by (rule render_from_cong) (use lt e in \<open>auto simp: I D\<close>)
    finally show ?thesis .
  qed
qed

lemma apply_from_render:
  "sorted_wrt before hs \<Longrightarrow> (\<And>h. h \<in> set hs \<Longrightarrow> c \<le> lhStart h \<and> hunk_end h \<le> length base) \<Longrightarrow> c \<le> length base \<Longrightarrow>
   apply_from base c hs = render_from base (ins_of hs) (del_of hs) c"
proof (induction hs arbitrary: c)
  case Nil
  have "concat (map (\<lambda>i. ins_of [] i @ (if del_of [] i then [] else [base ! i])) [c..<length base])
      = slice c (length base) base"
    by (rule render_keep) (auto simp: ins_of_def del_of_def)
  then show ?case by (simp only: render_from_def) (simp add: ins_of_def slice_def)
next
  case (Cons h hs)
  let ?I = "ins_of (h # hs)" and ?D = "del_of (h # hs)"
  have bnd: "c \<le> lhStart h" "hunk_end h \<le> length base" "lhStart h \<le> hunk_end h"
    using Cons.prems(2) [of h] by (auto simp: hunk_end_def)
  have b: "\<And>g. g \<in> set hs \<Longrightarrow> before h g" using Cons.prems(1) by simp
  have "apply_from base (hunk_end h) hs = render_from base (ins_of hs) (del_of hs) (hunk_end h)"
    using Cons.prems b bnd by (intro Cons.IH) (auto simp: before_def)
  moreover have "concat (map (\<lambda>i. ?I i @ (if ?D i then [] else [base ! i])) [c..<lhStart h]) = slice c (lhStart h) base"
    using bnd by (intro render_keep conjI ins_of_empty) (fastforce simp: before_def del_of_iff dest: b)+
  ultimately show ?case
    using render_skip [OF b bnd(2)] bnd render_from_split [of c "lhStart h" base ?I ?D]
    by (simp add: hunk_end_def)
qed

section \<open>The diff is a minimal edit\<close>

definition deleted_lines :: "line_hunk list \<Rightarrow> nat" where
  "deleted_lines hs = sum_list (map lhDeleted hs)"

definition inserted_lines :: "line_hunk list \<Rightarrow> nat" where
  "inserted_lines hs = sum_list (map (\<lambda>h. length (lhInserted h)) hs)"

lemma diff_walk_counts:
  "i \<le> length base \<Longrightarrow> j \<le> length side \<Longrightarrow> t = lcsTable base side \<Longrightarrow>
     deleted_lines (diff_walk base side t i j pending hunks) + t ! i ! j
       = i + deleted_lines (flush_hunk pending hunks)
     \<and> inserted_lines (diff_walk base side t i j pending hunks) + t ! i ! j
       = j + inserted_lines (flush_hunk pending hunks)"
proof (induction base side t i j pending hunks rule: diff_walk.induct)
  case (1 base side t i j pending hunks)
  let ?w = "diff_walk base side t i j pending hunks"
  note cells = lcs_table.cell_match [of "i - 1" base "j - 1" side]
    lcs_table.cell_differ [of "i - 1" base "j - 1" side]
    lcs_table.row_zero [of j side base] lcs_table.row_zero [of "j - 1" side base]
    lcs_table.col_zero [of i base side] lcs_table.col_zero [of "i - 1" base side]
  consider (stop) "i = 0 \<and> j = 0"
    | (keep) "i > 0 \<and> j > 0 \<and> base ! (i - 1) = side ! (j - 1)"
    | (ins) "\<not> (i > 0 \<and> j > 0 \<and> base ! (i - 1) = side ! (j - 1))"
            "j > 0 \<and> (i = 0 \<or> t ! i ! (j - 1) \<ge> t ! (i - 1) ! j)"
    | (del) "\<not> (i = 0 \<and> j = 0)" "\<not> (i > 0 \<and> j > 0 \<and> base ! (i - 1) = side ! (j - 1))"
            "\<not> (j > 0 \<and> (i = 0 \<or> t ! i ! (j - 1) \<ge> t ! (i - 1) ! j))"
    by blast
  then show ?case
  proof cases
    case stop
    then have "?w = flush_hunk pending hunks" by (subst diff_walk.simps) auto
    then show ?thesis using "1.prems" cells stop by simp
  next
    case keep
    have "?w = diff_walk base side t (i - 1) (j - 1) None (flush_hunk pending hunks)"
      using keep by (subst diff_walk.simps) auto
    then show ?thesis using "1.IH"(1) "1.prems" keep cells by (auto simp: flush_hunk_def [of None])
  next
    case ins
    let ?p = "or_default pending \<lparr>lhStart = i, lhDeleted = 0, lhInserted = []\<rparr>"
    have "?w = diff_walk base side t i (j - 1)
        (Some (?p\<lparr>lhInserted := side ! (j - 1) # lhInserted ?p\<rparr>)) hunks"
      using ins by (subst diff_walk.simps) (auto simp: Let_def)
    moreover have "t ! i ! j = t ! i ! (j - 1)"
      using ins "1.prems" cells by (cases "i = 0") auto
    ultimately show ?thesis using "1.IH"(2) "1.prems" ins
      by (auto simp: flush_hunk_def deleted_lines_def inserted_lines_def split: option.splits)
  next
    case del
    let ?p = "or_default pending \<lparr>lhStart = i - 1, lhDeleted = 0, lhInserted = []\<rparr>"
    have "?w = diff_walk base side t (i - 1) j
        (Some (?p\<lparr>lhStart := i - 1, lhDeleted := lhDeleted ?p + 1\<rparr>)) hunks"
      using del by (subst diff_walk.simps) (auto simp: Let_def)
    moreover have "t ! i ! j = t ! (i - 1) ! j" "i > 0"
      using del "1.prems" cells by (cases "j = 0"; auto)+
    ultimately show ?thesis using "1.IH"(3) "1.prems" del
      by (auto simp: flush_hunk_def deleted_lines_def inserted_lines_def split: option.splits)
  qed
qed

lemma diffHunks_counts:
  "deleted_lines (diffHunks base side) + lcsTable base side ! length base ! length side = length base"
  "inserted_lines (diffHunks base side) + lcsTable base side ! length base ! length side = length side"
  using diff_walk_counts [of "length base" base "length side" side "lcsTable base side" None "[]"]
  by (simp_all add: diffHunks_def flush_hunk_def deleted_lines_def inserted_lines_def)

text \<open>
  C35 (roundtrip): the diff of a side against the base is exact and minimal: applying its hunks to
  the base gives the side back, and no common subsequence of the two texts keeps more lines than
  the diff keeps.
\<close>

theorem diffHunks_exact_minimal:
  "apply_from base 0 (diffHunks base side) = side
   \<and> deleted_lines (diffHunks base side) \<le> length base
   \<and> (\<forall>zs. subseq zs base \<and> subseq zs side \<longrightarrow>
        length zs \<le> length base - deleted_lines (diffHunks base side))"
proof (intro conjI allI impI)
  show "apply_from base 0 (diffHunks base side) = side" by (rule diffHunks_apply)
  show "deleted_lines (diffHunks base side) \<le> length base" using diffHunks_counts(1) [of base side] by simp
  fix zs assume "subseq zs base \<and> subseq zs side"
  then have "length zs \<le> lcsTable base side ! length base ! length side"
    by (intro lcs_table.upper) auto
  then show "length zs \<le> length base - deleted_lines (diffHunks base side)"
    using diffHunks_counts(1) [of base side] by simp
qed

theorem diffHunks_exact_minimal_witness:
  "apply_from [''a'', ''b'', ''c''] 0 (diffHunks [''a'', ''b'', ''c''] [''b'', ''c'', ''d'']) = [''b'', ''c'', ''d'']
   \<and> deleted_lines (diffHunks [''a'', ''b'', ''c''] [''b'', ''c'', ''d'']) = 1
   \<and> (\<nexists>zs. subseq zs [''a'', ''b'', ''c''] \<and> subseq zs [''b'', ''c'', ''d''] \<and> 2 < length zs)"
proof -
  have v: "deleted_lines (diffHunks [''a'', ''b'', ''c''] [''b'', ''c'', ''d'']) = 1" by code_simp
  show ?thesis
    using diffHunks_exact_minimal [of "[''a'', ''b'', ''c'']" "[''b'', ''c'', ''d'']"] unfolding v by (auto dest: leD)
qed

section \<open>The merge\<close>

lemma hunk_overlap_iff:
  "hunk_overlap a b \<longleftrightarrow>
     lhStart a < lhStart b + max (lhDeleted b) 1 \<and> lhStart b < lhStart a + max (lhDeleted a) 1"
  by (auto simp: hunk_overlap_def Let_def max_def)

lemma no_overlap_before: "\<not> hunk_overlap a b \<Longrightarrow> before a b \<or> before b a"
  by (auto simp: hunk_overlap_iff before_def hunk_end_def max_def split: if_splits)

lemma hunksOverlap_sym: "hunksOverlap A B = hunksOverlap B A"
  by (auto simp: hunksOverlap_def list_ex_iff hunk_overlap_iff)

lemma before_starts: "sorted_wrt before hs \<Longrightarrow> distinct (map lhStart hs)"
  by (induction hs) (fastforce simp: before_def)+

lemma before_cases: "sorted_wrt before hs \<Longrightarrow> x \<in> set hs \<Longrightarrow> y \<in> set hs \<Longrightarrow> x = y \<or> before x y \<or> before y x"
  by (induction hs) auto

lemma merge_starts_distinct:
  assumes "sorted_wrt before A" and "sorted_wrt before B" and "\<not> hunksOverlap A B"
  shows "distinct (map lhStart (A @ B))"
proof -
  have "lhStart a \<noteq> lhStart b" if "a \<in> set A" "b \<in> set B" for a b
  proof -
    have "\<not> hunk_overlap a b" using assms(3) that by (auto simp: hunksOverlap_def list_ex_iff)
    from no_overlap_before [OF this] show ?thesis by (auto simp: before_def)
  qed
  then show ?thesis using before_starts [OF assms(1)] before_starts [OF assms(2)] by (auto simp: image_iff)
qed

lemma strict_starts:
  "distinct (map lhStart hs) \<Longrightarrow> sorted_wrt (\<lambda>x y. lhStart x \<le> lhStart y) hs \<Longrightarrow>
   sorted_wrt (\<lambda>x y. lhStart x < lhStart y) hs"
  by (induction hs) (auto simp: less_le)

lemma sort_hunks_before:
  assumes "sorted_wrt before A" and "sorted_wrt before B" and "\<not> hunksOverlap A B"
  shows "sorted_wrt before (sort_key hunk_key (A @ B))"
proof -
  let ?s = "sort_key hunk_key (A @ B)"
  have cross: "before a b \<or> before b a" if "a \<in> set A" "b \<in> set B" for a b
    using assms(3) that no_overlap_before [of a b] by (auto simp: hunksOverlap_def list_ex_iff)
  have cmp: "x = y \<or> before x y \<or> before y x" if "x \<in> set (A @ B)" "y \<in> set (A @ B)" for x y
    using that cross [of x y] cross [of y x] before_cases [OF assms(1), of x y] before_cases [OF assms(2), of x y]
    by auto
  have d: "distinct (map lhStart ?s)"
    using merge_starts_distinct [OF assms] by (metis distinct_map distinct_sort set_sort sort_key_def)
  have "sorted_wrt (\<lambda>x y. hunk_key x \<le> hunk_key y) ?s"
    using sorted_sort_key [of hunk_key "A @ B"] by (simp add: sorted_map)
  then have "sorted_wrt (\<lambda>x y. lhStart x \<le> lhStart y) ?s"
    by (rule sorted_wrt_mono_rel [rotated]) (auto simp: hunk_key_def less_eq_prod_def)
  with d have "sorted_wrt (\<lambda>x y. lhStart x < lhStart y) ?s"
    by (rule strict_starts)
  then show ?thesis
  proof (rule sorted_wrt_mono_rel [rotated])
    fix x y assume "x \<in> set ?s" "y \<in> set ?s" "lhStart x < lhStart y"
    then show "before x y" using cmp [of x y] by (auto simp: before_def)
  qed
qed

lemma ins_of_mset:
  assumes "mset xs = mset ys" and "distinct (map lhStart ys)"
  shows "ins_of xs i = ins_of ys i"
proof -
  let ?f = "\<lambda>zs. filter (\<lambda>h. lhStart h = i) zs"
  have m: "mset (?f xs) = mset (?f ys)" using assms(1) by simp
  have "length (?f ys) \<le> 1"
    using assms(2) by (induction ys) (auto simp: filter_empty_conv image_iff)
  then have "?f xs = ?f ys"
    using m mset_eq_length [OF m] by (cases "?f ys"; cases "?f xs") auto
  then show ?thesis by (simp add: ins_of_def)
qed

lemma ins_of_append: "ins_of (A @ B) i = ins_of A i @ ins_of B i"
  by (simp add: ins_of_def)

lemma del_of_set: "set xs = set ys \<Longrightarrow> del_of xs i = del_of ys i"
  by (simp add: del_of_iff)

lemma apply_merged:
  assumes "hunks_ok (length base) 0 A" and "hunks_ok (length base) 0 B" and "\<not> hunksOverlap A B"
  shows "apply_from base 0 (sort_key hunk_key (A @ B)) =
     render base (\<lambda>i. ins_of A i @ ins_of B i) (\<lambda>i. del_of A i \<or> del_of B i)"
proof -
  let ?s = "sort_key hunk_key (A @ B)"
  have sb: "sorted_wrt before A" "sorted_wrt before B" using assms by (auto intro: hunks_ok_before)
  have "apply_from base 0 ?s = render base (ins_of ?s) (del_of ?s)"
    using sort_hunks_before [OF sb assms(3)] hunks_ok_bounds [OF assms(1)] hunks_ok_bounds [OF assms(2)]
    by (intro apply_from_render) auto
  also have "ins_of ?s = (\<lambda>i. ins_of A i @ ins_of B i)"
    using ins_of_mset [of ?s "A @ B"] merge_starts_distinct [OF sb assms(3)] by (auto simp: ins_of_append)
  also have "del_of ?s = (\<lambda>i. del_of A i \<or> del_of B i)"
    using del_of_set [of ?s "A @ B"] by (auto simp: del_of_def)
  finally show ?thesis .
qed

lemma diff_render: "render base (ins_of (diffHunks base side)) (del_of (diffHunks base side)) = side"
  using apply_from_render [OF hunks_ok_before [OF diffHunks_ok [of base side]], of 0 base]
    hunks_ok_bounds [OF diffHunks_ok [of base side]] diffHunks_apply [of base side] by simp

lemma no_overlap_disjoint:
  assumes "\<not> hunksOverlap A B"
  shows "(ins_of A i = [] \<or> ins_of B i = []) \<and> \<not> (del_of A i \<and> del_of B i)"
proof -
  have n: "before a b \<or> before b a" if "a \<in> set A" "b \<in> set B" for a b
    using assms that no_overlap_before [of a b] by (auto simp: hunksOverlap_def list_ex_iff)
  have "ins_of A i = [] \<or> (\<exists>a \<in> set A. lhStart a = i)" "ins_of B i = [] \<or> (\<exists>b \<in> set B. lhStart b = i)"
    using ins_of_empty by blast+
  then show ?thesis using n by (fastforce simp: before_def del_of_iff)
qed

interpretation text_merge: three_way "(=)" threeWayMergeText
  by unfold_locales (auto simp: threeWayMergeText_def)

text \<open>
  C2 (refinement): the text merge implements the line-wise contract. When it succeeds on texts
  that all differ, there is an edit of the base that gives our lines and one that gives theirs,
  no gap of the base receives lines from both, no line is dropped by both, and the result is the
  base with the insertions of either side and without the lines that either side dropped.
\<close>

theorem threeWayMergeText_combines_edits:
  assumes "threeWayMergeText base ours theirs = Some merged"
    and "ours \<noteq> theirs" and "ours \<noteq> base" and "theirs \<noteq> base"
  shows "\<exists>insO delO insT delT.
     render (splitMergeLines base) insO delO = splitMergeLines ours
     \<and> render (splitMergeLines base) insT delT = splitMergeLines theirs
     \<and> (\<forall>i. (insO i = [] \<or> insT i = []) \<and> \<not> (delO i \<and> delT i))
     \<and> merged = joinMergeLines
         (render (splitMergeLines base) (\<lambda>i. insO i @ insT i) (\<lambda>i. delO i \<or> delT i))"
proof -
  let ?b = "splitMergeLines base"
  let ?A = "diffHunks ?b (splitMergeLines ours)" and ?B = "diffHunks ?b (splitMergeLines theirs)"
  have no: "\<not> hunksOverlap ?A ?B" and m: "merged = applyHunks ?b (?A @ ?B)"
    using assms by (auto simp: threeWayMergeText_def Let_def split: if_splits)
  have "merged = joinMergeLines (render ?b (\<lambda>i. ins_of ?A i @ ins_of ?B i) (\<lambda>i. del_of ?A i \<or> del_of ?B i))"
    using apply_merged [OF diffHunks_ok diffHunks_ok no] m by (simp add: applyHunks_def)
  then show ?thesis
    using diff_render [of ?b "splitMergeLines ours"] diff_render [of ?b "splitMergeLines theirs"]
      no_overlap_disjoint [OF no]
    by (intro exI [of _ "ins_of ?A"] exI [of _ "del_of ?A"] exI [of _ "ins_of ?B"] exI [of _ "del_of ?B"]) auto
qed

theorem threeWayMergeText_combines_edits_witness:
  "let base = join [newline] [''a'', ''b'', ''c'']; ours = join [newline] [''x'', ''a'', ''b'', ''c''];
       theirs = join [newline] [''a'', ''b'']
   in threeWayMergeText base ours theirs = Some (join [newline] [''x'', ''a'', ''b''])
      \<and> (\<exists>insO delO insT delT.
     render (splitMergeLines base) insO delO = splitMergeLines ours
     \<and> render (splitMergeLines base) insT delT = splitMergeLines theirs
     \<and> (\<forall>i. (insO i = [] \<or> insT i = []) \<and> \<not> (delO i \<and> delT i))
     \<and> join [newline] [''x'', ''a'', ''b''] = joinMergeLines
         (render (splitMergeLines base) (\<lambda>i. insO i @ insT i) (\<lambda>i. delO i \<or> delT i)))"
proof -
  have v: "threeWayMergeText (join [newline] [''a'', ''b'', ''c'']) (join [newline] [''x'', ''a'', ''b'', ''c''])
     (join [newline] [''a'', ''b'']) = Some (join [newline] [''x'', ''a'', ''b''])" by code_simp
  show ?thesis using threeWayMergeText_combines_edits [OF v] v by (simp add: Let_def)
qed

text \<open>
  The text merge does not depend on which side is called ours: exchanging the
  sides gives the same text, or a conflict in both cases.
\<close>

theorem threeWayMergeText_symmetric:
  "threeWayMergeText base ours theirs = threeWayMergeText base theirs ours"
proof -
  let ?b = "splitMergeLines base"
  let ?A = "diffHunks ?b (splitMergeLines ours)" and ?B = "diffHunks ?b (splitMergeLines theirs)"
  have "applyHunks ?b (?A @ ?B) = applyHunks ?b (?B @ ?A)" if no: "\<not> hunksOverlap ?A ?B"
  proof -
    have no': "\<not> hunksOverlap ?B ?A" using no hunksOverlap_sym by blast
    have "(\<lambda>i. ins_of ?A i @ ins_of ?B i) = (\<lambda>i. ins_of ?B i @ ins_of ?A i)"
    proof
      fix i show "ins_of ?A i @ ins_of ?B i = ins_of ?B i @ ins_of ?A i"
        using no_overlap_disjoint [OF no, of i] by auto
    qed
    moreover have "(\<lambda>i. del_of ?A i \<or> del_of ?B i) = (\<lambda>i. del_of ?B i \<or> del_of ?A i)" by auto
    ultimately show ?thesis
      using apply_merged [OF diffHunks_ok diffHunks_ok no] apply_merged [OF diffHunks_ok diffHunks_ok no']
      by (simp add: applyHunks_def)
  qed
  then show ?thesis using hunksOverlap_sym [of ?A ?B] by (auto simp: threeWayMergeText_def Let_def)
qed

section \<open>Conflict markers\<close>

lemma str_includes_append1: "str_includes s p \<Longrightarrow> str_includes (x @ s) p"
  by (induction x) auto

lemma starts_with_append: "starts_with (p @ s) p"
  by (simp add: starts_with_def)

lemma str_includes_here: "str_includes (p @ s) p"
proof (cases "p @ s")
  case (Cons a as)
  then show ?thesis using starts_with_append [of p s] by simp
qed simp

lemma str_includes_mid: "str_includes (x @ p @ y) p"
  by (intro str_includes_append1 str_includes_here)

text \<open>
  A file written with conflict markers is always recognised as unresolved, whatever
  the two versions and labels are, so a merge cannot be continued with the markers in place.
\<close>

theorem formatConflictMarkers_detected:
  "fileHasConflictMarkers (formatConflictMarkers ours theirs oursLabel theirsLabel)"
proof -
  let ?t = "formatConflictMarkers ours theirs oursLabel theirsLabel"
  have "?t = [] @ CONFLICT_OURS_MARK @ ('' '' @ oursLabel @ [newline] @ conflict_body ours
       @ CONFLICT_MID_MARK @ [newline] @ conflict_body theirs
       @ CONFLICT_THEIRS_MARK @ '' '' @ theirsLabel @ [newline])"
    by (simp add: formatConflictMarkers_def)
  moreover have "?t = (CONFLICT_OURS_MARK @ '' '' @ oursLabel @ [newline] @ conflict_body ours)
       @ CONFLICT_MID_MARK @ ([newline] @ conflict_body theirs
       @ CONFLICT_THEIRS_MARK @ '' '' @ theirsLabel @ [newline])"
    by (simp add: formatConflictMarkers_def)
  moreover have "?t = (CONFLICT_OURS_MARK @ '' '' @ oursLabel @ [newline] @ conflict_body ours
       @ CONFLICT_MID_MARK @ [newline] @ conflict_body theirs)
       @ CONFLICT_THEIRS_MARK @ ('' '' @ theirsLabel @ [newline])"
    by (simp add: formatConflictMarkers_def)
  ultimately show ?thesis unfolding fileHasConflictMarkers_def by (metis str_includes_mid)
qed

end
