(* ===== verification/Blame.thy ===== *)
theory Blame
  imports Lcs CheckpointTypes
begin

text \<open>
  Line blame (\<open>manager/blame.ts\<close>), the computation on texts: splitting, the alignment of two
  versions by their longest common subsequence, the attribution of each current line to the
  version that introduced it, and the collapsed ranges. A version whose content is missing is
  \<^term>\<open>None\<close>.
\<close>

section \<open>Definitions\<close>

record blame_version =
  bvCheckpointId :: string
  bvLabel :: "string option"
  bvDescription :: string
  bvOriginPath :: string
  bvLines :: "string list option"

record blame_line =
  blLine :: nat
  blText :: string
  blCheckpointId :: "string option"
  blLabel :: "string option"
  blDescription :: "string option"
  blOriginPath :: "string option"

record blame_range =
  rgStart :: nat
  rgEnd :: nat
  rgCheckpointId :: "string option"
  rgLabel :: "string option"
  rgDescription :: "string option"
  rgOriginPath :: "string option"

definition splitLines :: "string \<Rightarrow> string list" where
  "splitLines text =
     (if text = [] then []
      else (let lines = split_on newline text
            in if lines \<noteq> [] \<and> last lines = [] then butlast lines else lines))"

function align_walk ::
  "string list \<Rightarrow> string list \<Rightarrow> nat list list \<Rightarrow> nat \<Rightarrow> nat \<Rightarrow> nat option list \<Rightarrow> nat option list" where
  "align_walk a b t i j mapped =
     (if i > 0 \<and> j > 0 then
        if a ! (i - 1) = b ! (j - 1) then align_walk a b t (i - 1) (j - 1) (mapped[j - 1 := Some (i - 1)])
        else if t ! i ! (j - 1) \<ge> t ! (i - 1) ! j then align_walk a b t i (j - 1) mapped
        else align_walk a b t (i - 1) j mapped
      else mapped)"
  by pat_completeness auto
termination by (relation "measure (\<lambda>(a, b, t, i, j, m). i + j)") auto

declare align_walk.simps [simp del]

definition alignBToA :: "string list option \<Rightarrow> string list option \<Rightarrow> nat option list" where
  "alignBToA a b =
     (case b of
        None \<Rightarrow> []
      | Some bs \<Rightarrow>
          (let mapped = replicate (length bs) None
           in case a of
                None \<Rightarrow> mapped
              | Some as \<Rightarrow>
                  if as = [] \<or> bs = [] then mapped
                  else align_walk as bs (lcsTable as bs) (length as) (length bs) mapped))"

text \<open>
  The inner loop of \<open>attributeLines\<close>: \<open>steps\<close> alignments are still to be followed backwards
  from position \<open>idx\<close>; the result is \<open>origin\<close>.
\<close>

fun trace_origin :: "nat option list list \<Rightarrow> nat \<Rightarrow> nat \<Rightarrow> nat" where
  "trace_origin alignments 0 idx = 0"
| "trace_origin alignments (Suc step) idx =
     (case Option.bind (nth_opt (alignments ! step) idx) (\<lambda>x. x) of
        None \<Rightarrow> step + 1
      | Some prev \<Rightarrow> trace_origin alignments step prev)"

definition plain_line :: "nat \<Rightarrow> string \<Rightarrow> blame_line" where
  "plain_line n text = \<lparr>blLine = n, blText = text, blCheckpointId = None, blLabel = None,
     blDescription = None, blOriginPath = None\<rparr>"

definition version_contents :: "blame_version list \<Rightarrow> string list \<Rightarrow> string list option list" where
  "version_contents versions current = map bvLines versions @ [Some current]"

definition version_alignments :: "string list option list \<Rightarrow> nat option list list" where
  "version_alignments contents = map (\<lambda>i. alignBToA (contents ! i) (contents ! (i + 1))) [0..<length contents - 1]"

definition attribute_line ::
  "blame_version list \<Rightarrow> nat option list list \<Rightarrow> string list \<Rightarrow> nat \<Rightarrow> blame_line" where
  "attribute_line versions alignments current j =
     (let origin = trace_origin alignments (length alignments) j
      in if origin \<ge> length versions then plain_line (j + 1) (current ! j)
         else (let version = versions ! origin
               in if bvLines version = None then plain_line (j + 1) (current ! j)
                  else \<lparr>blLine = j + 1, blText = current ! j, blCheckpointId = Some (bvCheckpointId version),
                        blLabel = bvLabel version, blDescription = Some (bvDescription version),
                        blOriginPath = Some (bvOriginPath version)\<rparr>))"

definition attributeLines :: "string list \<Rightarrow> blame_version list \<Rightarrow> blame_line list" where
  "attributeLines current versions =
     (let alignments = version_alignments (version_contents versions current)
      in map (attribute_line versions alignments current) [0..<length current])"

definition collapse_step :: "blame_line \<Rightarrow> blame_range list \<Rightarrow> blame_range list" where
  "collapse_step entry ranges =
     (if ranges \<noteq> [] \<and> rgCheckpointId (last ranges) = blCheckpointId entry
         \<and> rgOriginPath (last ranges) = blOriginPath entry
         \<and> int (rgEnd (last ranges)) = int (blLine entry) - 1
      then butlast ranges @ [(last ranges)\<lparr>rgEnd := blLine entry\<rparr>]
      else ranges @ [\<lparr>rgStart = blLine entry, rgEnd = blLine entry, rgCheckpointId = blCheckpointId entry,
              rgLabel = blLabel entry, rgDescription = blDescription entry,
              rgOriginPath = blOriginPath entry\<rparr>])"

definition collapseBlameRanges :: "blame_line list \<Rightarrow> blame_range list" where
  "collapseBlameRanges lines = fold collapse_step lines []"

section \<open>Alignment\<close>

definition align_sound :: "string list \<Rightarrow> string list \<Rightarrow> nat \<Rightarrow> nat option list \<Rightarrow> bool" where
  "align_sound a b i m \<longleftrightarrow>
     (\<forall>k < length b. \<forall>x. m ! k = Some x \<longrightarrow> i \<le> x \<and> x < length a \<and> a ! x = b ! k)"

definition align_mono :: "nat \<Rightarrow> nat option list \<Rightarrow> bool" where
  "align_mono n m \<longleftrightarrow> (\<forall>k < n. \<forall>l < k. \<forall>x y. m ! l = Some x \<longrightarrow> m ! k = Some y \<longrightarrow> x < y)"

definition unset_below :: "nat \<Rightarrow> nat option list \<Rightarrow> bool" where
  "unset_below j m \<longleftrightarrow> (\<forall>k < j. m ! k = None)"

definition align_inv :: "string list \<Rightarrow> string list \<Rightarrow> nat \<Rightarrow> nat \<Rightarrow> nat option list \<Rightarrow> bool" where
  "align_inv a b i j m \<longleftrightarrow> i \<le> length a \<and> j \<le> length b \<and> length m = length b
     \<and> unset_below j m \<and> align_sound a b i m \<and> align_mono (length b) m"

lemma align_soundD: "align_sound a b i m \<Longrightarrow> k < length b \<Longrightarrow> m ! k = Some x \<Longrightarrow> i \<le> x \<and> x < length a \<and> a ! x = b ! k"
  unfolding align_sound_def by blast

lemma align_monoD: "align_mono n m \<Longrightarrow> k < n \<Longrightarrow> l < k \<Longrightarrow> m ! l = Some x \<Longrightarrow> m ! k = Some y \<Longrightarrow> x < y"
  unfolding align_mono_def by blast

lemma unset_belowD: "unset_below j m \<Longrightarrow> k < j \<Longrightarrow> m ! k = None"
  unfolding unset_below_def by blast

definition matched :: "'a option list \<Rightarrow> nat" where
  "matched m = length (filter (\<lambda>x. x \<noteq> None) m)"

lemma matched_update: "k < length m \<Longrightarrow> m ! k = None \<Longrightarrow> matched (m[k := Some x]) = Suc (matched m)"
  by (induction m arbitrary: k) (auto simp: matched_def split: nat.splits)

lemma align_inv_match:
  assumes inv: "align_inv a b i j m" and pos: "i > 0" "j > 0" and eq: "a ! (i - 1) = b ! (j - 1)"
  shows "align_inv a b (i - 1) (j - 1) (m[j - 1 := Some (i - 1)])"
proof -
  let ?m = "m[j - 1 := Some (i - 1)]"
  have len: "length m = length b" and jb: "j \<le> length b" and ia: "i \<le> length a"
    using inv by (auto simp: align_inv_def)
  have upd: "?m ! k = (if k = j - 1 then Some (i - 1) else m ! k)" if "k < length b" for k
    using that len by (auto simp: nth_list_update)
  have none: "\<And>k. k < j \<Longrightarrow> m ! k = None"
    using inv unset_belowD unfolding align_inv_def by blast
  have sound: "\<And>k x. k < length b \<Longrightarrow> m ! k = Some x \<Longrightarrow> i \<le> x \<and> x < length a \<and> a ! x = b ! k"
    using inv align_soundD unfolding align_inv_def by blast
  have mono: "\<And>k l x y. k < length b \<Longrightarrow> l < k \<Longrightarrow> m ! l = Some x \<Longrightarrow> m ! k = Some y \<Longrightarrow> x < y"
    using inv align_monoD unfolding align_inv_def by blast
  have "x < y" if "k < length b" "l < k" "?m ! l = Some x" "?m ! k = Some y" for k l x y
  proof -
    consider "k = j - 1" | "l = j - 1" | "k \<noteq> j - 1" "l \<noteq> j - 1" by blast
    then show ?thesis
    proof cases
      case 1
      then show ?thesis using that upd [of l] none [of l] by (auto split: if_splits)
    next
      case 2
      then show ?thesis using that upd [of k] upd [of l] sound [of k y] pos by (auto split: if_splits)
    next
      case 3
      then show ?thesis using that upd [of k] upd [of l] mono [of k l x y] by auto
    qed
  qed
  then have 1: "align_mono (length b) ?m" unfolding align_mono_def by blast
  have "i - 1 \<le> x \<and> x < length a \<and> a ! x = b ! k" if "k < length b" "?m ! k = Some x" for k x
    using that upd [of k] sound [of k x] pos ia eq by (auto split: if_splits)
  then have 2: "align_sound a b (i - 1) ?m" unfolding align_sound_def by blast
  have "?m ! k = None" if "k < j - 1" for k
    using that upd [of k] none [of k] jb by auto
  then have 3: "unset_below (j - 1) ?m" unfolding unset_below_def by blast
  have "i - 1 \<le> length a" "j - 1 \<le> length b" using ia jb by auto
  then show ?thesis using 1 2 3 len by (simp add: align_inv_def)
qed

lemma align_inv_shrink:
  assumes "align_inv a b i j m" and "i' \<le> i" and "j' \<le> j"
  shows "align_inv a b i' j' m"
proof -
  have s: "align_sound a b i m" and u: "unset_below j m" using assms(1) by (simp_all add: align_inv_def)
  have "align_sound a b i' m"
    unfolding align_sound_def using align_soundD [OF s] assms(2) order_trans by blast
  moreover have "unset_below j' m"
    unfolding unset_below_def using unset_belowD [OF u] assms(3) by (meson less_le_trans)
  ultimately show ?thesis using assms unfolding align_inv_def by simp
qed

lemma align_walk_correct:
  "align_inv a b i j m \<Longrightarrow> t = lcsTable a b \<Longrightarrow>
     align_inv a b 0 0 (align_walk a b t i j m)
     \<and> matched (align_walk a b t i j m) = matched m + t ! i ! j"
proof (induction a b t i j m rule: align_walk.induct)
  case (1 a b t i j m)
  let ?w = "align_walk a b t i j m"
  note inv = "1.prems"(1)
  have bnd: "i \<le> length a" "j \<le> length b" using inv by (auto simp: align_inv_def)
  show ?case
  proof (cases "i > 0 \<and> j > 0")
    case False
    then have "?w = m" by (subst align_walk.simps) auto
    moreover have "align_inv a b 0 0 m" using inv by (rule align_inv_shrink) auto
    moreover have "t ! i ! j = 0"
      using False bnd lcs_table.row_zero [of j b a] lcs_table.col_zero [of i a b] "1.prems"(2) by auto
    ultimately show ?thesis by simp
  next
    case True
    then have lt: "i - 1 < length a" "j - 1 < length b" using bnd by auto
    note cells = lcs_table.cell_match [OF lt] lcs_table.cell_differ [OF lt]
    consider (eq) "a ! (i - 1) = b ! (j - 1)"
      | (left) "a ! (i - 1) \<noteq> b ! (j - 1)" "t ! i ! (j - 1) \<ge> t ! (i - 1) ! j"
      | (up) "a ! (i - 1) \<noteq> b ! (j - 1)" "\<not> t ! i ! (j - 1) \<ge> t ! (i - 1) ! j" by blast
    then show ?thesis
    proof cases
      case eq
      have w: "?w = align_walk a b t (i - 1) (j - 1) (m[j - 1 := Some (i - 1)])"
        using True eq by (subst align_walk.simps) auto
      have "align_inv a b (i - 1) (j - 1) (m[j - 1 := Some (i - 1)])"
        using inv True eq by (intro align_inv_match) auto
      moreover have "matched (m[j - 1 := Some (i - 1)]) = Suc (matched m)"
        using inv True by (intro matched_update) (auto simp: align_inv_def unset_below_def)
      ultimately show ?thesis using "1.IH"(1) True eq cells(1) "1.prems"(2) w by simp
    next
      case left
      have w: "?w = align_walk a b t i (j - 1) m" using True left by (subst align_walk.simps) auto
      have "align_inv a b i (j - 1) m" using inv by (rule align_inv_shrink) auto
      then show ?thesis using "1.IH"(2) True left cells(2) "1.prems"(2) w by simp
    next
      case up
      have w: "?w = align_walk a b t (i - 1) j m" using True up by (subst align_walk.simps) auto
      have "align_inv a b (i - 1) j m" using inv by (rule align_inv_shrink) auto
      then show ?thesis using "1.IH"(3) True up cells(2) "1.prems"(2) w by simp
    qed
  qed
qed

lemma align_inv_start: "align_inv a b (length a) (length b) (replicate (length b) None)"
  by (simp add: align_inv_def align_sound_def align_mono_def unset_below_def)

lemma matched_replicate [simp]: "matched (replicate n None) = 0"
  by (simp add: matched_def)

lemma alignBToA_correct:
  "align_inv a b 0 0 (alignBToA (Some a) (Some b))
   \<and> matched (alignBToA (Some a) (Some b)) = lcsTable a b ! length a ! length b"
proof (cases "a = [] \<or> b = []")
  case True
  then have "alignBToA (Some a) (Some b) = replicate (length b) None" by (auto simp: alignBToA_def Let_def)
  moreover have "lcsTable a b ! length a ! length b = 0"
    using True lcs_table.row_zero [of "length b" b a] lcs_table.col_zero [of "length a" a b] by auto
  ultimately show ?thesis by (simp add: align_inv_def align_sound_def align_mono_def unset_below_def)
next
  case False
  then show ?thesis
    using align_walk_correct [OF align_inv_start [of a b] refl]
    by (simp add: alignBToA_def Let_def)
qed

lemma alignBToA_None_left [simp]: "alignBToA None (Some b) = replicate (length b) None"
  by (simp add: alignBToA_def Let_def)

lemma length_alignBToA [simp]: "length (alignBToA a (Some b)) = length b"
  by (cases a) (use alignBToA_correct in \<open>auto simp: align_inv_def\<close>)

lemma align_walk_refl:
  "i \<le> length a \<Longrightarrow> length m = length a \<Longrightarrow> (\<forall>k. i \<le> k \<longrightarrow> k < length a \<longrightarrow> m ! k = Some k) \<Longrightarrow>
   k < length a \<Longrightarrow> align_walk a a t i i m ! k = Some k"
proof (induction i arbitrary: m)
  case 0
  then show ?case by (subst align_walk.simps) auto
next
  case (Suc i)
  have "align_walk a a t (Suc i) (Suc i) m = align_walk a a t i i (m[i := Some i])"
    by (subst align_walk.simps) auto
  moreover have "align_walk a a t i i (m[i := Some i]) ! k = Some k"
    using Suc.prems by (intro Suc.IH) (auto simp: nth_list_update)
  ultimately show ?case by simp
qed

lemma alignBToA_refl: "k < length a \<Longrightarrow> alignBToA (Some a) (Some a) ! k = Some k"
  by (cases "a = []") (auto simp: alignBToA_def Let_def intro!: align_walk_refl)

text \<open>
  C36 (functional): the alignment of a newer version with an older one maps lines to equal lines,
  never crosses (later lines map to later lines), and is of maximal size: as many lines are
  mapped as a longest common subsequence of the two versions has.
\<close>

theorem alignBToA_maximal:
  "length (alignBToA (Some a) (Some b)) = length b
   \<and> (\<forall>k < length b. case alignBToA (Some a) (Some b) ! k of
        None \<Rightarrow> True | Some x \<Rightarrow> x < length a \<and> a ! x = b ! k)
   \<and> (\<forall>k < length b. \<forall>l < k. case (alignBToA (Some a) (Some b) ! l, alignBToA (Some a) (Some b) ! k) of
        (Some x, Some y) \<Rightarrow> x < y | _ \<Rightarrow> True)
   \<and> (\<forall>zs. subseq zs a \<and> subseq zs b \<longrightarrow> length zs \<le> matched (alignBToA (Some a) (Some b)))"
proof -
  note c = alignBToA_correct [of a b]
  have inv: "align_inv a b 0 0 (alignBToA (Some a) (Some b))" using c by blast
  have 1: "\<forall>k < length b. case alignBToA (Some a) (Some b) ! k of
        None \<Rightarrow> True | Some x \<Rightarrow> x < length a \<and> a ! x = b ! k"
    using inv by (auto simp: align_inv_def dest: align_soundD split: option.split)
  have 2: "\<forall>k < length b. \<forall>l < k. case (alignBToA (Some a) (Some b) ! l, alignBToA (Some a) (Some b) ! k) of
        (Some x, Some y) \<Rightarrow> x < y | _ \<Rightarrow> True"
    using inv by (auto simp: align_inv_def dest: align_monoD split: option.split)
  have 3: "\<forall>zs. subseq zs a \<and> subseq zs b \<longrightarrow> length zs \<le> matched (alignBToA (Some a) (Some b))"
    using c lcs_table.upper [of "length a" a "length b" b] by simp
  show ?thesis using 1 2 3 length_alignBToA [of "Some a" b] by blast
qed

theorem alignBToA_maximal_witness:
  "let a = [''x'', ''y'', ''z'']; b = [''y'', ''w'', ''z''] in
   alignBToA (Some a) (Some b) = [Some 1, None, Some 2]
   \<and> (\<forall>zs. subseq zs a \<and> subseq zs b \<longrightarrow> length zs \<le> 2)"
proof -
  have v: "alignBToA (Some [''x'', ''y'', ''z'']) (Some [''y'', ''w'', ''z'']) = [Some 1, None, Some 2]"
    by code_simp
  have "\<forall>zs. subseq zs [''x'', ''y'', ''z''] \<and> subseq zs [''y'', ''w'', ''z''] \<longrightarrow>
      length zs \<le> matched (alignBToA (Some [''x'', ''y'', ''z'']) (Some [''y'', ''w'', ''z'']))"
    using alignBToA_maximal [of "[''x'', ''y'', ''z'']" "[''y'', ''w'', ''z'']"] by blast
  then show ?thesis by (simp only: Let_def v) (simp add: matched_def numeral_2_eq_2)
qed

section \<open>Attribution\<close>

text \<open>
  \<open>survives contents o m p text\<close>: version \<open>m\<close> has \<open>text\<close> at position \<open>p\<close>, and following the
  alignments backwards from there the line is found in every version down to \<open>o\<close>, where it was
  introduced (\<open>o\<close> is the oldest version, or the line has no partner in the version before).
\<close>

fun survives :: "string list option list \<Rightarrow> nat \<Rightarrow> nat \<Rightarrow> nat \<Rightarrow> string \<Rightarrow> bool" where
  "survives contents o_idx 0 p text =
     (o_idx = 0 \<and> (\<exists>ls. contents ! 0 = Some ls \<and> p < length ls \<and> ls ! p = text))"
| "survives contents o_idx (Suc m) p text =
     (\<exists>ls. contents ! Suc m = Some ls \<and> p < length ls \<and> ls ! p = text
       \<and> (case alignBToA (contents ! m) (Some ls) ! p of
            None \<Rightarrow> o_idx = Suc m
          | Some q \<Rightarrow> survives contents o_idx m q text))"

lemma aligned_line:
  assumes "alignBToA a (Some b) ! k = Some x" and "k < length b"
  shows "\<exists>as. a = Some as \<and> x < length as \<and> as ! x = b ! k"
proof (cases a)
  case None
  then show ?thesis using assms by simp
next
  case (Some as)
  have "align_sound as b 0 (alignBToA a (Some b))"
    using alignBToA_correct [of as b] Some by (simp add: align_inv_def)
  from align_soundD [OF this assms(2,1)] Some show ?thesis by auto
qed

lemma trace_origin_survives:
  "m < length contents \<Longrightarrow> contents ! m = Some ls \<Longrightarrow> p < length ls \<Longrightarrow>
   survives contents (trace_origin (version_alignments contents) m p) m p (ls ! p)"
proof (induction m arbitrary: ls p)
  case 0
  then show ?case by simp
next
  case (Suc m)
  have al: "version_alignments contents ! m = alignBToA (contents ! m) (Some ls)"
  proof -
    have "m < length contents - 1" using Suc.prems by simp
    then have "[0..<length contents - 1] ! m = m" by simp
    then show ?thesis using \<open>m < length contents - 1\<close> Suc.prems by (simp add: version_alignments_def)
  qed
  have bind: "Option.bind (nth_opt (version_alignments contents ! m) p) (\<lambda>x. x) =
      alignBToA (contents ! m) (Some ls) ! p"
    using Suc.prems by (simp add: al nth_opt_def)
  show ?case
  proof (cases "alignBToA (contents ! m) (Some ls) ! p")
    case None
    then show ?thesis using Suc.prems bind by simp
  next
    case (Some q)
    obtain as where "contents ! m = Some as" "q < length as" "as ! q = ls ! p"
      using aligned_line [OF Some] Suc.prems by blast
    then show ?thesis using Suc.IH [of as q] Suc.prems bind Some by simp
  qed
qed

lemma trace_origin_le: "trace_origin al m p \<le> m"
proof (induction m arbitrary: p)
  case (Suc m)
  then show ?case by (auto split: option.splits intro: le_SucI)
qed simp

lemma survives_in: "survives contents v m p text \<Longrightarrow> v \<le> w \<Longrightarrow> w \<le> m \<Longrightarrow>
    \<exists>ls. contents ! w = Some ls \<and> text \<in> set ls"
proof (induction m arbitrary: p)
  case 0
  then show ?case by (auto dest: nth_mem)
next
  case (Suc m)
  show ?case
  proof (cases "w = Suc m")
    case True
    then show ?thesis using Suc.prems by (auto dest: nth_mem)
  next
    case False
    then show ?thesis using Suc.prems Suc.IH by (auto split: option.splits)
  qed
qed

lemma length_version_contents [simp]: "length (version_contents versions current) = Suc (length versions)"
  by (simp add: version_contents_def)

lemma version_contents_last [simp]: "version_contents versions current ! length versions = Some current"
  by (simp add: version_contents_def nth_append)

lemma version_contents_nth: "v < length versions \<Longrightarrow> version_contents versions current ! v = bvLines (versions ! v)"
  by (simp add: version_contents_def nth_append)

lemma length_version_alignments [simp]: "length (version_alignments cs) = length cs - 1"
  by (simp add: version_alignments_def)

text \<open>
  C25 (functional): line attribution is exact. Every current line is reported once, in order, with
  its text. The reported checkpoint is that of the version where the line was introduced: the
  alignments lead from the current line back to it, so that version and every later one contain
  the line, and it has no partner in the version before. Exactly the lines introduced after the
  last version stay without a checkpoint.
\<close>

theorem attributeLines_correct:
  assumes "j < length current"
  shows "let e = attributeLines current versions ! j;
             contents = version_contents versions current
    in length (attributeLines current versions) = length current
       \<and> blLine e = j + 1 \<and> blText e = current ! j
       \<and> (\<exists>v \<le> length versions. survives contents v (length versions) j (current ! j)
            \<and> (\<forall>w. v \<le> w \<and> w \<le> length versions \<longrightarrow> (\<exists>ls. contents ! w = Some ls \<and> current ! j \<in> set ls))
            \<and> blCheckpointId e = (if v < length versions then Some (bvCheckpointId (versions ! v)) else None)
            \<and> blOriginPath e = (if v < length versions then Some (bvOriginPath (versions ! v)) else None))"
proof -
  let ?c = "version_contents versions current" and ?n = "length versions"
  let ?v = "trace_origin (version_alignments ?c) ?n j"
  have s: "survives ?c ?v ?n j (current ! j)"
    using trace_origin_survives [of ?n ?c current j] assms by simp
  have vle: "?v \<le> ?n" by (rule trace_origin_le)
  have inv: "\<exists>ls. ?c ! w = Some ls \<and> current ! j \<in> set ls" if "?v \<le> w" "w \<le> ?n" for w
    using survives_in [OF s that] .
  have e: "attributeLines current versions ! j = attribute_line versions (version_alignments ?c) current j"
    using assms by (simp add: attributeLines_def Let_def)
  have ls: "bvLines (versions ! ?v) \<noteq> None" if "?v < ?n"
    using inv [of ?v] that version_contents_nth [OF that] by auto
  have f: "blLine (attributeLines current versions ! j) = j + 1
      \<and> blText (attributeLines current versions ! j) = current ! j
      \<and> blCheckpointId (attributeLines current versions ! j) =
          (if ?v < ?n then Some (bvCheckpointId (versions ! ?v)) else None)
      \<and> blOriginPath (attributeLines current versions ! j) =
          (if ?v < ?n then Some (bvOriginPath (versions ! ?v)) else None)"
    unfolding e using ls by (cases "?v < ?n") (auto simp: attribute_line_def Let_def plain_line_def)
  have len: "length (attributeLines current versions) = length current"
    by (simp add: attributeLines_def Let_def)
  show ?thesis
    unfolding Let_def using s vle inv f len by blast
qed

theorem attributeLines_correct_witness:
  "let vs = [\<lparr>bvCheckpointId = ''cp_1'', bvLabel = None, bvDescription = ''d'', bvOriginPath = ''f'', bvLines = Some [''a'']\<rparr>,
             \<lparr>bvCheckpointId = ''cp_2'', bvLabel = None, bvDescription = ''e'', bvOriginPath = ''f'', bvLines = Some [''a'', ''b'']\<rparr>];
       cur = [''a'', ''b'', ''c'']
   in map blCheckpointId (attributeLines cur vs) = [Some ''cp_1'', Some ''cp_2'', None]
      \<and> blText (attributeLines cur vs ! 1) = ''b''"
proof -
  let ?vs = "[\<lparr>bvCheckpointId = ''cp_1'', bvLabel = None, bvDescription = ''d'', bvOriginPath = ''f'', bvLines = Some [''a'']\<rparr>,
             \<lparr>bvCheckpointId = ''cp_2'', bvLabel = None, bvDescription = ''e'', bvOriginPath = ''f'', bvLines = Some [''a'', ''b'']\<rparr>]"
  have v: "map blCheckpointId (attributeLines [''a'', ''b'', ''c''] ?vs) = [Some ''cp_1'', Some ''cp_2'', None]"
    by code_simp
  show ?thesis
    using attributeLines_correct [of 1 "[''a'', ''b'', ''c'']" ?vs] v by (simp add: Let_def)
qed

section \<open>Ranges\<close>

definition range_lines :: "blame_range \<Rightarrow> (nat \<times> string option \<times> string option) list" where
  "range_lines r = map (\<lambda>n. (n, rgCheckpointId r, rgOriginPath r)) [rgStart r..<Suc (rgEnd r)]"

definition line_key :: "blame_line \<Rightarrow> nat \<times> string option \<times> string option" where
  "line_key e = (blLine e, blCheckpointId e, blOriginPath e)"

definition ranges_ok :: "blame_range list \<Rightarrow> bool" where
  "ranges_ok rs \<longleftrightarrow> (\<forall>r \<in> set rs. rgStart r \<le> rgEnd r)"

lemma collapse_step_lines:
  assumes "ranges_ok rs"
  shows "ranges_ok (collapse_step e rs)
    \<and> concat (map range_lines (collapse_step e rs)) = concat (map range_lines rs) @ [line_key e]"
proof (cases "rs \<noteq> [] \<and> rgCheckpointId (last rs) = blCheckpointId e
         \<and> rgOriginPath (last rs) = blOriginPath e \<and> int (rgEnd (last rs)) = int (blLine e) - 1")
  case True
  then obtain qs r where rs: "rs = qs @ [r]" by (metis append_butlast_last_id)
  have r: "rgStart r \<le> rgEnd r" using assms rs by (simp add: ranges_ok_def)
  have l: "blLine e = Suc (rgEnd r)" using True rs by simp
  have "range_lines (r\<lparr>rgEnd := Suc (rgEnd r)\<rparr>) = range_lines r @ [(Suc (rgEnd r), rgCheckpointId r, rgOriginPath r)]"
    using r by (simp add: range_lines_def)
  then show ?thesis using True assms l r rs
    by (auto simp: collapse_step_def ranges_ok_def line_key_def)
next
  case False
  then show ?thesis using assms
    by (auto simp: collapse_step_def ranges_ok_def line_key_def range_lines_def)
qed

text \<open>
  Collapsing loses nothing: spelling the ranges out again gives, in order, the
  line number, checkpoint and origin path of every blamed line, and no range is empty.
\<close>

theorem collapseBlameRanges_expand:
  "concat (map range_lines (collapseBlameRanges es)) = map line_key es \<and> ranges_ok (collapseBlameRanges es)"
proof -
  have "ranges_ok rs \<Longrightarrow> ranges_ok (fold collapse_step es rs)
      \<and> concat (map range_lines (fold collapse_step es rs)) = concat (map range_lines rs) @ map line_key es" for rs
    by (induction es arbitrary: rs) (auto simp: collapse_step_lines)
  from this [of "[]"] show ?thesis by (simp add: collapseBlameRanges_def ranges_ok_def)
qed

end
