(* ===== verification/Bisect.thy ===== *)
theory Bisect
  imports BranchLogic
begin

text \<open>
  Binary search over a line of checkpoints (\<open>manager/bisect.ts\<close>): the exit code of the probe,
  the stored session and its parser, the candidate range, the verdict transition and the driver
  loop with its cap of 64 steps. The worktree in which a candidate is checked out is not part of
  the search state; the probe of the driver is a function from checkpoint ids to exit codes.
\<close>

section \<open>Definitions\<close>

datatype verdict = Good | Bad | Skip

text \<open>
  The argument is the error of the probe command, if any, with its \<open>code\<close> property when that is
  an integer.
\<close>

definition bisectOracleExitCode :: "int option option \<Rightarrow> int" where
  "bisectOracleExitCode err =
     (case err of
        None \<Rightarrow> 0
      | Some code \<Rightarrow>
          (case code of Some n \<Rightarrow> if n \<ge> 0 \<and> n \<le> 127 then n else 1 | None \<Rightarrow> 1))"

record bisect_state =
  bsBadId :: string
  bsGoodId :: "string option"
  bsRemaining :: "string list"
  bsCurrent :: "string option"
  bsGoodIds :: "string list"
  bsBadIds :: "string list"
  bsSkippedIds :: "string list"
  bsWorktreeId :: "string option"
  bsWorktreePath :: "string option"
  bsFirstBadId :: "string option"
  bsCreatedAt :: string

definition parseIds :: "json option \<Rightarrow> string list" where
  "parseIds v =
     (case v of Some (JArr xs) \<Rightarrow> List.map_filter (\<lambda>x. jnonblank (Some x)) xs | _ \<Rightarrow> [])"

definition parseBisectState :: "string \<Rightarrow> json \<Rightarrow> bisect_state option" where
  "parseBisectState now v =
     (case v of
        JObj _ \<Rightarrow>
          (case (jstring (jfield v ''badId''), jfield v ''remaining'') of
             (Some bad, Some (JArr _)) \<Rightarrow> Some
               \<lparr>bsBadId = bad, bsGoodId = jstring (jfield v ''goodId''),
                bsRemaining = parseIds (jfield v ''remaining''),
                bsCurrent = jstring (jfield v ''current''),
                bsGoodIds = parseIds (jfield v ''goodIds''),
                bsBadIds = parseIds (jfield v ''badIds''),
                bsSkippedIds = parseIds (jfield v ''skippedIds''),
                bsWorktreeId = jstring (jfield v ''worktreeId''),
                bsWorktreePath = jstring (jfield v ''worktreePath''),
                bsFirstBadId = jstring (jfield v ''firstBadId''),
                bsCreatedAt = or_default (jstring (jfield v ''createdAt'')) now\<rparr>
           | _ \<Rightarrow> None)
      | _ \<Rightarrow> None)"

text \<open>What \<open>JSON.stringify\<close> keeps of a session (\<open>saveBisectState\<close>).\<close>

definition jids :: "string list \<Rightarrow> json" where
  "jids xs = JArr (map JStr xs)"

definition bisectStateJson :: "bisect_state \<Rightarrow> json" where
  "bisectStateJson s = JObj
     ([(''badId'', JStr (bsBadId s))] @ jopt ''goodId'' (bsGoodId s)
      @ [(''remaining'', jids (bsRemaining s))] @ jopt ''current'' (bsCurrent s)
      @ [(''goodIds'', jids (bsGoodIds s)), (''badIds'', jids (bsBadIds s)),
         (''skippedIds'', jids (bsSkippedIds s))]
      @ jopt ''worktreeId'' (bsWorktreeId s) @ jopt ''worktreePath'' (bsWorktreePath s)
      @ jopt ''firstBadId'' (bsFirstBadId s) @ [(''createdAt'', JStr (bsCreatedAt s))])"

definition pickCurrent :: "string list \<Rightarrow> string option" where
  "pickCurrent remaining =
     (if remaining = [] then None else Some (remaining ! ((length remaining - 1) div 2)))"

text \<open>
  \<open>rangeIds\<close> on the history of the workspace; \<open>base\<close> is the base of the active branch, if there
  is an active branch. A failure is the message.
\<close>

definition rangeIds :: "checkpoint_info list \<Rightarrow> string option \<Rightarrow> string \<Rightarrow> string option \<Rightarrow> string + string list" where
  "rangeIds history base badId goodId =
     (case lineageCheckpoints history badId of
        None \<Rightarrow> Inl (''No ancestor line for '' @ badId)
      | Some [] \<Rightarrow> Inl (''No ancestor line for '' @ badId)
      | Some chain \<Rightarrow>
          (let ids = map cpId chain;
               good = (case truthy goodId of
                         Some g \<Rightarrow> g
                       | None \<Rightarrow> (case truthy base of
                                   Some b \<Rightarrow> if b \<in> set ids then b else ids ! 0
                                 | None \<Rightarrow> ids ! 0))
           in case index_of ids good of
                None \<Rightarrow> Inl (''Good checkpoint '' @ good @ '' is not an ancestor of '' @ badId)
              | Some i \<Rightarrow> Inr (drop (i + 1) ids)))"

definition bisectInitial :: "string \<Rightarrow> string \<Rightarrow> string option \<Rightarrow> string list \<Rightarrow> bisect_state" where
  "bisectInitial now bad good remaining =
     \<lparr>bsBadId = bad, bsGoodId = good, bsRemaining = remaining, bsCurrent = pickCurrent remaining,
      bsGoodIds = (case truthy good of Some g \<Rightarrow> [g] | None \<Rightarrow> []), bsBadIds = [bad],
      bsSkippedIds = [], bsWorktreeId = None, bsWorktreePath = None, bsFirstBadId = None,
      bsCreatedAt = now\<rparr>"

text \<open>\<open>applyVerdict\<close>, one definition per verdict branch.\<close>

definition verdict_skip :: "string \<Rightarrow> bisect_state \<Rightarrow> bisect_state" where
  "verdict_skip current s =
     (let remaining = filter (\<lambda>i. i \<noteq> current) (bsRemaining s)
      in s\<lparr>bsRemaining := remaining, bsSkippedIds := bsSkippedIds s @ [current],
           bsCurrent := pickCurrent remaining\<rparr>)"

definition verdict_good :: "string \<Rightarrow> bisect_state \<Rightarrow> bisect_state" where
  "verdict_good current s =
     (let remaining = (case index_of (bsRemaining s) current of
                         Some i \<Rightarrow> drop (i + 1) (bsRemaining s)
                       | None \<Rightarrow> filter (\<lambda>i. i \<noteq> current) (bsRemaining s));
          n = s\<lparr>bsRemaining := remaining, bsGoodIds := bsGoodIds s @ [current],
                bsCurrent := pickCurrent remaining\<rparr>
      in if length remaining = 0 then
           (let b = or_default (last_opt (bsBadIds s)) (bsBadId s)
            in n\<lparr>bsFirstBadId := Some b, bsCurrent := Some b\<rparr>)
         else if length remaining = 1 then
           n\<lparr>bsFirstBadId := Some (remaining ! 0), bsCurrent := Some (remaining ! 0), bsRemaining := []\<rparr>
         else n)"

definition verdict_bad :: "string \<Rightarrow> bisect_state \<Rightarrow> bisect_state" where
  "verdict_bad current s =
     (let remaining = (case index_of (bsRemaining s) current of
                         Some i \<Rightarrow> take (i + 1) (bsRemaining s)
                       | None \<Rightarrow> [current]);
          n = s\<lparr>bsRemaining := remaining, bsBadIds := bsBadIds s @ [current],
                bsCurrent := pickCurrent remaining\<rparr>
      in if length remaining \<le> 1 then
           (let b = or_default (first_opt remaining) current
            in n\<lparr>bsFirstBadId := Some b, bsCurrent := Some b, bsRemaining := []\<rparr>)
         else n)"

definition applyVerdict :: "bisect_state \<Rightarrow> verdict \<Rightarrow> bisect_state" where
  "applyVerdict s v =
     (case truthy (bsCurrent s) of
        None \<Rightarrow> s
      | Some current \<Rightarrow>
          (case v of Skip \<Rightarrow> verdict_skip current s
           | Good \<Rightarrow> verdict_good current s
           | Bad \<Rightarrow> verdict_bad current s))"

definition code_verdict :: "int \<Rightarrow> verdict" where
  "code_verdict code = (if code = 0 then Good else if code = 125 then Skip else Bad)"

text \<open>A mark on the stored session: nothing changes once the search is done.\<close>

definition bisect_mark :: "bisect_state \<Rightarrow> verdict \<Rightarrow> bisect_state" where
  "bisect_mark s v = (if truthy (bsFirstBadId s) \<noteq> None then s else applyVerdict s v)"

text \<open>
  The loop of \<open>bisectRun\<close>: \<open>fuel\<close> counts the steps still allowed, the result carries the number
  of steps taken.
\<close>

fun bisect_loop :: "(string \<Rightarrow> int) \<Rightarrow> nat \<Rightarrow> nat \<Rightarrow> bisect_state \<Rightarrow> bisect_state \<times> nat" where
  "bisect_loop probe 0 steps s = (s, steps)"
| "bisect_loop probe (Suc fuel) steps s =
     (if truthy (bsFirstBadId s) \<noteq> None then (s, steps)
      else case truthy (bsCurrent s) of
        None \<Rightarrow> (s, steps)
      | Some current \<Rightarrow>
          bisect_loop probe fuel (steps + 1) (bisect_mark s (code_verdict (probe current))))"

definition BISECT_MAX_STEPS :: nat where "BISECT_MAX_STEPS = 64"

definition bisect_run :: "(string \<Rightarrow> int) \<Rightarrow> bisect_state \<Rightarrow> bisect_state \<times> nat" where
  "bisect_run probe s = bisect_loop probe BISECT_MAX_STEPS 0 s"

section \<open>The stored session\<close>

definition bisect_ids_wf :: "bisect_state \<Rightarrow> bool" where
  "bisect_ids_wf s \<longleftrightarrow>
     (\<forall>i \<in> set (bsRemaining s) \<union> set (bsGoodIds s) \<union> set (bsBadIds s) \<union> set (bsSkippedIds s). js_trim i \<noteq> [])"

lemma parseIds_jids: "\<forall>i \<in> set xs. js_trim i \<noteq> [] \<Longrightarrow> parseIds (Some (jids xs)) = xs"
  by (induction xs) (auto simp: parseIds_def jids_def List.map_filter_simps jnonblank_def)

text \<open>
  A bisect session written to disk is read back unchanged, whatever the clock of
  the reading process, as long as no recorded id is blank.
\<close>

theorem bisectState_roundtrip:
  assumes "bisect_ids_wf s"
  shows "parseBisectState now (bisectStateJson s) = Some s"
proof -
  have p: "parseIds (Some (jids (bsRemaining s))) = bsRemaining s" "parseIds (Some (jids (bsGoodIds s))) = bsGoodIds s"
    "parseIds (Some (jids (bsBadIds s))) = bsBadIds s" "parseIds (Some (jids (bsSkippedIds s))) = bsSkippedIds s"
    using assms by (auto simp: bisect_ids_wf_def intro!: parseIds_jids)
  have o: "map_of (jopt k v @ rest) k' = (if k = k' then or_else (map_option JStr v) (map_of rest k') else map_of rest k')"
    for k v rest k'
    by (cases v) (auto simp: jopt_def)
  have r: "\<exists>xs. jids ys = JArr xs" for ys by (simp add: jids_def)
  have js: "jstring (or_else (map_option JStr v) None) = v" for v by (cases v) auto
  obtain xs where x: "jids (bsRemaining s) = JArr xs" using r by blast
  show ?thesis
    unfolding parseBisectState_def bisectStateJson_def
    using p x by (simp add: o js del: map_of_append)
qed

theorem bisectState_roundtrip_witness:
  "let s = bisectInitial ''t0'' ''cp_9'' (Some ''cp_1'') [''cp_5'', ''cp_9'']
   in parseBisectState ''t1'' (bisectStateJson s) = Some s \<and> bsCurrent s = Some ''cp_5''"
proof -
  have "bisect_ids_wf (bisectInitial ''t0'' ''cp_9'' (Some ''cp_1'') [''cp_5'', ''cp_9''])"
    by (simp add: bisect_ids_wf_def bisectInitial_def js_trim_def js_space_def)
  from bisectState_roundtrip [OF this] show ?thesis
    by (simp add: Let_def) (simp add: bisectInitial_def pickCurrent_def)
qed

section \<open>The search on a monotone line\<close>

lemma pickCurrent_nth: "r \<noteq> [] \<Longrightarrow> pickCurrent r = Some (r ! ((length r - 1) div 2))"
  by (simp add: pickCurrent_def)

lemma mid_lt: "r \<noteq> [] \<Longrightarrow> (length r - 1) div 2 < length r"
  by (cases r) auto

lemma truthy_Some_in: "[] \<notin> set r \<Longrightarrow> i < length r \<Longrightarrow> truthy (Some (r ! i)) = Some (r ! i)"
  by (auto dest: nth_mem)

lemma bisect_loop_done: "truthy (bsFirstBadId s) \<noteq> None \<Longrightarrow> bisect_loop probe fuel n s = (s, n)"
  by (cases fuel) auto

text \<open>One mark on a session whose candidate is at position \<open>m\<close> of the remaining ones.\<close>

lemma mark_good:
  assumes "distinct (bsRemaining s)" and "[] \<notin> set (bsRemaining s)" and "m < length (bsRemaining s)"
    and "bsCurrent s = Some (bsRemaining s ! m)" and "bsFirstBadId s = None" and "m + 1 < length (bsRemaining s)"
  shows "if m + 2 = length (bsRemaining s) then bsFirstBadId (bisect_mark s Good) = Some (bsRemaining s ! (m + 1))
    else bsRemaining (bisect_mark s Good) = drop (m + 1) (bsRemaining s) \<and> bsFirstBadId (bisect_mark s Good) = None
      \<and> bsCurrent (bisect_mark s Good) = pickCurrent (drop (m + 1) (bsRemaining s))"
proof -
  let ?r = "bsRemaining s"
  have i: "index_of ?r (?r ! m) = Some m" using assms by (intro index_of_distinct) auto
  have t: "truthy (bsCurrent s) = Some (?r ! m)"
    using truthy_Some_in [OF assms(2,3)] assms(4) by simp
  show ?thesis using i t assms
    by (auto simp: bisect_mark_def applyVerdict_def verdict_good_def Let_def nth_append)
qed

lemma mark_bad:
  assumes "distinct (bsRemaining s)" and "[] \<notin> set (bsRemaining s)" and "m < length (bsRemaining s)"
    and "bsCurrent s = Some (bsRemaining s ! m)" and "bsFirstBadId s = None"
  shows "if m = 0 then bsFirstBadId (bisect_mark s Bad) = Some (bsRemaining s ! 0)
    else bsRemaining (bisect_mark s Bad) = take (m + 1) (bsRemaining s) \<and> bsFirstBadId (bisect_mark s Bad) = None
      \<and> bsCurrent (bisect_mark s Bad) = pickCurrent (take (m + 1) (bsRemaining s))"
proof -
  let ?r = "bsRemaining s"
  have i: "index_of ?r (?r ! m) = Some m" using assms by (intro index_of_distinct) auto
  have t: "truthy (bsCurrent s) = Some (?r ! m)"
    using truthy_Some_in [OF assms(2,3)] assms(4) by simp
  have one: "take (Suc 0) ?r = [?r ! 0]" using assms(3) by (cases ?r) auto
  have b: "bisect_mark s Bad = verdict_bad (?r ! m) s"
    using t assms(5) by (simp add: bisect_mark_def applyVerdict_def)
  show ?thesis
  proof (cases "m = 0")
    case True
    then show ?thesis using i one unfolding b by (simp add: verdict_bad_def Let_def first_opt_def)
  next
    case False
    then have "\<not> length (take (m + 1) ?r) \<le> 1" using assms(3) by simp
    then show ?thesis using False i assms(5) unfolding b by (simp add: verdict_bad_def Let_def)
  qed
qed

lemma bisect_loop_monotone:
  "distinct (bsRemaining s) \<Longrightarrow> [] \<notin> set (bsRemaining s) \<Longrightarrow> bsFirstBadId s = None \<Longrightarrow>
   bsCurrent s = pickCurrent (bsRemaining s) \<Longrightarrow> k < length (bsRemaining s) \<Longrightarrow>
   (\<forall>i < length (bsRemaining s). probe (bsRemaining s ! i) \<noteq> 125 \<and> (probe (bsRemaining s ! i) = 0 \<longleftrightarrow> i < k)) \<Longrightarrow>
   length (bsRemaining s) \<le> 2 ^ f \<Longrightarrow> 1 \<le> f \<Longrightarrow> f \<le> fuel \<Longrightarrow>
   bsFirstBadId (fst (bisect_loop probe fuel n s)) = Some (bsRemaining s ! k)
   \<and> snd (bisect_loop probe fuel n s) \<le> n + f"
proof (induction f arbitrary: s k fuel n)
  case 0
  then show ?case by simp
next
  case (Suc f)
  let ?r = "bsRemaining s" and ?m = "(length (bsRemaining s) - 1) div 2"
  obtain fuel' where fuel: "fuel = Suc fuel'" using Suc.prems by (cases fuel) auto
  have ne: "?r \<noteq> []" using Suc.prems(5) by auto
  have mlt: "?m < length ?r" using mid_lt [OF ne] .
  have cur: "bsCurrent s = Some (?r ! ?m)" using Suc.prems(4) pickCurrent_nth [OF ne] by simp
  have tr: "truthy (bsCurrent s) = Some (?r ! ?m)"
    using truthy_Some_in [OF Suc.prems(2) mlt] cur by simp
  have blank: "truthy (Some (?r ! i)) \<noteq> None" if "i < length ?r" for i
    using truthy_Some_in [OF Suc.prems(2) that] by simp
  have step: "bisect_loop probe fuel n s =
      bisect_loop probe fuel' (n + 1) (bisect_mark s (code_verdict (probe (?r ! ?m))))"
    using fuel tr Suc.prems(3) by simp
  have oc: "probe (?r ! ?m) \<noteq> 125" "probe (?r ! ?m) = 0 \<longleftrightarrow> ?m < k" using Suc.prems(6) mlt by auto
  show ?case
  proof (cases "?m < k")
    case True
    let ?s = "bisect_mark s Good"
    have v: "code_verdict (probe (?r ! ?m)) = Good" using oc True by (simp add: code_verdict_def)
    have m1: "?m + 1 < length ?r" using True Suc.prems(5) by simp
    note g = mark_good [OF Suc.prems(1,2) mlt cur Suc.prems(3) m1]
    show ?thesis
    proof (cases "?m + 2 = length ?r")
      case True
      then have b: "bsFirstBadId ?s = Some (?r ! (?m + 1))" using g by simp
      have "k = ?m + 1" using \<open>?m < k\<close> Suc.prems(5) True by simp
      then show ?thesis using step v b bisect_loop_done [of ?s] blank [of "?m + 1"] m1 by simp
    next
      case False
      then have s': "bsRemaining ?s = drop (?m + 1) ?r" "bsFirstBadId ?s = None"
        "bsCurrent ?s = pickCurrent (drop (?m + 1) ?r)" using g by auto
      have len: "length (drop (?m + 1) ?r) \<le> 2 ^ f" using Suc.prems(7) by simp
      have f1: "1 \<le> f" using False m1 len by (cases f) auto
      have "bsFirstBadId (fst (bisect_loop probe fuel' (n + 1) ?s)) = Some (bsRemaining ?s ! (k - (?m + 1)))
          \<and> snd (bisect_loop probe fuel' (n + 1) ?s) \<le> n + 1 + f"
        using Suc.prems s' len f1 fuel \<open>?m < k\<close>
        by (intro Suc.IH) (auto dest: in_set_dropD simp: less_diff_conv)
      moreover have "bsRemaining ?s ! (k - (?m + 1)) = ?r ! k"
        using s'(1) \<open>?m < k\<close> Suc.prems(5) by simp
      ultimately show ?thesis using step v by simp
    qed
  next
    case False
    let ?s = "bisect_mark s Bad"
    have v: "code_verdict (probe (?r ! ?m)) = Bad" using oc False by (simp add: code_verdict_def)
    note g = mark_bad [OF Suc.prems(1,2) mlt cur Suc.prems(3)]
    show ?thesis
    proof (cases "?m = 0")
      case True
      then have b: "bsFirstBadId ?s = Some (?r ! 0)" using g by presburger
      have "k = 0" using False True by simp
      then show ?thesis using step v b bisect_loop_done [of ?s] blank [of 0] mlt ne by simp
    next
      case m0: False
      then have s': "bsRemaining ?s = take (?m + 1) ?r" "bsFirstBadId ?s = None"
        "bsCurrent ?s = pickCurrent (take (?m + 1) ?r)" using g by presburger+
      have len: "length (take (?m + 1) ?r) \<le> 2 ^ f" using Suc.prems(7) by simp
      have "length (take (?m + 1) ?r) \<ge> 2" using m0 mlt by simp
      then have f1: "1 \<le> f" using len by (cases f) auto
      have "bsFirstBadId (fst (bisect_loop probe fuel' (n + 1) ?s)) = Some (bsRemaining ?s ! k)
          \<and> snd (bisect_loop probe fuel' (n + 1) ?s) \<le> n + 1 + f"
        using Suc.prems s' len f1 fuel False mlt
        by (intro Suc.IH) (auto dest: in_set_takeD)
      moreover have "bsRemaining ?s ! k = ?r ! k" using s'(1) False by simp
      ultimately show ?thesis using step v by simp
    qed
  qed
qed

text \<open>
  C22 (functional): on a line where the candidates up to some point pass the probe and every later
  one fails, \<open>bisectRun\<close> reports exactly the first failing checkpoint. It takes at most \<open>f\<close>
  steps for up to \<open>2 ^ f\<close> candidates, so the cap of 64 steps never cuts such a search short.
\<close>

theorem bisect_run_finds_first_bad:
  assumes "distinct ids" and "[] \<notin> set ids" and "k < length ids"
    and "\<forall>i < length ids. probe (ids ! i) \<noteq> 125 \<and> (probe (ids ! i) = 0 \<longleftrightarrow> i < k)"
    and "length ids \<le> 2 ^ f" and "1 \<le> f" and "f \<le> 64"
  shows "bsFirstBadId (fst (bisect_run probe (bisectInitial now bad good ids))) = Some (ids ! k)
    \<and> snd (bisect_run probe (bisectInitial now bad good ids)) \<le> f"
  using bisect_loop_monotone [of "bisectInitial now bad good ids" k probe f 64 0] assms
  by (simp add: bisect_run_def BISECT_MAX_STEPS_def bisectInitial_def)

theorem bisect_run_finds_first_bad_witness:
  "let probe = (\<lambda>i. if i \<in> {''cp_1'', ''cp_2'', ''cp_3''} then 0 else 1);
       run = bisect_run probe (bisectInitial ''t'' ''cp_5'' None [''cp_1'', ''cp_2'', ''cp_3'', ''cp_4'', ''cp_5''])
   in bsFirstBadId (fst run) = Some ''cp_4'' \<and> snd run \<le> 3"
proof -
  let ?ids = "[''cp_1'', ''cp_2'', ''cp_3'', ''cp_4'', ''cp_5'']"
  let ?probe = "\<lambda>i. if i \<in> {''cp_1'', ''cp_2'', ''cp_3''} then 0 else 1 :: int"
  have "\<forall>i < length ?ids. ?probe (?ids ! i) \<noteq> 125 \<and> (?probe (?ids ! i) = 0 \<longleftrightarrow> i < 3)"
    by (simp add: less_Suc_eq)
  from bisect_run_finds_first_bad [OF _ _ _ this, of 3 "''t''" "''cp_5''" None]
  show ?thesis unfolding Let_def by simp
qed

section \<open>Sessions with arbitrary verdicts\<close>

text \<open>The sessions reachable from a start by any sequence of marks, skips included.\<close>

inductive bisect_session :: "bisect_state \<Rightarrow> bisect_state \<Rightarrow> bool" for s0 where
  session_start: "bisect_session s0 s0"
| session_mark: "bisect_session s0 s \<Longrightarrow> bisect_session s0 (bisect_mark s v)"

lemma filter_split_at:
  "i < length (filter P ys) \<Longrightarrow> \<exists>k < length ys. ys ! k = filter P ys ! i
     \<and> drop (Suc i) (filter P ys) = filter P (drop (Suc k) ys)
     \<and> take (Suc i) (filter P ys) = filter P (take (Suc k) ys)"
proof (induction ys arbitrary: i)
  case (Cons y ys)
  show ?case
  proof (cases "P y")
    case True
    show ?thesis
    proof (cases i)
      case 0
      then show ?thesis using True by (intro exI [of _ 0]) simp
    next
      case (Suc j)
      then obtain k where "k < length ys" "ys ! k = filter P ys ! j"
        "drop (Suc j) (filter P ys) = filter P (drop (Suc k) ys)"
        "take (Suc j) (filter P ys) = filter P (take (Suc k) ys)"
        using Cons True by fastforce
      then show ?thesis using True Suc by (intro exI [of _ "Suc k"]) simp
    qed
  next
    case False
    then obtain k where "k < length ys" "ys ! k = filter P ys ! i"
        "drop (Suc i) (filter P ys) = filter P (drop (Suc k) ys)"
        "take (Suc i) (filter P ys) = filter P (take (Suc k) ys)"
      using Cons by fastforce
    then show ?thesis using False by (intro exI [of _ "Suc k"]) simp
  qed
qed simp

text \<open>
  The search window: \<open>seg xs lo hi\<close> are the candidates not yet decided; the newest of them is
  known to be bad, the one before \<open>lo\<close> to be good.
\<close>

definition seg :: "string list \<Rightarrow> nat \<Rightarrow> nat \<Rightarrow> string list" where
  "seg xs lo hi = take (hi - lo) (drop lo xs)"

definition window :: "string list \<Rightarrow> bisect_state \<Rightarrow> nat \<Rightarrow> nat \<Rightarrow> bool" where
  "window xs s lo hi \<longleftrightarrow> lo \<le> hi \<and> 0 < hi \<and> hi \<le> length xs
     \<and> (lo = 0 \<or> xs ! (lo - 1) \<in> set (bsGoodIds s))
     \<and> bsBadIds s \<noteq> [] \<and> last (bsBadIds s) = xs ! (hi - 1)
     \<and> bsRemaining s = filter (\<lambda>x. x \<notin> set (bsSkippedIds s)) (seg xs lo hi)
     \<and> (bsRemaining s \<noteq> [] \<longrightarrow> last (bsRemaining s) = xs ! (hi - 1))
     \<and> bsCurrent s = pickCurrent (bsRemaining s) \<and> bsFirstBadId s = None"

definition bisect_verdict_ok :: "string list \<Rightarrow> bisect_state \<Rightarrow> string \<Rightarrow> bool" where
  "bisect_verdict_ok xs s b \<longleftrightarrow> b \<in> set (bsBadIds s)
     \<and> (\<exists>k < length xs. xs ! k = b
        \<and> (\<forall>i < k. xs ! i \<in> set (bsSkippedIds s) \<or> (\<exists>j < length xs. i \<le> j \<and> xs ! j \<in> set (bsGoodIds s))))"

definition search_inv :: "string list \<Rightarrow> bisect_state \<Rightarrow> bool" where
  "search_inv xs s \<longleftrightarrow> (\<exists>lo hi. window xs s lo hi)
     \<or> (\<exists>b. bsFirstBadId s = Some b \<and> b \<noteq> [] \<and> bisect_verdict_ok xs s b)"

lemma seg_nth: "k < length (seg xs lo hi) \<Longrightarrow> seg xs lo hi ! k = xs ! (lo + k)"
  by (auto simp: seg_def intro!: nth_drop)

lemma length_seg: "hi \<le> length xs \<Longrightarrow> length (seg xs lo hi) = hi - lo"
  by (simp add: seg_def)

lemma seg_drop: "drop k (seg xs lo hi) = seg xs (lo + k) hi"
  by (simp add: seg_def drop_take add.commute)

lemma seg_take: "lo + k \<le> hi \<Longrightarrow> take k (seg xs lo hi) = seg xs lo (lo + k)"
  by (simp add: seg_def min_def)

lemma in_seg: "lo \<le> i \<Longrightarrow> i < hi \<Longrightarrow> hi \<le> length xs \<Longrightarrow> xs ! i \<in> set (seg xs lo hi)"
  using nth_mem [of "i - lo" "seg xs lo hi"] by (simp add: seg_nth length_seg)

lemma verdict_ok_window:
  assumes "hi \<le> length xs" and "0 < hi" and "lo \<le> hi"
    and "lo = 0 \<or> xs ! (lo - 1) \<in> set (bsGoodIds s)"
    and "xs ! (hi - 1) \<in> set (bsBadIds s)"
    and "\<And>i. lo \<le> i \<Longrightarrow> i < hi - 1 \<Longrightarrow> xs ! i \<in> set (bsSkippedIds s)"
  shows "bisect_verdict_ok xs s (xs ! (hi - 1))"
  unfolding bisect_verdict_ok_def
proof (intro conjI exI [of _ "hi - 1"] allI impI)
  fix i assume i: "i < hi - 1"
  show "xs ! i \<in> set (bsSkippedIds s) \<or> (\<exists>j < length xs. i \<le> j \<and> xs ! j \<in> set (bsGoodIds s))"
  proof (cases "lo \<le> i")
    case False
    then have "xs ! (lo - 1) \<in> set (bsGoodIds s) \<and> lo - 1 < length xs \<and> i \<le> lo - 1"
      using assms by auto
    then show ?thesis by blast
  qed (use assms(6) i in blast)
qed (use assms in auto)

lemma unskipped_singleton:
  assumes "filter P ys = [y]" and "x \<in> set ys" and "x \<noteq> y"
  shows "\<not> P x"
proof
  assume "P x"
  then have "x \<in> set (filter P ys)" using assms(2) by simp
  then show False using assms(1,3) by simp
qed

lemma last_filter_neq: "xs \<noteq> [] \<Longrightarrow> last xs \<noteq> c \<Longrightarrow> last (filter (\<lambda>x. x \<noteq> c) xs) = last xs \<and> filter (\<lambda>x. x \<noteq> c) xs \<noteq> []"
  by (induction xs rule: rev_induct) auto

lemma remaining_others_skipped:
  assumes r: "filter (\<lambda>x. x \<notin> K) (seg xs lo hi) = [] \<or> filter (\<lambda>x. x \<notin> K) (seg xs lo hi) = [xs ! (hi - 1)]"
    and d: "distinct xs" and h: "hi \<le> length xs" and i: "lo \<le> i" "i < hi - 1"
  shows "xs ! i \<in> K"
proof -
  have m: "xs ! i \<in> set (seg xs lo hi)" using in_seg [of lo i hi xs] i h by simp
  have "xs ! i \<noteq> xs ! (hi - 1)" using d h i nth_eq_iff_index_eq [OF d, of i "hi - 1"] by simp
  from r show ?thesis
  proof
    assume "filter (\<lambda>x. x \<notin> K) (seg xs lo hi) = []"
    then show ?thesis using m unfolding filter_empty_conv by blast
  next
    assume "filter (\<lambda>x. x \<notin> K) (seg xs lo hi) = [xs ! (hi - 1)]"
    from unskipped_singleton [OF this m] show ?thesis using \<open>xs ! i \<noteq> xs ! (hi - 1)\<close> by blast
  qed
qed

text \<open>The three verdicts on an open window.\<close>

lemma window_current:
  assumes w: "window xs s lo hi" and d: "distinct xs" and c: "bsCurrent s = Some cur"
  obtains k m where "k < length (seg xs lo hi)" "m < length (bsRemaining s)" "bsRemaining s ! m = cur"
    "index_of (bsRemaining s) cur = Some m" "xs ! (lo + k) = cur" "lo + k < hi"
    "drop (Suc m) (bsRemaining s) = filter (\<lambda>x. x \<notin> set (bsSkippedIds s)) (seg xs (lo + Suc k) hi)"
    "take (Suc m) (bsRemaining s) = filter (\<lambda>x. x \<notin> set (bsSkippedIds s)) (seg xs lo (lo + Suc k))"
    "m = (length (bsRemaining s) - 1) div 2"
proof -
  let ?r = "bsRemaining s" and ?P = "\<lambda>x. x \<notin> set (bsSkippedIds s)"
  let ?m = "(length ?r - 1) div 2"
  have r: "?r = filter ?P (seg xs lo hi)" and ne: "?r \<noteq> []" and cur: "?r ! ?m = cur" and hi: "hi \<le> length xs"
    using w c by (auto simp: window_def pickCurrent_def split: if_splits)
  have m: "?m < length ?r" by (rule mid_lt [OF ne])
  have dr: "distinct ?r" using d unfolding r seg_def by simp
  obtain k where k: "k < length (seg xs lo hi)" "seg xs lo hi ! k = cur"
    "drop (Suc ?m) ?r = filter ?P (drop (Suc k) (seg xs lo hi))"
    "take (Suc ?m) ?r = filter ?P (take (Suc k) (seg xs lo hi))"
    using filter_split_at [of ?m ?P "seg xs lo hi"] m cur r by auto
  have lt: "lo + k < hi" using k(1) hi by (simp add: length_seg)
  show ?thesis
  proof (rule that [of k ?m])
    show "index_of ?r cur = Some ?m" using index_of_distinct [OF dr m] cur by simp
    show "xs ! (lo + k) = cur" using k(2) seg_nth [OF k(1)] by simp
    show "drop (Suc ?m) ?r = filter ?P (seg xs (lo + Suc k) hi)" using k(3) by (simp add: seg_drop)
    show "take (Suc ?m) ?r = filter ?P (seg xs lo (lo + Suc k))"
      using k(4) seg_take [of lo "Suc k" hi xs] lt by simp
  qed (use k m cur lt in auto)
qed

lemma window_skip:
  assumes w: "window xs s lo hi" and d: "distinct xs" and c: "bsCurrent s = Some cur"
  shows "window xs (verdict_skip cur s) lo hi"
proof -
  let ?r = "bsRemaining s"
  have r: "?r = filter (\<lambda>x. x \<notin> set (bsSkippedIds s)) (seg xs lo hi)" using w by (simp add: window_def)
  have f: "filter (\<lambda>i. i \<noteq> cur) ?r = filter (\<lambda>x. x \<notin> set (bsSkippedIds s @ [cur])) (seg xs lo hi)"
    unfolding r by (auto intro: filter_cong)
  have "last (filter (\<lambda>i. i \<noteq> cur) ?r) = xs ! (hi - 1)" if ne: "filter (\<lambda>i. i \<noteq> cur) ?r \<noteq> []"
  proof -
    obtain k m where m: "m < length ?r" "?r ! m = cur" "m = (length ?r - 1) div 2"
      using window_current [OF w d c] by metis
    have dr: "distinct ?r" using d unfolding r seg_def by simp
    have "m \<noteq> length ?r - 1"
    proof
      assume "m = length ?r - 1"
      then have "length ?r = 1" using m by linarith
      then have "?r = [cur]" using m by (cases ?r) auto
      then show False using ne by simp
    qed
    moreover have "?r \<noteq> []" using m by auto
    ultimately have "last ?r \<noteq> cur" using m dr nth_eq_iff_index_eq [OF dr, of m "length ?r - 1"]
      by (simp add: last_conv_nth)
    moreover have "last ?r = xs ! (hi - 1)" using w \<open>?r \<noteq> []\<close> unfolding window_def by blast
    ultimately show ?thesis using last_filter_neq [OF \<open>?r \<noteq> []\<close>] by metis
  qed
  then show ?thesis using w f by (simp add: window_def verdict_skip_def Let_def)
qed

lemma window_good:
  assumes w: "window xs s lo hi" and d: "distinct xs" and b: "[] \<notin> set xs" and c: "bsCurrent s = Some cur"
  shows "search_inv xs (verdict_good cur s)"
proof -
  let ?r = "bsRemaining s" and ?P = "\<lambda>x. x \<notin> set (bsSkippedIds s)"
  obtain k m where k: "m < length ?r" "index_of ?r cur = Some m" "xs ! (lo + k) = cur" "lo + k < hi"
    "drop (Suc m) ?r = filter ?P (seg xs (lo + Suc k) hi)"
    using window_current [OF w d c] by metis
  have hi: "hi \<le> length xs" "0 < hi" "bsBadIds s \<noteq> []" "last (bsBadIds s) = xs ! (hi - 1)"
    "?r \<noteq> [] \<longrightarrow> last ?r = xs ! (hi - 1)" using w by (auto simp: window_def)
  have lst: "last (drop (Suc m) ?r) = xs ! (hi - 1)" if "drop (Suc m) ?r \<noteq> []"
    using that hi(5) by (auto simp: last_drop)
  have bad: "xs ! (hi - 1) \<in> set (bsBadIds s)" using hi last_in_set by metis
  have nb: "xs ! (hi - 1) \<noteq> []" using b hi nth_mem [of "hi - 1" xs] by fastforce
  have g: "xs ! (lo + Suc k - 1) \<in> set (bsGoodIds (verdict_good cur s))"
    "bsSkippedIds (verdict_good cur s) = bsSkippedIds s" "bsBadIds (verdict_good cur s) = bsBadIds s"
    using k by (auto simp: verdict_good_def Let_def)
  have ok: "bisect_verdict_ok xs (verdict_good cur s) (xs ! (hi - 1))" if "length (drop (Suc m) ?r) \<le> 1"
  proof (rule verdict_ok_window [OF hi(1,2), of "lo + Suc k"])
    have "drop (Suc m) ?r = [] \<or> drop (Suc m) ?r = [xs ! (hi - 1)]"
      using that lst by (cases "drop (Suc m) ?r") auto
    then show "xs ! i \<in> set (bsSkippedIds (verdict_good cur s))" if "lo + Suc k \<le> i" "i < hi - 1" for i
      using remaining_others_skipped [OF _ d hi(1) that] unfolding k(5) g(2) by blast
  qed (use k g bad in auto)
  consider "length (drop (Suc m) ?r) = 0" | "length (drop (Suc m) ?r) = 1" | "length (drop (Suc m) ?r) > 1"
    by linarith
  then show ?thesis
  proof cases
    case 1
    then have "bsFirstBadId (verdict_good cur s) = Some (xs ! (hi - 1))"
      using k(2) hi by (simp add: verdict_good_def Let_def last_opt_def)
    then show ?thesis using ok 1 nb by (auto simp: search_inv_def)
  next
    case 2
    then obtain y where y: "drop (Suc m) ?r = [y]" by (cases "drop (Suc m) ?r") auto
    then have "y = xs ! (hi - 1)" using lst by simp
    then have "bsFirstBadId (verdict_good cur s) = Some (xs ! (hi - 1))"
      using k(2) y by (simp add: verdict_good_def Let_def)
    then show ?thesis using ok 2 nb by (auto simp: search_inv_def)
  next
    case 3
    then have "window xs (verdict_good cur s) (lo + Suc k) hi"
      using w k lst g by (auto simp: verdict_good_def Let_def window_def)
    then show ?thesis by (auto simp: search_inv_def)
  qed
qed

lemma window_bad:
  assumes w: "window xs s lo hi" and d: "distinct xs" and b: "[] \<notin> set xs" and c: "bsCurrent s = Some cur"
  shows "search_inv xs (verdict_bad cur s)"
proof -
  let ?r = "bsRemaining s" and ?P = "\<lambda>x. x \<notin> set (bsSkippedIds s)"
  obtain k m where k: "m < length ?r" "?r ! m = cur" "index_of ?r cur = Some m" "xs ! (lo + k) = cur" "lo + k < hi"
    "take (Suc m) ?r = filter ?P (seg xs lo (lo + Suc k))"
    using window_current [OF w d c] by metis
  have hi: "hi \<le> length xs" "lo = 0 \<or> xs ! (lo - 1) \<in> set (bsGoodIds s)" using w by (auto simp: window_def)
  have h': "lo + Suc k \<le> length xs" "0 < lo + Suc k" "lo \<le> lo + Suc k" using k hi by auto
  have nb: "cur \<noteq> []" using b k hi nth_mem [of "lo + k" xs] by fastforce
  have lst: "last (take (Suc m) ?r) = cur" using k(1,2) by (simp add: take_Suc_conv_app_nth)
  have g: "cur \<in> set (bsBadIds (verdict_bad cur s))" "bsSkippedIds (verdict_bad cur s) = bsSkippedIds s"
    "bsGoodIds (verdict_bad cur s) = bsGoodIds s" "bsBadIds (verdict_bad cur s) = bsBadIds s @ [cur]"
    by (auto simp: verdict_bad_def Let_def)
  show ?thesis
  proof (cases "length (take (Suc m) ?r) \<le> 1")
    case True
    then have one: "take (Suc m) ?r = [cur]" using lst k(1) by (cases "take (Suc m) ?r") auto
    have "bisect_verdict_ok xs (verdict_bad cur s) (xs ! (lo + Suc k - 1))"
    proof (rule verdict_ok_window [OF h'])
      show "lo = 0 \<or> xs ! (lo - 1) \<in> set (bsGoodIds (verdict_bad cur s))" using hi g by simp
      show "xs ! (lo + Suc k - 1) \<in> set (bsBadIds (verdict_bad cur s))" using g k by simp
      show "xs ! i \<in> set (bsSkippedIds (verdict_bad cur s))" if "lo \<le> i" "i < lo + Suc k - 1" for i
        using remaining_others_skipped [OF _ d h'(1) that] one k unfolding k(6) g(2) by simp
    qed
    moreover have "bsFirstBadId (verdict_bad cur s) = Some cur"
      using k(3) one by (simp add: verdict_bad_def Let_def first_opt_def)
    ultimately show ?thesis using nb k by (auto simp: search_inv_def)
  next
    case False
    then have "window xs (verdict_bad cur s) lo (lo + Suc k)"
      using w k lst g h' hi by (auto simp: verdict_bad_def Let_def window_def)
    then show ?thesis by (auto simp: search_inv_def)
  qed
qed

lemma search_inv_mark:
  assumes "search_inv xs s" and "distinct xs" and "[] \<notin> set xs"
  shows "search_inv xs (bisect_mark s v)"
proof -
  from assms(1) consider (found) b where "bsFirstBadId s = Some b" "b \<noteq> []" | (live) lo hi where "window xs s lo hi"
    by (auto simp: search_inv_def)
  then show ?thesis
  proof cases
    case found
    then show ?thesis using assms(1) by (simp add: bisect_mark_def)
  next
    case live
    show ?thesis
    proof (cases "truthy (bsCurrent s)")
      case None
      then show ?thesis using assms(1) by (simp add: bisect_mark_def applyVerdict_def)
    next
      case (Some cur)
      then have c: "bsCurrent s = Some cur" by (simp add: truthy_Some_iff)
      have "bsFirstBadId s = None" using live by (simp add: window_def)
      then show ?thesis
        using Some window_skip [OF live assms(2) c] window_good [OF live assms(2,3) c] window_bad [OF live assms(2,3) c]
        by (cases v) (auto simp: bisect_mark_def applyVerdict_def search_inv_def)
    qed
  qed
qed

lemma search_inv_initial:
  assumes "xs \<noteq> []" and "last xs = bad"
  shows "search_inv xs (bisectInitial now bad good xs)"
proof -
  have "window xs (bisectInitial now bad good xs) 0 (length xs)"
    using assms by (simp add: window_def bisectInitial_def seg_def last_conv_nth)
  then show ?thesis by (auto simp: search_inv_def)
qed

lemma search_inv_session:
  "bisect_session s0 s \<Longrightarrow> search_inv xs s0 \<Longrightarrow> distinct xs \<Longrightarrow> [] \<notin> set xs \<Longrightarrow> search_inv xs s"
  by (induction rule: bisect_session.induct) (auto intro: search_inv_mark)

text \<open>
  Whatever sequence of good, bad and skip marks is given, a reported first bad
  checkpoint has been marked bad (or is the bad end of the range), and every older candidate was
  skipped or is not newer than a candidate marked good. Skips are the only way in which an older
  bad checkpoint can hide.
\<close>

theorem bisect_session_sound:
  assumes "distinct ids" and "[] \<notin> set ids" and "ids \<noteq> []" and "last ids = bad"
    and "bisect_session (bisectInitial now bad good ids) s" and "bsFirstBadId s = Some b"
  shows "b \<in> set (bsBadIds s)
    \<and> (\<exists>k < length ids. ids ! k = b
        \<and> (\<forall>i < k. ids ! i \<in> set (bsSkippedIds s) \<or> (\<exists>j < length ids. i \<le> j \<and> ids ! j \<in> set (bsGoodIds s))))"
  using search_inv_session [OF assms(5) search_inv_initial [OF assms(3,4)] assms(1,2)] assms(6)
  by (auto simp: search_inv_def window_def bisect_verdict_ok_def)

theorem bisect_session_sound_witness:
  "let ids = [''a'', ''b'', ''c'']; s = bisect_mark (bisect_mark (bisectInitial ''t'' ''c'' None ids) Bad) Good
   in bsFirstBadId s = Some ''b'' \<and> ''b'' \<in> set (bsBadIds s)
      \<and> (\<exists>k < length ids. ids ! k = ''b''
        \<and> (\<forall>i < k. ids ! i \<in> set (bsSkippedIds s) \<or> (\<exists>j < length ids. i \<le> j \<and> ids ! j \<in> set (bsGoodIds s))))"
proof -
  let ?ids = "[''a'', ''b'', ''c'']"
  let ?s = "bisect_mark (bisect_mark (bisectInitial ''t'' ''c'' None ?ids) Bad) Good"
  have reach: "bisect_session (bisectInitial ''t'' ''c'' None ?ids) ?s"
    by (intro session_mark session_start)
  have b: "bsFirstBadId ?s = Some ''b''" by code_simp
  show ?thesis
    using bisect_session_sound [OF _ _ _ _ reach b] b unfolding Let_def by force
qed

text \<open>
  Every mark on an unfinished session with a candidate shrinks the list of
  remaining candidates, so a driver reaches an answer, or runs out of candidates, after at most
  as many marks as there were candidates.
\<close>

theorem bisect_mark_progress:
  assumes "search_inv ids s" and "distinct ids" and "[] \<notin> set ids"
    and "bsFirstBadId s = None" and "bsCurrent s \<noteq> None"
  shows "length (bsRemaining (bisect_mark s v)) < length (bsRemaining s)"
proof -
  from assms(1,4) obtain lo hi where w: "window ids s lo hi" by (auto simp: search_inv_def)
  obtain cur where c: "bsCurrent s = Some cur" using assms(5) by blast
  obtain k m where m: "m < length (bsRemaining s)" "bsRemaining s ! m = cur" "index_of (bsRemaining s) cur = Some m"
    "m = (length (bsRemaining s) - 1) div 2" "k < length (seg ids lo hi)" "ids ! (lo + k) = cur" "lo + k < hi"
    using window_current [OF w assms(2) c] by metis
  have "hi \<le> length ids" using w by (simp add: window_def)
  then have "cur \<in> set ids" using m(6,7) nth_mem [of "lo + k" ids] by auto
  then have t: "truthy (bsCurrent s) = Some cur" using c assms(3) by (auto simp: truthy_Some_iff)
  have "length (filter (\<lambda>i. i \<noteq> cur) (bsRemaining s)) < length (bsRemaining s)"
    using m(1,2) by (intro length_filter_less [of cur]) (auto simp: nth_mem)
  moreover have "m + 1 < length (bsRemaining s) \<or> length (bsRemaining s) = 1" using m(1,4) by linarith
  ultimately show ?thesis using t m(1,3) assms(4)
    by (cases v) (auto simp: bisect_mark_def applyVerdict_def verdict_skip_def verdict_good_def verdict_bad_def Let_def)
qed

theorem bisect_mark_progress_witness:
  "let s = bisectInitial ''t'' ''c'' None [''a'', ''b'', ''c'']
   in length (bsRemaining (bisect_mark s Skip)) < length (bsRemaining s) \<and> length (bsRemaining s) = 3"
proof -
  have "search_inv [''a'', ''b'', ''c''] (bisectInitial ''t'' ''c'' None [''a'', ''b'', ''c''])"
    by (rule search_inv_initial) auto
  from bisect_mark_progress [OF this, of Skip] show ?thesis
    unfolding Let_def by (simp add: bisectInitial_def pickCurrent_def)
qed

section \<open>The candidate range\<close>

text \<open>
  The candidates of a bisect from a good to a different bad checkpoint of a
  well-formed history are exactly the ancestors of the bad one that are newer than the good one,
  oldest first, ending with the bad one; a good checkpoint that is no ancestor is refused.
\<close>

theorem rangeIds_between:
  assumes "line_wf hist" and "by_id hist bad = Some c" and "by_id hist good = Some g" and "good \<noteq> []" and "good \<noteq> bad"
  shows "(\<not> ancestor hist g c \<longrightarrow> isl (rangeIds hist base bad (Some good)))
    \<and> (ancestor hist g c \<longrightarrow> (\<exists>line. rangeIds hist base bad (Some good) = Inr (map cpId line)
         \<and> set line = {a. ancestor hist a c \<and> cp_key g < cp_key a}
         \<and> sorted_wrt (\<lambda>a b. cp_key a < cp_key b) line \<and> line \<noteq> [] \<and> last line = c))"
proof -
  have ch: "c \<in> set hist" "cpId c = bad" and gh: "g \<in> set hist" "cpId g = good"
    using by_id_Some [OF assms(2)] by_id_Some [OF assms(3)] by auto
  obtain line where line: "lineageCheckpoints hist bad = Some line" "set line = {a. ancestor hist a c}"
    "sorted_wrt (\<lambda>a b. cp_key a < cp_key b) line" "line \<noteq> []" "last line = c"
    using lineage_facts [OF assms(1,2)] by blast
  obtain l0 ls where l0: "line = l0 # ls" using line(4) by (cases line) auto
  have range: "rangeIds hist base bad (Some good) =
      (case index_of (map cpId line) good of
         None \<Rightarrow> Inl (''Good checkpoint '' @ good @ '' is not an ancestor of '' @ bad)
       | Some i \<Rightarrow> Inr (drop (i + 1) (map cpId line)))"
    using line(1) assms(4) unfolding l0 by (simp add: rangeIds_def Let_def split: option.split)
  have mem: "good \<in> set (map cpId line) \<longleftrightarrow> ancestor hist g c"
  proof
    assume "good \<in> set (map cpId line)"
    then obtain a where a: "a \<in> set line" "cpId a = good" by auto
    then have "a \<in> set hist" using line(2) ancestor_in ch(1) by blast
    then have "a = g" using a(2) gh by_id_distinct [OF line_wf_distinct [OF assms(1)]] by (metis option.inject)
    then show "ancestor hist g c" using a line(2) by blast
  qed (use line(2) gh in force)
  show ?thesis
  proof (intro conjI impI)
    assume "\<not> ancestor hist g c"
    then show "isl (rangeIds hist base bad (Some good))"
      using mem range index_of_None [of "map cpId line" good] by simp
  next
    assume "ancestor hist g c"
    then obtain i where i: "index_of (map cpId line) good = Some i"
      using mem index_of_None [of "map cpId line" good] by (cases "index_of (map cpId line) good") auto
    have ii: "i < length line" "cpId (line ! i) = good" using index_of_Some [OF i] by auto
    have "line ! i \<in> set hist" using ii(1) line(2) ancestor_in ch(1) nth_mem by blast
    then have gi: "line ! i = g" using ii gh by_id_distinct [OF line_wf_distinct [OF assms(1)]] by (metis option.inject)
    have lst: "i \<noteq> length line - 1"
      using ii gi line(4,5) ch gh assms(5) by (metis last_conv_nth)
    let ?d = "drop (i + 1) line"
    have srt: "sorted_wrt (\<lambda>a b. cp_key a < cp_key b) (take i line @ g # ?d)"
      using line(3) id_take_nth_drop [OF ii(1)] gi by simp
    have "set ?d = {a. ancestor hist a c \<and> cp_key g < cp_key a}"
    proof -
      have "set line = set (take i line) \<union> {g} \<union> set ?d"
        using id_take_nth_drop [OF ii(1)] gi by (metis Un_insert_right list.simps(15) set_append sup_bot.right_neutral Un_commute Un_insert_left Suc_eq_plus1)
      then show ?thesis using srt line(2) by (auto simp: sorted_wrt_append dest: order.asym)
    qed
    moreover have "?d \<noteq> []" "last ?d = c" using ii(1) lst line(5) by (auto simp: last_drop)
    moreover have "sorted_wrt (\<lambda>a b. cp_key a < cp_key b) ?d" using srt by (simp add: sorted_wrt_append)
    ultimately show "\<exists>line. rangeIds hist base bad (Some good) = Inr (map cpId line)
         \<and> set line = {a. ancestor hist a c \<and> cp_key g < cp_key a}
         \<and> sorted_wrt (\<lambda>a b. cp_key a < cp_key b) line \<and> line \<noteq> [] \<and> last line = c"
      using range i by (intro exI [of _ ?d]) (simp add: drop_map)
  qed
qed

lemma sample_history_ancestor: "ancestor sample_history (sample_history ! 0) (sample_history ! 3)"
proof -
  have "parent_cp sample_history (sample_history ! 3) = Some (sample_history ! 1)"
    "parent_cp sample_history (sample_history ! 1) = Some (sample_history ! 0)" by code_simp+
  then show ?thesis by (meson ancestor.intros)
qed

theorem rangeIds_between_witness:
  "\<exists>line. rangeIds sample_history None ''cp_d'' (Some ''cp_a'') = Inr (map cpId line)
         \<and> set line = {a. ancestor sample_history a (sample_history ! 3) \<and> cp_key (sample_history ! 0) < cp_key a}
         \<and> sorted_wrt (\<lambda>a b. cp_key a < cp_key b) line \<and> line \<noteq> [] \<and> last line = sample_history ! 3"
proof -
  have a: "by_id sample_history ''cp_a'' = Some (sample_history ! 0)" by code_simp
  show ?thesis
    using rangeIds_between [OF sample_history_wf sample_history_d(1) a, of None] sample_history_ancestor by simp
qed

end
