(* ===== verification/CheckpointPath.thy ===== *)
theory CheckpointPath
  imports KPrelude "HOL-Library.Sublist"
begin

text \<open>
  Paths: the part of Node's \<open>path.posix\<close> that the engine uses (normalisation, resolution,
  relative paths) and the workspace sandbox of \<open>checkpointPath.ts\<close> on a POSIX host. The process
  directory is the argument \<open>cwd\<close>.
\<close>

section \<open>POSIX paths\<close>

abbreviation slash :: char where "slash \<equiv> CHR ''/''"
abbreviation dotdot :: string where "dotdot \<equiv> ''..''"

definition norm_step :: "bool \<Rightarrow> string \<Rightarrow> string list \<Rightarrow> string list" where
  "norm_step allow_above seg acc =
     (if seg = [] \<or> seg = ''.'' then acc
      else if seg = dotdot then
        (case acc of
           [] \<Rightarrow> if allow_above then [dotdot] else []
         | s # rest \<Rightarrow> if s = dotdot then (if allow_above then dotdot # acc else acc) else rest)
      else seg # acc)"

definition norm_segs :: "bool \<Rightarrow> string list \<Rightarrow> string list" where
  "norm_segs allow_above segs = rev (fold (norm_step allow_above) segs [])"

definition posix_isAbsolute :: "string \<Rightarrow> bool" where
  "posix_isAbsolute p \<longleftrightarrow> starts_with p ''/''"

definition posix_normalize :: "string \<Rightarrow> string" where
  "posix_normalize p =
     (if p = [] then ''.''
      else let absolute = posix_isAbsolute p;
               trailing = ends_with p ''/'';
               body = join ''/'' (norm_segs (\<not> absolute) (split_on slash p))
           in if body = [] then (if absolute then ''/'' else if trailing then ''./'' else ''.'')
              else (if absolute then ''/'' else []) @ body @ (if trailing then ''/'' else []))"

definition posix_resolve :: "string \<Rightarrow> string list \<Rightarrow> string" where
  "posix_resolve cwd ps =
     (let full = fold (\<lambda>p acc. if p = [] then acc else if posix_isAbsolute p then p else acc @ ''/'' @ p) ps cwd
      in ''/'' @ join ''/'' (norm_segs False (split_on slash full)))"

fun strip_common :: "'a list \<Rightarrow> 'a list \<Rightarrow> 'a list \<times> 'a list" where
  "strip_common (x # xs) (y # ys) = (if x = y then strip_common xs ys else (x # xs, y # ys))"
| "strip_common xs ys = (xs, ys)"

definition path_segs :: "string \<Rightarrow> string list" where
  "path_segs p = filter (\<lambda>s. s \<noteq> []) (split_on slash p)"

definition posix_relative :: "string \<Rightarrow> string \<Rightarrow> string \<Rightarrow> string" where
  "posix_relative cwd a b =
     (let from_segs = path_segs (posix_resolve cwd [a]); to_segs = path_segs (posix_resolve cwd [b])
      in case strip_common from_segs to_segs of
           (up, down) \<Rightarrow> join ''/'' (replicate (length up) dotdot @ down))"

definition win32_isAbsolute :: "string \<Rightarrow> bool" where
  "win32_isAbsolute p =
     (case p of
        [] \<Rightarrow> False
      | c # rest \<Rightarrow>
          if c = slash \<or> c = backslash then True
          else (let n = (of_char (lower_char c) :: nat)
                in 97 \<le> n \<and> n \<le> 122 \<and> (of_char c :: nat) < 128
                   \<and> (case rest of
                        d # e # _ \<Rightarrow> d = CHR '':'' \<and> (e = slash \<or> e = backslash)
                      | _ \<Rightarrow> False)))"

section \<open>The sandbox\<close>

definition isAbsoluteOnAnyPlatform :: "string \<Rightarrow> bool" where
  "isAbsoluteOnAnyPlatform p \<longleftrightarrow> posix_isAbsolute p \<or> win32_isAbsolute p"

definition splitSegments :: "string \<Rightarrow> string list" where
  "splitSegments p = filter (\<lambda>s. s \<noteq> []) (split_on slash (js_replace_char backslash slash p))"

definition startsWithPathPrefix :: "string \<Rightarrow> string \<Rightarrow> bool" where
  "startsWithPathPrefix full root =
     (let r = (if ends_with root ''/'' then root else root @ ''/'') in full = root \<or> starts_with full r)"

text \<open>
  The result is the reason of the refusal or the full path. The drive-letter and UNC tests are
  those of the source; \<open>win32_isAbsolute\<close> already covers them.
\<close>

definition drive_or_unc :: "string \<Rightarrow> bool" where
  "drive_or_unc p \<longleftrightarrow> starts_with p [backslash, backslash]
     \<or> (length p \<ge> 3 \<and> p ! 1 = CHR '':'' \<and> (p ! 2 = slash \<or> p ! 2 = backslash)
        \<and> (let n = (of_char (p ! 0) :: nat) in (65 \<le> n \<and> n \<le> 90) \<or> (97 \<le> n \<and> n \<le> 122)))"

definition tryResolveSandboxedWorkspacePath :: "string \<Rightarrow> string \<Rightarrow> string \<Rightarrow> string + string" where
  "tryResolveSandboxedWorkspacePath cwd root rel =
     (if rel = [] then Inl ''empty path''
      else if nul \<in> set rel then Inl ''NUL byte in path''
      else if isAbsoluteOnAnyPlatform rel then Inl ''absolute path''
      else if drive_or_unc rel then Inl ''absolute path''
      else let normalized = posix_normalize rel
           in if nul \<in> set normalized then Inl ''NUL byte in path''
              else if isAbsoluteOnAnyPlatform normalized then Inl ''absolute path''
              else if dotdot \<in> set (splitSegments normalized) then Inl ''path traversal''
              else let workspace = posix_resolve cwd [root];
                       full = posix_resolve cwd [workspace, normalized]
                   in if startsWithPathPrefix full workspace then Inr full
                      else Inl ''path escapes workspace'')"

definition isUnsafeCheckpointRelativePath :: "string \<Rightarrow> string \<Rightarrow> bool" where
  "isUnsafeCheckpointRelativePath cwd rel = isl (tryResolveSandboxedWorkspacePath cwd ''/workspace'' rel)"

section \<open>Normalised segments\<close>

definition clean_seg :: "string \<Rightarrow> bool" where
  "clean_seg s \<longleftrightarrow> s \<noteq> [] \<and> s \<noteq> ''.'' \<and> s \<noteq> dotdot \<and> slash \<notin> set s"

lemma fold_norm_slash_free:
  "\<forall>s \<in> set segs. slash \<notin> set s \<Longrightarrow> \<forall>s \<in> set acc. slash \<notin> set s \<Longrightarrow>
   \<forall>s \<in> set (fold (norm_step a) segs acc). slash \<notin> set s"
proof (induction segs arbitrary: acc)
  case (Cons x xs)
  have "\<forall>s \<in> set (norm_step a x acc). slash \<notin> set s"
    using Cons.prems by (auto simp: norm_step_def split: list.splits)
  then show ?case using Cons by simp
qed simp

lemma fold_norm_clean:
  "\<forall>s \<in> set segs. slash \<notin> set s \<Longrightarrow> \<forall>s \<in> set acc. clean_seg s \<Longrightarrow>
   \<forall>s \<in> set (fold (norm_step False) segs acc). clean_seg s"
proof (induction segs arbitrary: acc)
  case (Cons x xs)
  have "\<forall>s \<in> set (norm_step False x acc). clean_seg s"
    using Cons.prems by (auto simp: norm_step_def clean_seg_def split: list.splits)
  then show ?case using Cons by simp
qed simp

lemma fold_norm_append_clean:
  "\<forall>s \<in> set segs. s \<noteq> dotdot \<Longrightarrow>
   fold (norm_step a) segs acc = rev (filter (\<lambda>s. s \<noteq> [] \<and> s \<noteq> ''.'') segs) @ acc"
  by (induction segs arbitrary: acc) (auto simp: norm_step_def)

lemma norm_segs_app_clean:
  "\<forall>s \<in> set ys. s \<noteq> dotdot \<Longrightarrow>
   norm_segs a (xs @ ys) = norm_segs a xs @ filter (\<lambda>s. s \<noteq> [] \<and> s \<noteq> ''.'') ys"
  by (simp add: norm_segs_def fold_norm_append_clean)

lemma norm_segs_id: "\<forall>s \<in> set xs. clean_seg s \<Longrightarrow> norm_segs a xs = xs"
  by (auto simp: norm_segs_def fold_norm_append_clean clean_seg_def filter_id_conv)

lemma norm_segs_clean: "\<forall>s \<in> set segs. slash \<notin> set s \<Longrightarrow> \<forall>s \<in> set (norm_segs False segs). clean_seg s"
  using fold_norm_clean [of segs "[]"] by (simp add: norm_segs_def)

lemma split_slash_free: "\<forall>s \<in> set (split_on slash p). slash \<notin> set s"
  using split_on_no_sep by blast

lemma split_on_append: "split_on c (s @ [c] @ t) = split_on c s @ split_on c t"
  by (induction s) (auto split: list.splits)

lemma filter_split_join:
  "\<forall>s \<in> set xs. s \<noteq> [] \<and> c \<notin> set s \<Longrightarrow> filter (\<lambda>s. s \<noteq> []) (split_on c (join [c] xs)) = xs"
proof (cases xs)
  case (Cons y ys)
  assume a: "\<forall>s \<in> set xs. s \<noteq> [] \<and> c \<notin> set s"
  then have "split_on c (join [c] xs) = xs" using Cons by (intro split_on_join) auto
  then show ?thesis using a by (simp add: filter_id_conv)
qed simp

lemma path_segs_abs:
  "\<forall>s \<in> set xs. clean_seg s \<Longrightarrow> path_segs (''/'' @ join ''/'' xs) = xs"
  using filter_split_join [of xs slash] by (simp add: path_segs_def clean_seg_def)

lemma posix_resolve_segs: "\<forall>s \<in> set (path_segs (posix_resolve cwd ps)). clean_seg s"
  and posix_resolve_shape: "posix_resolve cwd ps = ''/'' @ join ''/'' (path_segs (posix_resolve cwd ps))"
proof -
  let ?full = "fold (\<lambda>p acc. if p = [] then acc else if posix_isAbsolute p then p else acc @ ''/'' @ p) ps cwd"
  let ?n = "norm_segs False (split_on slash ?full)"
  have c: "\<forall>s \<in> set ?n. clean_seg s" using norm_segs_clean split_slash_free by blast
  have r: "posix_resolve cwd ps = ''/'' @ join ''/'' ?n" by (simp add: posix_resolve_def)
  have p: "path_segs (posix_resolve cwd ps) = ?n" unfolding r by (rule path_segs_abs [OF c])
  show "\<forall>s \<in> set (path_segs (posix_resolve cwd ps)). clean_seg s" using c p by simp
  show "posix_resolve cwd ps = ''/'' @ join ''/'' (path_segs (posix_resolve cwd ps))" using r p by simp
qed

lemma norm_filter_empty: "norm_segs a (filter (\<lambda>s. s \<noteq> []) xs) = norm_segs a xs"
proof -
  have "fold (norm_step a) (filter (\<lambda>s. s \<noteq> []) xs) acc = fold (norm_step a) xs acc" for acc
    by (induction xs arbitrary: acc) (auto simp: norm_step_def)
  then show ?thesis by (simp add: norm_segs_def)
qed

lemma resolve_under:
  assumes "\<not> posix_isAbsolute rel" and "rel \<noteq> []" and nd: "dotdot \<notin> set (split_on slash rel)"
    and ws: "ws = posix_resolve cwd [root]"
  shows "path_segs (posix_resolve cwd [ws, rel]) =
     path_segs ws @ filter (\<lambda>s. s \<noteq> [] \<and> s \<noteq> ''.'') (split_on slash rel)"
proof -
  let ?w = "path_segs ws" and ?r = "filter (\<lambda>s. s \<noteq> [] \<and> s \<noteq> ''.'') (split_on slash rel)"
  have shape: "ws = ''/'' @ join ''/'' ?w" and cw: "\<forall>s \<in> set ?w. clean_seg s"
    unfolding ws using posix_resolve_shape posix_resolve_segs by blast+
  have abs: "posix_isAbsolute ws" "ws \<noteq> []" by (subst shape, simp add: posix_isAbsolute_def starts_with_def)+
  have cr: "\<forall>s \<in> set ?r. clean_seg s"
    using nd split_slash_free [of rel] by (auto simp: clean_seg_def)
  have nw: "norm_segs False (split_on slash ws) = ?w"
    using norm_filter_empty [of False "split_on slash ws"] norm_segs_id [OF cw] by (simp add: path_segs_def)
  have "posix_resolve cwd [ws, rel] = ''/'' @ join ''/'' (norm_segs False (split_on slash (ws @ ''/'' @ rel)))"
    using abs assms(1,2) by (simp add: posix_resolve_def)
  also have "split_on slash (ws @ ''/'' @ rel) = split_on slash ws @ split_on slash rel"
    by (rule split_on_append)
  also have "norm_segs False (split_on slash ws @ split_on slash rel) = ?w @ ?r"
    using nd by (subst norm_segs_app_clean) (auto simp: nw)
  finally have "posix_resolve cwd [ws, rel] = ''/'' @ join ''/'' (?w @ ?r)" .
  then show ?thesis using path_segs_abs [of "?w @ ?r"] cw cr by auto
qed

section \<open>The sandbox is safe and complete\<close>

lemma replace_append: "js_replace_char a b (s @ t) = js_replace_char a b s @ js_replace_char a b t"
  by (simp add: js_replace_char_def)

lemma replace_absent: "a \<notin> set s \<Longrightarrow> js_replace_char a b s = s"
  by (auto simp: js_replace_char_def intro!: map_idI)

lemma split_replace_join:
  "xs \<noteq> [] \<Longrightarrow> split_on c (js_replace_char b c (join [c] xs)) = concat (map (\<lambda>l. split_on c (js_replace_char b c l)) xs)"
proof (induction "[c]" xs rule: join.induct)
  case (3 x y zs)
  have "js_replace_char b c (x @ [c] @ join [c] (y # zs)) =
      js_replace_char b c x @ [c] @ js_replace_char b c (join [c] (y # zs))"
    by (simp add: replace_append js_replace_char_def)
  then show ?case using 3 split_on_append [of c "js_replace_char b c x"] by simp
qed auto

lemma dotdot_segments:
  assumes "dotdot \<notin> set (splitSegments p)"
  shows "dotdot \<notin> set (split_on slash p)"
proof
  assume d: "dotdot \<in> set (split_on slash p)"
  have "split_on slash (js_replace_char backslash slash p) =
      concat (map (\<lambda>l. split_on slash (js_replace_char backslash slash l)) (split_on slash p))"
    using split_replace_join [of "split_on slash p" slash backslash] by simp
  moreover have "split_on slash (js_replace_char backslash slash dotdot) = [dotdot]" by code_simp
  ultimately have "dotdot \<in> set (split_on slash (js_replace_char backslash slash p))" using d by force
  then show False using assms by (simp add: splitSegments_def)
qed

lemma ends_with_slash_split: "ends_with p ''/'' \<Longrightarrow> [] \<in> set (split_on slash p)"
proof -
  assume e: "ends_with p ''/''"
  then have "p = take (length p - 1) p @ [slash] @ []"
    by (metis One_nat_def append.right_neutral append_take_drop_id ends_with_def length_Cons list.size(3))
  then show ?thesis using split_on_append [of slash "take (length p - 1) p" "[]"] by (metis Un_iff list.set_intros(1) set_append split_on.simps(1))
qed

lemma join_clean_split: "xs \<noteq> [] \<Longrightarrow> \<forall>s \<in> set xs. clean_seg s \<Longrightarrow> split_on slash (join ''/'' xs) = xs"
  by (rule split_on_join) (auto simp: clean_seg_def)

lemma join_clean_no_trailing: "xs \<noteq> [] \<Longrightarrow> \<forall>s \<in> set xs. clean_seg s \<Longrightarrow> \<not> ends_with (join ''/'' xs) ''/''"
  using ends_with_slash_split [of "join ''/'' xs"] join_clean_split [of xs] by (auto simp: clean_seg_def)

lemma join_append: "xs \<noteq> [] \<Longrightarrow> ys \<noteq> [] \<Longrightarrow> join sep (xs @ ys) = join sep xs @ sep @ join sep ys"
  by (induction sep xs rule: join.induct) (auto simp: join_Cons)

lemma join_nonempty: "x \<noteq> [] \<Longrightarrow> join sep (x # xs) \<noteq> []"
  by (cases xs) auto

lemma ends_with_append: "t \<noteq> [] \<Longrightarrow> ends_with (s @ t) [c] \<longleftrightarrow> ends_with t [c]"
  by (cases t rule: rev_cases) (auto simp: ends_with_def)

lemma prefix_check_passes:
  assumes ws: "ws = ''/'' @ join ''/'' w" and full: "full = ''/'' @ join ''/'' (w @ down)"
    and c: "\<forall>s \<in> set w. clean_seg s"
  shows "startsWithPathPrefix full ws"
proof (cases "w = []")
  case True
  then show ?thesis using ws full by (simp add: startsWithPathPrefix_def Let_def ends_with_def starts_with_def)
next
  case False
  have "\<not> ends_with ws ''/''"
  proof
    assume "ends_with ws ''/''"
    moreover have "join ''/'' w \<noteq> []" using False c by (cases w) (auto simp: join_nonempty clean_seg_def)
    ultimately have "ends_with (join ''/'' w) ''/''" using ws by (metis ends_with_append)
    then show False using join_clean_no_trailing [OF False c] by blast
  qed
  then show ?thesis
    using ws full False join_append [of w down "''/''"]
    by (cases "down = []") (auto simp: startsWithPathPrefix_def Let_def starts_with_def)
qed

lemma sandbox_Inr:
  assumes "tryResolveSandboxedWorkspacePath cwd root rel = Inr full"
  shows "rel \<noteq> [] \<and> nul \<notin> set rel \<and> \<not> posix_isAbsolute rel
    \<and> full = posix_resolve cwd [posix_resolve cwd [root], posix_normalize rel]
    \<and> \<not> posix_isAbsolute (posix_normalize rel) \<and> dotdot \<notin> set (split_on slash (posix_normalize rel))"
  using assms dotdot_segments
  by (auto simp: tryResolveSandboxedWorkspacePath_def Let_def isAbsoluteOnAnyPlatform_def split: if_splits)

lemma posix_normalize_not_Nil: "posix_normalize p \<noteq> []"
  by (auto simp: posix_normalize_def Let_def)

text \<open>
  C19 (safety): a path that the sandbox accepts stays inside the workspace: the full path is the
  workspace root followed by zero or more segments, none of which is empty, \<open>.\<close> or \<open>..\<close>.
\<close>

theorem sandbox_confines:
  assumes "tryResolveSandboxedWorkspacePath cwd root rel = Inr full"
  shows "\<exists>down. path_segs full = path_segs (posix_resolve cwd [root]) @ down
     \<and> (\<forall>s \<in> set down. clean_seg s) \<and> full = ''/'' @ join ''/'' (path_segs full)"
proof -
  let ?n = "posix_normalize rel" and ?ws = "posix_resolve cwd [root]"
  note s = sandbox_Inr [OF assms]
  have full: "full = posix_resolve cwd [?ws, ?n]" using s by blast
  have "path_segs full = path_segs ?ws @ filter (\<lambda>s. s \<noteq> [] \<and> s \<noteq> ''.'') (split_on slash ?n)"
    unfolding full by (rule resolve_under) (use s posix_normalize_not_Nil in auto)
  moreover have "\<forall>x \<in> set (filter (\<lambda>s. s \<noteq> [] \<and> s \<noteq> ''.'') (split_on slash ?n)). clean_seg x"
    using s split_slash_free [of ?n] by (auto simp: clean_seg_def)
  moreover have "full = ''/'' @ join ''/'' (path_segs full)" unfolding full by (rule posix_resolve_shape)
  ultimately show ?thesis by blast
qed

theorem sandbox_confines_witness:
  "tryResolveSandboxedWorkspacePath ''/'' ''/home/w'' ''src/../a.ts'' = Inr ''/home/w/a.ts''
   \<and> (\<exists>down. path_segs ''/home/w/a.ts'' = path_segs (posix_resolve ''/'' [''/home/w'']) @ down
        \<and> (\<forall>s \<in> set down. clean_seg s))"
proof -
  have v: "tryResolveSandboxedWorkspacePath ''/'' ''/home/w'' ''src/../a.ts'' = Inr ''/home/w/a.ts''"
    by code_simp
  from sandbox_confines [OF v] v show ?thesis by blast
qed

text \<open>
  The sandbox accepts every well-formed relative path (segments separated by
  single slashes, none of them \<open>.\<close> or \<open>..\<close>, no backslash or NUL, no drive prefix) and resolves it
  to the workspace root followed by exactly those segments.
\<close>

theorem sandbox_accepts_clean_paths:
  assumes "xs \<noteq> []" and "\<forall>s \<in> set xs. clean_seg s" and "rel = join ''/'' xs"
    and "backslash \<notin> set rel" and "nul \<notin> set rel" and "\<not> win32_isAbsolute rel" and "\<not> drive_or_unc rel"
  shows "tryResolveSandboxedWorkspacePath cwd root rel =
     Inr (''/'' @ join ''/'' (path_segs (posix_resolve cwd [root]) @ xs))"
proof -
  let ?ws = "posix_resolve cwd [root]"
  let ?full = "posix_resolve cwd [?ws, rel]"
  have sp: "split_on slash rel = xs" using join_clean_split [OF assms(1,2)] assms(3) by simp
  have ne: "rel \<noteq> []" using assms(1-3) by (cases xs) (auto simp: join_nonempty clean_seg_def)
  have abs: "\<not> posix_isAbsolute rel"
  proof
    assume "posix_isAbsolute rel"
    then obtain r where "rel = [slash] @ r" by (cases rel) (auto simp: posix_isAbsolute_def starts_with_def)
    then have "[] \<in> set (split_on slash rel)" by simp
    then show False using sp assms(2) by (auto simp: clean_seg_def)
  qed
  have norm: "posix_normalize rel = rel"
    using ne abs norm_segs_id [OF assms(2)] join_clean_no_trailing [OF assms(1,2)] assms(3) sp
    by (simp add: posix_normalize_def Let_def)
  have nd: "dotdot \<notin> set xs" using assms(2) by (auto simp: clean_seg_def)
  have seg: "splitSegments rel = xs"
    using replace_absent [OF assms(4)] sp assms(2) by (auto simp: splitSegments_def clean_seg_def filter_id_conv)
  have p: "path_segs ?full = path_segs ?ws @ filter (\<lambda>s. s \<noteq> [] \<and> s \<noteq> ''.'') xs"
    using resolve_under [OF abs ne _ refl, of cwd root] sp nd by simp
  have f: "filter (\<lambda>s. s \<noteq> [] \<and> s \<noteq> ''.'') xs = xs" using assms(2) by (auto simp: clean_seg_def filter_id_conv)
  have full: "?full = ''/'' @ join ''/'' (path_segs ?ws @ xs)"
    using posix_resolve_shape [of cwd "[?ws, rel]"] p f by simp
  have "startsWithPathPrefix ?full ?ws"
    by (rule prefix_check_passes [OF posix_resolve_shape full]) (rule posix_resolve_segs)
  then show ?thesis
    using ne assms(5-7) abs norm seg nd full
    by (simp add: tryResolveSandboxedWorkspacePath_def isAbsoluteOnAnyPlatform_def Let_def)
qed

theorem sandbox_accepts_clean_paths_witness:
  "tryResolveSandboxedWorkspacePath ''/'' ''/home/w/'' ''src/a.ts'' = Inr ''/home/w/src/a.ts''"
proof -
  have c: "\<forall>s \<in> set [''src'', ''a.ts'']. clean_seg s" by (simp add: clean_seg_def)
  have w: "\<not> win32_isAbsolute ''src/a.ts''" "\<not> drive_or_unc ''src/a.ts''" by code_simp+
  have p: "path_segs (posix_resolve ''/'' [''/home/w/'']) = [''home'', ''w'']" by code_simp
  show ?thesis
    using sandbox_accepts_clean_paths [OF _ c, of "''src/a.ts''" "''/''" "''/home/w/''"] w p by simp
qed

end
