(* ===== verification/PathQuery.thy ===== *)
theory PathQuery
  imports CheckpointPath CheckpointTypes
begin

text \<open>
  The path filters of captures (\<open>manager/pathFilter.ts\<close>) and the list queries of the timeline
  (\<open>manager/listQuery.ts\<close>): changed paths, search, session filter, pages and id ranges.
\<close>

section \<open>Path filters\<close>

definition toPosixRelative :: "string \<Rightarrow> string" where
  "toPosixRelative p =
     (let q = js_replace_char backslash slash p
      in if starts_with q ''./'' then drop 2 q else q)"

definition drive_prefix :: "string \<Rightarrow> bool" where
  "drive_prefix p \<longleftrightarrow> length p \<ge> 3 \<and> p ! 1 = CHR '':'' \<and> (p ! 2 = slash \<or> p ! 2 = backslash)
     \<and> (let n = (of_char (p ! 0) :: nat) in (65 \<le> n \<and> n \<le> 90) \<or> (97 \<le> n \<and> n \<le> 122))"

definition strip_trailing_slashes :: "string \<Rightarrow> string" where
  "strip_trailing_slashes p = rev (dropWhile (\<lambda>c. c = slash) (rev p))"

definition normalizeCapturePath :: "string \<Rightarrow> string \<Rightarrow> string \<Rightarrow> string" where
  "normalizeCapturePath cwd workspace p =
     (let trimmed = js_trim p
      in if trimmed = [] then []
         else if posix_isAbsolute trimmed \<or> drive_prefix trimmed
              then toPosixRelative (posix_relative cwd workspace trimmed)
              else strip_trailing_slashes (toPosixRelative trimmed))"

definition pathMatchesPattern :: "string \<Rightarrow> string \<Rightarrow> string \<Rightarrow> string \<Rightarrow> bool" where
  "pathMatchesPattern cwd workspace p pattern =
     (let rel = toPosixRelative p; pat = normalizeCapturePath cwd workspace pattern
      in if rel = [] \<or> pat = [] \<or> pat = ''.'' \<or> starts_with pat ''../'' \<or> pat = ''..'' then False
         else if rel = pat then True
         else (let pre = (if ends_with pat ''/'' then pat else pat @ ''/'') in starts_with rel pre))"

definition pathMatchesAny :: "string \<Rightarrow> string \<Rightarrow> string \<Rightarrow> string list \<Rightarrow> bool" where
  "pathMatchesAny cwd workspace p patterns = list_ex (pathMatchesPattern cwd workspace p) patterns"

definition isExactIncludePath :: "string \<Rightarrow> string \<Rightarrow> string \<Rightarrow> string list option \<Rightarrow> bool" where
  "isExactIncludePath cwd workspace p include_files =
     (case include_files of
        None \<Rightarrow> False
      | Some ps \<Rightarrow> if ps = [] then False
                   else list_ex (\<lambda>q. normalizeCapturePath cwd workspace q = toPosixRelative p) ps)"

record capture_filter =
  cfInclude :: "string list option"
  cfExclude :: "string list option"

definition shouldCaptureRelativePath :: "string \<Rightarrow> string \<Rightarrow> string \<Rightarrow> capture_filter option \<Rightarrow> bool" where
  "shouldCaptureRelativePath cwd workspace p f =
     (case f of
        None \<Rightarrow> True
      | Some c \<Rightarrow>
          if or_default (cfInclude c) [] \<noteq> [] \<and> \<not> pathMatchesAny cwd workspace p (or_default (cfInclude c) []) then False
          else if or_default (cfExclude c) [] \<noteq> [] \<and> pathMatchesAny cwd workspace p (or_default (cfExclude c) []) then False
          else True)"

definition captureFilterIsActive :: "capture_filter option \<Rightarrow> bool" where
  "captureFilterIsActive f =
     (case f of None \<Rightarrow> False
      | Some c \<Rightarrow> or_default (cfInclude c) [] \<noteq> [] \<or> or_default (cfExclude c) [] \<noteq> [])"

definition fileSetsOverlap :: "string \<Rightarrow> string option \<Rightarrow> string list \<Rightarrow> string list \<Rightarrow> bool" where
  "fileSetsOverlap cwd workspace left right =
     (if left = [] \<or> right = [] then True
      else (let w = or_default workspace []
            in list_ex (\<lambda>a. list_ex (\<lambda>b. pathMatchesPattern cwd w a b \<or> pathMatchesPattern cwd w b a) right) left))"

definition plain_path :: "string list \<Rightarrow> bool" where
  "plain_path xs \<longleftrightarrow> xs \<noteq> [] \<and> (\<forall>s \<in> set xs. clean_seg s) \<and> backslash \<notin> set (join ''/'' xs)"

lemma plain_not_dot:
  assumes "plain_path xs"
  shows "\<not> starts_with (join ''/'' xs) ''./''" and "\<not> starts_with (join ''/'' xs) ''../''"
    and "join ''/'' xs \<noteq> []" and "join ''/'' xs \<noteq> ''.''" and "join ''/'' xs \<noteq> ''..''"
proof -
  have sp: "split_on slash (join ''/'' xs) = xs"
    using assms by (intro join_clean_split) (auto simp: plain_path_def)
  have no: "q \<notin> set (split_on slash (join ''/'' xs))" if "\<not> clean_seg q" for q
    using assms that unfolding sp plain_path_def by blast
  have pre: "\<not> starts_with (join ''/'' xs) (q @ ''/'')" if "\<not> clean_seg q" "slash \<notin> set q" for q
  proof
    assume "starts_with (join ''/'' xs) (q @ ''/'')"
    then obtain r where "join ''/'' xs = q @ slash # r"
      by (metis append_Cons append_assoc append_Nil append_take_drop_id starts_with_def)
    then show False using no [OF that(1)] split_on_append_sep [OF that(2), of r] by simp
  qed
  show "\<not> starts_with (join ''/'' xs) ''./''" using pre [of "''.''"] by (simp add: clean_seg_def)
  show "\<not> starts_with (join ''/'' xs) ''../''" using pre [of dotdot] by (simp add: clean_seg_def)
  show "join ''/'' xs \<noteq> []" using no [of "[]"] by (auto simp: clean_seg_def)
  show "join ''/'' xs \<noteq> ''.''" using no [of "''.''"] by (auto simp: clean_seg_def)
  show "join ''/'' xs \<noteq> ''..''" using no [of dotdot] by (auto simp: clean_seg_def)
qed

lemma plain_toPosixRelative: "plain_path xs \<Longrightarrow> toPosixRelative (join ''/'' xs) = join ''/'' xs"
  using plain_not_dot [of xs] replace_absent [of backslash "join ''/'' xs" slash]
  by (simp add: toPosixRelative_def plain_path_def Let_def)

lemma plain_strip: "plain_path xs \<Longrightarrow> strip_trailing_slashes (join ''/'' xs) = join ''/'' xs"
proof -
  assume p: "plain_path xs"
  then have e: "\<not> ends_with (join ''/'' xs) [slash]"
    using join_clean_no_trailing [of xs] by (simp add: plain_path_def)
  obtain ys y where y: "join ''/'' xs = ys @ [y]" using plain_not_dot(3) [OF p] by (metis rev_exhaust)
  then have "y \<noteq> slash" using e by (auto simp: ends_with_def)
  then show ?thesis using y by (simp add: strip_trailing_slashes_def)
qed

lemma plain_not_absolute: "plain_path xs \<Longrightarrow> \<not> posix_isAbsolute (join ''/'' xs)"
proof
  assume p: "plain_path xs" and "posix_isAbsolute (join ''/'' xs)"
  then obtain r where "join ''/'' xs = [slash] @ r"
    by (cases "join ''/'' xs") (auto simp: posix_isAbsolute_def starts_with_def)
  then have "[] \<in> set (split_on slash (join ''/'' xs))" by simp
  then show False using p join_clean_split [of xs] by (auto simp: plain_path_def clean_seg_def)
qed

lemma starts_with_segments:
  assumes "plain_path rs" and "plain_path ps"
  shows "starts_with (join ''/'' rs) (join ''/'' ps @ ''/'') \<longleftrightarrow> strict_prefix ps rs"
proof
  have sr: "split_on slash (join ''/'' rs) = rs" and sp: "split_on slash (join ''/'' ps) = ps"
    using assms by (auto simp: plain_path_def intro: join_clean_split)
  assume "starts_with (join ''/'' rs) (join ''/'' ps @ ''/'')"
  then obtain t where "join ''/'' rs = join ''/'' ps @ [slash] @ t"
    by (metis append.assoc append_take_drop_id starts_with_def)
  then have "rs = ps @ split_on slash t" using sr sp split_on_append by metis
  then show "strict_prefix ps rs" by (simp add: strict_prefix_def)
next
  assume "strict_prefix ps rs"
  then obtain q where "rs = ps @ q" "q \<noteq> []" by (auto simp: strict_prefix_def prefix_def)
  then have "join ''/'' rs = (join ''/'' ps @ ''/'') @ join ''/'' q"
    using assms(2) join_append [of ps q "''/''"] by (simp add: plain_path_def)
  then show "starts_with (join ''/'' rs) (join ''/'' ps @ ''/'')"
    by (simp only:) (simp add: starts_with_def)
qed

text \<open>
  A well-formed pattern matches exactly the file or directory it names and
  everything below it: the segments of the pattern are a prefix of the segments of the path.
  In particular \<open>src/ab\<close> is never matched by the pattern \<open>src/a\<close>.
\<close>

theorem pathMatchesPattern_prefix:
  assumes "plain_path rs" and "plain_path ps"
    and "js_trim (join ''/'' ps) = join ''/'' ps" and "\<not> drive_prefix (join ''/'' ps)"
  shows "pathMatchesPattern cwd workspace (join ''/'' rs) (join ''/'' ps) \<longleftrightarrow> prefix ps rs"
proof -
  have n: "normalizeCapturePath cwd workspace (join ''/'' ps) = join ''/'' ps"
    using assms plain_not_dot(3) [OF assms(2)] plain_not_absolute [OF assms(2)]
    by (simp add: normalizeCapturePath_def Let_def plain_toPosixRelative plain_strip)
  have e: "\<not> ends_with (join ''/'' ps) ''/''"
    using assms(2) join_clean_no_trailing [of ps] by (simp add: plain_path_def)
  have j: "join ''/'' rs = join ''/'' ps \<longleftrightarrow> rs = ps"
    using join_clean_split [of rs] join_clean_split [of ps] assms(1,2) unfolding plain_path_def by metis
  show ?thesis
    using plain_not_dot [OF assms(1)] plain_not_dot [OF assms(2)] e j
      starts_with_segments [OF assms(1,2)] plain_toPosixRelative [OF assms(1)]
    by (auto simp: pathMatchesPattern_def n Let_def strict_prefix_def)
qed

theorem pathMatchesPattern_prefix_witness:
  "pathMatchesPattern ''/'' ''/w'' ''src/a/b.ts'' ''src/a'' \<and> \<not> pathMatchesPattern ''/'' ''/w'' ''src/ab.ts'' ''src/a''"
proof -
  have p: "plain_path [''src'', ''a'', ''b.ts'']" "plain_path [''src'', ''a'']" "plain_path [''src'', ''ab.ts'']"
    by (simp_all add: plain_path_def clean_seg_def)
  have t: "js_trim (join ''/'' [''src'', ''a'']) = join ''/'' [''src'', ''a'']"
    "\<not> drive_prefix (join ''/'' [''src'', ''a''])" by code_simp+
  show ?thesis
    using pathMatchesPattern_prefix [OF p(1,2) t, of "''/''" "''/w''"]
      pathMatchesPattern_prefix [OF p(3,2) t, of "''/''" "''/w''"] by simp
qed

section \<open>List queries\<close>

definition CHECKPOINT_LIST_PAGE_SIZE :: nat where "CHECKPOINT_LIST_PAGE_SIZE = 50"
definition CHANGED_PATHS_INDEX_LIMIT :: nat where "CHANGED_PATHS_INDEX_LIMIT = 200"

definition posix_trim :: "string \<Rightarrow> string" where
  "posix_trim p = js_trim (js_replace_char backslash slash p)"

definition query_rename_sources :: "file_snapshot list \<Rightarrow> string list" where
  "query_rename_sources ss = filter (\<lambda>s. s \<noteq> []) (map (\<lambda>s. posix_trim (or_default (fsRenamedFrom s) [])) ss)"

text \<open>The loop of \<open>changedPathsFromSnapshots\<close>; \<open>unique\<close> is in order (it equals \<open>seen\<close>).\<close>

fun changed_loop :: "string list \<Rightarrow> file_snapshot list \<Rightarrow> string list \<Rightarrow> string list" where
  "changed_loop sources [] unique = unique"
| "changed_loop sources (s # ss) unique =
     (let p = posix_trim (fsRelativePath s)
      in if p = [] \<or> p \<in> set unique then changed_loop sources ss unique
         else if snapshotIsDeleted s \<and> p \<in> set sources then changed_loop sources ss unique
         else if length (unique @ [p]) \<ge> CHANGED_PATHS_INDEX_LIMIT then unique @ [p]
         else changed_loop sources ss (unique @ [p]))"

definition changedPathsFromSnapshots :: "file_snapshot list option \<Rightarrow> string list" where
  "changedPathsFromSnapshots snapshots =
     (case snapshots of
        None \<Rightarrow> []
      | Some ss \<Rightarrow> if ss = [] then [] else changed_loop (query_rename_sources ss) ss [])"

definition renamedFromByPath :: "file_snapshot list option \<Rightarrow> (string, string) jsmap" where
  "renamedFromByPath snapshots =
     fold (\<lambda>s m. let to = posix_trim (fsRelativePath s); from_path = posix_trim (or_default (fsRenamedFrom s) [])
                 in if to \<noteq> [] \<and> from_path \<noteq> [] \<and> to \<noteq> from_path then jm_set to from_path m else m)
       (or_default snapshots []) []"

definition searchablePaths :: "checkpoint_info \<Rightarrow> string list" where
  "searchablePaths c =
     (if or_default (cpChangedPaths c) [] \<noteq> [] then take CHANGED_PATHS_INDEX_LIMIT (or_default (cpChangedPaths c) [])
      else let from_snapshots = changedPathsFromSnapshots (cpFileSnapshots c)
           in if from_snapshots \<noteq> [] then from_snapshots
              else changedPathsFromSnapshots
                     (Some (map (\<lambda>p. new_snapshot p None [] 0 Modified) (or_default (cpFileInventory c) []))))"

definition checkpointSessionId :: "checkpoint_info \<Rightarrow> string option" where
  "checkpointSessionId c = or_else (cpSessionId c) (Option.bind (cpConversationContext c) ccSessionId)"

definition isListableCheckpoint :: "checkpoint_info \<Rightarrow> bool" where
  "isListableCheckpoint c =
     (if map_option ccRole (cpConversationContext c) = Some ''user'' then False
      else if starts_with (cpDescription c) ''User query at index'' then False
      else True)"

definition checkpointMatchesQuery :: "checkpoint_info \<Rightarrow> string option \<Rightarrow> bool" where
  "checkpointMatchesQuery c query =
     (let needle = js_lower (js_trim (or_default query []));
          hit = (\<lambda>s. str_includes (js_lower s) needle)
      in if needle = [] then True
         else if hit (cpId c) then True
         else if hit (cpDescription c) then True
         else if hit (or_default (cpLabel c) []) then True
         else if hit (or_default (cpIntent c) []) then True
         else if list_ex hit (or_default (cpTags c) []) then True
         else if (case checkpointSessionId c of None \<Rightarrow> False | Some i \<Rightarrow> hit i) then True
         else if list_ex hit (searchablePaths c) then True
         else False)"

definition checkpointMatchesSession :: "checkpoint_info \<Rightarrow> string option \<Rightarrow> bool option \<Rightarrow> bool" where
  "checkpointMatchesSession c sessionId thisSessionOnly =
     (if thisSessionOnly \<noteq> Some True \<or> truthy sessionId = None then True
      else case truthy (checkpointSessionId c) of None \<Rightarrow> True | Some owner \<Rightarrow> Some owner = sessionId)"

text \<open>Pages: offsets and limits are integers (the callers pass integers; \<open>trunc\<close> is then the identity).\<close>

record 'a page =
  pgItems :: "'a list"
  pgTotal :: nat
  pgOffset :: nat
  pgLimit :: nat
  pgHasMore :: bool

definition paginateItems :: "'a list \<Rightarrow> int \<Rightarrow> int \<Rightarrow> 'a page" where
  "paginateItems items offset limit =
     (let start = nat (max 0 offset);
          size = (if limit > 0 then nat limit else CHECKPOINT_LIST_PAGE_SIZE);
          pg = take size (drop start items)
      in \<lparr>pgItems = pg, pgTotal = length items, pgOffset = start, pgLimit = size,
          pgHasMore = (start + length pg < length items)\<rparr>)"

definition selectIdRange :: "string list \<Rightarrow> string \<Rightarrow> string \<Rightarrow> string list" where
  "selectIdRange ids from_id to_id =
     (case (index_of ids from_id, index_of ids to_id) of
        (None, None) \<Rightarrow> []
      | (None, Some _) \<Rightarrow> [to_id]
      | (Some _, None) \<Rightarrow> [from_id]
      | (Some i, Some j) \<Rightarrow> drop (min i j) (take (max i j + 1) ids))"

text \<open>Walking the pages: the items of the page at \<open>offset\<close>, then those of the page after it.\<close>

fun all_pages :: "'a list \<Rightarrow> int \<Rightarrow> int \<Rightarrow> nat \<Rightarrow> 'a list" where
  "all_pages items offset limit 0 = []"
| "all_pages items offset limit (Suc n) =
     (let pg = paginateItems items offset limit
      in pgItems pg @ (if pgHasMore pg then all_pages items (offset + int (length (pgItems pg))) limit n else []))"

lemma take_drop_rest: "take n (drop k xs) @ drop (k + length (take n (drop k xs))) xs = drop k xs"
proof -
  have "take n ys @ drop (length (take n ys)) ys = ys" for ys :: "'a list"
    by (cases "n \<le> length ys") simp_all
  from this [of "drop k xs"] show ?thesis by (simp add: add.commute)
qed

lemma paginate_step:
  assumes "0 \<le> offset"
  shows "pgItems (paginateItems items offset limit)
      @ drop (nat offset + length (pgItems (paginateItems items offset limit))) items = drop (nat offset) items"
    and "nat offset < length items \<Longrightarrow> pgItems (paginateItems items offset limit) \<noteq> []"
    and "pgHasMore (paginateItems items offset limit) \<longleftrightarrow>
      nat offset + length (pgItems (paginateItems items offset limit)) < length items"
proof -
  let ?size = "if limit > 0 then nat limit else CHECKPOINT_LIST_PAGE_SIZE"
  have pos: "?size > 0" by (simp add: CHECKPOINT_LIST_PAGE_SIZE_def)
  have it: "pgItems (paginateItems items offset limit) = take ?size (drop (nat offset) items)"
    using assms by (simp add: paginateItems_def Let_def max_def)
  show "pgItems (paginateItems items offset limit)
      @ drop (nat offset + length (pgItems (paginateItems items offset limit))) items = drop (nat offset) items"
    unfolding it by (rule take_drop_rest)
  show "nat offset < length items \<Longrightarrow> pgItems (paginateItems items offset limit) \<noteq> []"
    unfolding it using pos by simp
  show "pgHasMore (paginateItems items offset limit) \<longleftrightarrow>
      nat offset + length (pgItems (paginateItems items offset limit)) < length items"
    using assms by (simp add: paginateItems_def Let_def max_def)
qed

lemma all_pages_from:
  "0 \<le> offset \<Longrightarrow> length items - nat offset < n \<Longrightarrow> all_pages items offset limit n = drop (nat offset) items"
proof (induction n arbitrary: offset)
  case (Suc n)
  let ?p = "paginateItems items offset limit"
  note st = paginate_step [OF Suc.prems(1), of items limit]
  show ?case
  proof (cases "pgHasMore ?p")
    case True
    then have lt: "nat offset + length (pgItems ?p) < length items" using st(3) by simp
    then have "length (pgItems ?p) > 0" using st(2) by simp
    moreover have off: "nat (offset + int (length (pgItems ?p))) = nat offset + length (pgItems ?p)"
      using Suc.prems(1) by simp
    ultimately have "length items - nat (offset + int (length (pgItems ?p))) < n"
      using Suc.prems lt by linarith
    then have "all_pages items (offset + int (length (pgItems ?p))) limit n
        = drop (nat (offset + int (length (pgItems ?p)))) items"
      using Suc.prems(1) by (intro Suc.IH) auto
    moreover note off
    ultimately show ?thesis using True st(1) by (simp add: Let_def)
  next
    case False
    then have "length items \<le> nat offset + length (pgItems ?p)" using st(3) by simp
    then show ?thesis using False st(1) by (simp add: Let_def)
  qed
qed simp

text \<open>
  Paging is complete: following \<open>hasMore\<close> with the offset advanced by the size of
  each page visits every item exactly once, in order, for every page size (also for a limit of
  zero or below, which selects the default size), and stops after at most one page per item.
\<close>

theorem paginate_visits_everything:
  "all_pages items 0 limit (Suc (length items)) = items"
  using all_pages_from [of 0 items "Suc (length items)" limit] by simp

section \<open>Changed paths\<close>

lemma changed_loop_mono: "\<exists>ys. changed_loop src ss u = u @ ys"
proof (induction src ss u rule: changed_loop.induct)
  case (2 src s ss u)
  then show ?case by (auto simp: Let_def)
qed simp

lemma changed_loop_props:
  "distinct u \<Longrightarrow> [] \<notin> set u \<Longrightarrow> length u < CHANGED_PATHS_INDEX_LIMIT \<Longrightarrow>
   distinct (changed_loop src ss u) \<and> [] \<notin> set (changed_loop src ss u)
   \<and> length (changed_loop src ss u) \<le> CHANGED_PATHS_INDEX_LIMIT
   \<and> set (changed_loop src ss u) \<subseteq> set u \<union> (\<lambda>s. posix_trim (fsRelativePath s)) ` set ss"
proof (induction src ss u rule: changed_loop.induct)
  case (2 src x ss u)
  let ?p = "posix_trim (fsRelativePath x)"
  consider "?p = [] \<or> ?p \<in> set u" | "?p \<noteq> []" "?p \<notin> set u" "snapshotIsDeleted x \<and> ?p \<in> set src"
    | "?p \<noteq> []" "?p \<notin> set u" "\<not> (snapshotIsDeleted x \<and> ?p \<in> set src)" by blast
  then show ?case
  proof cases
    case 1
    then show ?thesis using "2.IH"(1) "2.prems" by (auto simp: Let_def)
  next
    case 2
    then show ?thesis using "2.IH"(2) "2.prems" by (auto simp: Let_def)
  next
    case 3
    then show ?thesis using "2.IH"(3) "2.prems" by (auto simp: Let_def)
  qed
qed simp

lemma changed_loop_complete:
  "length (changed_loop src ss u) < CHANGED_PATHS_INDEX_LIMIT \<Longrightarrow> s \<in> set ss \<Longrightarrow>
   posix_trim (fsRelativePath s) \<noteq> [] \<Longrightarrow>
   \<not> (snapshotIsDeleted s \<and> posix_trim (fsRelativePath s) \<in> set src) \<Longrightarrow>
   posix_trim (fsRelativePath s) \<in> set (changed_loop src ss u)"
proof (induction src ss u rule: changed_loop.induct)
  case (2 src x ss u)
  let ?p = "posix_trim (fsRelativePath x)"
  have mono: "set v \<subseteq> set (changed_loop src ss v)" for v
    using changed_loop_mono [of src ss v] by auto
  consider "?p = [] \<or> ?p \<in> set u" | "?p \<noteq> []" "?p \<notin> set u" "snapshotIsDeleted x \<and> ?p \<in> set src"
    | "?p \<noteq> []" "?p \<notin> set u" "\<not> (snapshotIsDeleted x \<and> ?p \<in> set src)" by blast
  then show ?case
  proof cases
    case 1
    then show ?thesis using "2.IH"(1) "2.prems" mono [of u] by (auto simp: Let_def)
  next
    case 2
    then show ?thesis using "2.IH"(2) "2.prems" by (auto simp: Let_def)
  next
    case 3
    then show ?thesis using "2.IH"(3) "2.prems" mono [of "u @ [?p]"]
      by (auto simp: Let_def split: if_splits)
  qed
qed simp

text \<open>
  The changed paths of a checkpoint are distinct, non-blank, at most 200, and come
  from its snapshots; below the limit no changed path is missing except deletions that are the
  source of a recorded rename.
\<close>

theorem changedPaths_exact:
  "let ps = changedPathsFromSnapshots (Some ss)
   in distinct ps \<and> [] \<notin> set ps \<and> length ps \<le> 200
      \<and> set ps \<subseteq> (\<lambda>s. posix_trim (fsRelativePath s)) ` set ss
      \<and> (length ps < 200 \<longrightarrow> (\<forall>s \<in> set ss. posix_trim (fsRelativePath s) \<noteq> [] \<longrightarrow>
           posix_trim (fsRelativePath s) \<in> set ps
           \<or> (snapshotIsDeleted s \<and> posix_trim (fsRelativePath s) \<in> set (query_rename_sources ss))))"
proof (cases "ss = []")
  case False
  then have c: "changedPathsFromSnapshots (Some ss) = changed_loop (query_rename_sources ss) ss []"
    by (simp add: changedPathsFromSnapshots_def)
  show ?thesis unfolding Let_def c
    using changed_loop_props [of "[]" "query_rename_sources ss" ss]
      changed_loop_complete [of "query_rename_sources ss" ss "[]"]
    by (auto simp: CHANGED_PATHS_INDEX_LIMIT_def)
qed (simp add: changedPathsFromSnapshots_def)

theorem changedPaths_exact_witness:
  "changedPathsFromSnapshots (Some [deleted_snapshot ''a'' ''utf8'' 0,
      (new_snapshot ''b'' (Some ''h'') ''utf8'' 1 Created)\<lparr>fsRenamedFrom := Some ''a''\<rparr>]) = [''b'']
   \<and> distinct [''b'']"
proof -
  let ?ss = "[deleted_snapshot ''a'' ''utf8'' 0,
      (new_snapshot ''b'' (Some ''h'') ''utf8'' 1 Created)\<lparr>fsRenamedFrom := Some ''a''\<rparr>]"
  have v: "changedPathsFromSnapshots (Some ?ss) = [''b'']" by code_simp
  show ?thesis using changedPaths_exact [of ?ss] v by (simp add: Let_def)
qed

end
