(* ===== verification/RenameDetect.thy ===== *)
theory RenameDetect
  imports Lcs PathQuery
begin

text \<open>
  Rename and copy detection (\<open>manager/renameDetect.ts\<close>): the similarity of two texts, the
  matching of added files with removed and surviving ones, the annotation of a capture's
  snapshots and the collapsed diff. \<open>localeCompare\<close> is the order of collation keys, the
  argument \<open>coll\<close>. Scores are rounded exactly (half up) where the source rounds a double;
  the two differ at most when the exact score ends in one half.
\<close>

section \<open>Similarity\<close>

definition RENAME_SIMILARITY_THRESHOLD :: nat where "RENAME_SIMILARITY_THRESHOLD = 60"
definition RENAME_SIMILARITY_SIZE_CAP :: nat where "RENAME_SIMILARITY_SIZE_CAP = 256 * 1024"
definition RENAME_SIMILARITY_LINE_CAP :: nat where "RENAME_SIMILARITY_LINE_CAP = 4000"

record detect_file =
  dfPath :: string
  dfHash :: "string option"
  dfContent :: "string option"
  dfEncoding :: "string option"
  dfSize :: "nat option"

datatype lineage_kind = Rename | Copy

record lineage_match =
  lmKind :: lineage_kind
  lmFrom :: string
  lmTo :: string
  lmScore :: nat

definition posixDetectPath :: "string \<Rightarrow> string" where
  "posixDetectPath p = js_replace_char backslash slash (toPosixRelative p)"

text \<open>\<open>lcsLength\<close> keeps two rows; a row is computed from the previous one.\<close>

definition lcsLength :: "string list \<Rightarrow> string list \<Rightarrow> nat" where
  "lcsLength a b =
     (if a = [] \<or> b = [] then 0
      else fold (\<lambda>x prev. lcs_row x b prev) a (replicate (length b + 1) 0) ! length b)"

definition bag_step :: "string \<Rightarrow> (string, nat) jsmap \<times> nat \<Rightarrow> (string, nat) jsmap \<times> nat" where
  "bag_step line acc =
     (case acc of (remaining, common) \<Rightarrow>
        let n = or_default (jm_get remaining line) 0
        in if n > 0 then (jm_set line (n - 1) remaining, common + 1) else (remaining, common))"

definition bagSimilarity :: "string list \<Rightarrow> string list \<Rightarrow> nat \<times> nat" where
  "bagSimilarity a b =
     (let remaining = fold (\<lambda>line m. jm_set line (or_default (jm_get m line) 0 + 1) m) a [];
          common = snd (fold bag_step b (remaining, 0))
      in (2 * common, length a + length b))"

text \<open>The ratio is kept as numerator and denominator.\<close>

definition contentSimilarity :: "string \<Rightarrow> string \<Rightarrow> nat \<times> nat" where
  "contentSimilarity left right =
     (if left = right then (1, 1)
      else let a = (if left = [] then [] else split_on newline left);
               b = (if right = [] then [] else split_on newline right)
           in if a = [] \<and> b = [] then (1, 1)
              else if a = [] \<or> b = [] then (0, 1)
              else if length a + length b > RENAME_SIMILARITY_LINE_CAP * 2 then bagSimilarity a b
              else (2 * lcsLength a b, length a + length b))"

definition percent :: "nat \<times> nat \<Rightarrow> nat" where
  "percent r = (case r of (n, d) \<Rightarrow> (200 * n + d) div (2 * d))"

definition isBinaryCheckpointEncoding :: "string option \<Rightarrow> bool" where
  "isBinaryCheckpointEncoding e \<longleftrightarrow> e = Some ''base64''"

definition fileLooksBinary :: "detect_file \<Rightarrow> bool" where
  "fileLooksBinary f \<longleftrightarrow> isBinaryCheckpointEncoding (dfEncoding f)
     \<or> (case dfContent f of None \<Rightarrow> False | Some c \<Rightarrow> nul \<in> set c)"

definition detectFileSize :: "detect_file \<Rightarrow> nat" where
  "detectFileSize f =
     (case dfSize f of Some n \<Rightarrow> n
      | None \<Rightarrow> (case dfContent f of Some c \<Rightarrow> length c | None \<Rightarrow> 0))"

definition pairScore :: "detect_file \<Rightarrow> detect_file \<Rightarrow> nat \<Rightarrow> nat" where
  "pairScore l r sizeCap =
     (if truthy (dfHash l) \<noteq> None \<and> truthy (dfHash r) \<noteq> None \<and> dfHash l = dfHash r then 100
      else if dfContent l \<noteq> None \<and> dfContent r \<noteq> None \<and> dfContent l = dfContent r then 100
      else if fileLooksBinary l \<or> fileLooksBinary r then 0
      else if detectFileSize l > sizeCap \<or> detectFileSize r > sizeCap then 0
      else case (dfContent l, dfContent r) of
             (Some a, Some b) \<Rightarrow> percent (contentSimilarity a b)
           | _ \<Rightarrow> 0)"

section \<open>Matching\<close>

record detect_state =
  dsUsedAdded :: "string list"
  dsUsedRemoved :: "string list"
  dsMatches :: "lineage_match list"

definition take_match :: "lineage_kind \<Rightarrow> string \<Rightarrow> string \<Rightarrow> nat \<Rightarrow> detect_state \<Rightarrow> detect_state" where
  "take_match kind src to score st =
     (if src = [] \<or> to = [] \<or> src = to \<or> to \<in> set (dsUsedAdded st) then st
      else if kind = Rename \<and> src \<in> set (dsUsedRemoved st) then st
      else st\<lparr>dsUsedAdded := to # dsUsedAdded st,
              dsUsedRemoved := (if kind = Rename then src # dsUsedRemoved st else dsUsedRemoved st),
              dsMatches := dsMatches st @ [\<lparr>lmKind = kind, lmFrom = src, lmTo = to, lmScore = score\<rparr>]\<rparr>)"

text \<open>\<open>byHash\<close>: the files with the given hash, in order.\<close>

definition with_hash :: "detect_file list \<Rightarrow> string \<Rightarrow> detect_file list" where
  "with_hash files h = filter (\<lambda>f. truthy (dfHash f) = Some h) files"

definition hash_rename_step :: "detect_file list \<Rightarrow> detect_file \<Rightarrow> detect_state \<Rightarrow> detect_state" where
  "hash_rename_step removed dest st =
     (case truthy (dfHash dest) of
        None \<Rightarrow> st
      | Some h \<Rightarrow>
          (case find (\<lambda>s. dfPath s \<notin> set (dsUsedRemoved st)) (with_hash removed h) of
             None \<Rightarrow> st
           | Some source \<Rightarrow> take_match Rename (dfPath source) (dfPath dest) 100 st))"

definition hash_copy_step :: "detect_file list \<Rightarrow> detect_file list \<Rightarrow> detect_file \<Rightarrow> detect_state \<Rightarrow> detect_state" where
  "hash_copy_step removed surviving dest st =
     (if dfPath dest \<in> set (dsUsedAdded st) then st
      else case truthy (dfHash dest) of
        None \<Rightarrow> st
      | Some h \<Rightarrow>
          (case first_opt (with_hash surviving h) of
             Some live \<Rightarrow> take_match Copy (dfPath live) (dfPath dest) 100 st
           | None \<Rightarrow>
               (case first_opt (with_hash removed h) of
                  Some gone \<Rightarrow> take_match Copy (dfPath gone) (dfPath dest) 100 st
                | None \<Rightarrow> st)))"

definition consider_match :: "nat \<Rightarrow> nat \<Rightarrow> lineage_kind \<Rightarrow> detect_file \<Rightarrow> detect_file \<Rightarrow> lineage_match list" where
  "consider_match threshold sizeCap kind source dest =
     (let score = pairScore source dest sizeCap
      in if score \<ge> threshold
         then [\<lparr>lmKind = kind, lmFrom = dfPath source, lmTo = dfPath dest, lmScore = score\<rparr>] else [])"

definition lineage_candidates ::
  "nat \<Rightarrow> nat \<Rightarrow> detect_file list \<Rightarrow> detect_file list \<Rightarrow> detect_file list \<Rightarrow> detect_state \<Rightarrow> lineage_match list" where
  "lineage_candidates threshold sizeCap added removed surviving st =
     concat (map (\<lambda>dest.
         concat (map (\<lambda>s. consider_match threshold sizeCap Rename s dest)
                  (filter (\<lambda>f. dfPath f \<notin> set (dsUsedRemoved st)) removed))
       @ concat (map (\<lambda>s. consider_match threshold sizeCap Copy s dest) surviving)
       @ concat (map (\<lambda>s. consider_match threshold sizeCap Copy s dest)
                  (filter (\<lambda>f. dfPath f \<in> set (dsUsedRemoved st)) removed)))
       (filter (\<lambda>f. dfPath f \<notin> set (dsUsedAdded st)) added))"

definition candidate_key :: "(string \<Rightarrow> string) \<Rightarrow> lineage_match \<Rightarrow> int \<times> nat \<times> string \<times> string" where
  "candidate_key coll m =
     (- int (lmScore m), (if lmKind m = Rename then 0 else 1), coll (lmTo m), coll (lmFrom m))"

definition detectRenamesAndCopies ::
  "(string \<Rightarrow> string) \<Rightarrow> nat \<Rightarrow> nat \<Rightarrow> detect_file list \<Rightarrow> detect_file list \<Rightarrow> detect_file list \<Rightarrow> lineage_match list" where
  "detectRenamesAndCopies coll threshold sizeCap added removed surviving =
     (let st0 = \<lparr>dsUsedAdded = [], dsUsedRemoved = [], dsMatches = []\<rparr>;
          st1 = fold (hash_rename_step removed) added st0;
          st2 = fold (hash_copy_step removed surviving) added st1;
          candidates = sort_key (candidate_key coll)
            (lineage_candidates threshold sizeCap added removed surviving st2)
      in dsMatches (fold (\<lambda>m st. take_match (lmKind m) (lmFrom m) (lmTo m) (lmScore m) st) candidates st2))"

section \<open>Annotation of snapshots\<close>

text \<open>
  The map from posix path to snapshot object: the last live snapshot with the path; annotations
  change that object in place.
\<close>

definition last_live_index :: "file_snapshot list \<Rightarrow> string \<Rightarrow> nat option" where
  "last_live_index ss p =
     map_option (\<lambda>i. length ss - 1 - i)
       (find_index (\<lambda>s. \<not> snapshotIsDeleted s \<and> posixDetectPath (fsRelativePath s) = p) (rev ss))"

definition apply_match :: "lineage_match \<Rightarrow> file_snapshot list \<Rightarrow> file_snapshot list" where
  "apply_match m ss =
     (case last_live_index ss (posixDetectPath (lmTo m)) of
        None \<Rightarrow> ss
      | Some i \<Rightarrow>
          (let dest = ss ! i
           in if lmKind m = Rename then ss[i := dest\<lparr>fsRenamedFrom := or_else (fsRenamedFrom dest) (Some (lmFrom m))\<rparr>]
              else if truthy (fsRenamedFrom dest) = None
                   then ss[i := dest\<lparr>fsCopiedFrom := or_else (fsCopiedFrom dest) (Some (lmFrom m))\<rparr>]
              else ss))"

definition applyLineageMatches :: "file_snapshot list \<Rightarrow> lineage_match list \<Rightarrow> file_snapshot list" where
  "applyLineageMatches snapshots matches = fold apply_match matches snapshots"

definition snapshot_detect_file :: "string \<Rightarrow> string option \<Rightarrow> file_snapshot \<Rightarrow> detect_file" where
  "snapshot_detect_file p h s =
     \<lparr>dfPath = p, dfHash = h, dfContent = fsContent s, dfEncoding = Some (fsEncoding s), dfSize = Some (fsSize s)\<rparr>"

definition parent_hash_of :: "(string, string) jsmap \<Rightarrow> file_snapshot \<Rightarrow> string option" where
  "parent_hash_of parents s =
     or_else (truthy (fsHash s))
       (or_else (truthy (jm_get parents (posixDetectPath (fsRelativePath s)))) (jm_get parents (fsRelativePath s)))"

definition annotate_removed :: "(string, string) jsmap \<Rightarrow> file_snapshot list \<Rightarrow> detect_file list" where
  "annotate_removed parents ss =
     map (\<lambda>s. snapshot_detect_file (posixDetectPath (fsRelativePath s)) (parent_hash_of parents s) s)
       (filter snapshotIsDeleted ss)"

definition annotate_added :: "(string, string) jsmap \<Rightarrow> file_snapshot list \<Rightarrow> detect_file list" where
  "annotate_added parents ss =
     map (\<lambda>s. snapshot_detect_file (posixDetectPath (fsRelativePath s)) (fsHash s) s)
       (filter (\<lambda>s. \<not> snapshotIsDeleted s
          \<and> (fsChangeType s = Some Created
             \<or> \<not> (jm_has parents (posixDetectPath (fsRelativePath s)) \<or> jm_has parents (fsRelativePath s)))) ss)"

definition annotate_surviving :: "(string, string) jsmap \<Rightarrow> file_snapshot list \<Rightarrow> detect_file list" where
  "annotate_surviving parents ss =
     (let deleted = map (\<lambda>s. posixDetectPath (fsRelativePath s)) (filter snapshotIsDeleted ss)
      in map (\<lambda>kv. \<lparr>dfPath = posixDetectPath (fst kv), dfHash = Some (snd kv), dfContent = None,
                    dfEncoding = None, dfSize = None\<rparr>)
           (filter (\<lambda>kv. posixDetectPath (fst kv) \<notin> set deleted) parents))"

definition load_into :: "(string \<Rightarrow> string option) \<Rightarrow> detect_file \<Rightarrow> detect_file" where
  "load_into load f =
     (if dfContent f \<noteq> None then f
      else case truthy (dfHash f) of None \<Rightarrow> f | Some h \<Rightarrow> f\<lparr>dfContent := load h\<rparr>)"

definition annotateSnapshotsFromParentIndex ::
  "(string \<Rightarrow> string) \<Rightarrow> file_snapshot list \<Rightarrow> (string, string) jsmap \<Rightarrow> (string \<Rightarrow> string option) option \<Rightarrow> file_snapshot list" where
  "annotateSnapshotsFromParentIndex coll ss parents load =
     (if ss = [] \<or> parents = [] then ss
      else let added = annotate_added parents ss; removed = annotate_removed parents ss
           in if added = [] then ss
              else let surviving = annotate_surviving parents ss;
                       detect = detectRenamesAndCopies coll RENAME_SIMILARITY_THRESHOLD RENAME_SIMILARITY_SIZE_CAP;
                       hashMatches = detect added removed surviving;
                       unmatchedAdded = filter (\<lambda>f. dfPath f \<notin> set (map lmTo hashMatches)) added
                   in case load of
                        None \<Rightarrow> applyLineageMatches ss hashMatches
                      | Some ld \<Rightarrow>
                          if unmatchedAdded = [] then applyLineageMatches ss hashMatches
                          else let usedRemoved = map lmFrom (filter (\<lambda>m. lmKind m = Rename) hashMatches);
                                   ua = map (load_into ld) unmatchedAdded;
                                   ur = map (load_into ld) (filter (\<lambda>f. dfPath f \<notin> set usedRemoved) removed);
                                   stillNeedCopy = (list_ex (\<lambda>f. dfContent f \<noteq> None) ua \<and> list_all (\<lambda>f. dfContent f = None) ur);
                                   sv = (if stillNeedCopy \<and> surviving \<noteq> [] \<and> length surviving \<le> 32
                                         then map (load_into ld) surviving else surviving)
                               in applyLineageMatches ss (hashMatches @ detect ua ur sv))"

section \<open>The collapsed diff\<close>

datatype diff_status = DiffAdded | DiffDeleted | DiffModified | DiffRenamed | DiffCopied

record file_diff =
  fdPath :: string
  fdStatus :: diff_status
  fdOldPath :: "string option"
  fdOldContent :: "string option"
  fdNewContent :: "string option"
  fdOldEncoding :: "string option"
  fdNewEncoding :: "string option"

text \<open>
  The diff entries are objects that the source changes in place; the state keeps them as a list,
  \<open>csOut\<close> are the positions in the order of \<open>collapsed\<close>.
\<close>

record collapse_state =
  csFiles :: "file_diff list"
  csConsumed :: "string list"
  csOut :: "nat list"

definition diff_index :: "file_diff list \<Rightarrow> string \<Rightarrow> nat option" where
  "diff_index files p =
     map_option (\<lambda>i. length files - 1 - i) (find_index (\<lambda>f. posixDetectPath (fdPath f) = p) (rev files))"

definition adopted :: "diff_status \<Rightarrow> string \<Rightarrow> file_diff option \<Rightarrow> file_diff \<Rightarrow> file_diff" where
  "adopted status oldPath source dest =
     (let d = dest\<lparr>fdStatus := status, fdOldPath := Some oldPath\<rparr>
      in case source of
           None \<Rightarrow> d
         | Some src \<Rightarrow>
             (let e = d\<lparr>fdOldContent := or_else (fdOldContent src) (fdOldContent d),
                        fdOldEncoding := or_else (fdOldEncoding src) (fdOldEncoding d)\<rparr>
              in if status = DiffCopied \<and> fdOldContent e = None
                 then e\<lparr>fdOldContent := or_else (fdNewContent src) (fdOldContent src),
                        fdOldEncoding := or_else (fdNewEncoding src) (fdOldEncoding src)\<rparr>
                 else e))"

definition adopt :: "nat \<Rightarrow> diff_status \<Rightarrow> string \<Rightarrow> collapse_state \<Rightarrow> collapse_state" where
  "adopt i status oldPath st =
     (let source = map_option (\<lambda>j. csFiles st ! j) (diff_index (csFiles st) oldPath);
          dest = adopted status oldPath source (csFiles st ! i)
      in st\<lparr>csFiles := (csFiles st)[i := dest], csOut := csOut st @ [i],
            csConsumed := (if status = DiffRenamed then [oldPath] else []) @ posixDetectPath (fdPath dest) # csConsumed st\<rparr>)"

definition collapse_snapshot :: "file_snapshot \<Rightarrow> collapse_state \<Rightarrow> collapse_state" where
  "collapse_snapshot s st =
     (if snapshotIsDeleted s then st
      else case diff_index (csFiles st) (posixDetectPath (fsRelativePath s)) of
        None \<Rightarrow> st
      | Some i \<Rightarrow>
          if posixDetectPath (fdPath (csFiles st ! i)) \<in> set (csConsumed st) then st
          else case (truthy (fsRenamedFrom s), truthy (fsCopiedFrom s)) of
                 (Some r, _) \<Rightarrow> adopt i DiffRenamed (posixDetectPath r) st
               | (None, Some c) \<Rightarrow> adopt i DiffCopied (posixDetectPath c) st
               | (None, None) \<Rightarrow> st)"

definition collapse_match :: "lineage_match \<Rightarrow> collapse_state \<Rightarrow> collapse_state" where
  "collapse_match m st =
     (case diff_index (csFiles st) (lmTo m) of
        None \<Rightarrow> st
      | Some i \<Rightarrow>
          if lmTo m \<in> set (csConsumed st) then st
          else adopt i (if lmKind m = Rename then DiffRenamed else DiffCopied) (lmFrom m) st)"

definition diff_detect_file :: "file_diff \<Rightarrow> string option \<Rightarrow> string option \<Rightarrow> detect_file" where
  "diff_detect_file f c e = \<lparr>dfPath = posixDetectPath (fdPath f), dfHash = None, dfContent = c, dfEncoding = e, dfSize = None\<rparr>"

definition collapse_rest :: "collapse_state \<Rightarrow> nat list" where
  "collapse_rest st =
     filter (\<lambda>i. posixDetectPath (fdPath (csFiles st ! i)) \<notin> set (csConsumed st)) [0..<length (csFiles st)]"

definition collapse_matches :: "(string \<Rightarrow> string) \<Rightarrow> collapse_state \<Rightarrow> lineage_match list" where
  "collapse_matches coll st =
     (let remaining = map (\<lambda>i. csFiles st ! i) (collapse_rest st)
      in detectRenamesAndCopies coll RENAME_SIMILARITY_THRESHOLD RENAME_SIMILARITY_SIZE_CAP
           (map (\<lambda>f. diff_detect_file f (fdNewContent f) (fdNewEncoding f))
              (filter (\<lambda>f. fdStatus f = DiffAdded) remaining))
           (map (\<lambda>f. diff_detect_file f (fdOldContent f) (fdOldEncoding f))
              (filter (\<lambda>f. fdStatus f = DiffDeleted) remaining)) [])"

definition collapse_result :: "(string \<Rightarrow> string) \<Rightarrow> collapse_state \<Rightarrow> file_diff list" where
  "collapse_result coll st =
     sort_key (\<lambda>f. coll (fdPath f)) (map (\<lambda>i. csFiles st ! i) (csOut st @ collapse_rest st))"

definition collapseDiffByLineage ::
  "(string \<Rightarrow> string) \<Rightarrow> file_diff list \<Rightarrow> file_snapshot list \<Rightarrow> file_diff list" where
  "collapseDiffByLineage coll files snapshots =
     (if files = [] then files
      else let st = fold collapse_snapshot snapshots \<lparr>csFiles = files, csConsumed = [], csOut = []\<rparr>
           in collapse_result coll (fold collapse_match (collapse_matches coll st) st))"

section \<open>Scores\<close>

lemma fold_lcs_rows: "lcs_rows a b prev ! length a = fold (\<lambda>x p. lcs_row x b p) a prev"
  by (induction a arbitrary: prev) auto

lemma lcsLength_table: "lcsLength a b = lcsTable a b ! length a ! length b"
proof (cases "a = [] \<or> b = []")
  case True
  then show ?thesis
    using lcs_table.row_zero [of "length b" b a] lcs_table.col_zero [of "length a" a b] by (auto simp: lcsLength_def)
next
  case False
  then show ?thesis by (simp add: lcsLength_def lcsTable_def fold_lcs_rows del: replicate.simps)
qed

lemma bag_counts:
  "(\<And>l. or_default (jm_get r l) 0 = count M l) \<Longrightarrow>
   snd (fold bag_step b (r, c)) = c + size (M \<inter># mset b)"
proof (induction b arbitrary: r c M)
  case (Cons y ys)
  show ?case
  proof (cases "y \<in># M")
    case True
    then have n: "or_default (jm_get r y) 0 > 0" using Cons.prems by simp
    have "or_default (jm_get (jm_set y (or_default (jm_get r y) 0 - 1) r) l) 0 = count (M - {#y#}) l" for l
      using Cons.prems [of l] Cons.prems [of y] by simp
    from Cons.IH [of "jm_set y (or_default (jm_get r y) 0 - 1) r" "M - {#y#}" "c + 1", OF this]
    show ?thesis using n True by (simp add: bag_step_def Let_def inter_add_right2)
  next
    case False
    then have "or_default (jm_get r y) 0 = 0" using Cons.prems [of y] by (simp add: not_in_iff)
    then show ?thesis using Cons.IH [of r M c] Cons.prems False by (simp add: bag_step_def Let_def inter_add_right1)
  qed
qed simp

lemma bag_map:
  "or_default (jm_get (fold (\<lambda>line m. jm_set line (or_default (jm_get m line) 0 + 1) m) a m) l) 0
     = or_default (jm_get m l) 0 + count (mset a) l"
  by (induction a arbitrary: m) (auto simp: or_default_def)

lemma bagSimilarity_inter: "bagSimilarity a b = (2 * size (mset a \<inter># mset b), length a + length b)"
proof -
  let ?r = "fold (\<lambda>line m. jm_set line (or_default (jm_get m line) 0 + 1) m) a []"
  have "or_default (jm_get ?r l) 0 = count (mset a) l" for l using bag_map [of a "[]" l] by simp
  from bag_counts [of ?r "mset a" b 0, OF this] show ?thesis by (simp add: bagSimilarity_def Let_def)
qed

lemma size_inter_le: "size (A \<inter># B) \<le> size A" "size (A \<inter># B) \<le> size B"
  by (simp_all add: size_mset_mono)

lemma contentSimilarity_ratio:
  "fst (contentSimilarity l r) \<le> snd (contentSimilarity l r) \<and> 0 < snd (contentSimilarity l r)"
proof -
  have "2 * lcsLength a b \<le> length a + length b" for a b
    using lcs_table.bounded [of "length a" a "length b" b] lcsLength_table [of a b] by simp
  moreover have "2 * size (mset a \<inter># mset b) \<le> length a + length b" for a b :: "string list"
    using size_inter_le [of "mset a" "mset b"] by simp
  ultimately show ?thesis by (auto simp: contentSimilarity_def bagSimilarity_inter Let_def)
qed

lemma percent_le: "n \<le> d \<Longrightarrow> 0 < d \<Longrightarrow> percent (n, d) \<le> 100"
proof -
  assume a: "n \<le> d" "0 < d"
  then have "(200 * n + d) div (2 * d) \<le> (201 * d) div (2 * d)" by (intro div_le_mono) simp
  also have "(201 * d) div (2 * d) = 100" using a by simp
  finally show ?thesis by (simp add: percent_def)
qed

lemma pairScore_le: "pairScore l r cap \<le> 100"
proof -
  have "percent (contentSimilarity a b) \<le> 100" for a b
    using contentSimilarity_ratio [of a b] percent_le by (cases "contentSimilarity a b") auto
  then show ?thesis by (auto simp: pairScore_def split: option.splits)
qed

text \<open>
  The two-row computation used for similarity gives the length of a longest
  common subsequence, and the fallback for long files counts the common lines as multisets.
\<close>

theorem lcsLength_bag_correct:
  "(\<exists>zs. subseq zs a \<and> subseq zs b \<and> length zs = lcsLength a b)
   \<and> (\<forall>zs. subseq zs a \<and> subseq zs b \<longrightarrow> length zs \<le> lcsLength a b)
   \<and> bagSimilarity a b = (2 * size (mset a \<inter># mset b), length a + length b)
   \<and> lcsLength a b \<le> size (mset a \<inter># mset b)"
proof (intro conjI)
  note l = lcs_table.longest [of "length a" a "length b" b, folded lcsLength_table]
  show ex: "\<exists>zs. subseq zs a \<and> subseq zs b \<and> length zs = lcsLength a b" using l by simp
  show "\<forall>zs. subseq zs a \<and> subseq zs b \<longrightarrow> length zs \<le> lcsLength a b" using l by simp
  show "bagSimilarity a b = (2 * size (mset a \<inter># mset b), length a + length b)" by (rule bagSimilarity_inter)
  from ex obtain zs where z: "subseq zs a" "subseq zs b" "length zs = lcsLength a b" by blast
  have sub: "subseq xs ys \<Longrightarrow> mset xs \<subseteq># mset ys" for xs ys :: "string list"
    by (induction rule: list_emb.induct) (auto simp: subseteq_mset_def le_SucI)
  have "mset zs \<subseteq># mset a \<inter># mset b" using sub [OF z(1)] sub [OF z(2)] by simp
  then show "lcsLength a b \<le> size (mset a \<inter># mset b)" using z(3) by (metis size_mset size_mset_mono)
qed

theorem lcsLength_bag_correct_witness:
  "lcsLength [''a'', ''b''] [''b'', ''a''] = 1 \<and> bagSimilarity [''a'', ''b''] [''b'', ''a''] = (4, 4)
   \<and> (\<nexists>zs. subseq zs [''a'', ''b''] \<and> subseq zs [''b'', ''a''] \<and> 1 < length zs)"
proof -
  have v: "lcsLength [''a'', ''b''] [''b'', ''a''] = 1" "bagSimilarity [''a'', ''b''] [''b'', ''a''] = (4, 4)"
    by code_simp+
  show ?thesis using lcsLength_bag_correct [of "[''a'', ''b'']" "[''b'', ''a'']"] v by (simp, meson leD)
qed

section \<open>Soundness of the matching\<close>

definition renames_of :: "lineage_match list \<Rightarrow> lineage_match list" where
  "renames_of ms = filter (\<lambda>m. lmKind m = Rename) ms"

definition match_ok :: "nat \<Rightarrow> string set \<Rightarrow> string set \<Rightarrow> string set \<Rightarrow> lineage_match \<Rightarrow> bool" where
  "match_ok thr A R S m \<longleftrightarrow> lmTo m \<in> A \<and> lmFrom m \<noteq> lmTo m \<and> lmFrom m \<noteq> [] \<and> lmTo m \<noteq> []
     \<and> (if lmKind m = Rename then lmFrom m \<in> R else lmFrom m \<in> R \<union> S)
     \<and> min thr 100 \<le> lmScore m \<and> lmScore m \<le> 100"

definition detect_inv :: "nat \<Rightarrow> string set \<Rightarrow> string set \<Rightarrow> string set \<Rightarrow> detect_state \<Rightarrow> bool" where
  "detect_inv thr A R S st \<longleftrightarrow>
     distinct (map lmTo (dsMatches st)) \<and> set (dsUsedAdded st) = lmTo ` set (dsMatches st)
     \<and> distinct (map lmFrom (renames_of (dsMatches st)))
     \<and> set (dsUsedRemoved st) = lmFrom ` set (renames_of (dsMatches st))
     \<and> (\<forall>m \<in> set (dsMatches st). match_ok thr A R S m)"

lemma take_match_inv:
  assumes "detect_inv thr A R S st" and "to \<in> A" and "min thr 100 \<le> score" and "score \<le> 100"
    and "if kind = Rename then src \<in> R else src \<in> R \<union> S"
  shows "detect_inv thr A R S (take_match kind src to score st)"
proof (cases "src = [] \<or> to = [] \<or> src = to \<or> to \<in> set (dsUsedAdded st) \<or> (kind = Rename \<and> src \<in> set (dsUsedRemoved st))")
  case True
  then have "take_match kind src to score st = st" by (auto simp: take_match_def)
  then show ?thesis using assms(1) by simp
next
  case False
  let ?m = "\<lparr>lmKind = kind, lmFrom = src, lmTo = to, lmScore = score\<rparr>"
  have t: "take_match kind src to score st =
      st\<lparr>dsUsedAdded := to # dsUsedAdded st,
         dsUsedRemoved := (if kind = Rename then src # dsUsedRemoved st else dsUsedRemoved st),
         dsMatches := dsMatches st @ [?m]\<rparr>" using False by (auto simp: take_match_def)
  have ok: "match_ok thr A R S ?m" using assms False by (auto simp: match_ok_def)
  have r: "renames_of (dsMatches st @ [?m]) = renames_of (dsMatches st) @ (if kind = Rename then [?m] else [])"
    by (simp add: renames_of_def)
  have inv: "distinct (map lmTo (dsMatches st))" "set (dsUsedAdded st) = lmTo ` set (dsMatches st)"
    "distinct (map lmFrom (renames_of (dsMatches st)))" "set (dsUsedRemoved st) = lmFrom ` set (renames_of (dsMatches st))"
    "\<forall>m \<in> set (dsMatches st). match_ok thr A R S m"
    using assms(1) unfolding detect_inv_def by blast+
  show ?thesis unfolding t detect_inv_def using inv False ok by (simp add: r)
qed

lemma with_hash_in: "s \<in> set (with_hash fs h) \<Longrightarrow> s \<in> set fs"
  by (simp add: with_hash_def)

lemma first_opt_in: "first_opt xs = Some x \<Longrightarrow> x \<in> set xs"
  by (cases xs) (auto simp: first_opt_def)

lemma hash_rename_inv:
  "detect_inv thr A (dfPath ` set removed) S st \<Longrightarrow> dfPath dest \<in> A \<Longrightarrow>
   detect_inv thr A (dfPath ` set removed) S (hash_rename_step removed dest st)"
  by (auto simp: hash_rename_step_def split: option.split intro!: take_match_inv dest!: find_Some_in with_hash_in)

lemma hash_copy_inv:
  "detect_inv thr A (dfPath ` set removed) (dfPath ` set surviving) st \<Longrightarrow> dfPath dest \<in> A \<Longrightarrow>
   detect_inv thr A (dfPath ` set removed) (dfPath ` set surviving) (hash_copy_step removed surviving dest st)"
  by (auto simp: hash_copy_step_def split: option.split intro!: take_match_inv dest!: first_opt_in with_hash_in)

lemma fold_inv: "P s \<Longrightarrow> (\<And>x s. x \<in> set xs \<Longrightarrow> P s \<Longrightarrow> P (f x s)) \<Longrightarrow> P (fold f xs s)"
  by (induction xs arbitrary: s) auto

lemma candidates_ok:
  assumes "m \<in> set (lineage_candidates thr cap added removed surviving st)"
  shows "lmTo m \<in> dfPath ` set added \<and> min thr 100 \<le> lmScore m \<and> lmScore m \<le> 100
    \<and> (if lmKind m = Rename then lmFrom m \<in> dfPath ` set removed
       else lmFrom m \<in> dfPath ` set removed \<union> dfPath ` set surviving)"
  using assms pairScore_le
  by (auto simp: lineage_candidates_def consider_match_def Let_def min_def split: if_splits)

definition detect_hash_phase :: "detect_file list \<Rightarrow> detect_file list \<Rightarrow> detect_file list \<Rightarrow> detect_state" where
  "detect_hash_phase added removed surviving =
     fold (hash_copy_step removed surviving) added
       (fold (hash_rename_step removed) added \<lparr>dsUsedAdded = [], dsUsedRemoved = [], dsMatches = []\<rparr>)"

lemma detect_hash_phase_inv:
  "detect_inv thr (dfPath ` set added) (dfPath ` set removed) (dfPath ` set surviving)
     (detect_hash_phase added removed surviving)"
proof -
  let ?I = "detect_inv thr (dfPath ` set added) (dfPath ` set removed) (dfPath ` set surviving)"
  have "?I \<lparr>dsUsedAdded = [], dsUsedRemoved = [], dsMatches = []\<rparr>"
    by (simp add: detect_inv_def renames_of_def)
  then have "?I (fold (hash_rename_step removed) added \<lparr>dsUsedAdded = [], dsUsedRemoved = [], dsMatches = []\<rparr>)"
    by (rule fold_inv) (auto intro: hash_rename_inv)
  then show ?thesis unfolding detect_hash_phase_def
    by (rule fold_inv) (auto intro: hash_copy_inv)
qed

lemma detect_unfold:
  "detectRenamesAndCopies coll thr cap added removed surviving =
     dsMatches (fold (\<lambda>m st. take_match (lmKind m) (lmFrom m) (lmTo m) (lmScore m) st)
       (sort_key (candidate_key coll) (lineage_candidates thr cap added removed surviving
          (detect_hash_phase added removed surviving)))
       (detect_hash_phase added removed surviving))"
  by (simp add: detectRenamesAndCopies_def detect_hash_phase_def Let_def)

lemma detect_final_inv:
  "\<exists>st. detect_inv thr (dfPath ` set added) (dfPath ` set removed) (dfPath ` set surviving) st
     \<and> detectRenamesAndCopies coll thr cap added removed surviving = dsMatches st"
proof -
  let ?I = "detect_inv thr (dfPath ` set added) (dfPath ` set removed) (dfPath ` set surviving)"
  let ?cs = "sort_key (candidate_key coll) (lineage_candidates thr cap added removed surviving
          (detect_hash_phase added removed surviving))"
  have "?I (fold (\<lambda>m st. take_match (lmKind m) (lmFrom m) (lmTo m) (lmScore m) st) ?cs
      (detect_hash_phase added removed surviving))"
  proof (rule fold_inv [of ?I])
    show "?I (detect_hash_phase added removed surviving)" by (rule detect_hash_phase_inv)
    fix m st assume "m \<in> set ?cs" and I: "?I st"
    then have "m \<in> set (lineage_candidates thr cap added removed surviving (detect_hash_phase added removed surviving))"
      by simp
    from candidates_ok [OF this] show "?I (take_match (lmKind m) (lmFrom m) (lmTo m) (lmScore m) st)"
      by (intro take_match_inv [OF I]) auto
  qed
  then show ?thesis unfolding detect_unfold by blast
qed

text \<open>
  C26 (safety): the detected lineage is a consistent story, whatever the inputs: every added file
  gets at most one origin, every removed file is the source of at most one rename, no file is its
  own origin, rename sources were removed, copy sources survived or were removed, and every score
  lies between the threshold and 100.
\<close>

theorem detectRenames_consistent:
  "let ms = detectRenamesAndCopies coll thr cap added removed surviving
   in distinct (map lmTo ms) \<and> distinct (map lmFrom (renames_of ms))
      \<and> (\<forall>m \<in> set ms. match_ok thr (dfPath ` set added) (dfPath ` set removed) (dfPath ` set surviving) m)"
  using detect_final_inv [of thr added removed surviving coll cap] by (auto simp: detect_inv_def Let_def)

theorem detectRenames_consistent_witness:
  "let f = (\<lambda>p h. \<lparr>dfPath = p, dfHash = Some h, dfContent = None, dfEncoding = None, dfSize = None\<rparr>);
       ms = detectRenamesAndCopies (\<lambda>s. s) 60 1000 [f ''b'' ''h'', f ''c'' ''h''] [f ''a'' ''h''] []
   in map lmFrom ms = [''a'', ''a''] \<and> distinct (map lmTo ms) \<and> distinct (map lmFrom (renames_of ms))"
proof -
  let ?f = "\<lambda>p h. \<lparr>dfPath = p, dfHash = Some h, dfContent = None, dfEncoding = None, dfSize = None\<rparr>"
  let ?ms = "detectRenamesAndCopies (\<lambda>s. s) 60 1000 [?f ''b'' ''h'', ?f ''c'' ''h''] [?f ''a'' ''h''] []"
  have "map lmFrom ?ms = [''a'', ''a'']" by code_simp
  then show ?thesis
    using detectRenames_consistent [of "\<lambda>s. s" 60 1000 "[?f ''b'' ''h'', ?f ''c'' ''h'']" "[?f ''a'' ''h'']" "[]"]
    by (simp add: Let_def)
qed

text \<open>Exact matches are never missed.\<close>

lemma take_match_used: "set (dsUsedAdded st) \<subseteq> set (dsUsedAdded (take_match k a b sc st))"
  "set (dsMatches st) \<subseteq> set (dsMatches (take_match k a b sc st))"
  by (auto simp: take_match_def)

lemma take_copy_used: "src \<noteq> [] \<Longrightarrow> to \<noteq> [] \<Longrightarrow> src \<noteq> to \<Longrightarrow> to \<in> set (dsUsedAdded (take_match Copy src to sc st))"
  by (auto simp: take_match_def)

lemma fold_mono_set: "(\<And>x s. set (g s) \<subseteq> set (g (f x s))) \<Longrightarrow> set (g s) \<subseteq> set (g (fold f xs s))"
  by (induction xs arbitrary: s) (auto, blast)

lemma hash_copy_mono: "set (dsUsedAdded st) \<subseteq> set (dsUsedAdded (hash_copy_step removed surviving dest st))"
  using take_match_used by (auto simp: hash_copy_step_def split: option.split)

lemma hash_copy_uses:
  assumes h: "truthy (dfHash d) = Some h" and r: "with_hash removed h \<noteq> []"
    and paths: "\<forall>f \<in> set removed \<union> set surviving. dfPath f \<noteq> [] \<and> dfPath f \<noteq> dfPath d" and d: "dfPath d \<noteq> []"
  shows "dfPath d \<in> set (dsUsedAdded (hash_copy_step removed surviving d st))"
proof -
  obtain g where g: "first_opt (with_hash removed h) = Some g" "g \<in> set removed"
    using r with_hash_in [of "hd (with_hash removed h)" removed h]
    by (cases "with_hash removed h") (auto simp: first_opt_def)
  show ?thesis
    using h g paths d first_opt_in [of "with_hash surviving h"] with_hash_in [of _ surviving h]
    by (auto simp: hash_copy_step_def split: option.split intro!: take_copy_used)
qed

lemma fold_copy_uses:
  assumes "d \<in> set xs" and "truthy (dfHash d) = Some h" and "with_hash removed h \<noteq> []"
    and "\<forall>f \<in> set removed \<union> set surviving. dfPath f \<noteq> [] \<and> dfPath f \<noteq> dfPath d" and "dfPath d \<noteq> []"
  shows "dfPath d \<in> set (dsUsedAdded (fold (hash_copy_step removed surviving) xs st))"
  using assms(1)
proof (induction xs arbitrary: st)
  case (Cons x xs)
  show ?case
  proof (cases "d = x")
    case True
    then show ?thesis
      using hash_copy_uses [OF assms(2-5), of st]
        fold_mono_set [of dsUsedAdded "hash_copy_step removed surviving", OF hash_copy_mono] by fastforce
  next
    case False
    then show ?thesis using Cons by simp
  qed
qed simp

text \<open>
  An exact move is always recognised: an added file whose content hash equals
  that of a removed file gets an origin, with the full score of 100, whatever else is in the
  change.
\<close>

theorem detectRenames_exact_moves:
  assumes "d \<in> set added" and "truthy (dfHash d) = Some h" and "\<exists>r \<in> set removed. dfHash r = Some h"
    and "\<forall>f \<in> set removed \<union> set surviving. dfPath f \<noteq> [] \<and> dfPath f \<noteq> dfPath d" and "dfPath d \<noteq> []"
    and "thr \<le> 100"
  shows "\<exists>m \<in> set (detectRenamesAndCopies coll thr cap added removed surviving). lmTo m = dfPath d \<and> lmScore m = 100"
proof -
  let ?st = "detect_hash_phase added removed surviving"
  have "h \<noteq> []" using assms(2) by (simp add: truthy_Some_iff)
  then have "with_hash removed h \<noteq> []"
    using assms(3) by (auto simp: with_hash_def filter_empty_conv truthy_Some_iff intro!: bexI)
  then have "dfPath d \<in> set (dsUsedAdded ?st)"
    unfolding detect_hash_phase_def using assms by (intro fold_copy_uses) auto
  then obtain m where m: "m \<in> set (dsMatches ?st)" "lmTo m = dfPath d"
    using detect_hash_phase_inv [of 100 added removed surviving] by (auto simp: detect_inv_def)
  have "lmScore m = 100"
    using detect_hash_phase_inv [of 100 added removed surviving] m(1) by (auto simp: detect_inv_def match_ok_def)
  moreover have "m \<in> set (detectRenamesAndCopies coll thr cap added removed surviving)"
    unfolding detect_unfold
    using fold_mono_set [of dsMatches "\<lambda>m st. take_match (lmKind m) (lmFrom m) (lmTo m) (lmScore m) st" ?st] take_match_used(2) m(1)
    by blast
  ultimately show ?thesis using m(2) by blast
qed

theorem detectRenames_exact_moves_witness:
  "let old = \<lparr>dfPath = ''old.ts'', dfHash = Some ''h'', dfContent = None, dfEncoding = None, dfSize = None\<rparr>;
       new = old\<lparr>dfPath := ''new.ts''\<rparr>
   in \<exists>m \<in> set (detectRenamesAndCopies (\<lambda>s. s) 60 1000 [new] [old] []). lmTo m = ''new.ts'' \<and> lmScore m = 100"
  unfolding Let_def
  using detectRenames_exact_moves [of "\<lparr>dfPath = ''new.ts'', dfHash = Some ''h'', dfContent = None, dfEncoding = None, dfSize = None\<rparr>"
      "[\<lparr>dfPath = ''new.ts'', dfHash = Some ''h'', dfContent = None, dfEncoding = None, dfSize = None\<rparr>]" "''h''"
      "[\<lparr>dfPath = ''old.ts'', dfHash = Some ''h'', dfContent = None, dfEncoding = None, dfSize = None\<rparr>]" "[]" 60 "\<lambda>s. s" 1000]
  by simp

section \<open>Annotation only adds lineage\<close>

definition erase_lineage :: "file_snapshot \<Rightarrow> file_snapshot" where
  "erase_lineage s = s\<lparr>fsRenamedFrom := None, fsCopiedFrom := None\<rparr>"

lemma map_update_same: "f y = f (xs ! i) \<Longrightarrow> map f (xs[i := y]) = map f xs"
  by (cases "i < length xs") (simp_all add: map_update list_update_beyond, metis list_update_id map_update)

lemma apply_match_erase: "map erase_lineage (apply_match m ss) = map erase_lineage ss"
  by (auto simp: apply_match_def Let_def erase_lineage_def intro!: map_update_same split: option.split)

lemma applyLineageMatches_erase: "map erase_lineage (applyLineageMatches ss ms) = map erase_lineage ss"
  unfolding applyLineageMatches_def by (induction ms arbitrary: ss) (auto simp: apply_match_erase)

text \<open>
  Annotating a capture with lineage never changes what the capture restores: the
  snapshots keep their order, paths, hashes, contents and deletion marks, only the
  \<open>renamedFrom\<close> and \<open>copiedFrom\<close> marks differ.
\<close>

theorem annotate_keeps_contents:
  "map erase_lineage (annotateSnapshotsFromParentIndex coll ss parents load) = map erase_lineage ss"
  by (auto simp: annotateSnapshotsFromParentIndex_def Let_def applyLineageMatches_erase split: option.split)

section \<open>What a collapsed diff accounts for\<close>

definition shown_as :: "collapse_state \<Rightarrow> string \<Rightarrow> bool" where
  "shown_as st p \<longleftrightarrow> (\<exists>i \<in> set (csOut st). posixDetectPath (fdPath (csFiles st ! i)) = p)
     \<or> (\<exists>i \<in> set (csOut st). fdStatus (csFiles st ! i) = DiffRenamed \<and> fdOldPath (csFiles st ! i) = Some p)"

definition collapse_inv :: "file_diff list \<Rightarrow> collapse_state \<Rightarrow> bool" where
  "collapse_inv files st \<longleftrightarrow> map fdPath (csFiles st) = map fdPath files
     \<and> (\<forall>i \<in> set (csOut st). i < length files \<and> posixDetectPath (fdPath (csFiles st ! i)) \<in> set (csConsumed st))
     \<and> (\<forall>p \<in> set (csConsumed st). shown_as st p)"

lemma adopted_facts: "fdPath (adopted s p src d) = fdPath d \<and> fdStatus (adopted s p src d) = s
    \<and> fdOldPath (adopted s p src d) = Some p"
  by (auto simp: adopted_def Let_def split: option.splits)

lemma adopt_inv:
  assumes inv: "collapse_inv files st" and i: "i < length files"
    and fresh: "posixDetectPath (fdPath (csFiles st ! i)) \<notin> set (csConsumed st)"
  shows "collapse_inv files (adopt i status q st)"
proof -
  let ?st = "adopt i status q st" and ?f = "csFiles st"
  let ?d = "adopted status q (map_option (\<lambda>j. ?f ! j) (diff_index ?f q)) (?f ! i)"
  have paths: "map fdPath ?f = map fdPath files" using inv by (simp add: collapse_inv_def)
  then have len: "length ?f = length files" by (metis length_map)
  have files': "csFiles ?st = ?f[i := ?d]" and out: "csOut ?st = csOut st @ [i]"
    and cons: "csConsumed ?st = (if status = DiffRenamed then [q] else []) @ posixDetectPath (fdPath ?d) # csConsumed st"
    by (auto simp: adopt_def Let_def)
  note d = adopted_facts [of status q "map_option (\<lambda>j. ?f ! j) (diff_index ?f q)" "?f ! i"]
  have nout: "i \<notin> set (csOut st)" using inv fresh unfolding collapse_inv_def by blast
  have old: "csFiles ?st ! j = ?f ! j" if "j \<in> set (csOut st)" for j
    using that nout unfolding files' by (metis nth_list_update_neq)
  have new: "csFiles ?st ! i = ?d" using i len by (simp add: files')
  have shown: "shown_as st p \<Longrightarrow> shown_as ?st p" for p
    using old by (auto simp: shown_as_def out)
  have paths': "map fdPath (csFiles ?st) = map fdPath files"
    unfolding files' using d paths by (simp add: map_update_same)
  have o: "j < length files \<and> posixDetectPath (fdPath (csFiles ?st ! j)) \<in> set (csConsumed ?st)"
    if "j \<in> set (csOut ?st)" for j
  proof (cases "j = i")
    case True
    then show ?thesis using i new by (simp add: cons)
  next
    case False
    then have "j \<in> set (csOut st)" using that by (simp add: out)
    then show ?thesis using inv old unfolding collapse_inv_def by (simp add: cons)
  qed
  have c: "shown_as ?st p" if mem: "p \<in> set (csConsumed ?st)" for p
  proof -
    consider "p = q" "status = DiffRenamed" | "p = posixDetectPath (fdPath ?d)" | "p \<in> set (csConsumed st)"
      using mem unfolding cons by (auto split: if_splits)
    then show ?thesis
    proof cases
      case 1
      then have "fdStatus (csFiles ?st ! i) = DiffRenamed \<and> fdOldPath (csFiles ?st ! i) = Some p" using new d by simp
      then show ?thesis by (auto simp: shown_as_def out)
    next
      case 2
      then have "posixDetectPath (fdPath (csFiles ?st ! i)) = p" using new by simp
      then show ?thesis by (auto simp: shown_as_def out)
    next
      case 3
      then show ?thesis using inv shown unfolding collapse_inv_def by blast
    qed
  qed
  show ?thesis unfolding collapse_inv_def using paths' o c by blast
qed

lemma diff_index_Some: "diff_index fs p = Some i \<Longrightarrow> i < length fs \<and> posixDetectPath (fdPath (fs ! i)) = p"
  unfolding diff_index_def by (auto dest!: find_index_Some simp: rev_nth)

lemma collapse_inv_length: "collapse_inv files st \<Longrightarrow> length (csFiles st) = length files"
  unfolding collapse_inv_def by (metis length_map)

lemma collapse_snapshot_inv: "collapse_inv files st \<Longrightarrow> collapse_inv files (collapse_snapshot s st)"
  using collapse_inv_length [of files st]
  by (auto simp: collapse_snapshot_def split: option.split intro!: adopt_inv dest!: diff_index_Some)

lemma collapse_match_inv: "collapse_inv files st \<Longrightarrow> collapse_inv files (collapse_match m st)"
  using collapse_inv_length [of files st]
  by (auto simp: collapse_match_def split: option.split intro!: adopt_inv dest!: diff_index_Some)

text \<open>
  C24 (invariant): the collapsed diff accounts for every changed file: each one is shown under its
  own path, or its path is shown as the old path of an entry reported as renamed.
\<close>

theorem collapseDiff_accounts:
  assumes "f \<in> set files"
  shows "(\<exists>r \<in> set (collapseDiffByLineage coll files snaps). posixDetectPath (fdPath r) = posixDetectPath (fdPath f))
    \<or> (\<exists>r \<in> set (collapseDiffByLineage coll files snaps).
         fdStatus r = DiffRenamed \<and> fdOldPath r = Some (posixDetectPath (fdPath f)))"
proof -
  let ?s0 = "\<lparr>csFiles = files, csConsumed = [], csOut = []\<rparr>"
  have i0: "collapse_inv files ?s0" by (simp add: collapse_inv_def)
  have i1: "collapse_inv files (fold collapse_snapshot snaps ?s0)"
    by (rule fold_inv [of "collapse_inv files", OF i0]) (rule collapse_snapshot_inv)
  define st1 where "st1 = fold collapse_snapshot snaps ?s0"
  define st2 where "st2 = fold collapse_match (collapse_matches coll st1) st1"
  have i2: "collapse_inv files st2" unfolding st2_def
    by (rule fold_inv [of "collapse_inv files", OF i1 [folded st1_def]]) (rule collapse_match_inv)
  have c: "collapseDiffByLineage coll files snaps = collapse_result coll st2"
    using assms by (auto simp: collapseDiffByLineage_def Let_def st1_def st2_def)
  have res: "set (collapseDiffByLineage coll files snaps) = (\<lambda>i. csFiles st2 ! i) ` (set (csOut st2) \<union> set (collapse_rest st2))"
    unfolding c collapse_result_def by auto
  obtain i where i: "i < length files" "files ! i = f" using assms by (meson in_set_conv_nth)
  have p: "fdPath (csFiles st2 ! i) = fdPath f"
    using i2 i collapse_inv_length [OF i2] unfolding collapse_inv_def by (metis nth_map)
  show ?thesis
  proof (cases "posixDetectPath (fdPath f) \<in> set (csConsumed st2)")
    case True
    then have "shown_as st2 (posixDetectPath (fdPath f))" using i2 unfolding collapse_inv_def by blast
    then show ?thesis unfolding shown_as_def res by auto
  next
    case False
    then have "i \<in> set (collapse_rest st2)"
      using i p collapse_inv_length [OF i2] by (simp add: collapse_rest_def)
    then show ?thesis unfolding res using p by (intro disjI1 bexI [of _ "csFiles st2 ! i"]) auto
  qed
qed

text \<open>
  The second case is wider than intended: when the old path of a rename holds a new file by the end
  of the compared range, the change of that file disappears from the diff.
\<close>

definition recreated_files :: "file_diff list" where
  "recreated_files =
     [\<lparr>fdPath = ''a.ts'', fdStatus = DiffModified, fdOldPath = None, fdOldContent = Some ''old'',
       fdNewContent = Some ''brand new'', fdOldEncoding = None, fdNewEncoding = None\<rparr>,
      \<lparr>fdPath = ''b.ts'', fdStatus = DiffAdded, fdOldPath = None, fdOldContent = None,
       fdNewContent = Some ''old'', fdOldEncoding = None, fdNewEncoding = None\<rparr>]"

definition recreated_snapshots :: "file_snapshot list" where
  "recreated_snapshots =
     [(new_snapshot ''b.ts'' (Some ''h'') ''utf8'' 3 Created)\<lparr>fsRenamedFrom := Some ''a.ts''\<rparr>,
      deleted_snapshot ''a.ts'' ''utf8'' 0, new_snapshot ''a.ts'' (Some ''k'') ''utf8'' 9 Created]"

lemma recreated_first:
  "fold collapse_snapshot recreated_snapshots \<lparr>csFiles = recreated_files, csConsumed = [], csOut = []\<rparr> =
     \<lparr>csFiles = [recreated_files ! 0, (recreated_files ! 1)\<lparr>fdStatus := DiffRenamed, fdOldPath := Some ''a.ts'',
         fdOldContent := Some ''old''\<rparr>], csConsumed = [''a.ts'', ''b.ts''], csOut = [1]\<rparr>"
  by code_simp

lemma detect_nothing: "detectRenamesAndCopies coll t c [] [] [] = []"
  by (simp add: detectRenamesAndCopies_def lineage_candidates_def)

lemma recreated_collapse:
  "map (\<lambda>r. (fdPath r, fdNewContent r)) (collapseDiffByLineage (\<lambda>s. s) recreated_files recreated_snapshots)
     = [(''b.ts'', Some ''old'')]"
proof -
  let ?st = "\<lparr>csFiles = [recreated_files ! 0, (recreated_files ! 1)\<lparr>fdStatus := DiffRenamed, fdOldPath := Some ''a.ts'',
         fdOldContent := Some ''old''\<rparr>], csConsumed = [''a.ts'', ''b.ts''], csOut = [1]\<rparr>"
  have "collapse_rest ?st = []" by code_simp
  then have m: "collapse_matches (\<lambda>s. s) ?st = []" by (simp add: collapse_matches_def Let_def detect_nothing)
  have r: "map (\<lambda>r. (fdPath r, fdNewContent r)) (collapse_result (\<lambda>s. s) ?st) = [(''b.ts'', Some ''old'')]"
    by code_simp
  have ne: "recreated_files \<noteq> []" by (simp add: recreated_files_def)
  show ?thesis using m r ne by (simp add: collapseDiffByLineage_def Let_def recreated_first)
qed

lemma recreated_paths:
  "map fdPath (collapseDiffByLineage (\<lambda>s. s) recreated_files recreated_snapshots) = [''b.ts'']"
proof -
  have f: "map fdPath xs = map fst (map (\<lambda>r. (fdPath r, fdNewContent r)) xs)" for xs :: "file_diff list"
    by simp
  show ?thesis by (subst f, subst recreated_collapse) simp
qed

theorem collapseDiff_accounts_witness:
  "map fdPath (collapseDiffByLineage (\<lambda>s. s) recreated_files recreated_snapshots) = [''b.ts'']
   \<and> ((\<exists>r \<in> set (collapseDiffByLineage (\<lambda>s. s) recreated_files recreated_snapshots). posixDetectPath (fdPath r) = ''a.ts'')
      \<or> (\<exists>r \<in> set (collapseDiffByLineage (\<lambda>s. s) recreated_files recreated_snapshots).
         fdStatus r = DiffRenamed \<and> fdOldPath r = Some ''a.ts''))"
proof -
  have v: "map fdPath (collapseDiffByLineage (\<lambda>s. s) recreated_files recreated_snapshots) = [''b.ts'']"
    by (rule recreated_paths)
  have m: "recreated_files ! 0 \<in> set recreated_files" "posixDetectPath (fdPath (recreated_files ! 0)) = ''a.ts''"
    by code_simp+
  show ?thesis using collapseDiff_accounts [OF m(1), of "\<lambda>s. s" recreated_snapshots] m(2) v by simp
qed

text \<open>The modification of \<open>a.ts\<close> is in no entry of the result.\<close>

lemma collapseDiff_loses_recreated_file:
  "fdStatus (recreated_files ! 0) = DiffModified
   \<and> map (\<lambda>r. (fdPath r, fdNewContent r)) (collapseDiffByLineage (\<lambda>s. s) recreated_files recreated_snapshots)
     = [(''b.ts'', Some ''old'')]"
  using recreated_collapse by (simp add: recreated_files_def)

end
