(* ===== verification/FileClass.thy ===== *)
theory FileClass
  imports CheckpointPath
begin

text \<open>
  File classification (\<open>manager/fileClassification.ts\<close>): which files are tracked, and the
  encoding recorded for a file's bytes. Bytes are characters below 256.
\<close>

definition TEXT_EXTENSIONS :: "string list" where
  "TEXT_EXTENSIONS =
     [''js'', ''jsx'', ''ts'', ''tsx'', ''mjs'', ''cjs'', ''py'', ''java'', ''cpp'', ''cc'', ''c'', ''h'', ''hpp'', ''cs'',
      ''go'', ''rs'', ''php'', ''rb'', ''swift'', ''kt'', ''kts'', ''html'', ''htm'', ''css'',
      ''scss'', ''sass'', ''less'', ''json'', ''jsonc'', ''yaml'', ''yml'', ''md'', ''mdx'', ''txt'', ''sh'', ''bash'',
      ''zsh'', ''bat'', ''ps1'', ''xml'', ''svg'', ''toml'', ''ini'', ''cfg'', ''conf'', ''env'',
      ''sql'', ''graphql'', ''gql'', ''proto'', ''vue'', ''svelte'', ''astro'', ''dart'', ''r'', ''scala'',
      ''clj'', ''ex'', ''exs'', ''erl'', ''hs'', ''jl'', ''lua'', ''pl'', ''pm'', ''vim'', ''tf'', ''tfvars'',
      ''gradle'', ''properties'', ''csv'', ''tsv'', ''lock'', ''editorconfig'', ''gitignore'', ''gitattributes'',
      ''dockerfile'', ''makefile'', ''cmake'', ''nix'', ''zig'', ''sol'', ''m'', ''mm'']"

definition BINARY_SNAPSHOT_EXTENSIONS :: "string list" where
  "BINARY_SNAPSHOT_EXTENSIONS =
     [''png'', ''jpg'', ''jpeg'', ''gif'', ''webp'', ''ico'', ''bmp'', ''avif'',
      ''pdf'', ''woff'', ''woff2'', ''ttf'', ''otf'', ''eot'',
      ''wasm'', ''db'', ''sqlite'', ''sqlite3'', ''bin'', ''dat'',
      ''mp3'', ''wav'', ''ogg'']"

definition NEVER_TRACK_EXTENSIONS :: "string list" where
  "NEVER_TRACK_EXTENSIONS =
     [''log'', ''tmp'', ''swp'', ''bak'', ''exe'', ''dll'', ''so'', ''dylib'', ''node'',
      ''o'', ''a'', ''obj'', ''class'', ''pyc'', ''pyo'',
      ''zip'', ''tar'', ''gz'', ''tgz'', ''bz2'', ''xz'', ''7z'', ''rar'', ''jar'', ''war'',
      ''iso'', ''dmg'', ''pkg'', ''deb'', ''rpm'',
      ''mp4'', ''mov'', ''avi'', ''mkv'', ''webm'']"

record class_options =
  coBinary :: bool
  coExtra :: "string list"

text \<open>\<open>path.basename\<close> and \<open>path.extname\<close> (POSIX); a leading dot starts no extension.\<close>

definition path_basename :: "string \<Rightarrow> string" where
  "path_basename p = (case rev (path_segs p) of [] \<Rightarrow> [] | s # _ \<Rightarrow> s)"

definition path_extname :: "string \<Rightarrow> string" where
  "path_extname p =
     (let b = path_basename p; tail = takeWhile (\<lambda>c. c \<noteq> CHR ''.'') (rev b)
      in if length tail = length b \<or> length tail + 1 = length b \<or> b = dotdot then []
         else CHR ''.'' # rev tail)"

definition fileExtension :: "string \<Rightarrow> string" where
  "fileExtension p = drop 1 (js_lower (path_extname p))"

definition isTextFile :: "string \<Rightarrow> string list \<Rightarrow> bool" where
  "isTextFile p extra =
     (let base = js_lower (path_basename p); ext = fileExtension p
      in if ext = [] then True
         else ext \<in> set TEXT_EXTENSIONS \<or> base \<in> set TEXT_EXTENSIONS \<or> ext \<in> set extra)"

definition isBinarySnapshotExtension :: "string \<Rightarrow> bool" where
  "isBinarySnapshotExtension p \<longleftrightarrow> fileExtension p \<in> set BINARY_SNAPSHOT_EXTENSIONS"

definition shouldTrackFile :: "string \<Rightarrow> class_options \<Rightarrow> bool" where
  "shouldTrackFile p opts =
     (let ext = fileExtension p
      in if ext \<noteq> [] \<and> ext \<in> set NEVER_TRACK_EXTENSIONS \<and> ext \<notin> set (coExtra opts) then False
         else if isTextFile p (coExtra opts) then True
         else if isBinarySnapshotExtension p then coBinary opts
         else True)"

definition isBinaryBuffer :: "string \<Rightarrow> bool" where
  "isBinaryBuffer bytes \<longleftrightarrow> nul \<in> set (take 8192 bytes)"

text \<open>\<open>nulRatioOnLane\<close> as numerator and denominator; the callers compare with 0.6 and 0.4.\<close>

definition lane :: "string \<Rightarrow> nat \<Rightarrow> string" where
  "lane bytes offset =
     map (\<lambda>i. bytes ! i) (filter (\<lambda>i. i mod 2 = offset) [0..<min (length bytes) 256])"

definition nul_at_least :: "string \<Rightarrow> nat \<Rightarrow> nat \<Rightarrow> bool" where
  "nul_at_least bytes offset tenths =
     (let l = lane bytes offset; nuls = length (filter (\<lambda>c. c = nul) l)
      in if min (length bytes) 256 < 8 \<or> l = [] then tenths = 0 else tenths * length l \<le> 10 * nuls)"

definition nul_at_most :: "string \<Rightarrow> nat \<Rightarrow> nat \<Rightarrow> bool" where
  "nul_at_most bytes offset tenths =
     (let l = lane bytes offset; nuls = length (filter (\<lambda>c. c = nul) l)
      in if min (length bytes) 256 < 8 \<or> l = [] then True else 10 * nuls \<le> tenths * length l)"

definition looksLikeUtf16Le :: "string \<Rightarrow> bool" where
  "looksLikeUtf16Le bytes \<longleftrightarrow> length bytes \<ge> 8 \<and> length bytes mod 2 = 0
     \<and> nul_at_least bytes 1 6 \<and> nul_at_most bytes 0 4"

definition looksLikeUtf16Be :: "string \<Rightarrow> bool" where
  "looksLikeUtf16Be bytes \<longleftrightarrow> length bytes \<ge> 8 \<and> length bytes mod 2 = 0
     \<and> nul_at_least bytes 0 6 \<and> nul_at_most bytes 1 4"

text \<open>
  A buffer survives decoding and encoding as UTF-8 exactly when it is well-formed UTF-8 (any
  ill-formed sequence decodes to the replacement character).
\<close>

definition byte :: "char \<Rightarrow> nat" where "byte c = of_char c"
definition cont :: "char \<Rightarrow> bool" where "cont c \<longleftrightarrow> 128 \<le> byte c \<and> byte c \<le> 191"

fun isWellFormedUtf8 :: "string \<Rightarrow> bool" where
  "isWellFormedUtf8 [] = True"
| "isWellFormedUtf8 (a # rest) =
     (if byte a < 128 then isWellFormedUtf8 rest
      else case rest of
        b # rest2 \<Rightarrow>
          if 194 \<le> byte a \<and> byte a \<le> 223 \<and> cont b then isWellFormedUtf8 rest2
          else (case rest2 of
            c # rest3 \<Rightarrow>
              if 224 \<le> byte a \<and> byte a \<le> 239 \<and> cont b \<and> cont c
                 \<and> (byte a = 224 \<longrightarrow> 160 \<le> byte b) \<and> (byte a = 237 \<longrightarrow> byte b \<le> 159)
              then isWellFormedUtf8 rest3
              else (case rest3 of
                d # rest4 \<Rightarrow>
                  if 240 \<le> byte a \<and> byte a \<le> 244 \<and> cont b \<and> cont c \<and> cont d
                     \<and> (byte a = 240 \<longrightarrow> 144 \<le> byte b) \<and> (byte a = 244 \<longrightarrow> byte b \<le> 143)
                  then isWellFormedUtf8 rest4 else False
              | [] \<Rightarrow> False)
          | [] \<Rightarrow> False)
      | [] \<Rightarrow> False)"

definition bytes_start :: "string \<Rightarrow> nat list \<Rightarrow> bool" where
  "bytes_start bytes ns \<longleftrightarrow> map byte (take (length ns) bytes) = ns"

definition detectFileEncoding :: "string \<Rightarrow> string \<Rightarrow> string" where
  "detectFileEncoding p bytes =
     (if isBinarySnapshotExtension p then ''base64''
      else if bytes = [] then ''utf8''
      else if bytes_start bytes [0, 0, 254, 255] then ''base64''
      else if bytes_start bytes [255, 254, 0, 0] then ''base64''
      else if bytes_start bytes [255, 254] then ''utf16le''
      else if bytes_start bytes [254, 255] then ''utf16be''
      else if bytes_start bytes [239, 187, 191] then ''utf8''
      else if looksLikeUtf16Le bytes then ''utf16le''
      else if looksLikeUtf16Be bytes then ''utf16be''
      else if isBinaryBuffer bytes \<or> \<not> isWellFormedUtf8 bytes then ''base64''
      else ''utf8'')"

text \<open>The decoder of the blob store is the argument \<open>decode\<close> (encoding, then bytes).\<close>

definition classifyFileBuffer ::
  "(string \<Rightarrow> string \<Rightarrow> string) \<Rightarrow> string \<Rightarrow> string \<Rightarrow> class_options \<Rightarrow> (string \<times> string) option" where
  "classifyFileBuffer decode p bytes opts =
     (let encoding = detectFileEncoding p bytes
      in if encoding = ''base64'' \<and> \<not> coBinary opts then None
         else Some (decode encoding bytes, encoding))"



end
