(* ===== verification/Workspace.thy ===== *)
theory Workspace
  imports CheckpointPath CheckpointTypes
begin

text \<open>
  Workspace identity (\<open>store/workspaceStore.ts\<close>, \<open>manager/workspace.ts\<close>) on a POSIX host: the
  canonical form of a workspace path, the store directory derived from it, the folder that
  contains a file, and the part of the history that belongs to a workspace. What Node supplies is
  the record \<open>node_env\<close>: the process directory, \<open>fileURLToPath\<close> (\<open>None\<close> when it throws), the
  hexadecimal SHA-256 and whether the file system folds case.
\<close>

record node_env =
  neCwd :: string
  neFileUrl :: "string \<Rightarrow> string option"
  neSha :: "string \<Rightarrow> string"
  neFoldCase :: bool

definition posix_join :: "string list \<Rightarrow> string" where
  "posix_join parts =
     (let ps = filter (\<lambda>p. p \<noteq> []) parts in if ps = [] then ''.'' else posix_normalize (join ''/'' ps))"

definition local_path :: "'a node_env_scheme \<Rightarrow> string \<Rightarrow> string" where
  "local_path env p =
     (let t = js_trim p
      in if starts_with t ''file:'' then
           (case neFileUrl env t of
              Some q \<Rightarrow> q
            | None \<Rightarrow> if starts_with t ''file://'' then drop 7 t else t)
         else t)"

definition is_sep :: "char \<Rightarrow> bool" where
  "is_sep c \<longleftrightarrow> c = slash \<or> c = backslash"

fun strip_rev_seps :: "string \<Rightarrow> string" where
  "strip_rev_seps (c # d # rest) = (if is_sep c then strip_rev_seps (d # rest) else c # d # rest)"
| "strip_rev_seps s = s"

definition canonicalizeWorkspacePath :: "'a node_env_scheme \<Rightarrow> string \<Rightarrow> string" where
  "canonicalizeWorkspacePath env p =
     (let stripped = rev (strip_rev_seps (rev (posix_normalize (local_path env p))))
      in if neFoldCase env then js_lower stripped else stripped)"

definition workspaceStorageKey :: "'a node_env_scheme \<Rightarrow> string \<Rightarrow> string" where
  "workspaceStorageKey env p = take 16 (neSha env (canonicalizeWorkspacePath env p))"

definition workspacePathsEqual :: "'a node_env_scheme \<Rightarrow> string option \<Rightarrow> string option \<Rightarrow> bool" where
  "workspacePathsEqual env a b =
     (case (truthy a, truthy b) of
        (Some x, Some y) \<Rightarrow> canonicalizeWorkspacePath env x = canonicalizeWorkspacePath env y
      | _ \<Rightarrow> False)"

definition contained_in :: "string \<Rightarrow> string \<Rightarrow> bool" where
  "contained_in target root \<longleftrightarrow>
     target = root \<or> starts_with target (root @ ''/'') \<or> starts_with target (root @ [backslash])"

definition better_folder :: "'a node_env_scheme \<Rightarrow> string \<Rightarrow> string \<Rightarrow> (string \<times> nat) option \<Rightarrow> (string \<times> nat) option" where
  "better_folder env target folder best =
     (let root = canonicalizeWorkspacePath env folder
      in if contained_in target root \<and> (case best of None \<Rightarrow> True | Some (_, n) \<Rightarrow> n < length root)
         then Some (folder, length root) else best)"

definition findContainingWorkspaceFolder :: "'a node_env_scheme \<Rightarrow> string list \<Rightarrow> string \<Rightarrow> string option" where
  "findContainingWorkspaceFolder env folders p =
     map_option fst (fold (better_folder env (canonicalizeWorkspacePath env p)) folders None)"

definition isUsableCheckpointWorkspacePath :: "'a node_env_scheme \<Rightarrow> string option \<Rightarrow> bool" where
  "isUsableCheckpointWorkspacePath env wp =
     (case wp of
        None \<Rightarrow> False
      | Some p \<Rightarrow>
          if js_trim p = [] then False
          else let n = posix_normalize (local_path env p)
               in if \<not> posix_isAbsolute n then False
                  else let bare = rev (dropWhile is_sep (rev n)); stripped = js_or bare n
                       in stripped \<noteq> ''/'' \<and> n \<noteq> ''/'')"

definition resolveCheckpointStoragePathFor :: "'a node_env_scheme \<Rightarrow> string option \<Rightarrow> string \<Rightarrow> string" where
  "resolveCheckpointStoragePathFor env wp globalPath =
     (if isUsableCheckpointWorkspacePath env wp
      then posix_join [globalPath, ''workspaces'', workspaceStorageKey env (or_default wp [])]
      else globalPath)"

section \<open>The history of a workspace\<close>

definition in_workspace :: "'a node_env_scheme \<Rightarrow> string \<Rightarrow> checkpoint_info \<Rightarrow> bool" where
  "in_workspace env wp c =
     (case truthy (cpWorkspaceKey c) of
        Some k \<Rightarrow> k = workspaceStorageKey env wp
      | None \<Rightarrow>
          (case truthy (cpWorkspacePath c) of
             None \<Rightarrow> False
           | Some p \<Rightarrow> workspacePathsEqual env (Some p) (Some wp)))"

definition getCheckpointHistoryForWorkspace ::
    "'a node_env_scheme \<Rightarrow> checkpoint_info list \<Rightarrow> string option \<Rightarrow> checkpoint_info list" where
  "getCheckpointHistoryForWorkspace env history wp =
     (case truthy wp of None \<Rightarrow> [] | Some w \<Rightarrow> filter (in_workspace env w) history)"

definition resolveWorkspaceRelativePath :: "'a node_env_scheme \<Rightarrow> string option \<Rightarrow> string \<Rightarrow> string + string" where
  "resolveWorkspaceRelativePath env wp rel =
     (case truthy wp of
        None \<Rightarrow> Inl ''no workspace''
      | Some w \<Rightarrow> tryResolveSandboxedWorkspacePath (neCwd env) w rel)"

definition checkpointHasUnsafePaths :: "'a node_env_scheme \<Rightarrow> checkpoint_info \<Rightarrow> string option \<Rightarrow> bool" where
  "checkpointHasUnsafePaths env c wp =
     list_ex (\<lambda>p. isl (tryResolveSandboxedWorkspacePath (neCwd env) (or_default (truthy wp) ''/workspace'') p))
       (map fsRelativePath (snapshots_of c) @ or_default (cpFileInventory c) []
        @ map skPath (or_default (cpSkippedFiles c) []))"

section \<open>The containing folder\<close>

lemma better_new:
  "better_folder env t x acc = Some (f, n) \<Longrightarrow>
   acc = Some (f, n) \<or> (f = x \<and> contained_in t (canonicalizeWorkspacePath env x)
                          \<and> n = length (canonicalizeWorkspacePath env x))"
  by (auto simp: better_folder_def Let_def split: if_splits)

lemma better_here:
  "contained_in t (canonicalizeWorkspacePath env x) \<Longrightarrow>
   \<exists>f n. better_folder env t x acc = Some (f, n) \<and> length (canonicalizeWorkspacePath env x) \<le> n"
  by (auto simp: better_folder_def Let_def split: option.splits)

lemma better_keep: "acc = Some (f, m) \<Longrightarrow> \<exists>f' n. better_folder env t x acc = Some (f', n) \<and> m \<le> n"
  by (auto simp: better_folder_def Let_def)

lemma fold_better_keep:
  "acc = Some (f, m) \<Longrightarrow> \<exists>f' n. fold (better_folder env t) folders acc = Some (f', n) \<and> m \<le> n"
proof (induction folders arbitrary: acc f m)
  case (Cons x xs)
  from better_keep [OF Cons.prems] obtain f1 n1 where 1: "better_folder env t x acc = Some (f1, n1)" "m \<le> n1" by blast
  from Cons.IH [OF 1(1)] obtain f2 n2 where "fold (better_folder env t) xs (Some (f1, n1)) = Some (f2, n2)" "n1 \<le> n2"
    unfolding 1(1) by blast
  then show ?case using 1 by (auto intro: le_trans)
qed simp

lemma fold_better_new:
  "fold (better_folder env t) folders acc = Some (f, n) \<Longrightarrow>
   acc = Some (f, n) \<or> (f \<in> set folders \<and> contained_in t (canonicalizeWorkspacePath env f)
                          \<and> n = length (canonicalizeWorkspacePath env f))"
proof (induction folders arbitrary: acc)
  case (Cons x xs)
  then show ?case using better_new [of env t x acc f n] by fastforce
qed simp

lemma fold_better_here:
  "g \<in> set folders \<Longrightarrow> contained_in t (canonicalizeWorkspacePath env g) \<Longrightarrow>
   \<exists>f n. fold (better_folder env t) folders acc = Some (f, n) \<and> length (canonicalizeWorkspacePath env g) \<le> n"
proof (induction folders arbitrary: acc)
  case (Cons x xs)
  show ?case
  proof (cases "g = x")
    case True
    with Cons.prems better_here [of t env x acc] obtain f n
      where 1: "better_folder env t x acc = Some (f, n)" "length (canonicalizeWorkspacePath env g) \<le> n" by auto
    from fold_better_keep [OF 1(1), of env t xs] 1 show ?thesis by (auto intro: le_trans)
  next
    case False
    with Cons show ?thesis by simp
  qed
qed simp

text \<open>
  C38 (functional): a file is attributed to the innermost workspace folder that contains it: the
  result is one of the folders, it contains the file, and no other containing folder has a longer
  canonical path; without a result no folder contains the file.
\<close>

theorem findContainingWorkspaceFolder_innermost:
  "case findContainingWorkspaceFolder env folders p of
     None \<Rightarrow> \<not> (\<exists>g \<in> set folders. contained_in (canonicalizeWorkspacePath env p) (canonicalizeWorkspacePath env g))
   | Some f \<Rightarrow> f \<in> set folders \<and> contained_in (canonicalizeWorkspacePath env p) (canonicalizeWorkspacePath env f)
       \<and> \<not> (\<exists>g \<in> set folders. contained_in (canonicalizeWorkspacePath env p) (canonicalizeWorkspacePath env g)
              \<and> length (canonicalizeWorkspacePath env f) < length (canonicalizeWorkspacePath env g))"
proof (cases "fold (better_folder env (canonicalizeWorkspacePath env p)) folders None")
  case None
  then show ?thesis
    using fold_better_here [of _ folders "canonicalizeWorkspacePath env p" env None]
    by (auto simp: findContainingWorkspaceFolder_def)
next
  case (Some fn)
  obtain f n where fn: "fn = (f, n)" by (cases fn)
  have f: "f \<in> set folders" "contained_in (canonicalizeWorkspacePath env p) (canonicalizeWorkspacePath env f)"
    "n = length (canonicalizeWorkspacePath env f)"
    using fold_better_new [OF Some [unfolded fn]] by auto
  have "length (canonicalizeWorkspacePath env g) \<le> n"
    if "g \<in> set folders" "contained_in (canonicalizeWorkspacePath env p) (canonicalizeWorkspacePath env g)" for g
    using fold_better_here [OF that, of None] Some fn by auto
  then show ?thesis using f Some fn by (auto simp: findContainingWorkspaceFolder_def not_less)
qed

end
