(* ===== verification/BlobStore.thy ===== *)
theory BlobStore
  imports Workspace BranchLogic
begin

text \<open>
  The content-addressed object store (\<open>store/blobStore.ts\<close>, \<open>store/blobEncryption.ts\<close>): blobs
  under the SHA-256 of their bytes, optionally compressed and encrypted, read back with a checksum,
  and garbage collected. An object file is named by its directory (the first two characters of the
  hash) and its entry (the hash with the suffix of its form). Compression, the AES-GCM cipher,
  randomness and the text codecs of \<open>Buffer\<close> are fields of \<open>blob_env\<close>; file system failures other
  than a missing file are not modelled here.
\<close>

type_synonym bytes = string

record blob_env = node_env +
  beGzip :: "bytes \<Rightarrow> bytes"
  beGunzip :: "bytes \<Rightarrow> bytes option"
  beCipher :: "bytes \<Rightarrow> bytes \<Rightarrow> bytes \<Rightarrow> bytes \<times> bytes"
  beDecipher :: "bytes \<Rightarrow> bytes \<Rightarrow> bytes \<Rightarrow> bytes \<Rightarrow> bytes option"
  beRandom :: "nat \<Rightarrow> nat \<Rightarrow> bytes"
  beFromText :: "string \<Rightarrow> string \<Rightarrow> bytes"
  beToText :: "string \<Rightarrow> bytes \<Rightarrow> string"

datatype encryption_code = MissingKey | DecryptFailed

datatype blob_error =
    EncryptionError encryption_code string
  | StoreError string
  | ZlibError

section \<open>Encrypted objects\<close>

definition MAGIC :: bytes where "MAGIC = ''KNXE''"
definition IV_LENGTH :: nat where "IV_LENGTH = 12"
definition TAG_LENGTH :: nat where "TAG_LENGTH = 16"
definition KEY_LENGTH :: nat where "KEY_LENGTH = 32"
definition HEADER_LENGTH :: nat where "HEADER_LENGTH = length MAGIC + 2"

definition isEncryptedBlobBytes :: "bytes \<Rightarrow> bool" where
  "isEncryptedBlobBytes b \<longleftrightarrow> length b \<ge> length MAGIC \<and> take (length MAGIC) b = MAGIC"

definition requireKey :: "bytes option \<Rightarrow> blob_error + bytes" where
  "requireKey key =
     (case key of
        Some k \<Rightarrow> if length k = KEY_LENGTH then Inr k
                  else Inl (EncryptionError MissingKey ''Checkpoint encryption key is unavailable. Restore cannot decrypt blobs.'')
      | None \<Rightarrow> Inl (EncryptionError MissingKey ''Checkpoint encryption key is unavailable. Restore cannot decrypt blobs.''))"

definition blob_header :: "bool \<Rightarrow> bytes" where
  "blob_header gzipped = MAGIC @ [CHR 0x01, if gzipped then CHR 0x01 else CHR 0x00]"

definition encryptBlobPayload :: "'a blob_env_scheme \<Rightarrow> nat \<Rightarrow> bytes \<Rightarrow> bytes \<Rightarrow> bool \<Rightarrow> blob_error + bytes" where
  "encryptBlobPayload env draw payload key gzipped =
     (case requireKey (Some key) of
        Inl e \<Rightarrow> Inl e
      | Inr secret \<Rightarrow>
          (let iv = beRandom env draw IV_LENGTH; (ciphertext, tag) = beCipher env secret iv payload
           in Inr (blob_header gzipped @ iv @ tag @ ciphertext)))"

definition decrypt_failed :: blob_error where
  "decrypt_failed = EncryptionError DecryptFailed
     ''Failed to decrypt checkpoint blob. The encryption key is missing or incorrect.''"

definition decryptBlobPayload :: "'a blob_env_scheme \<Rightarrow> bytes \<Rightarrow> bytes option \<Rightarrow> blob_error + (bytes \<times> bool)" where
  "decryptBlobPayload env encrypted key =
     (if \<not> isEncryptedBlobBytes encrypted \<or> length encrypted < HEADER_LENGTH + IV_LENGTH + TAG_LENGTH
      then Inl decrypt_failed
      else case requireKey key of
        Inl e \<Rightarrow> Inl e
      | Inr secret \<Rightarrow>
          if encrypted ! 4 \<noteq> CHR 0x01
          then Inl (EncryptionError DecryptFailed (''Failed to decrypt checkpoint blob: unsupported encryption version ''
                  @ show_nat (of_char (encrypted ! 4)) @ ''.''))
          else let gzipped = odd (of_char (encrypted ! 5) :: nat);
                   iv = take IV_LENGTH (drop HEADER_LENGTH encrypted);
                   tag = take TAG_LENGTH (drop (HEADER_LENGTH + IV_LENGTH) encrypted);
                   ciphertext = drop (HEADER_LENGTH + IV_LENGTH + TAG_LENGTH) encrypted
               in case beDecipher env secret iv tag ciphertext of
                    Some payload \<Rightarrow> Inr (payload, gzipped)
                  | None \<Rightarrow> Inl decrypt_failed)"

section \<open>Object files\<close>

datatype blob_form = RawBlob | GzBlob | EncBlob

fun form_suffix :: "blob_form \<Rightarrow> string" where
  "form_suffix RawBlob = ''''"
| "form_suffix GzBlob = ''.gz''"
| "form_suffix EncBlob = ''.enc''"

definition blobObjectPaths :: "string \<Rightarrow> blob_form \<Rightarrow> string \<times> string" where
  "blobObjectPaths h form = (take 2 h, h @ form_suffix form)"

record object_store =
  osFiles :: "(string \<times> string, bytes) jsmap"
  osDraws :: nat

definition blob_file :: "object_store \<Rightarrow> string \<Rightarrow> blob_form \<Rightarrow> bytes option" where
  "blob_file s h form = jm_get (osFiles s) (blobObjectPaths h form)"

definition write_blob_file :: "string \<Rightarrow> blob_form \<Rightarrow> bytes \<Rightarrow> object_store \<Rightarrow> object_store" where
  "write_blob_file h form b s = s\<lparr>osFiles := jm_set (blobObjectPaths h form) b (osFiles s)\<rparr>"

definition hashBlobBytes :: "'a blob_env_scheme \<Rightarrow> bytes \<Rightarrow> string" where
  "hashBlobBytes env b = neSha env b"

definition blobExists :: "object_store \<Rightarrow> string \<Rightarrow> bool" where
  "blobExists s h \<longleftrightarrow> blob_file s h RawBlob \<noteq> None \<or> blob_file s h GzBlob \<noteq> None \<or> blob_file s h EncBlob \<noteq> None"

definition BLOB_COMPRESS_THRESHOLD :: nat where "BLOB_COMPRESS_THRESHOLD = 4096"

record put_options =
  poCompress :: "bool option"
  poEncrypt :: "bool option"
  poKey :: "bytes option"

definition putBlob :: "'a blob_env_scheme \<Rightarrow> put_options \<Rightarrow> bytes \<Rightarrow> object_store \<Rightarrow> blob_error + (string \<times> object_store)" where
  "putBlob env opts b s =
     (let h = hashBlobBytes env b
      in if blobExists s h then Inr (h, s)
         else let compress = (poCompress opts \<noteq> Some False \<and> length b \<ge> BLOB_COMPRESS_THRESHOLD);
                  payload = (if compress then beGzip env b else b)
              in if poEncrypt opts = Some True then
                   (case poKey opts of
                      None \<Rightarrow> Inl (EncryptionError MissingKey ''Checkpoint encryption key is unavailable.'')
                    | Some key \<Rightarrow>
                        (case encryptBlobPayload env (osDraws s) payload key compress of
                           Inl e \<Rightarrow> Inl e
                         | Inr encrypted \<Rightarrow>
                             Inr (h, write_blob_file h EncBlob encrypted (s\<lparr>osDraws := Suc (osDraws s)\<rparr>))))
                 else if compress then Inr (h, write_blob_file h GzBlob payload s)
                 else Inr (h, write_blob_file h RawBlob b s))"

definition gunzip :: "'a blob_env_scheme \<Rightarrow> bytes \<Rightarrow> blob_error + bytes" where
  "gunzip env b = (case beGunzip env b of Some x \<Rightarrow> Inr x | None \<Rightarrow> Inl ZlibError)"

definition blob_payload :: "'a blob_env_scheme \<Rightarrow> bytes option \<Rightarrow> object_store \<Rightarrow> string \<Rightarrow> blob_error + bytes" where
  "blob_payload env key s h =
     (case blob_file s h EncBlob of
        Some encrypted \<Rightarrow>
          (case decryptBlobPayload env encrypted key of
             Inl e \<Rightarrow> Inl e
           | Inr (payload, gzipped) \<Rightarrow> if gzipped then gunzip env payload else Inr payload)
      | None \<Rightarrow>
          (case blob_file s h GzBlob of
             Some z \<Rightarrow> gunzip env z
           | None \<Rightarrow>
               (case blob_file s h RawBlob of
                  Some b \<Rightarrow> Inr b
                | None \<Rightarrow> Inl (StoreError (''Missing blob '' @ h)))))"

definition getBlob :: "'a blob_env_scheme \<Rightarrow> bytes option \<Rightarrow> object_store \<Rightarrow> string \<Rightarrow> blob_error + bytes" where
  "getBlob env key s h =
     (case blob_payload env key s h of
        Inl e \<Rightarrow> Inl e
      | Inr b \<Rightarrow> if hashBlobBytes env b = h then Inr b
                 else Inl (StoreError (''Blob '' @ h @ '' failed checksum (got '' @ hashBlobBytes env b @ '')'')))"

section \<open>Listing and collection\<close>

definition isBlobObjectHash :: "string \<Rightarrow> bool" where
  "isBlobObjectHash h \<longleftrightarrow> length h = 64 \<and> list_all hex_char h"

definition drop_suffix :: "string \<Rightarrow> string \<Rightarrow> string" where
  "drop_suffix s suf = (if ends_with s suf then take (length s - length suf) s else s)"

definition entry_hash :: "string \<Rightarrow> string option" where
  "entry_hash entry =
     (if starts_with entry ''.'' then None
      else let h = drop_suffix (drop_suffix entry ''.enc'') ''.gz''
           in if isBlobObjectHash h then Some h else None)"

definition listBlobObjectFiles :: "object_store \<Rightarrow> (string \<times> (string \<times> string)) list" where
  "listBlobObjectFiles s =
     List.map_filter (\<lambda>(p, _). map_option (\<lambda>h. (h, p)) (entry_hash (snd p))) (osFiles s)"

definition storeHasEncryptedBlobs :: "object_store \<Rightarrow> bool" where
  "storeHasEncryptedBlobs s \<longleftrightarrow> list_ex (\<lambda>(_, p). ends_with (snd p) ''.enc'') (listBlobObjectFiles s)"

definition file_size :: "object_store \<Rightarrow> string \<times> string \<Rightarrow> nat" where
  "file_size s p = (case jm_get (osFiles s) p of Some b \<Rightarrow> length b | None \<Rightarrow> 0)"

definition gc_step :: "string list \<Rightarrow> string \<times> (string \<times> string) \<Rightarrow> object_store \<times> nat \<times> nat \<Rightarrow> object_store \<times> nat \<times> nat" where
  "gc_step keep hp acc =
     (case (hp, acc) of ((h, p), (s, deleted, reclaimed)) \<Rightarrow>
        if h \<in> set keep then acc
        else (s\<lparr>osFiles := jm_del p (osFiles s)\<rparr>, deleted + 1, reclaimed + file_size s p))"

definition gcUnreferencedBlobs :: "string list \<Rightarrow> object_store \<Rightarrow> object_store \<times> nat \<times> nat" where
  "gcUnreferencedBlobs referenced s = fold (gc_step referenced) (listBlobObjectFiles s) (s, 0, 0)"

definition summarizeObjectStore :: "object_store \<Rightarrow> nat \<times> nat" where
  "summarizeObjectStore s =
     (length (set_of (map fst (listBlobObjectFiles s))),
      sum_list (map (file_size s \<circ> snd) (listBlobObjectFiles s)))"

definition summarizeUnreferencedBlobs :: "string list \<Rightarrow> object_store \<Rightarrow> nat \<times> nat \<times> string list" where
  "summarizeUnreferencedBlobs referenced s =
     (let objects = filter (\<lambda>(h, _). h \<notin> set referenced) (listBlobObjectFiles s);
          hashes = set_of (map fst objects)
      in (length hashes, sum_list (map (file_size s \<circ> snd) objects), hashes))"

definition computeObjectStoreBytes :: "object_store \<Rightarrow> nat" where
  "computeObjectStoreBytes s = snd (summarizeObjectStore s)"

definition referencedBlobHashes :: "file_snapshot list \<Rightarrow> string list" where
  "referencedBlobHashes ss =
     List.map_filter (\<lambda>s. if snapshotIsDeleted s then None
                          else case fsHash s of
                                 Some h \<Rightarrow> if isBlobObjectHash h then Some h else None
                               | None \<Rightarrow> None) ss"

section \<open>Text content\<close>

definition normalizeCheckpointEncoding :: "string \<Rightarrow> string" where
  "normalizeCheckpointEncoding e = (if e \<in> {''utf16le'', ''utf16be'', ''base64''} then e else ''utf8'')"

fun swapUtf16Endian :: "bytes \<Rightarrow> bytes" where
  "swapUtf16Endian (a # b # rest) = b # a # swapUtf16Endian rest"
| "swapUtf16Endian bs = bs"

definition bytesFromSnapshotContent :: "'a blob_env_scheme \<Rightarrow> string \<Rightarrow> string \<Rightarrow> bytes" where
  "bytesFromSnapshotContent env content enc =
     (let e = normalizeCheckpointEncoding enc
      in if e = ''utf16be'' then swapUtf16Endian (beFromText env ''utf16le'' content) else beFromText env e content)"

definition snapshotContentFromBytes :: "'a blob_env_scheme \<Rightarrow> bytes \<Rightarrow> string \<Rightarrow> string" where
  "snapshotContentFromBytes env b enc =
     (let e = normalizeCheckpointEncoding enc
      in if e = ''utf16be'' then beToText env ''utf16le'' (swapUtf16Endian b) else beToText env e b)"

fun hydrateSnapshotContents ::
    "'a blob_env_scheme \<Rightarrow> bytes option \<Rightarrow> object_store \<Rightarrow> file_snapshot list \<Rightarrow> blob_error + file_snapshot list" where
  "hydrateSnapshotContents env key s [] = Inr []"
| "hydrateSnapshotContents env key s (x # xs) =
     (let step = (if snapshotIsDeleted x \<or> fsContent x \<noteq> None then Inr x
                  else case truthy (fsHash x) of
                    None \<Rightarrow> Inr x
                  | Some h \<Rightarrow>
                      (case getBlob env key s h of
                         Inl e \<Rightarrow> Inl e
                       | Inr b \<Rightarrow> Inr (x\<lparr>fsContent := Some (snapshotContentFromBytes env b (js_or (fsEncoding x) ''utf8''))\<rparr>)))
      in case step of
           Inl e \<Rightarrow> Inl e
         | Inr y \<Rightarrow> (case hydrateSnapshotContents env key s xs of Inl e \<Rightarrow> Inl e | Inr ys \<Rightarrow> Inr (y # ys)))"

section \<open>Reading back\<close>

lemma hash_no_dot: "isBlobObjectHash h \<Longrightarrow> CHR ''.'' \<notin> set h"
proof
  assume h: "isBlobObjectHash h" and d: "CHR ''.'' \<in> set h"
  then have "hex_char CHR ''.''" by (auto simp: isBlobObjectHash_def list_all_iff)
  then show False by (simp add: hex_char_def lower_char_def)
qed

lemma before_dot: "CHR ''.'' \<notin> set h \<Longrightarrow> takeWhile (\<lambda>c. c \<noteq> CHR ''.'') (h @ form_suffix f) = h"
  by (cases f) (auto simp: takeWhile_append takeWhile_eq_all_conv)

lemma form_suffix_inj: "form_suffix f = form_suffix g \<longleftrightarrow> f = g"
  by (cases f; cases g) auto

lemma blob_path_eq:
  assumes "isBlobObjectHash h" and "isBlobObjectHash h'"
  shows "blobObjectPaths h f = blobObjectPaths h' f' \<longleftrightarrow> h = h' \<and> f = f'"
proof
  assume "blobObjectPaths h f = blobObjectPaths h' f'"
  then have e: "h @ form_suffix f = h' @ form_suffix f'" by (simp add: blobObjectPaths_def)
  then have "h = h'"
    using before_dot [OF hash_no_dot [OF assms(1)], of f] before_dot [OF hash_no_dot [OF assms(2)], of f'] by metis
  with e show "h = h' \<and> f = f'" by (simp add: form_suffix_inj)
qed simp

lemma blob_file_write [simp]:
  "isBlobObjectHash h \<Longrightarrow> isBlobObjectHash h' \<Longrightarrow>
   blob_file (write_blob_file h f b s) h' f' = (if h = h' \<and> f = f' then Some b else blob_file s h' f')"
  by (auto simp: blob_file_def write_blob_file_def blob_path_eq)

lemma blob_file_draws [simp]: "blob_file (s\<lparr>osDraws := n\<rparr>) h f = blob_file s h f"
  by (simp add: blob_file_def)

lemma getBlob_cong: "blob_file s h = blob_file s' h \<Longrightarrow> getBlob env key s h = getBlob env key s' h"
  by (simp only: getBlob_def blob_payload_def)

lemma blobExists_cong: "blob_file s h = blob_file s' h \<Longrightarrow> blobExists s h = blobExists s' h"
  by (simp only: blobExists_def)

lemma getBlob_exists: "getBlob env key s h = Inr b \<Longrightarrow> blobExists s h"
  by (auto simp: getBlob_def blob_payload_def blobExists_def split: option.splits sum.splits)

text \<open>
  What the cipher, the compressor and the hash are documented to do. Collisions of the hash are
  excluded on the contents under consideration (\<open>U\<close>), not on all byte strings.
\<close>

definition codec_ok :: "'a blob_env_scheme \<Rightarrow> bytes set \<Rightarrow> bool" where
  "codec_ok env U \<longleftrightarrow>
     (\<forall>b. beGunzip env (beGzip env b) = Some b)
     \<and> (\<forall>k iv b. length k = KEY_LENGTH \<longrightarrow> length iv = IV_LENGTH \<longrightarrow>
          length (snd (beCipher env k iv b)) = TAG_LENGTH
          \<and> beDecipher env k iv (snd (beCipher env k iv b)) (fst (beCipher env k iv b)) = Some b)
     \<and> (\<forall>d n. length (beRandom env d n) = n)
     \<and> inj_on (neSha env) U \<and> (\<forall>b \<in> U. isBlobObjectHash (neSha env b))"

lemma decrypt_encrypt:
  assumes "codec_ok env U" and e: "encryptBlobPayload env d payload key gz = Inr enc"
  shows "decryptBlobPayload env enc (Some key) = Inr (payload, gz)"
proof -
  have k: "length key = KEY_LENGTH" using e by (auto simp: encryptBlobPayload_def requireKey_def split: if_splits)
  define iv where "iv = beRandom env d IV_LENGTH"
  obtain c t where ct: "beCipher env key iv payload = (c, t)" by (cases "beCipher env key iv payload")
  have enc: "enc = blob_header gz @ iv @ t @ c"
    using e k ct by (simp add: encryptBlobPayload_def requireKey_def iv_def [symmetric])
  have li: "length iv = 12" using assms(1) by (simp add: codec_ok_def iv_def IV_LENGTH_def)
  have "length (snd (beCipher env key iv payload)) = TAG_LENGTH
      \<and> beDecipher env key iv (snd (beCipher env key iv payload)) (fst (beCipher env key iv payload)) = Some payload"
    using assms(1) k li unfolding codec_ok_def IV_LENGTH_def by blast
  then have lt: "length t = 16" and dec: "beDecipher env key iv t c = Some payload"
    by (simp_all add: ct TAG_LENGTH_def)
  have hd: "length (blob_header gz) = 6" "take 4 (blob_header gz) = MAGIC"
    "blob_header gz ! 4 = CHR 0x01" "odd (of_char (blob_header gz ! 5) :: nat) = gz"
    by (auto simp: blob_header_def MAGIC_def)
  have n: "enc ! 4 = blob_header gz ! 4" "enc ! 5 = blob_header gz ! 5" "take 4 enc = take 4 (blob_header gz)"
    using hd(1) by (auto simp: enc nth_append)
  have m: "length MAGIC = 4" by (simp add: MAGIC_def)
  have "isEncryptedBlobBytes enc" unfolding isEncryptedBlobBytes_def m using n(3) hd by (simp add: enc)
  moreover have "length enc \<ge> 34" using li lt hd(1) by (simp add: enc)
  moreover have "take 12 (drop 6 enc) = iv" "take 16 (drop 18 enc) = t" "drop 34 enc = c"
    using li lt hd(1) by (auto simp: enc)
  ultimately show ?thesis
    using k n hd dec
    by (simp add: decryptBlobPayload_def requireKey_def HEADER_LENGTH_def IV_LENGTH_def TAG_LENGTH_def m)
qed

text \<open>
  Whatever the object files contain, whatever the key and whatever the cipher and the
  compressor do, a read that succeeds returns bytes whose hash is the requested one.
\<close>

theorem getBlob_integrity:
  "(\<exists>e. getBlob env key s h = Inl e) \<noteq> (\<exists>b. getBlob env key s h = Inr b \<and> neSha env b = h)"
  by (auto simp: getBlob_def hashBlobBytes_def split: sum.split)

section \<open>The store as a map from hashes to contents\<close>

definition store_good :: "'a blob_env_scheme \<Rightarrow> bytes option \<Rightarrow> bytes set \<Rightarrow> object_store \<Rightarrow> bool" where
  "store_good env key U s \<longleftrightarrow> codec_ok env U
     \<and> (\<forall>h. isBlobObjectHash h \<longrightarrow> blobExists s h \<longrightarrow> (\<exists>b \<in> U. getBlob env key s h = Inr b))"

definition opts_ok :: "put_options \<Rightarrow> bytes option \<Rightarrow> bool" where
  "opts_ok opts key \<longleftrightarrow> (poEncrypt opts = Some True \<longrightarrow> poKey opts = key)"

text \<open>The single file that a write adds, and what it decodes to.\<close>

lemma putBlob_new:
  assumes "codec_ok env U" and "opts_ok opts key" and "b \<in> U" and "\<not> blobExists s (neSha env b)"
    and "putBlob env opts b s = Inr (h, s')"
  shows "h = neSha env b \<and> getBlob env key s' h = Inr b
    \<and> (\<forall>h'. isBlobObjectHash h' \<longrightarrow> h' \<noteq> h \<longrightarrow> blob_file s' h' = blob_file s h')"
proof -
  let ?h = "neSha env b" and ?gz = "poCompress opts \<noteq> Some False \<and> length b \<ge> BLOB_COMPRESS_THRESHOLD"
  let ?p = "if ?gz then beGzip env b else b"
  have hex: "isBlobObjectHash ?h" and gz: "beGunzip env (beGzip env b) = Some b"
    using assms(1,3) by (auto simp: codec_ok_def)
  have none: "blob_file s ?h f = None" for f
    using assms(4) by (cases f) (auto simp: blobExists_def)
  consider (enc) key' e where "poEncrypt opts = Some True" "poKey opts = Some key'"
      "encryptBlobPayload env (osDraws s) ?p key' ?gz = Inr e" "h = ?h"
      "s' = write_blob_file ?h EncBlob e (s\<lparr>osDraws := Suc (osDraws s)\<rparr>)"
    | (gz) "poEncrypt opts \<noteq> Some True" "?gz" "h = ?h" "s' = write_blob_file ?h GzBlob (beGzip env b) s"
    | (raw) "poEncrypt opts \<noteq> Some True" "\<not> ?gz" "h = ?h" "s' = write_blob_file ?h RawBlob b s"
    using assms(4,5) by (auto simp: putBlob_def hashBlobBytes_def Let_def split: if_splits option.splits sum.splits)
  then show ?thesis
  proof cases
    case enc
    have "key = Some key'" using enc assms(2) by (simp add: opts_ok_def)
    then have "decryptBlobPayload env e key = Inr (?p, ?gz)" using decrypt_encrypt [OF assms(1) enc(3)] by simp
    then have "getBlob env key s' h = Inr b"
      using hex gz enc by (auto simp: getBlob_def blob_payload_def gunzip_def hashBlobBytes_def)
    then show ?thesis using enc hex by auto
  next
    case gz
    then show ?thesis
      using hex none \<open>beGunzip env (beGzip env b) = Some b\<close>
      by (auto simp: getBlob_def blob_payload_def gunzip_def hashBlobBytes_def)
  next
    case raw
    then show ?thesis using hex none by (auto simp: getBlob_def blob_payload_def hashBlobBytes_def)
  qed
qed

lemma putBlob_correct:
  assumes g: "store_good env key U s" and o: "opts_ok opts key" and b: "b \<in> U"
    and p: "putBlob env opts b s = Inr (h, s')"
  shows "h = neSha env b \<and> getBlob env key s' h = Inr b \<and> store_good env key U s'
    \<and> (\<forall>h'. isBlobObjectHash h' \<longrightarrow> h' \<noteq> h \<longrightarrow> blob_file s' h' = blob_file s h')"
proof (cases "blobExists s (neSha env b)")
  case True
  have c: "codec_ok env U" using g by (simp add: store_good_def)
  have hex: "isBlobObjectHash (neSha env b)" using c b by (simp add: codec_ok_def)
  obtain b' where b': "b' \<in> U" "getBlob env key s (neSha env b) = Inr b'"
    using g True hex by (auto simp: store_good_def)
  have "neSha env b' = neSha env b"
    using b'(2) by (auto simp: getBlob_def hashBlobBytes_def split: sum.splits if_splits)
  then have "b' = b" using c b b'(1) by (auto simp: codec_ok_def inj_on_def)
  then show ?thesis using True p b' g by (simp add: putBlob_def hashBlobBytes_def)
next
  case False
  have c: "codec_ok env U" using g by (simp add: store_good_def)
  note n = putBlob_new [OF c o b False p]
  have "\<exists>b \<in> U. getBlob env key s' h' = Inr b" if "isBlobObjectHash h'" "blobExists s' h'" for h'
  proof (cases "h' = h")
    case True
    then show ?thesis using n b by blast
  next
    case ne: False
    then have "blob_file s' h' = blob_file s h'" using n that(1) by blast
    then show ?thesis
      using g that blobExists_cong [of s' h' s] getBlob_cong [of s' h' s env key] by (auto simp: store_good_def)
  qed
  then show ?thesis using n c by (auto simp: store_good_def)
qed

lemma ends_with_ex: "ends_with s p \<Longrightarrow> \<exists>a. s = a @ p"
  by (metis append_take_drop_id ends_with_def)

lemma ends_with_self: "ends_with (a @ p) p"
  by (simp add: ends_with_def)

lemma not_ends_dot: "CHR ''.'' \<notin> set h \<Longrightarrow> \<not> ends_with h (CHR ''.'' # p)"
  using ends_with_ex by fastforce

lemma entry_hash_path: "isBlobObjectHash h \<Longrightarrow> entry_hash (h @ form_suffix f) = Some h"
proof -
  assume h: "isBlobObjectHash h"
  note d = hash_no_dot [OF h]
  have "h \<noteq> []" using h by (auto simp: isBlobObjectHash_def)
  then have s: "\<not> starts_with (h @ form_suffix f) ''.''" using d by (cases h) (auto simp: starts_with_def)
  have "\<not> ends_with (h @ ''.gz'') ''.enc''"
  proof
    assume "ends_with (h @ ''.gz'') ''.enc''"
    then obtain a where "h @ ''.gz'' = a @ ''.enc''" using ends_with_ex by blast
    from arg_cong [OF this, of last] show False by simp
  qed
  then have "drop_suffix (drop_suffix (h @ form_suffix f) ''.enc'') ''.gz'' = h"
    using not_ends_dot [OF d] ends_with_self [of h "''.gz''"] ends_with_self [of h "''.enc''"]
    by (cases f) (simp_all add: drop_suffix_def)
  then show ?thesis using s h by (simp add: entry_hash_def)
qed

lemma listed_iff: "(h, p) \<in> set (listBlobObjectFiles s) \<longleftrightarrow> entry_hash (snd p) = Some h \<and> jm_get (osFiles s) p \<noteq> None"
proof -
  have "(h, p) \<in> set (listBlobObjectFiles s) \<longleftrightarrow> entry_hash (snd p) = Some h \<and> (\<exists>b. (p, b) \<in> set (osFiles s))"
    by (force simp: listBlobObjectFiles_def map_filter_def)
  moreover have "(\<exists>b. (p, b) \<in> set (osFiles s)) \<longleftrightarrow> jm_get (osFiles s) p \<noteq> None"
    by (metis map_of_SomeD not_None_eq weak_map_of_SomeI)
  ultimately show ?thesis by blast
qed

lemma gc_fold:
  "jm_get (osFiles (fst (fold (gc_step keep) hps (s, d, r)))) p =
     (if \<exists>h. (h, p) \<in> set hps \<and> h \<notin> set keep then None else jm_get (osFiles s) p)"
proof (induction hps arbitrary: s d r)
  case (Cons hp hps)
  show ?case
  proof (cases "fst hp \<in> set keep")
    case True
    then have "gc_step keep hp (s, d, r) = (s, d, r)" by (cases hp) (simp add: gc_step_def)
    then show ?thesis using Cons True by auto
  next
    case False
    obtain h q where hq: "hp = (h, q)" by (cases hp)
    then have "gc_step keep hp (s, d, r) = (s\<lparr>osFiles := jm_del q (osFiles s)\<rparr>, d + 1, r + file_size s q)"
      using False by (simp add: gc_step_def)
    then show ?thesis using Cons False hq by auto
  qed
qed simp

lemma gc_blob_file:
  assumes "isBlobObjectHash h"
  shows "blob_file (fst (gcUnreferencedBlobs keep s)) h = (if h \<in> set keep then blob_file s h else (\<lambda>_. None))"
proof
  fix f
  have e: "entry_hash (snd (blobObjectPaths h f)) = Some h"
    using entry_hash_path [OF assms] by (simp add: blobObjectPaths_def)
  show "blob_file (fst (gcUnreferencedBlobs keep s)) h f = (if h \<in> set keep then blob_file s h else (\<lambda>_. None)) f"
    unfolding blob_file_def gcUnreferencedBlobs_def gc_fold listed_iff using e by auto
qed

section \<open>The contract of a content store\<close>

datatype ('b, 'h) store_op = PutOp 'b | SweepOp "'h list"

fun run_store ::
    "('b \<Rightarrow> 's \<Rightarrow> ('h \<times> 's) option) \<Rightarrow> ('h list \<Rightarrow> 's \<Rightarrow> 's) \<Rightarrow> ('b, 'h) store_op list \<Rightarrow> 's \<Rightarrow> 's" where
  "run_store put sweep [] s = s"
| "run_store put sweep (PutOp b # ops) s =
     run_store put sweep ops (case put b s of None \<Rightarrow> s | Some (_, s') \<Rightarrow> s')"
| "run_store put sweep (SweepOp keep # ops) s = run_store put sweep ops (sweep keep s)"

text \<open>
  What the engine relies on: a stored content is found under the returned address, later writes
  and collections that keep the address do not disturb it, and collections free the rest.
\<close>

locale content_store =
  fixes get :: "'s \<Rightarrow> 'h \<Rightarrow> 'b option"
    and put :: "'b \<Rightarrow> 's \<Rightarrow> ('h \<times> 's) option"
    and sweep :: "'h list \<Rightarrow> 's \<Rightarrow> 's"
    and good :: "'s \<Rightarrow> bool"
    and valid :: "'b \<Rightarrow> bool"
    and addr :: "'h \<Rightarrow> bool"
  assumes put_get: "good s \<Longrightarrow> valid b \<Longrightarrow> put b s = Some (h, s') \<Longrightarrow> addr h \<and> get s' h = Some b \<and> good s'"
    and put_keeps: "good s \<Longrightarrow> valid b \<Longrightarrow> put b s = Some (h, s') \<Longrightarrow> addr k \<Longrightarrow> get s k = Some x \<Longrightarrow> get s' k = Some x"
    and sweep_good: "good s \<Longrightarrow> good (sweep keep s)"
    and sweep_get: "good s \<Longrightarrow> addr k \<Longrightarrow> get (sweep keep s) k = (if k \<in> set keep then get s k else None)"
begin

definition spares :: "'h \<Rightarrow> ('b, 'h) store_op \<Rightarrow> bool" where
  "spares h op \<longleftrightarrow> (case op of PutOp b \<Rightarrow> valid b | SweepOp keep \<Rightarrow> h \<in> set keep)"

lemma run_survives:
  "good s \<Longrightarrow> addr h \<Longrightarrow> get s h = Some b \<Longrightarrow> list_all (spares h) ops \<Longrightarrow>
   get (run_store put sweep ops s) h = Some b \<and> good (run_store put sweep ops s)"
proof (induction ops arbitrary: s)
  case (Cons op ops)
  show ?case
  proof (cases op)
    case (PutOp x)
    then have v: "valid x" using Cons.prems by (simp add: spares_def)
    show ?thesis
    proof (cases "put x s")
      case None
      then show ?thesis using Cons PutOp by simp
    next
      case (Some hs)
      obtain k s' where hs: "hs = (k, s')" by (cases hs)
      then have "good s'" "get s' h = Some b"
        using put_get [OF Cons.prems(1) v] put_keeps [OF Cons.prems(1) v _ Cons.prems(2,3)] Some by blast+
      then show ?thesis using Cons PutOp Some hs by simp
    qed
  next
    case (SweepOp keep)
    then have "h \<in> set keep" using Cons.prems by (simp add: spares_def)
    then show ?thesis
      using Cons SweepOp sweep_good [OF Cons.prems(1)] sweep_get [OF Cons.prems(1,2)] by simp
  qed
qed simp

lemma put_then_run:
  "good s \<Longrightarrow> valid b \<Longrightarrow> put b s = Some (h, s') \<Longrightarrow> list_all (spares h) ops \<Longrightarrow>
   get (run_store put sweep ops s') h = Some b"
  using put_get run_survives by blast

end

definition blob_get :: "'a blob_env_scheme \<Rightarrow> bytes option \<Rightarrow> object_store \<Rightarrow> string \<Rightarrow> bytes option" where
  "blob_get env key s h = (case getBlob env key s h of Inr b \<Rightarrow> Some b | Inl _ \<Rightarrow> None)"

definition blob_put :: "'a blob_env_scheme \<Rightarrow> put_options \<Rightarrow> bytes \<Rightarrow> object_store \<Rightarrow> (string \<times> object_store) option" where
  "blob_put env opts b s = (case putBlob env opts b s of Inr r \<Rightarrow> Some r | Inl _ \<Rightarrow> None)"

definition blob_sweep :: "string list \<Rightarrow> object_store \<Rightarrow> object_store" where
  "blob_sweep keep s = fst (gcUnreferencedBlobs keep s)"

lemma blob_get_Some: "blob_get env key s h = Some b \<longleftrightarrow> getBlob env key s h = Inr b"
  by (auto simp: blob_get_def split: sum.splits)

lemma getBlob_none: "\<not> blobExists s h \<Longrightarrow> getBlob env key s h = Inl (StoreError (''Missing blob '' @ h))"
  by (simp add: getBlob_def blob_payload_def blobExists_def)

lemma getBlob_swept:
  "isBlobObjectHash h \<Longrightarrow> getBlob env key (blob_sweep keep s) h =
     (if h \<in> set keep then getBlob env key s h else Inl (StoreError (''Missing blob '' @ h)))"
  using getBlob_cong [of "blob_sweep keep s" h s env key] getBlob_none [of "blob_sweep keep s" h env key]
  by (auto simp: blob_sweep_def gc_blob_file blobExists_def)

lemma store_good_sweep: "store_good env key U s \<Longrightarrow> store_good env key U (blob_sweep keep s)"
  using getBlob_swept [of _ env key keep s]
  by (auto simp: store_good_def blobExists_def blob_sweep_def gc_blob_file split: if_splits)

interpretation blobs: content_store "blob_get env key" "blob_put env opts" blob_sweep
  "\<lambda>s. store_good env key U s \<and> opts_ok opts key" "\<lambda>b. b \<in> U" isBlobObjectHash
  for env :: "'a blob_env_scheme" and key opts U
proof
  fix s b h s' keep k x
  assume g: "store_good env key U s \<and> opts_ok opts key"
  show "store_good env key U (blob_sweep keep s) \<and> opts_ok opts key" using g store_good_sweep by blast
  show "isBlobObjectHash k \<Longrightarrow> blob_get env key (blob_sweep keep s) k = (if k \<in> set keep then blob_get env key s k else None)"
    by (simp add: blob_get_def getBlob_swept)
  assume b: "b \<in> U" and "blob_put env opts b s = Some (h, s')"
  then have p: "putBlob env opts b s = Inr (h, s')" by (auto simp: blob_put_def split: sum.splits)
  note c = putBlob_correct [OF conjunct1 [OF g] conjunct2 [OF g] b p]
  have hex: "isBlobObjectHash h" using c b g by (auto simp: store_good_def codec_ok_def)
  then show "isBlobObjectHash h \<and> blob_get env key s' h = Some b \<and> (store_good env key U s' \<and> opts_ok opts key)"
    using c g by (auto simp: blob_get_Some)
  assume k: "isBlobObjectHash k" and x: "blob_get env key s k = Some x"
  show "blob_get env key s' k = Some x"
  proof (cases "k = h")
    case False
    then have "blob_file s' k = blob_file s k" using c k by blast
    then show ?thesis using x getBlob_cong [of s' k s env key] by (simp add: blob_get_Some)
  next
    case True
    have e: "blobExists s h" using x True getBlob_exists by (auto simp: blob_get_Some)
    then have "s' = s" using p c by (auto simp: putBlob_def hashBlobBytes_def)
    then show ?thesis using x by simp
  qed
qed

text \<open>
  C20 (roundtrip): a stored file is read back byte for byte, with or without compression and
  encryption, after any sequence of further writes and collections, as long as the collections keep
  its hash. The codec behaves as documented, the hash does not collide on the contents \<open>U\<close> in play,
  the reader has the key of the writer, and the store was readable before.
\<close>

theorem putBlob_survives:
  assumes "store_good env key U s" and "opts_ok opts key" and "b \<in> U"
    and "putBlob env opts b s = Inr (h, s')"
    and "\<forall>op \<in> set ops. case op of PutOp x \<Rightarrow> x \<in> U | SweepOp keep \<Rightarrow> h \<in> set keep"
  shows "getBlob env key (run_store (blob_put env opts) blob_sweep ops s') h = Inr b"
proof -
  have "list_all (blobs.spares U h) ops"
    using assms(5) by (auto simp: list_all_iff blobs.spares_def)
  moreover have "blob_put env opts b s = Some (h, s')" using assms(4) by (simp add: blob_put_def)
  ultimately show ?thesis
    using blobs.put_then_run [of env key U s opts b h s' ops] assms(1-3) by (simp add: blob_get_Some)
qed

definition sample_hash :: "bytes \<Rightarrow> string" where
  "sample_hash b = replicate 64 (if b = ''x'' then CHR ''a'' else if b = ''y'' then CHR ''b'' else CHR ''c'')"

definition sample_env :: blob_env where
  "sample_env =
     \<lparr>neCwd = ''/'', neFileUrl = (\<lambda>_. None), neSha = sample_hash, neFoldCase = False,
      beGzip = (\<lambda>b. b), beGunzip = Some, beCipher = (\<lambda>_ _ b. (b, replicate TAG_LENGTH nul)),
      beDecipher = (\<lambda>_ _ _ c. Some c), beRandom = (\<lambda>_ n. replicate n nul),
      beFromText = (\<lambda>_ t. t), beToText = (\<lambda>_ b. b)\<rparr>"

lemma sample_hash_hex: "isBlobObjectHash (sample_hash b)"
  by (auto simp: isBlobObjectHash_def sample_hash_def list_all_iff hex_char_def lower_char_def)

lemma sample_hash_xy: "sample_hash ''x'' \<noteq> sample_hash ''y''"
  by (simp add: sample_hash_def)

lemma sample_codec: "codec_ok sample_env {''x'', ''y''}"
  using sample_hash_xy by (simp add: codec_ok_def sample_env_def sample_hash_hex)

definition empty_store :: object_store where "empty_store = \<lparr>osFiles = [], osDraws = 0\<rparr>"

lemma blob_file_empty [simp]: "blob_file empty_store h f = None"
  by (simp add: blob_file_def empty_store_def)

lemma getBlob_raw:
  "isBlobObjectHash h \<Longrightarrow> neSha env b = h \<Longrightarrow>
   getBlob env key (write_blob_file h RawBlob b empty_store) h = Inr b"
  by (simp add: getBlob_def blob_payload_def hashBlobBytes_def)

lemma empty_store_good: "codec_ok env U \<Longrightarrow> store_good env key U empty_store"
  by (simp add: store_good_def blobExists_def blob_file_def empty_store_def)

theorem putBlob_survives_witness:
  "let key = replicate 32 (CHR ''k''); opts = \<lparr>poCompress = None, poEncrypt = Some True, poKey = Some key\<rparr>
   in \<exists>s'. putBlob sample_env opts ''x'' empty_store = Inr (sample_hash ''x'', s')
       \<and> getBlob sample_env (Some key)
           (run_store (blob_put sample_env opts) blob_sweep [PutOp ''y'', SweepOp [sample_hash ''x'']] s')
           (sample_hash ''x'') = Inr ''x''"
proof -
  let ?key = "replicate 32 (CHR ''k'')"
  let ?opts = "\<lparr>poCompress = None, poEncrypt = Some True, poKey = Some ?key\<rparr>"
  obtain s' where p: "putBlob sample_env ?opts ''x'' empty_store = Inr (sample_hash ''x'', s')"
    by (simp add: putBlob_def hashBlobBytes_def blobExists_def blob_file_def empty_store_def sample_env_def
        encryptBlobPayload_def requireKey_def KEY_LENGTH_def BLOB_COMPRESS_THRESHOLD_def Let_def)
  have "getBlob sample_env (Some ?key)
      (run_store (blob_put sample_env ?opts) blob_sweep [PutOp ''y'', SweepOp [sample_hash ''x'']] s')
      (sample_hash ''x'') = Inr ''x''"
    by (rule putBlob_survives [OF empty_store_good [OF sample_codec] _ _ p]) (simp_all add: opts_ok_def)
  with p show ?thesis unfolding Let_def by blast
qed

text \<open>
  Garbage collection frees every object that is not referenced and leaves the reading
  of every referenced one unchanged, errors included.
\<close>

theorem gcUnreferencedBlobs_exact:
  assumes "isBlobObjectHash h"
  shows "getBlob env key (fst (gcUnreferencedBlobs keep s)) h =
     (if h \<in> set keep then getBlob env key s h else Inl (StoreError (''Missing blob '' @ h)))"
  by (rule getBlob_swept [OF assms, unfolded blob_sweep_def])

theorem gcUnreferencedBlobs_exact_witness:
  "getBlob sample_env None (fst (gcUnreferencedBlobs [] (write_blob_file (sample_hash ''x'') RawBlob ''x'' empty_store)))
     (sample_hash ''x'') = Inl (StoreError (''Missing blob '' @ sample_hash ''x''))
   \<and> getBlob sample_env None (fst (gcUnreferencedBlobs [sample_hash ''x''] (write_blob_file (sample_hash ''x'') RawBlob ''x'' empty_store)))
     (sample_hash ''x'') = Inr ''x''"
proof -
  have "getBlob sample_env None (write_blob_file (sample_hash ''x'') RawBlob ''x'' empty_store) (sample_hash ''x'') = Inr ''x''"
    by (rule getBlob_raw [OF sample_hash_hex]) (simp_all add: sample_env_def)
  then show ?thesis
    using gcUnreferencedBlobs_exact [OF sample_hash_hex [of "''x''"], of sample_env None]
    by simp
qed

end
