(* ===== verification/Integrity.thy ===== *)
theory Integrity
  imports BlobStore
begin

text \<open>
  The checksum of a manifest (\<open>store/checkpointIntegrity.ts\<close>): the canonical payload that is
  hashed, and the test on load. Locale-aware comparison is the collation key \<open>eeColl\<close>; the SHA-256
  of the JSON text of a payload is the function \<open>eeDigest\<close>.
\<close>

definition CHECKPOINT_SCHEMA_VERSION :: nat where "CHECKPOINT_SCHEMA_VERSION = 2"
definition CHECKPOINT_SCHEMA_VERSION_V1 :: nat where "CHECKPOINT_SCHEMA_VERSION_V1 = 1"

datatype 'a load_result = LoadOk 'a | LoadNotFound | LoadCorrupt string

record canonical_snapshot =
  cnRelativePath :: string
  cnContent :: string
  cnHash :: string
  cnEncoding :: string
  cnSize :: nat
  cnDeleted :: bool
  cnChangeType :: "change_type option"

record integrity_payload =
  ipSchemaVersion :: nat
  ipId :: string
  ipFileInventory :: "string list"
  ipSkippedFiles :: "skipped_file list"
  ipFileSnapshots :: "canonical_snapshot list"

record integrity_env = blob_env +
  eeColl :: "string \<Rightarrow> string"
  eeDigest :: "integrity_payload \<Rightarrow> string"

definition canonical_of :: "nat \<Rightarrow> file_snapshot \<Rightarrow> canonical_snapshot" where
  "canonical_of version s =
     (let useBlobHash = version \<ge> CHECKPOINT_SCHEMA_VERSION
      in \<lparr>cnRelativePath = fsRelativePath s,
          cnContent = (if useBlobHash then '''' else or_default (fsContent s) ''''),
          cnHash = (if useBlobHash then or_default (fsHash s) '''' else ''''),
          cnEncoding = fsEncoding s, cnSize = fsSize s, cnDeleted = (fsDeleted s = Some True),
          cnChangeType = fsChangeType s\<rparr>)"

definition buildCanonicalIntegrityPayload ::
    "(string \<Rightarrow> string) \<Rightarrow> string \<Rightarrow> nat option \<Rightarrow> string list option \<Rightarrow> skipped_file list option
     \<Rightarrow> file_snapshot list option \<Rightarrow> integrity_payload" where
  "buildCanonicalIntegrityPayload coll i version inventory skipped snapshots =
     (let v = or_default version CHECKPOINT_SCHEMA_VERSION_V1
      in \<lparr>ipSchemaVersion = v, ipId = i, ipFileInventory = sort (or_default inventory []),
          ipSkippedFiles = sort_key (\<lambda>k. coll (skPath k)) (or_default skipped []),
          ipFileSnapshots = sort_key (\<lambda>s. coll (cnRelativePath s))
                              (map (canonical_of v) (or_default snapshots []))\<rparr>)"

definition computeCheckpointContentSha256 ::
    "'a integrity_env_scheme \<Rightarrow> string \<Rightarrow> nat option \<Rightarrow> string list option \<Rightarrow> skipped_file list option
     \<Rightarrow> file_snapshot list option \<Rightarrow> string" where
  "computeCheckpointContentSha256 env i version inventory skipped snapshots =
     eeDigest env (buildCanonicalIntegrityPayload (eeColl env) i version inventory skipped snapshots)"

text \<open>\<open>None\<close> accepts; the reason of a refusal otherwise.\<close>

definition verifyStoredCheckpointChecksum :: "'a integrity_env_scheme \<Rightarrow> checkpoint_info \<Rightarrow> string option" where
  "verifyStoredCheckpointChecksum env c =
     (case truthy (cpContentSha256 c) of
        None \<Rightarrow> None
      | Some digest \<Rightarrow>
          if cpId c = [] then Some ''missing id''
          else if computeCheckpointContentSha256 env (cpId c) (cpSchemaVersion c) (cpFileInventory c)
                    (cpSkippedFiles c) (cpFileSnapshots c) \<noteq> digest
          then Some ''contentSha256 mismatch'' else None)"

section \<open>What the checksum protects\<close>

lemma canonical_of_v2:
  "version \<ge> CHECKPOINT_SCHEMA_VERSION \<Longrightarrow>
   canonical_of version s = canonical_of version t \<longleftrightarrow>
     fsRelativePath s = fsRelativePath t \<and> or_default (fsHash s) '''' = or_default (fsHash t) ''''
     \<and> fsEncoding s = fsEncoding t \<and> fsSize s = fsSize t
     \<and> (fsDeleted s = Some True \<longleftrightarrow> fsDeleted t = Some True) \<and> fsChangeType s = fsChangeType t"
  by (auto simp: canonical_of_def)

lemma canonical_hash_state:
  assumes "version \<ge> CHECKPOINT_SCHEMA_VERSION" and e: "canonical_of version s = canonical_of version t"
  shows "fsRelativePath s = fsRelativePath t \<and> snapshotIsDeleted s = snapshotIsDeleted t
    \<and> or_default (fsHash s) '''' = or_default (fsHash t) '''' \<and> fsSize s = fsSize t \<and> fsEncoding s = fsEncoding t"
  using e unfolding canonical_of_v2 [OF assms(1)] by (auto simp: snapshotIsDeleted_def)

text \<open>
  C37 (safety): a manifest whose checksum is accepted records the same tree as the manifest that was
  sealed, provided the digest does not collide on the two: same inventory up to order, and for every
  path the same multiset of recorded entries (hash, size, encoding, deletion).
\<close>

theorem checksum_protects_tree:
  assumes seal: "computeCheckpointContentSha256 env (cpId a) (Some 2) (cpFileInventory a) (cpSkippedFiles a) (cpFileSnapshots a) = digest"
    and stored: "cpContentSha256 b = Some digest" "digest \<noteq> []" "cpSchemaVersion b = Some 2"
    and ok: "verifyStoredCheckpointChecksum env b = None"
    and no_collision: "inj_on (eeDigest env)
       {buildCanonicalIntegrityPayload (eeColl env) (cpId c) (Some 2) (cpFileInventory c) (cpSkippedFiles c) (cpFileSnapshots c) | c. c \<in> {a, b}}"
  shows "cpId a = cpId b
    \<and> mset (or_default (cpFileInventory a) []) = mset (or_default (cpFileInventory b) [])
    \<and> image_mset (canonical_of 2) (mset (snapshots_of a)) = image_mset (canonical_of 2) (mset (snapshots_of b))"
proof -
  let ?p = "\<lambda>c. buildCanonicalIntegrityPayload (eeColl env) (cpId c) (Some 2) (cpFileInventory c) (cpSkippedFiles c) (cpFileSnapshots c)"
  have "truthy (cpContentSha256 b) = Some digest" using stored by (simp add: truthy_Some_iff)
  then have "eeDigest env (?p b) = digest"
    using ok stored(3) by (simp add: verifyStoredCheckpointChecksum_def computeCheckpointContentSha256_def split: if_splits)
  moreover have "eeDigest env (?p a) = digest" using seal by (simp add: computeCheckpointContentSha256_def)
  ultimately have e: "?p a = ?p b" using no_collision unfolding inj_on_def by blast
  then have "cpId a = cpId b" "sort (or_default (cpFileInventory a) []) = sort (or_default (cpFileInventory b) [])"
    "sort_key (\<lambda>s. eeColl env (cnRelativePath s)) (map (canonical_of 2) (snapshots_of a))
       = sort_key (\<lambda>s. eeColl env (cnRelativePath s)) (map (canonical_of 2) (snapshots_of b))"
    by (simp_all add: buildCanonicalIntegrityPayload_def Let_def snapshots_of_def)
  note same = this
  have "mset (or_default (cpFileInventory a) []) = mset (or_default (cpFileInventory b) [])"
    using arg_cong [OF same(2), of mset] by simp
  moreover have "image_mset (canonical_of 2) (mset (snapshots_of a)) = image_mset (canonical_of 2) (mset (snapshots_of b))"
    using arg_cong [OF same(3), of mset] by simp
  ultimately show ?thesis using same(1) by blast
qed

definition sample_integrity_env :: integrity_env where
  "sample_integrity_env = blob_env.extend sample_env \<lparr>eeColl = (\<lambda>s. s), eeDigest = (\<lambda>_. ''digest'')\<rparr>"

definition sealed_manifest :: checkpoint_info where
  "sealed_manifest =
     (new_checkpoint ''cp_1'' ''d'' 1)\<lparr>cpFileInventory := Some [''a''],
        cpFileSnapshots := Some [new_snapshot ''a'' (Some ''h'') ''utf8'' 1 Created],
        cpSchemaVersion := Some 2, cpContentSha256 := Some ''digest''\<rparr>"

lemma sample_digest [simp]: "eeDigest sample_integrity_env p = ''digest''"
  by (simp add: sample_integrity_env_def blob_env.defs)

theorem checksum_protects_tree_witness:
  "let b = sealed_manifest\<lparr>cpDescription := ''other''\<rparr>
   in cpId sealed_manifest = cpId b
      \<and> mset (or_default (cpFileInventory sealed_manifest) []) = mset (or_default (cpFileInventory b) [])
      \<and> image_mset (canonical_of 2) (mset (snapshots_of sealed_manifest)) = image_mset (canonical_of 2) (mset (snapshots_of b))"
  unfolding Let_def
  by (rule checksum_protects_tree [of sample_integrity_env _ "''digest''"])
     (auto simp: computeCheckpointContentSha256_def verifyStoredCheckpointChecksum_def sealed_manifest_def
        new_checkpoint_def inj_on_def)

end
