(* ===== verification/Replay.thy ===== *)
theory Replay
  imports HashState CheckpointPath
begin

text \<open>
  Replay of delta checkpoints into a full tree (\<open>checkpointReplay.ts\<close>): the resolved state of
  every path after a chain of checkpoints, and the merge of a checkpoint into its successor that
  keeps every replay through both unchanged.
\<close>

record resolved_state =
  rsContent :: string
  rsEncoding :: string
  rsHash :: "string option"

type_synonym resolved_map = "(string, resolved_state) jsmap"

definition posixReplayPath :: "string \<Rightarrow> string" where
  "posixReplayPath p = js_replace_char backslash slash p"

definition resolved_of :: "file_snapshot \<Rightarrow> resolved_state" where
  "resolved_of s =
     \<lparr>rsContent = or_default (fsContent s) [], rsEncoding = js_or (fsEncoding s) ''utf8'', rsHash = truthy (fsHash s)\<rparr>"

definition apply_replay :: "file_snapshot \<Rightarrow> resolved_map \<Rightarrow> resolved_map" where
  "apply_replay s st =
     (let p = posixReplayPath (fsRelativePath s)
      in if snapshotIsDeleted s then jm_del p st else jm_set p (resolved_of s) st)"

definition replaySnapshotsToState :: "file_snapshot list list \<Rightarrow> resolved_map" where
  "replaySnapshotsToState checkpoints = fold (\<lambda>ss st. fold apply_replay ss st) checkpoints []"

definition foldSnapshotsIntoSuccessor :: "file_snapshot list option \<Rightarrow> file_snapshot list option \<Rightarrow> file_snapshot list" where
  "foldSnapshotsIntoSuccessor current successor =
     map snd (jm_of_list (map (\<lambda>s. (posixReplayPath (fsRelativePath s), s))
                            (or_default current [] @ or_default successor [])))"

section \<open>Folding keeps the last write of every path\<close>

lemma jm_of_list_snoc: "jm_of_list (kvs @ [(k, v)]) = jm_set k v (jm_of_list kvs)"
  by (simp add: jm_of_list_def)

lemma jm_set_keyed:
  "jm_wf m \<Longrightarrow> (k', v') \<in> set (jm_set k v m) \<Longrightarrow> (k', v') = (k, v) \<or> (k', v') \<in> set m"
  using jm_entries_wf [of "jm_set k v m" k' v'] jm_entries_wf [of m k' v'] by (auto split: if_splits)

lemma jm_of_list_keyed:
  "\<forall>(k, v) \<in> set (jm_of_list (map (\<lambda>s. (key s, s)) ss)). key v = k"
proof (induction ss rule: rev_induct)
  case (snoc x xs)
  then show ?case
    using jm_set_keyed [of "jm_of_list (map (\<lambda>s. (key s, s)) xs)" _ _ "key x" x]
    by (fastforce simp: jm_of_list_snoc)
qed (simp add: jm_of_list_def)

lemma map_of_rev_distinct: "distinct (map fst xs) \<Longrightarrow> map_of (rev xs) = map_of xs"
  by (subst map_of_inject_set) (auto simp flip: rev_map)

lemma last_write_folded:
  "jm.last_write (map (\<lambda>s. (key s, f s)) (map snd (jm_of_list (map (\<lambda>s. (key s, s)) ss)))) k
   = jm.last_write (map (\<lambda>s. (key s, f s)) ss) k"
proof -
  let ?M = "jm_of_list (map (\<lambda>s. (key s, s)) ss)"
  have "map (\<lambda>s. (key s, f s)) (map snd ?M) = map (\<lambda>(k, s). (k, f s)) ?M"
    using jm_of_list_keyed [of key ss] by (auto simp: case_prod_unfold)
  moreover have "distinct (map fst (map (\<lambda>(k, s). (k, f s)) ?M))"
  proof -
    have e: "map fst (map (\<lambda>(k, s). (k, f s)) ?M) = map fst ?M" by (simp add: case_prod_unfold comp_def)
    show ?thesis unfolding e using jm_of_list_wf [of "map (\<lambda>s. (key s, s)) ss"] by (simp only: jm_wf_def)
  qed
  ultimately have "jm.last_write (map (\<lambda>s. (key s, f s)) (map snd ?M)) k = map_of (map (\<lambda>(k, s). (k, f s)) ?M) k"
    by (simp only: jm.last_write_def map_of_rev_distinct)
  also have "\<dots> = map_option f (map_of ?M k)" by (simp add: map_of_map)
  also have "\<dots> = map_option f (map_of (rev (map (\<lambda>s. (key s, s)) ss)) k)" by (simp only: jm_of_list_get)
  also have "\<dots> = jm.last_write (map (\<lambda>s. (key s, f s)) ss) k"
    unfolding jm.last_write_def by (induction ss rule: rev_induct) auto
  finally show ?thesis .
qed

definition replay_write :: "file_snapshot \<Rightarrow> string \<times> resolved_state option" where
  "replay_write s = (posixReplayPath (fsRelativePath s), if snapshotIsDeleted s then None else Some (resolved_of s))"

lemma apply_replay_write: "apply_replay s st = jm.put_entry (replay_write s) st"
  by (simp add: apply_replay_def replay_write_def jm.put_entry_def Let_def)

lemma fold_apply_replay: "fold apply_replay ss st = fold jm.put_entry (map replay_write ss) st"
  by (induction ss arbitrary: st) (auto simp: apply_replay_write)

lemma replaySnapshots_writes:
  "replaySnapshotsToState css = fold jm.put_entry (map replay_write (concat css)) []"
proof -
  have "fold (\<lambda>ss st. fold apply_replay ss st) css st = fold jm.put_entry (map replay_write (concat css)) st" for st
    by (induction css arbitrary: st) (auto simp: fold_apply_replay)
  then show ?thesis by (simp add: replaySnapshotsToState_def)
qed

lemma last_write_append:
  "jm.last_write (xs @ ys) k = or_else (jm.last_write ys k) (jm.last_write xs k)"
  by (auto simp: jm.last_write_def map_add_def or_else_def split: option.splits)

lemma or_else_assoc: "or_else (or_else a b) c = or_else a (or_else b c)"
  by (simp add: or_else_def split: option.splits)

lemma named_append: "named (xs @ ys) = named xs @ named ys"
  by (simp add: named_def)

text \<open>
  C21 (equivalence): folding a checkpoint into its successor keeps every replay through both: for any
  checkpoints before and after, and every path, the replay without the folded checkpoint resolves
  the path to the same content, encoding and hash (or to no file).
\<close>

theorem foldSnapshots_keeps_replay:
  "jm_get (replaySnapshotsToState (earlier @ [current, successor] @ later)) p
   = jm_get (replaySnapshotsToState (earlier @ [foldSnapshotsIntoSuccessor (Some current) (Some successor)] @ later)) p"
proof -
  have w: "replay_write = (\<lambda>s. (posixReplayPath (fsRelativePath s), if snapshotIsDeleted s then None else Some (resolved_of s)))"
    by (simp add: replay_write_def fun_eq_iff)
  have "jm.last_write (map replay_write (foldSnapshotsIntoSuccessor (Some current) (Some successor))) k
      = jm.last_write (map replay_write (current @ successor)) k" for k
    unfolding w foldSnapshotsIntoSuccessor_def by (simp only: or_default_simps last_write_folded)
  then show ?thesis
    unfolding replaySnapshots_writes by (intro jm.writes_cong) (simp add: last_write_append or_else_assoc)
qed

lemma foldSnapshots_hash_write:
  assumes "\<forall>s \<in> set (current @ successor). posixReplayPath (fsRelativePath s) = fsRelativePath s \<and> fsRelativePath s \<noteq> []"
  shows "jm.last_write (map snapshot_write (named (foldSnapshotsIntoSuccessor (Some current) (Some successor)))) k
      = jm.last_write (map snapshot_write (named (current @ successor))) k"
proof -
  let ?ss = "current @ successor" and ?key = "\<lambda>s. posixReplayPath (fsRelativePath s)"
  let ?F = "foldSnapshotsIntoSuccessor (Some current) (Some successor)"
  let ?w = "\<lambda>s. (?key s, if snapshotIsDeleted s then None else Some (snapshotToHashState s))"
  have M: "(k', s) \<in> set (jm_of_list (map (\<lambda>s. (?key s, s)) ?ss)) \<Longrightarrow> s \<in> set ?ss" for k' s
    using jm_entries_wf [OF jm_of_list_wf, of k' s "map (\<lambda>s. (?key s, s)) ?ss"]
    by (auto simp: jm_of_list_get dest!: map_of_SomeD)
  have sub: "set ?F \<subseteq> set ?ss" unfolding foldSnapshotsIntoSuccessor_def or_default_simps using M by (fastforce simp del: set_append)
  have eq: "map snapshot_write (named ss) = map ?w ss" if "set ss \<subseteq> set ?ss" for ss
    using that assms by (induction ss) (auto simp: named_def snapshot_write_def)
  show ?thesis
    unfolding eq [OF sub] eq [OF subset_refl]
    unfolding foldSnapshotsIntoSuccessor_def or_default_simps last_write_folded ..
qed

lemma foldSnapshots_keeps_hash_replay:
  assumes "\<forall>s \<in> set (current @ successor). posixReplayPath (fsRelativePath s) = fsRelativePath s \<and> fsRelativePath s \<noteq> []"
  shows "jm_get (replayHashState (earlier @ [current, successor] @ later)) p
   = jm_get (replayHashState (earlier @ [foldSnapshotsIntoSuccessor (Some current) (Some successor)] @ later)) p"
  unfolding replay_concat fold_apply_hash_snapshot
  by (rule jm.writes_cong) (use foldSnapshots_hash_write [OF assms] in \<open>simp add: named_append last_write_append or_else_assoc\<close>)

end
