(* ===== verification/Engine.thy ===== *)
theory Engine
  imports Integrity Replay PathQuery
begin

text \<open>
  The state of the checkpoint engine and its store (\<open>manager/host.ts\<close>, \<open>manager/persistence.ts\<close>,
  \<open>manager/blobCrypto.ts\<close>, \<open>store/stashIndex.ts\<close>). The record \<open>engine\<close> holds the mutable fields of
  \<open>CheckpointEngineHost\<close> together with the files of the store: manifests by checkpoint id, the
  index, the objects, the stash stack and the audit log. A JSON file is modelled by the value that
  \<open>JSON.parse\<close> gives for it. Handlers take and return the state; an exception is \<open>Inl\<close>. The store
  lock makes a handler atomic with respect to other windows, so handlers run one after the other.
\<close>

section \<open>State\<close>

datatype health_kind = HealthCorrupt | HealthIndexRebuild | HealthWriteFailed | HealthRestoreIncomplete | HealthQuotaExceeded

record health_issue =
  hiTimestamp :: int
  hiKind :: health_kind
  hiMessage :: string
  hiCheckpointId :: "string option"

record audit_event =
  aeAction :: string
  aeResourceId :: "string option"
  aeSuccess :: bool

record stash_entry =
  seId :: string
  seMessage :: "string option"
  seCreatedAt :: int
  seBaseCheckpointId :: "string option"
  seBranchId :: "string option"
  seFileSnapshots :: "file_snapshot list"
  seSkippedFiles :: "skipped_file list option"

text \<open>A manifest file: what \<open>JSON.parse\<close> returns, a text that is not JSON, or a file that cannot be read.\<close>

datatype manifest_file = ManifestJson checkpoint_info | ManifestInvalid string | ManifestUnreadable string

record index_payload =
  ixIndexVersion :: "nat option"
  ixMessageCheckpoints :: "(string, string) jsmap"
  ixStableIdCheckpoints :: "(string, string) jsmap"
  ixCheckpointHistory :: "checkpoint_info list"
  ixBranches :: json
  ixActiveBranchId :: "string option"
  ixDetachedFrom :: json

datatype index_file = IndexMissing | IndexInvalid | IndexJson index_payload

record engine_env = integrity_env +
  eeIso :: "int \<Rightarrow> string"
  eeParseDate :: "string \<Rightarrow> int option"
  eeWriteError :: "string \<Rightarrow> string option"
  eePins :: "string list option"
  eeJsonBytes :: "(string, manifest_file) jsmap \<Rightarrow> index_file \<Rightarrow> stash_entry list option \<Rightarrow> nat"

record engine =
  egInitialized :: bool
  egWorkspacePath :: "string option"
  egMessageCheckpoints :: "(string, string) jsmap"
  egStableIdCheckpoints :: "(string, string) jsmap"
  egHistory :: "checkpoint_info list"
  egBranches :: "checkpoint_branch list"
  egActiveBranchId :: "string option"
  egDetachedFrom :: "detached_state option"
  egLastCheckpointTime :: int
  egHealthIssues :: "health_issue list"
  egModifiedFiles :: "string list"
  egDeletedFiles :: "string list"
  egPreviousFiles :: "string list"
  egSnapshotHashes :: "(string, string) jsmap"
  egCompress :: bool
  egEncrypt :: bool
  egSecrets :: "bytes option option"
  egMaxCheckpoints :: nat
  egMaxStorageBytes :: nat
  egLocallyRemoved :: "string list"
  egManifests :: "(string, manifest_file) jsmap"
  egIndex :: index_file
  egGlobalIndex :: "index_file option"
  egObjects :: object_store
  egStash :: "stash_entry list option"
  egAudit :: "audit_event list"
  egLastLoad :: "checkpoint_info load_result option"
  egNow :: int

datatype engine_error = BlobFailure blob_error | IoFailure string

fun blob_error_message :: "blob_error \<Rightarrow> string" where
  "blob_error_message (EncryptionError _ m) = m"
| "blob_error_message (StoreError m) = m"
| "blob_error_message ZlibError = ''zlib error''"

fun engine_error_message :: "engine_error \<Rightarrow> string" where
  "engine_error_message (BlobFailure e) = blob_error_message e"
| "engine_error_message (IoFailure m) = m"

definition append_audit :: "string \<Rightarrow> string option \<Rightarrow> bool \<Rightarrow> engine \<Rightarrow> engine" where
  "append_audit action resource ok s =
     s\<lparr>egAudit := egAudit s @ [\<lparr>aeAction = action, aeResourceId = truthy resource, aeSuccess = ok\<rparr>]\<rparr>"

definition MAX_HEALTH_ISSUES :: nat where "MAX_HEALTH_ISSUES = 100"

definition recordHealthIssue :: "health_kind \<Rightarrow> string \<Rightarrow> string option \<Rightarrow> engine \<Rightarrow> engine" where
  "recordHealthIssue kind msg cp s =
     (let issues = egHealthIssues s @
            [\<lparr>hiTimestamp = egNow s, hiKind = kind, hiMessage = msg, hiCheckpointId = cp\<rparr>]
      in s\<lparr>egHealthIssues := (if length issues > MAX_HEALTH_ISSUES
                               then drop (length issues - MAX_HEALTH_ISSUES) issues else issues)\<rparr>)"

section \<open>Keys\<close>

definition no_secret_storage :: blob_error where
  "no_secret_storage = EncryptionError MissingKey
     ''Checkpoint encryption key is unavailable. Secret Storage is not initialized.''"

text \<open>\<open>egSecrets\<close> is \<open>None\<close> without secret storage, \<open>Some None\<close> when no key was created yet.\<close>

definition resolveEncryptionKey :: "'a engine_env_scheme \<Rightarrow> bool \<Rightarrow> engine \<Rightarrow> (engine_error + bytes option) \<times> engine" where
  "resolveEncryptionKey env create s =
     (case egSecrets s of
        None \<Rightarrow> if create \<and> egEncrypt s then (Inl (BlobFailure no_secret_storage), s) else (Inr None, s)
      | Some (Some key) \<Rightarrow> (Inr (Some key), s)
      | Some None \<Rightarrow>
          if create then
            (let key = beRandom env (osDraws (egObjects s)) KEY_LENGTH;
                 objs = (egObjects s)\<lparr>osDraws := Suc (osDraws (egObjects s))\<rparr>
             in (Inr (Some key), s\<lparr>egSecrets := Some (Some key), egObjects := objs\<rparr>))
          else (Inr None, s))"

definition key_unavailable :: blob_error where
  "key_unavailable = EncryptionError MissingKey ''Checkpoint encryption key is unavailable.''"

definition writeBlobOptions :: "'a engine_env_scheme \<Rightarrow> engine \<Rightarrow> (engine_error + put_options) \<times> engine" where
  "writeBlobOptions env s =
     (if \<not> egEncrypt s then
        (Inr \<lparr>poCompress = Some (egCompress s), poEncrypt = None, poKey = None\<rparr>, s)
      else case resolveEncryptionKey env True s of
        (Inl e, s') \<Rightarrow> (Inl e, s')
      | (Inr None, s') \<Rightarrow> (Inl (BlobFailure key_unavailable), s')
      | (Inr (Some key), s') \<Rightarrow>
          (Inr \<lparr>poCompress = Some (egCompress s), poEncrypt = Some True, poKey = Some key\<rparr>, s'))"

definition readBlobOptions :: "engine \<Rightarrow> engine_error + bytes option" where
  "readBlobOptions s =
     (case egSecrets s of
        Some (Some key) \<Rightarrow> Inr (Some key)
      | _ \<Rightarrow> if egEncrypt s \<or> storeHasEncryptedBlobs (egObjects s)
             then Inl (BlobFailure key_unavailable) else Inr None)"

section \<open>Index records\<close>

definition toIndexRecord :: "'a engine_env_scheme \<Rightarrow> checkpoint_info \<Rightarrow> checkpoint_info" where
  "toIndexRecord env c =
     c\<lparr>cpWorkspaceKey :=
          (case cpWorkspaceKey c of
             Some k \<Rightarrow> Some k
           | None \<Rightarrow> map_option (workspaceStorageKey env) (truthy (cpWorkspacePath c))),
       cpParentCheckpointIds := map_option (filter (\<lambda>i. js_trim i \<noteq> [])) (cpParentCheckpointIds c),
       cpFileStats := Some (computeCheckpointFileStats c),
       cpFileSnapshots := None,
       cpFileInventory := None\<rparr>"

text \<open>\<open>Object.assign(info, toIndexRecord(c))\<close>: the properties an index record does not have stay.\<close>

definition assign_index :: "'a engine_env_scheme \<Rightarrow> checkpoint_info \<Rightarrow> checkpoint_info \<Rightarrow> checkpoint_info" where
  "assign_index env info c =
     (toIndexRecord env c)\<lparr>cpFileSnapshots := cpFileSnapshots info, cpFileInventory := cpFileInventory info\<rparr>"

definition parseDetachedFrom :: "json \<Rightarrow> detached_state option" where
  "parseDetachedFrom raw =
     (case jnonblank (jfield raw ''checkpointId'') of
        None \<Rightarrow> None
      | Some i \<Rightarrow> Some \<lparr>dtCheckpointId = js_trim i,
                         dtPreviousBranchId = map_option js_trim (jnonblank (jfield raw ''previousBranchId''))\<rparr>)"

definition detachedJson :: "detached_state option \<Rightarrow> json" where
  "detachedJson d =
     (case d of
        None \<Rightarrow> JNull
      | Some x \<Rightarrow> JObj ((''checkpointId'', JStr (dtCheckpointId x)) # jopt ''previousBranchId'' (dtPreviousBranchId x)))"

section \<open>Manifests\<close>

definition ensureSnapshotBlob ::
    "'a engine_env_scheme \<Rightarrow> file_snapshot \<Rightarrow> engine \<Rightarrow> (engine_error + file_snapshot) \<times> engine" where
  "ensureSnapshotBlob env x s =
     (if snapshotIsDeleted x \<or> truthy (fsHash x) \<noteq> None then (Inr x, s)
      else case fsContent x of
        None \<Rightarrow> (Inr x, s)
      | Some content \<Rightarrow>
          (case writeBlobOptions env s of
             (Inl e, s') \<Rightarrow> (Inl e, s')
           | (Inr opts, s') \<Rightarrow>
               (case putBlob env opts (bytesFromSnapshotContent env content (js_or (fsEncoding x) ''utf8'')) (egObjects s') of
                  Inl e \<Rightarrow> (Inl (BlobFailure e), s')
                | Inr (h, objs) \<Rightarrow> (Inr (x\<lparr>fsHash := Some h\<rparr>), s'\<lparr>egObjects := objs\<rparr>))))"

fun ensure_snapshots ::
    "'a engine_env_scheme \<Rightarrow> file_snapshot list \<Rightarrow> engine \<Rightarrow> (engine_error + file_snapshot list) \<times> engine" where
  "ensure_snapshots env [] s = (Inr [], s)"
| "ensure_snapshots env (x # xs) s =
     (case ensureSnapshotBlob env x s of
        (Inl e, s') \<Rightarrow> (Inl e, s')
      | (Inr y, s') \<Rightarrow>
          (case ensure_snapshots env xs s' of
             (Inl e, s'') \<Rightarrow> (Inl e, s'')
           | (Inr ys, s'') \<Rightarrow> (Inr (y # ys), s'')))"

definition serializeSnapshotForDisk :: "file_snapshot \<Rightarrow> file_snapshot" where
  "serializeSnapshotForDisk x =
     x\<lparr>fsRenamedFrom := truthy (fsRenamedFrom x), fsCopiedFrom := truthy (fsCopiedFrom x),
       fsContent := (if truthy (fsHash x) \<noteq> None then None else fsContent x)\<rparr>"

text \<open>
  \<open>saveCheckpointToDisk\<close> mutates the checkpoint it is given; the result is the exception, if any,
  the checkpoint as it is afterwards, and the state.
\<close>

definition saveCheckpointToDisk ::
    "'a engine_env_scheme \<Rightarrow> checkpoint_info \<Rightarrow> engine \<Rightarrow> engine_error option \<times> checkpoint_info \<times> engine" where
  "saveCheckpointToDisk env c s =
     (case ensure_snapshots env (snapshots_of c) s of
        (Inl e, s') \<Rightarrow> (Some e, c, recordHealthIssue HealthWriteFailed (engine_error_message e) (Some (cpId c)) s')
      | (Inr snaps, s') \<Rightarrow>
          (let digest = computeCheckpointContentSha256 env (cpId c) (Some CHECKPOINT_SCHEMA_VERSION)
                          (cpFileInventory c) (cpSkippedFiles c) (Some snaps);
               c' = c\<lparr>cpFileSnapshots := Some snaps, cpSchemaVersion := Some CHECKPOINT_SCHEMA_VERSION,
                      cpContentSha256 := Some digest\<rparr>;
               data = c'\<lparr>cpFileSnapshots := Some (map serializeSnapshotForDisk snaps)\<rparr>
           in case eeWriteError env (cpId c @ ''.json'') of
                Some m \<Rightarrow> (Some (IoFailure m), c', recordHealthIssue HealthWriteFailed m (Some (cpId c)) s')
              | None \<Rightarrow> (None, c', s'\<lparr>egManifests := jm_set (cpId c) (ManifestJson data) (egManifests s')\<rparr>)))"

definition readCheckpointRecord :: "'a engine_env_scheme \<Rightarrow> engine \<Rightarrow> string \<Rightarrow> checkpoint_info load_result" where
  "readCheckpointRecord env s i =
     (case jm_get (egManifests s) i of
        None \<Rightarrow> LoadNotFound
      | Some (ManifestUnreadable m) \<Rightarrow> LoadCorrupt (''unreadable: '' @ m)
      | Some (ManifestInvalid m) \<Rightarrow> LoadCorrupt (''invalid json: '' @ m)
      | Some (ManifestJson c) \<Rightarrow>
          (case verifyStoredCheckpointChecksum env c of Some r \<Rightarrow> LoadCorrupt r | None \<Rightarrow> LoadOk c))"

definition hydrateCheckpointSnapshots ::
    "'a engine_env_scheme \<Rightarrow> engine \<Rightarrow> file_snapshot list option \<Rightarrow> engine_error + file_snapshot list" where
  "hydrateCheckpointSnapshots env s snaps =
     (case or_default snaps [] of
        [] \<Rightarrow> Inr []
      | xs \<Rightarrow>
          (case readBlobOptions s of
             Inl e \<Rightarrow> Inl e
           | Inr key \<Rightarrow>
               (case hydrateSnapshotContents env key (egObjects s) xs of
                  Inl e \<Rightarrow> Inl (BlobFailure e) | Inr ys \<Rightarrow> Inr ys)))"

definition loadCheckpointFromDisk ::
    "'a engine_env_scheme \<Rightarrow> string \<Rightarrow> engine \<Rightarrow> (engine_error + checkpoint_info option) \<times> engine" where
  "loadCheckpointFromDisk env i s =
     (let result = readCheckpointRecord env s i; s1 = s\<lparr>egLastLoad := Some result\<rparr>
      in case result of
           LoadNotFound \<Rightarrow> (Inr None, s1)
         | LoadCorrupt r \<Rightarrow> (Inr None, recordHealthIssue HealthCorrupt r (Some i) s1)
         | LoadOk c \<Rightarrow>
             (case hydrateCheckpointSnapshots env s1 (cpFileSnapshots c) of
                Inr ys \<Rightarrow> (Inr (Some (c\<lparr>cpFileSnapshots := Some ys\<rparr>)), s1\<lparr>egLastLoad := Some (LoadOk (c\<lparr>cpFileSnapshots := Some ys\<rparr>))\<rparr>)
              | Inl (BlobFailure (EncryptionError k m)) \<Rightarrow> (Inl (BlobFailure (EncryptionError k m)), s1)
              | Inl e \<Rightarrow>
                  (Inr None, recordHealthIssue HealthCorrupt (engine_error_message e) (Some i)
                               (s1\<lparr>egLastLoad := Some (LoadCorrupt (engine_error_message e))\<rparr>))))"

section \<open>Collection of objects\<close>

definition manifest_names :: "engine \<Rightarrow> string list" where
  "manifest_names s = filter (\<lambda>i. starts_with i ''cp_'') (jm_keys (egManifests s))"

text \<open>The hashes that one manifest file protects, sealed or not.\<close>

definition manifest_hashes :: "'a engine_env_scheme \<Rightarrow> engine \<Rightarrow> string \<Rightarrow> string list" where
  "manifest_hashes env s i =
     (case readCheckpointRecord env s i of
        LoadOk c \<Rightarrow> referencedBlobHashes (snapshots_of c)
      | _ \<Rightarrow>
          (case jm_get (egManifests s) i of
             Some (ManifestJson c) \<Rightarrow> referencedBlobHashes (snapshots_of c)
           | _ \<Rightarrow> []))"

definition collectStashBlobHashes :: "engine \<Rightarrow> string list" where
  "collectStashBlobHashes s = concat (map (\<lambda>e. referencedBlobHashes (seFileSnapshots e)) (or_default (egStash s) []))"

definition collectStashBaseCheckpointIds :: "engine \<Rightarrow> string list" where
  "collectStashBaseCheckpointIds s =
     set_of (List.map_filter (\<lambda>e. truthy (seBaseCheckpointId e)) (or_default (egStash s) []))"

definition collectReferencedBlobHashes :: "'a engine_env_scheme \<Rightarrow> engine \<Rightarrow> string list option" where
  "collectReferencedBlobHashes env s =
     (case eePins env of
        None \<Rightarrow> None
      | Some pins \<Rightarrow>
          Some (set_of (concat (map (\<lambda>c. referencedBlobHashes (snapshots_of c)) (egHistory s))
                        @ concat (map (manifest_hashes env s) (manifest_names s))
                        @ pins @ collectStashBlobHashes s)))"

definition gcUnreferencedCheckpointBlobs :: "'a engine_env_scheme \<Rightarrow> engine \<Rightarrow> (nat \<times> nat) \<times> engine" where
  "gcUnreferencedCheckpointBlobs env s =
     (case collectReferencedBlobHashes env s of
        None \<Rightarrow> ((0, 0), s)
      | Some keep \<Rightarrow>
          (case gcUnreferencedBlobs keep (egObjects s) of
             (objs, deleted, bytes) \<Rightarrow> ((deleted, bytes), s\<lparr>egObjects := objs\<rparr>)))"

end
