(* ===== verification/IndexStore.thy ===== *)
theory IndexStore
  imports Engine
begin

text \<open>
  The index of a store (\<open>manager/persistence.ts\<close>): reading it, merging what other windows wrote,
  writing it, and rebuilding it and the snapshot hashes from the manifests when it is lost.
\<close>

section \<open>Snapshot hashes\<close>

definition snapshotContentHash :: "'a blob_env_scheme \<Rightarrow> file_snapshot \<Rightarrow> string option" where
  "snapshotContentHash env x =
     (case truthy (fsHash x) of
        Some h \<Rightarrow> Some h
      | None \<Rightarrow> map_option (\<lambda>c. hashBlobBytes env (bytesFromSnapshotContent env c (fsEncoding x))) (fsContent x))"

definition apply_snapshot_hash :: "'a blob_env_scheme \<Rightarrow> file_snapshot \<Rightarrow> (string, string) jsmap \<Rightarrow> (string, string) jsmap" where
  "apply_snapshot_hash env x m =
     (let p = toPosixRelative (fsRelativePath x)
      in if snapshotIsDeleted x then jm_del p m
         else case truthy (snapshotContentHash env x) of Some h \<Rightarrow> jm_set p h m | None \<Rightarrow> m)"

definition applySnapshotHashes :: "'a engine_env_scheme \<Rightarrow> file_snapshot list \<Rightarrow> engine \<Rightarrow> engine" where
  "applySnapshotHashes env xs s =
     s\<lparr>egSnapshotHashes := fold (apply_snapshot_hash env) xs (egSnapshotHashes s)\<rparr>"

section \<open>Reading the index\<close>

definition CHECKPOINT_INDEX_VERSION :: nat where "CHECKPOINT_INDEX_VERSION = 1"

record loaded_index =
  liMessageCheckpoints :: "(string, string) jsmap"
  liStableIdCheckpoints :: "(string, string) jsmap"
  liCheckpointHistory :: "checkpoint_info list"
  liBranches :: "checkpoint_branch list"
  liActiveBranchId :: "string option"
  liDetachedFrom :: "detached_state option"
  liIndexVersion :: "nat option"
  liFat :: bool

definition indexLooksFat :: "checkpoint_info list \<Rightarrow> bool" where
  "indexLooksFat history \<longleftrightarrow>
     list_ex (\<lambda>c. snapshots_of c \<noteq> [] \<or> or_default (cpFileInventory c) [] \<noteq> []) history"

definition parseIndexPayload :: "'a engine_env_scheme \<Rightarrow> int \<Rightarrow> index_payload \<Rightarrow> loaded_index" where
  "parseIndexPayload env now p =
     \<lparr>liMessageCheckpoints = ixMessageCheckpoints p, liStableIdCheckpoints = ixStableIdCheckpoints p,
      liCheckpointHistory = map (toIndexRecord env) (ixCheckpointHistory p),
      liBranches = parseBranches (eeParseDate env) now (ixBranches p),
      liActiveBranchId = (case ixActiveBranchId p of
                            Some b \<Rightarrow> if js_trim b = [] then None else Some b | None \<Rightarrow> None),
      liDetachedFrom = parseDetachedFrom (ixDetachedFrom p),
      liIndexVersion = ixIndexVersion p,
      liFat = (indexLooksFat (ixCheckpointHistory p) \<or> ixIndexVersion p \<noteq> Some CHECKPOINT_INDEX_VERSION)\<rparr>"

definition readIndexFile :: "'a engine_env_scheme \<Rightarrow> int \<Rightarrow> index_file \<Rightarrow> loaded_index option" where
  "readIndexFile env now f =
     (case f of IndexJson p \<Rightarrow> Some (parseIndexPayload env now p) | _ \<Rightarrow> None)"

section \<open>Merging and writing the index\<close>

definition markCheckpointRemoved :: "string \<Rightarrow> engine \<Rightarrow> engine" where
  "markCheckpointRemoved i s = s\<lparr>egLocallyRemoved := set_add i (egLocallyRemoved s)\<rparr>"

definition sort_by_created :: "checkpoint_info list \<Rightarrow> checkpoint_info list" where
  "sort_by_created cs = sort_key cpCreated cs"

definition set_if_missing :: "string option \<Rightarrow> string \<Rightarrow> (string, string) jsmap \<Rightarrow> (string, string) jsmap" where
  "set_if_missing k v m =
     (case truthy k of None \<Rightarrow> m | Some x \<Rightarrow> if truthy (jm_get m x) = None then jm_set x v m else m)"

definition merge_entry :: "checkpoint_info \<Rightarrow> engine \<times> nat \<Rightarrow> engine \<times> nat" where
  "merge_entry entry acc =
     (case acc of (s, added) \<Rightarrow>
        if cpId entry \<in> cpId ` set (egHistory s) \<or> cpId entry \<in> set (egLocallyRemoved s)
           \<or> jm_get (egManifests s) (cpId entry) = None
        then acc
        else (s\<lparr>egHistory := egHistory s @ [entry],
                egMessageCheckpoints := set_if_missing (cpMessageId entry) (cpId entry) (egMessageCheckpoints s),
                egStableIdCheckpoints := set_if_missing (cpStableId entry) (cpId entry) (egStableIdCheckpoints s)\<rparr>,
              added + 1))"

definition mergeForeignIndexEntries :: "'a engine_env_scheme \<Rightarrow> engine \<Rightarrow> nat \<times> engine" where
  "mergeForeignIndexEntries env s =
     (case readIndexFile env (egNow s) (egIndex s) of
        None \<Rightarrow> (0, s)
      | Some stored \<Rightarrow>
          (case fold merge_entry (liCheckpointHistory stored) (s, 0) of
             (s', added) \<Rightarrow>
               if added = 0 then (0, s')
               else (added, s'\<lparr>egBranches := egBranches s' @ filter (\<lambda>b. brId b \<notin> brId ` set (egBranches s')) (liBranches stored),
                               egActiveBranchId := or_else (egActiveBranchId s') (liActiveBranchId stored),
                               egDetachedFrom := or_else (egDetachedFrom s') (liDetachedFrom stored),
                               egHistory := sort_by_created (egHistory s')\<rparr>)))"

definition index_payload_of :: "'a engine_env_scheme \<Rightarrow> engine \<Rightarrow> index_payload" where
  "index_payload_of env s =
     \<lparr>ixIndexVersion = Some CHECKPOINT_INDEX_VERSION,
      ixMessageCheckpoints = egMessageCheckpoints s, ixStableIdCheckpoints = egStableIdCheckpoints s,
      ixCheckpointHistory = map (toIndexRecord env) (egHistory s),
      ixBranches = JArr (map (serializeBranch (eeIso env)) (egBranches s)),
      ixActiveBranchId = egActiveBranchId s, ixDetachedFrom = detachedJson (egDetachedFrom s)\<rparr>"

definition saveCheckpointHistoryUnlocked :: "'a engine_env_scheme \<Rightarrow> engine \<Rightarrow> engine" where
  "saveCheckpointHistoryUnlocked env s =
     (let s1 = s\<lparr>egHistory := map (toIndexRecord env) (egHistory s)\<rparr>;
          payload = IndexJson (index_payload_of env s1)
      in case eeWriteError env ''index.json'' of
           Some _ \<Rightarrow> s1
         | None \<Rightarrow>
             (let s2 = s1\<lparr>egIndex := payload\<rparr>
              in if egGlobalIndex s2 = None \<or> eeWriteError env ''checkpoint-history.json'' \<noteq> None then s2
                 else s2\<lparr>egGlobalIndex := Some payload\<rparr>))"

definition saveCheckpointHistory :: "'a engine_env_scheme \<Rightarrow> engine \<Rightarrow> engine" where
  "saveCheckpointHistory env s = saveCheckpointHistoryUnlocked env (snd (mergeForeignIndexEntries env s))"

section \<open>Loading and rebuilding\<close>

definition applyLoadedIndex :: "loaded_index \<Rightarrow> engine \<Rightarrow> engine" where
  "applyLoadedIndex stored s =
     s\<lparr>egMessageCheckpoints := liMessageCheckpoints stored,
       egStableIdCheckpoints := liStableIdCheckpoints stored,
       egHistory := liCheckpointHistory stored,
       egBranches := liBranches stored,
       egActiveBranchId :=
         (case truthy (liActiveBranchId stored) of
            Some b \<Rightarrow> if b \<in> brId ` set (liBranches stored) then Some b
                      else map_option brId (first_opt (liBranches stored))
          | None \<Rightarrow> map_option brId (first_opt (liBranches stored))),
       egDetachedFrom := liDetachedFrom stored\<rparr>"

definition head_of_index :: "engine \<Rightarrow> checkpoint_info list \<Rightarrow> string option" where
  "head_of_index s chronological =
     (case egDetachedFrom s of
        Some d \<Rightarrow> Some (dtCheckpointId d)
      | None \<Rightarrow>
          (case truthy (egActiveBranchId s) of
             Some b \<Rightarrow> map_option brHead (findBranchById (egBranches s) b)
           | None \<Rightarrow> map_option cpId (last_opt chronological)))"

definition rebuild_step :: "'a engine_env_scheme \<Rightarrow> string option \<Rightarrow> checkpoint_info \<Rightarrow> engine \<Rightarrow> engine" where
  "rebuild_step env headId c s =
     (case readCheckpointRecord env s (cpId c) of
        LoadOk r \<Rightarrow>
          (let s1 = applySnapshotHashes env (snapshots_of r) s;
               s2 = (if cpFileStats c = None
                     then s1\<lparr>egHistory := map (\<lambda>x. if cpId x = cpId c then x\<lparr>cpFileStats := Some (computeCheckpointFileStats r)\<rparr> else x) (egHistory s1)\<rparr>
                     else s1)
           in if Some (cpId c) = headId
              then (case cpFileInventory r of Some paths \<Rightarrow> s2\<lparr>egPreviousFiles := set_of paths\<rparr> | None \<Rightarrow> s2)
              else s2)
      | _ \<Rightarrow> s)"

definition rebuildSnapshotHashIndexFromDisk :: "'a engine_env_scheme \<Rightarrow> engine \<Rightarrow> engine" where
  "rebuildSnapshotHashIndexFromDisk env s =
     (let chronological = sort_by_created (egHistory s);
          headId = head_of_index s chronological;
          chain = (case truthy headId of
                     Some h \<Rightarrow> or_default (lineageCheckpoints chronological h) chronological
                   | None \<Rightarrow> chronological);
          s1 = fold (rebuild_step env headId) chain (s\<lparr>egSnapshotHashes := []\<rparr>)
      in case truthy headId of
           None \<Rightarrow> s1
         | Some h \<Rightarrow>
             (case find (\<lambda>c. cpId c = h) (egHistory s1) of
                Some c \<Rightarrow> s1\<lparr>egLastCheckpointTime := cpCreated c\<rparr>
              | None \<Rightarrow> s1))"

text \<open>The manifests of the store in directory order, with the health issues of the corrupt ones.\<close>

definition scan_manifest ::
    "'a engine_env_scheme \<Rightarrow> string \<Rightarrow> checkpoint_info list \<times> engine \<Rightarrow> checkpoint_info list \<times> engine" where
  "scan_manifest env i acc =
     (case acc of (loaded, s) \<Rightarrow>
        (case readCheckpointRecord env s i of
           LoadOk c \<Rightarrow> (loaded @ [c], s)
         | LoadCorrupt r \<Rightarrow> (loaded, recordHealthIssue HealthCorrupt r (Some i) s)
         | LoadNotFound \<Rightarrow> acc))"

definition rebuild_maps :: "'a engine_env_scheme \<Rightarrow> (string, file_snapshot list) jsmap \<Rightarrow> checkpoint_info \<Rightarrow> engine \<Rightarrow> engine" where
  "rebuild_maps env snapshotById c s =
     (let s1 = (case truthy (cpMessageId c) of Some m \<Rightarrow> s\<lparr>egMessageCheckpoints := jm_set m (cpId c) (egMessageCheckpoints s)\<rparr> | None \<Rightarrow> s);
          s2 = (case truthy (cpStableId c) of Some m \<Rightarrow> s1\<lparr>egStableIdCheckpoints := jm_set m (cpId c) (egStableIdCheckpoints s1)\<rparr> | None \<Rightarrow> s1)
      in applySnapshotHashes env (or_default (jm_get snapshotById (cpId c)) []) s2)"

definition rebuildHistoryFromManifests :: "'a engine_env_scheme \<Rightarrow> engine \<Rightarrow> engine" where
  "rebuildHistoryFromManifests env s =
     (case fold (scan_manifest env) (manifest_names s) ([], s) of
        (records, s1) \<Rightarrow>
          (let loaded = sort_by_created (map (toIndexRecord env) records);
               snapshotById = jm_of_list (map (\<lambda>c. (cpId c, snapshots_of c)) records);
               branches = synthesizeBranchesFromHistory loaded;
               s2 = s1\<lparr>egHistory := loaded, egMessageCheckpoints := [], egStableIdCheckpoints := [],
                       egBranches := branches, egActiveBranchId := map_option brId (defaultBranch branches),
                       egDetachedFrom := None, egSnapshotHashes := []\<rparr>
           in saveCheckpointHistory env (fold (rebuild_maps env snapshotById) loaded s2)))"

definition loadIndexFromCurrentStore :: "'a engine_env_scheme \<Rightarrow> engine \<Rightarrow> engine" where
  "loadIndexFromCurrentStore env s =
     (case readIndexFile env (egNow s) (egIndex s) of
        Some stored \<Rightarrow> rebuildSnapshotHashIndexFromDisk env (applyLoadedIndex stored s)
      | None \<Rightarrow> rebuildSnapshotHashIndexFromDisk env (rebuildHistoryFromManifests env s))"

section \<open>Deleting a manifest, and the size of the store\<close>

definition deleteCheckpointFromDisk :: "'a engine_env_scheme \<Rightarrow> string \<Rightarrow> engine \<Rightarrow> engine" where
  "deleteCheckpointFromDisk env i s =
     snd (gcUnreferencedCheckpointBlobs env (s\<lparr>egManifests := jm_del i (egManifests s)\<rparr>))"

definition computeDiskStorageBytes :: "'a engine_env_scheme \<Rightarrow> engine \<Rightarrow> nat" where
  "computeDiskStorageBytes env s =
     sum_list (map (length \<circ> snd) (osFiles (egObjects s)))
     + eeJsonBytes env (egManifests s) (egIndex s) (egStash s)"

end
