(* ===== verification/StoreSafety.thy ===== *)
theory StoreSafety
  imports IndexStore
begin

text \<open>
  What the store of manifests and objects promises (\<open>manager/persistence.ts\<close> over
  \<open>store/blobStore.ts\<close>): a saved checkpoint stays loadable with its contents, a collection never
  frees an object that a manifest, a stash entry, a pin or the history names, and a failed save
  leaves the manifests as they were. Saves, deletions and collections are reduced to runs of the
  locale \<open>content_store\<close>.
\<close>

section \<open>Readable engines\<close>

definition engine_key :: "engine \<Rightarrow> bytes option" where
  "engine_key s = (case egSecrets s of Some (Some k) \<Rightarrow> Some k | _ \<Rightarrow> None)"

definition engine_opts :: "engine \<Rightarrow> put_options" where
  "engine_opts s =
     \<lparr>poCompress = Some (egCompress s), poEncrypt = (if egEncrypt s then Some True else None),
      poKey = (if egEncrypt s then engine_key s else None)\<rparr>"

text \<open>The key is settled, and every object of the store is readable with it.\<close>

definition engine_good :: "'a engine_env_scheme \<Rightarrow> bytes set \<Rightarrow> engine \<Rightarrow> bool" where
  "engine_good env U s \<longleftrightarrow> store_good env (engine_key s) U (egObjects s)
     \<and> (engine_key s = None \<longrightarrow> \<not> egEncrypt s \<and> \<not> storeHasEncryptedBlobs (egObjects s))"

lemma opts_ok_engine [simp]: "opts_ok (engine_opts s) (engine_key s)"
  by (simp add: opts_ok_def engine_opts_def)

lemma engine_key_Some: "engine_key s = Some k \<longleftrightarrow> egSecrets s = Some (Some k)"
  by (auto simp: engine_key_def split: option.splits)

lemma writeBlobOptions_good: "engine_good env U s \<Longrightarrow> writeBlobOptions env s = (Inr (engine_opts s), s)"
  by (auto simp: engine_good_def writeBlobOptions_def resolveEncryptionKey_def engine_opts_def engine_key_def
      split: option.splits)

lemma readBlobOptions_good: "engine_good env U s \<Longrightarrow> readBlobOptions s = Inr (engine_key s)"
  by (auto simp: engine_good_def readBlobOptions_def engine_key_def split: option.splits)

lemma has_encrypted_iff:
  "storeHasEncryptedBlobs s \<longleftrightarrow>
     (\<exists>h p. entry_hash (snd p) = Some h \<and> jm_get (osFiles s) p \<noteq> None \<and> ends_with (snd p) ''.enc'')"
  by (auto simp: storeHasEncryptedBlobs_def list_ex_iff listed_iff Bex_def)

lemma plain_suffix: "isBlobObjectHash h \<Longrightarrow> f \<noteq> EncBlob \<Longrightarrow> \<not> ends_with (h @ form_suffix f) ''.enc''"
proof
  assume h: "isBlobObjectHash h" and f: "f \<noteq> EncBlob" and e: "ends_with (h @ form_suffix f) ''.enc''"
  from e obtain a where a: "h @ form_suffix f = a @ ''.enc''" using ends_with_ex by blast
  show False
  proof (cases f)
    case RawBlob
    then show ?thesis using a hash_no_dot [OF h] by auto
  next
    case GzBlob
    with a arg_cong [OF a, of last] show ?thesis by simp
  next
    case EncBlob
    with f show ?thesis by simp
  qed
qed

lemma plain_write:
  assumes "isBlobObjectHash h" and "f \<noteq> EncBlob" and "\<not> storeHasEncryptedBlobs s"
  shows "\<not> storeHasEncryptedBlobs (write_blob_file h f b s)"
  using assms plain_suffix [OF assms(1,2)]
  by (auto simp: has_encrypted_iff write_blob_file_def blobObjectPaths_def split: if_splits)

lemma plain_put:
  assumes "\<not> storeHasEncryptedBlobs s" and "poEncrypt opts \<noteq> Some True" and "isBlobObjectHash (neSha env b)"
    and "blob_put env opts b s = Some (h, s')"
  shows "\<not> storeHasEncryptedBlobs s'"
  using assms plain_write [of "neSha env b"]
  by (auto simp: blob_put_def putBlob_def hashBlobBytes_def Let_def split: if_splits sum.splits)

lemma plain_sweep: "\<not> storeHasEncryptedBlobs s \<Longrightarrow> \<not> storeHasEncryptedBlobs (blob_sweep keep s)"
  unfolding has_encrypted_iff blob_sweep_def gcUnreferencedBlobs_def gc_fold by (metis option.distinct(1))

definition op_valid :: "bytes set \<Rightarrow> (bytes, string) store_op \<Rightarrow> bool" where
  "op_valid U op \<longleftrightarrow> (case op of PutOp b \<Rightarrow> b \<in> U | SweepOp _ \<Rightarrow> True)"

abbreviation run_blobs :: "'a engine_env_scheme \<Rightarrow> engine \<Rightarrow> (bytes, string) store_op list \<Rightarrow> object_store \<Rightarrow> object_store" where
  "run_blobs env s ops os \<equiv> run_store (blob_put env (engine_opts s)) blob_sweep ops os"

lemma run_blobs_plain:
  assumes "codec_ok env U" and "\<not> egEncrypt s"
  shows "list_all (op_valid U) ops \<Longrightarrow> \<not> storeHasEncryptedBlobs os \<Longrightarrow> \<not> storeHasEncryptedBlobs (run_blobs env s ops os)"
proof (induction ops arbitrary: os)
  case (Cons op ops)
  have o: "poEncrypt (engine_opts s) \<noteq> Some True" using assms(2) by (simp add: engine_opts_def)
  show ?case
  proof (cases op)
    case (PutOp b)
    then have hex: "isBlobObjectHash (neSha env b)" using Cons.prems assms(1) by (simp add: op_valid_def codec_ok_def)
    show ?thesis
    proof (cases "blob_put env (engine_opts s) b os")
      case None
      then show ?thesis using Cons PutOp by simp
    next
      case (Some r)
      then obtain h os' where r: "blob_put env (engine_opts s) b os = Some (h, os')" by (cases r) auto
      have "\<not> storeHasEncryptedBlobs os'" by (rule plain_put [OF Cons.prems(2) o hex r])
      then show ?thesis using Cons.IH Cons.prems(1) PutOp r by simp
    qed
  next
    case (SweepOp keep)
    then show ?thesis using Cons.IH [of "blob_sweep keep os"] Cons.prems plain_sweep [OF Cons.prems(2)] by simp
  qed
qed simp

lemma run_blobs_good_store:
  assumes "opts_ok (engine_opts s) key"
  shows "list_all (op_valid U) ops \<Longrightarrow> store_good env key U os \<Longrightarrow> store_good env key U (run_blobs env s ops os)"
proof (induction ops arbitrary: os)
  case (Cons op ops)
  show ?case
  proof (cases op)
    case (PutOp b)
    show ?thesis
    proof (cases "blob_put env (engine_opts s) b os")
      case None
      then show ?thesis using Cons PutOp by simp
    next
      case (Some r)
      then obtain h os' where r: "blob_put env (engine_opts s) b os = Some (h, os')" by (cases r) auto
      have "b \<in> U" using Cons.prems PutOp by (simp add: op_valid_def)
      then have "store_good env key U os'" using blobs.put_get [OF _ _ r] Cons.prems assms by blast
      then show ?thesis using Cons PutOp r by simp
    qed
  next
    case (SweepOp keep)
    then show ?thesis using Cons store_good_sweep by fastforce
  qed
qed simp

text \<open>The settings of the store, which the handlers below do not change.\<close>

definition same_settings :: "engine \<Rightarrow> engine \<Rightarrow> bool" where
  "same_settings s s' \<longleftrightarrow> egSecrets s' = egSecrets s \<and> egCompress s' = egCompress s \<and> egEncrypt s' = egEncrypt s"

lemma settings_key: "same_settings s s' \<Longrightarrow> engine_key s' = engine_key s \<and> engine_opts s' = engine_opts s"
  by (simp add: same_settings_def engine_key_def engine_opts_def)

lemma run_blobs_good:
  assumes g: "engine_good env U s" and v: "list_all (op_valid U) ops"
    and s': "same_settings s s'" "egObjects s' = run_blobs env s ops (egObjects s)"
  shows "engine_good env U s'"
proof -
  have c: "codec_ok env U" using g by (simp add: engine_good_def store_good_def)
  have e: "egEncrypt s' = egEncrypt s" using s'(1) by (simp add: same_settings_def)
  show ?thesis
    using g run_blobs_good_store [OF opts_ok_engine [of s] v, where env = env and os = "egObjects s"] run_blobs_plain [OF c _ v, where s = s and os = "egObjects s"]
    by (auto simp: engine_good_def settings_key [OF s'(1)] e s'(2))
qed

section \<open>Saving the blobs of a checkpoint\<close>

definition captured_bytes :: "'a blob_env_scheme \<Rightarrow> file_snapshot \<Rightarrow> bytes option" where
  "captured_bytes env x =
     (if snapshotIsDeleted x \<or> truthy (fsHash x) \<noteq> None then None
      else map_option (\<lambda>t. bytesFromSnapshotContent env t (js_or (fsEncoding x) ''utf8'')) (fsContent x))"

definition fresh_ok :: "'a blob_env_scheme \<Rightarrow> bytes set \<Rightarrow> file_snapshot \<Rightarrow> bool" where
  "fresh_ok env U x \<longleftrightarrow> (\<forall>b. captured_bytes env x = Some b \<longrightarrow> b \<in> U)"

text \<open>The bytes that a snapshot stands for: the captured content, or the object it names.\<close>

definition snapshot_bytes :: "'a blob_env_scheme \<Rightarrow> bytes option \<Rightarrow> object_store \<Rightarrow> file_snapshot \<Rightarrow> bytes option" where
  "snapshot_bytes env key os x =
     (case truthy (fsHash x) of
        None \<Rightarrow> captured_bytes env x
      | Some h \<Rightarrow> if isBlobObjectHash h then blob_get env key os h else None)"

definition held :: "'a blob_env_scheme \<Rightarrow> bytes option \<Rightarrow> object_store \<Rightarrow> bytes \<Rightarrow> file_snapshot \<Rightarrow> bool" where
  "held env key os b y \<longleftrightarrow> (\<exists>h. fsHash y = Some h \<and> isBlobObjectHash h \<and> blob_get env key os h = Some b)"

definition stored_as :: "'a blob_env_scheme \<Rightarrow> bytes option \<Rightarrow> object_store \<Rightarrow> object_store \<Rightarrow> file_snapshot \<Rightarrow> file_snapshot \<Rightarrow> bool" where
  "stored_as env key os os' x y \<longleftrightarrow> y = x\<lparr>fsHash := fsHash y\<rparr>
     \<and> (\<forall>b. \<not> snapshotIsDeleted x \<longrightarrow> snapshot_bytes env key os x = Some b \<longrightarrow> held env key os' b y)"

lemma hash_nonempty: "isBlobObjectHash h \<Longrightarrow> h \<noteq> []"
  by (auto simp: isBlobObjectHash_def)

lemma puts_keep:
  assumes "engine_good env U s" and "set bs \<subseteq> U" and "isBlobObjectHash h" and "blob_get env (engine_key s) (egObjects s) h = Some b"
  shows "blob_get env (engine_key s) (run_blobs env s (map PutOp bs) (egObjects s)) h = Some b"
proof -
  have "list_all (blobs.spares U h) (map PutOp bs)" using assms(2) by (auto simp: list_all_iff blobs.spares_def)
  then show ?thesis
    using blobs.run_survives [of env "engine_key s" U "egObjects s" "engine_opts s" h b "map PutOp bs"] assms(1,3,4)
    by (simp add: engine_good_def)
qed

lemma ensureSnapshotBlob_runs:
  assumes g: "engine_good env U s" and f: "fresh_ok env U x"
  shows "\<exists>bs. set bs \<subseteq> U
    \<and> snd (ensureSnapshotBlob env x s) = s\<lparr>egObjects := run_blobs env s (map PutOp bs) (egObjects s)\<rparr>
    \<and> (\<forall>y. fst (ensureSnapshotBlob env x s) = Inr y \<longrightarrow>
         stored_as env (engine_key s) (egObjects s) (egObjects (snd (ensureSnapshotBlob env x s))) x y)"
proof (cases "captured_bytes env x")
  case None
  then have e: "ensureSnapshotBlob env x s = (Inr x, s)"
    by (auto simp: captured_bytes_def ensureSnapshotBlob_def split: if_splits)
  have "stored_as env (engine_key s) (egObjects s) (egObjects s) x x"
    using None hash_nonempty
    by (auto simp: stored_as_def snapshot_bytes_def held_def truthy_Some_iff split: option.splits if_splits)
  then show ?thesis by (intro exI [of _ "[]"]) (simp add: e)
next
  case (Some b)
  then have b: "b \<in> U" and nd: "\<not> snapshotIsDeleted x" and nh: "truthy (fsHash x) = None"
    using f by (auto simp: fresh_ok_def captured_bytes_def split: if_splits)
  let ?os = "egObjects s" and ?key = "engine_key s" and ?opts = "engine_opts s"
  have e: "ensureSnapshotBlob env x s = (case putBlob env ?opts b ?os of
      Inl e \<Rightarrow> (Inl (BlobFailure e), s) | Inr (h, os') \<Rightarrow> (Inr (x\<lparr>fsHash := Some h\<rparr>), s\<lparr>egObjects := os'\<rparr>))"
    using Some nd nh by (auto simp: captured_bytes_def ensureSnapshotBlob_def writeBlobOptions_good [OF g])
  show ?thesis
  proof (cases "putBlob env ?opts b ?os")
    case (Inl err)
    then show ?thesis using b by (intro exI [of _ "[b]"]) (simp add: e blob_put_def)
  next
    case (Inr r)
    obtain h os' where r: "r = (h, os')" by (cases r)
    have "blob_put env ?opts b ?os = Some (h, os')" using Inr r by (simp add: blob_put_def)
    then have "isBlobObjectHash h \<and> blob_get env ?key os' h = Some b"
      using blobs.put_get [of env ?key U ?os ?opts b h os'] g b by (auto simp: engine_good_def)
    then have "stored_as env ?key ?os os' x (x\<lparr>fsHash := Some h\<rparr>)"
      using Some nh by (auto simp: stored_as_def snapshot_bytes_def held_def)
    then show ?thesis using b Inr r by (intro exI [of _ "[b]"]) (simp add: e blob_put_def)
  qed
qed

lemma run_store_append: "run_store put sweep (xs @ ys) s = run_store put sweep ys (run_store put sweep xs s)"
  by (induction put sweep xs s rule: run_store.induct) auto

lemma held_puts:
  assumes "engine_good env U s" and "set bs \<subseteq> U" and "held env (engine_key s) (egObjects s) b y"
  shows "held env (engine_key s) (run_blobs env s (map PutOp bs) (egObjects s)) b y"
  using assms puts_keep by (fastforce simp: held_def)

lemma snapshot_bytes_puts:
  assumes "engine_good env U s" and "set bs \<subseteq> U" and "snapshot_bytes env (engine_key s) (egObjects s) x = Some b"
  shows "snapshot_bytes env (engine_key s) (run_blobs env s (map PutOp bs) (egObjects s)) x = Some b"
  using assms(3) puts_keep [OF assms(1,2)] by (auto simp: snapshot_bytes_def split: option.splits if_splits)

lemma puts_valid: "set bs \<subseteq> U \<Longrightarrow> list_all (op_valid U) (map PutOp bs)"
  by (auto simp: list_all_iff op_valid_def)

lemma ensure_snapshots_runs:
  assumes "engine_good env U s" and "\<forall>x \<in> set xs. fresh_ok env U x"
  shows "\<exists>bs. set bs \<subseteq> U
    \<and> snd (ensure_snapshots env xs s) = s\<lparr>egObjects := run_blobs env s (map PutOp bs) (egObjects s)\<rparr>
    \<and> (\<forall>ys. fst (ensure_snapshots env xs s) = Inr ys \<longrightarrow>
         list_all2 (stored_as env (engine_key s) (egObjects s) (egObjects (snd (ensure_snapshots env xs s)))) xs ys)"
  using assms
proof (induction xs arbitrary: s)
  case Nil
  then show ?case by (intro exI [of _ "[]"]) simp
next
  case (Cons x xs)
  let ?os = "egObjects s" and ?key = "engine_key s"
  obtain bs where bs: "set bs \<subseteq> U" "snd (ensureSnapshotBlob env x s) = s\<lparr>egObjects := run_blobs env s (map PutOp bs) ?os\<rparr>"
    "\<forall>y. fst (ensureSnapshotBlob env x s) = Inr y \<longrightarrow>
       stored_as env ?key ?os (egObjects (snd (ensureSnapshotBlob env x s))) x y"
    using ensureSnapshotBlob_runs [OF Cons.prems(1)] Cons.prems(2) by (meson list.set_intros(1))
  define s1 where "s1 = snd (ensureSnapshotBlob env x s)"
  have same: "same_settings s s1" using bs(2) by (simp add: s1_def same_settings_def)
  have g1: "engine_good env U s1"
    by (rule run_blobs_good [OF Cons.prems(1) puts_valid [OF bs(1)] same]) (simp add: s1_def bs(2))
  note k1 = settings_key [OF same]
  obtain cs where cs: "set cs \<subseteq> U" "snd (ensure_snapshots env xs s1) = s1\<lparr>egObjects := run_blobs env s1 (map PutOp cs) (egObjects s1)\<rparr>"
    "\<forall>ys. fst (ensure_snapshots env xs s1) = Inr ys \<longrightarrow>
         list_all2 (stored_as env ?key (egObjects s1) (egObjects (snd (ensure_snapshots env xs s1)))) xs ys"
    using Cons.IH [OF g1] Cons.prems(2) k1 by auto
  show ?case
  proof (cases "fst (ensureSnapshotBlob env x s)")
    case (Inl e)
    then have "ensure_snapshots env (x # xs) s = (Inl e, s1)"
      by (cases "ensureSnapshotBlob env x s") (simp add: s1_def)
    then show ?thesis using bs(1,2) by (intro exI [of _ bs]) (simp add: s1_def)
  next
    case (Inr y)
    then have e: "ensure_snapshots env (x # xs) s =
        (case ensure_snapshots env xs s1 of (Inl e, s2) \<Rightarrow> (Inl e, s2) | (Inr ys, s2) \<Rightarrow> (Inr (y # ys), s2))"
      by (cases "ensureSnapshotBlob env x s") (simp add: s1_def)
    let ?s2 = "snd (ensure_snapshots env xs s1)"
    have e2: "snd (ensure_snapshots env (x # xs) s) = ?s2"
      by (subst e) (simp split: prod.split sum.split)
    have run: "?s2 = s\<lparr>egObjects := run_blobs env s (map PutOp (bs @ cs)) ?os\<rparr>"
      unfolding cs(2) using k1 by (simp add: s1_def bs(2) run_store_append)
    have head: "stored_as env ?key ?os (egObjects s1) x y" using bs(3) Inr by (simp add: s1_def)
    have "list_all2 (stored_as env ?key ?os (egObjects ?s2)) (x # xs) zs"
      if z: "fst (ensure_snapshots env (x # xs) s) = Inr zs" for zs
    proof -
      obtain ys where ys: "fst (ensure_snapshots env xs s1) = Inr ys" "zs = y # ys"
        using z [unfolded e] by (cases "ensure_snapshots env xs s1"; cases "fst (ensure_snapshots env xs s1)") auto
      have o2: "egObjects ?s2 = run_blobs env s1 (map PutOp cs) (egObjects s1)" by (simp add: cs(2))
      have o1: "egObjects s1 = run_blobs env s (map PutOp bs) ?os" by (simp add: s1_def bs(2))
      have "stored_as env ?key ?os (egObjects ?s2) x y"
        using head held_puts [OF g1 cs(1)] k1 by (auto simp: stored_as_def o2)
      moreover have "list_all2 (stored_as env ?key ?os (egObjects ?s2)) xs ys"
        using cs(3) [rule_format, OF ys(1)]
      proof (rule list_all2_mono)
        fix u v assume "stored_as env ?key (egObjects s1) (egObjects ?s2) u v"
        then show "stored_as env ?key ?os (egObjects ?s2) u v"
          using snapshot_bytes_puts [OF Cons.prems(1) bs(1)] by (auto simp: stored_as_def o1)
      qed
      ultimately show ?thesis by (simp add: ys(2))
    qed
    then show ?thesis using bs(1) cs(1) by (intro exI [of _ "bs @ cs"]) (simp add: e2 run del: ensure_snapshots.simps)
  qed
qed

section \<open>Loading what was saved\<close>

lemma canonical_serialized: "canonical_of CHECKPOINT_SCHEMA_VERSION (serializeSnapshotForDisk x) = canonical_of CHECKPOINT_SCHEMA_VERSION x"
  by (simp add: canonical_of_def serializeSnapshotForDisk_def)

lemma digest_serialized:
  "computeCheckpointContentSha256 env i (Some CHECKPOINT_SCHEMA_VERSION) inv0 skipped (Some (map serializeSnapshotForDisk xs))
   = computeCheckpointContentSha256 env i (Some CHECKPOINT_SCHEMA_VERSION) inv0 skipped (Some xs)"
  by (simp add: computeCheckpointContentSha256_def buildCanonicalIntegrityPayload_def comp_def canonical_serialized)

text \<open>The record that a successful save writes, in terms of what the blobs were stored as.\<close>

definition saved_record :: "'a engine_env_scheme \<Rightarrow> checkpoint_info \<Rightarrow> file_snapshot list \<Rightarrow> checkpoint_info" where
  "saved_record env c snaps =
     c\<lparr>cpSchemaVersion := Some CHECKPOINT_SCHEMA_VERSION,
       cpContentSha256 := Some (computeCheckpointContentSha256 env (cpId c) (Some CHECKPOINT_SCHEMA_VERSION)
                                 (cpFileInventory c) (cpSkippedFiles c) (Some snaps)),
       cpFileSnapshots := Some (map serializeSnapshotForDisk snaps)\<rparr>"

lemma saved_record_accepted: "cpId c \<noteq> [] \<Longrightarrow> verifyStoredCheckpointChecksum env (saved_record env c snaps) = None"
  by (auto simp: verifyStoredCheckpointChecksum_def saved_record_def digest_serialized split: option.split)

lemma saveCheckpointToDisk_cases:
  obtains (blob) e s1 where "ensure_snapshots env (snapshots_of c) s = (Inl e, s1)"
    "saveCheckpointToDisk env c s = (Some e, c, recordHealthIssue HealthWriteFailed (engine_error_message e) (Some (cpId c)) s1)"
  | (io) snaps s1 m c' where "ensure_snapshots env (snapshots_of c) s = (Inr snaps, s1)"
    "saveCheckpointToDisk env c s = (Some (IoFailure m), c', recordHealthIssue HealthWriteFailed m (Some (cpId c)) s1)"
  | (saved) snaps s1 where "ensure_snapshots env (snapshots_of c) s = (Inr snaps, s1)"
    "saveCheckpointToDisk env c s = (None, (saved_record env c snaps)\<lparr>cpFileSnapshots := Some snaps\<rparr>,
       s1\<lparr>egManifests := jm_set (cpId c) (ManifestJson (saved_record env c snaps)) (egManifests s1)\<rparr>)"
proof (cases "ensure_snapshots env (snapshots_of c) s")
  case (Pair r s1)
  show thesis
  proof (cases r)
    case (Inl e)
    then show thesis using Pair by (intro blob [of e s1]) (simp_all add: saveCheckpointToDisk_def)
  next
    case (Inr snaps)
    show thesis
    proof (cases "eeWriteError env (cpId c @ ''.json'')")
      case None
      then show thesis using Pair Inr by (intro saved [of snaps s1]) (simp_all add: saveCheckpointToDisk_def saved_record_def Let_def)
    next
      case (Some m)
      then show thesis using Pair Inr by (intro io [of snaps s1 m]) (simp_all add: saveCheckpointToDisk_def Let_def)
    qed
  qed
qed

lemma health_fields [simp]:
  "egManifests (recordHealthIssue k m i s) = egManifests s" "egObjects (recordHealthIssue k m i s) = egObjects s"
  "egHistory (recordHealthIssue k m i s) = egHistory s" "same_settings t (recordHealthIssue k m i s) = same_settings t s"
  "egStash (recordHealthIssue k m i s) = egStash s"
  by (simp_all add: recordHealthIssue_def same_settings_def Let_def)

lemma same_settings_refl [simp]: "same_settings s s"
  by (simp add: same_settings_def)

lemma same_settings_trans: "same_settings s t \<Longrightarrow> same_settings t u \<Longrightarrow> same_settings s u"
  by (simp add: same_settings_def)

lemma save_runs:
  assumes "engine_good env U s" and "\<forall>x \<in> set (snapshots_of c). fresh_ok env U x"
    and p: "saveCheckpointToDisk env c s = (e, c', s')"
  shows "same_settings s s' \<and> (\<exists>bs. set bs \<subseteq> U \<and> egObjects s' = run_blobs env s (map PutOp bs) (egObjects s))
    \<and> (\<forall>j. j \<noteq> cpId c \<or> e \<noteq> None \<longrightarrow> jm_get (egManifests s') j = jm_get (egManifests s) j)
    \<and> (e = None \<longrightarrow> (\<exists>snaps. jm_get (egManifests s') (cpId c) = Some (ManifestJson (saved_record env c snaps))
          \<and> list_all2 (stored_as env (engine_key s) (egObjects s) (egObjects s')) (snapshots_of c) snaps))"
proof -
  obtain bs where bs: "set bs \<subseteq> U"
    "snd (ensure_snapshots env (snapshots_of c) s) = s\<lparr>egObjects := run_blobs env s (map PutOp bs) (egObjects s)\<rparr>"
    "\<forall>ys. fst (ensure_snapshots env (snapshots_of c) s) = Inr ys \<longrightarrow>
       list_all2 (stored_as env (engine_key s) (egObjects s) (egObjects (snd (ensure_snapshots env (snapshots_of c) s)))) (snapshots_of c) ys"
    using ensure_snapshots_runs [OF assms(1,2)] by blast
  show ?thesis
  proof (cases rule: saveCheckpointToDisk_cases [where env = env and c = c and s = s])
    case (blob e s1)
    then show ?thesis using p bs by (auto simp: same_settings_def recordHealthIssue_def Let_def)
  next
    case (io snaps s1 m c')
    then show ?thesis using p bs by (auto simp: same_settings_def recordHealthIssue_def Let_def)
  next
    case (saved snaps s1)
    then show ?thesis using p bs by (auto simp: same_settings_def)
  qed
qed

text \<open>What loading a manifest needs of the store: every live entry names an object that can be read.\<close>

definition loadable :: "'a blob_env_scheme \<Rightarrow> bytes option \<Rightarrow> object_store \<Rightarrow> (file_snapshot \<Rightarrow> bytes option) \<Rightarrow> file_snapshot list \<Rightarrow> bool" where
  "loadable env key os f ys \<longleftrightarrow>
     (\<forall>y \<in> set ys. \<not> snapshotIsDeleted y \<longrightarrow> fsContent y = None \<and> (\<exists>b. f y = Some b \<and> held env key os b y))"

definition hydrated :: "'a blob_env_scheme \<Rightarrow> (file_snapshot \<Rightarrow> bytes option) \<Rightarrow> file_snapshot \<Rightarrow> file_snapshot \<Rightarrow> bool" where
  "hydrated env f y z \<longleftrightarrow> z = y\<lparr>fsContent := fsContent z\<rparr>
     \<and> (\<not> snapshotIsDeleted y \<longrightarrow>
          fsContent z = map_option (\<lambda>b. snapshotContentFromBytes env b (js_or (fsEncoding y) ''utf8'')) (f y))"

lemma hydrate_loadable:
  "loadable env key os f ys \<Longrightarrow> \<exists>zs. hydrateSnapshotContents env key os ys = Inr zs \<and> list_all2 (hydrated env f) ys zs"
proof (induction ys)
  case (Cons y ys)
  then obtain zs where zs: "hydrateSnapshotContents env key os ys = Inr zs" "list_all2 (hydrated env f) ys zs"
    by (auto simp: loadable_def)
  show ?case
  proof (cases "snapshotIsDeleted y")
    case True
    then show ?thesis using zs by (simp add: hydrated_def [of env f y])
  next
    case False
    then obtain h b where "fsContent y = None" "f y = Some b" "fsHash y = Some h" "isBlobObjectHash h" "getBlob env key os h = Inr b"
      using Cons.prems by (auto simp: loadable_def held_def blob_get_Some)
    then show ?thesis using zs False hash_nonempty by (auto simp: hydrated_def [of env f y])
  qed
qed simp

lemma load_loadable:
  assumes "engine_good env U s" and "jm_get (egManifests s) i = Some (ManifestJson c)"
    and "verifyStoredCheckpointChecksum env c = None" and "loadable env (engine_key s) (egObjects s) f (snapshots_of c)"
  shows "\<exists>d s'. loadCheckpointFromDisk env i s = (Inr (Some d), s') \<and> d = c\<lparr>cpFileSnapshots := cpFileSnapshots d\<rparr>
    \<and> list_all2 (hydrated env f) (snapshots_of c) (snapshots_of d)"
proof -
  let ?s = "s\<lparr>egLastLoad := Some (LoadOk c)\<rparr>"
  have r: "readCheckpointRecord env s i = LoadOk c" using assms(2,3) by (simp add: readCheckpointRecord_def)
  have k: "engine_key ?s = engine_key s" "engine_good env U ?s"
    using assms(1) by (simp_all add: engine_key_def engine_good_def)
  obtain zs where zs: "hydrateSnapshotContents env (engine_key s) (egObjects s) (snapshots_of c) = Inr zs"
    "list_all2 (hydrated env f) (snapshots_of c) zs"
    using hydrate_loadable [OF assms(4)] by blast
  have h: "hydrateCheckpointSnapshots env ?s (cpFileSnapshots c) = Inr zs"
    using zs k(1) readBlobOptions_good [OF k(2)]
    by (auto simp: hydrateCheckpointSnapshots_def snapshots_of_def split: list.split)
  show ?thesis
    by (intro exI [of _ "c\<lparr>cpFileSnapshots := Some zs\<rparr>"] exI)
       (simp add: loadCheckpointFromDisk_def r h zs(2), simp add: snapshots_of_def zs(2) [unfolded snapshots_of_def])
qed

section \<open>Collections keep what is named\<close>

text \<open>A hash is named by the history, by a manifest (sealed or not), by a pin or by a stash entry.\<close>

definition named_hash :: "'a engine_env_scheme \<Rightarrow> engine \<Rightarrow> string \<Rightarrow> bool" where
  "named_hash env s h \<longleftrightarrow>
     list_ex (\<lambda>c. h \<in> set (referencedBlobHashes (snapshots_of c))) (egHistory s)
     \<or> list_ex (\<lambda>i. case jm_get (egManifests s) i of
                       Some (ManifestJson c) \<Rightarrow> h \<in> set (referencedBlobHashes (snapshots_of c)) | _ \<Rightarrow> False) (manifest_names s)
     \<or> h \<in> set (or_default (eePins env) [])
     \<or> list_ex (\<lambda>e. h \<in> set (referencedBlobHashes (seFileSnapshots e))) (or_default (egStash s) [])"

lemma readCheckpointRecord_Ok:
  "readCheckpointRecord env s i = LoadOk c \<longleftrightarrow>
     jm_get (egManifests s) i = Some (ManifestJson c) \<and> verifyStoredCheckpointChecksum env c = None"
  by (auto simp: readCheckpointRecord_def split: option.splits manifest_file.splits)

lemma manifest_hashes_json:
  "manifest_hashes env s i =
     (case jm_get (egManifests s) i of Some (ManifestJson c) \<Rightarrow> referencedBlobHashes (snapshots_of c) | _ \<Rightarrow> [])"
  using readCheckpointRecord_Ok [of env s i]
  by (auto simp: manifest_hashes_def split: load_result.split option.splits manifest_file.splits)

lemma in_manifest_hashes:
  "(case jm_get (egManifests s) i of
      Some (ManifestJson c) \<Rightarrow> h \<in> set (referencedBlobHashes (snapshots_of c)) | _ \<Rightarrow> False)
   \<longleftrightarrow> h \<in> set (manifest_hashes env s i)"
  by (simp add: manifest_hashes_json split: option.split manifest_file.split)

lemma collected_iff:
  assumes "collectReferencedBlobHashes env s = Some keep"
  shows "h \<in> set keep \<longleftrightarrow> named_hash env s h"
proof -
  obtain pins where "eePins env = Some pins" using assms by (auto simp: collectReferencedBlobHashes_def split: option.splits)
  with assms show ?thesis
    by (auto simp: collectReferencedBlobHashes_def named_hash_def in_manifest_hashes [where env = env] list_ex_iff
        collectStashBlobHashes_def)
qed

lemma gc_form:
  "snd (gcUnreferencedCheckpointBlobs env s) = s\<lparr>egObjects :=
     (case collectReferencedBlobHashes env s of None \<Rightarrow> egObjects s | Some keep \<Rightarrow> blob_sweep keep (egObjects s))\<rparr>"
  by (simp add: gcUnreferencedCheckpointBlobs_def blob_sweep_def split: option.split prod.split)

lemma collect_None: "collectReferencedBlobHashes env s = None \<longleftrightarrow> eePins env = None"
  by (simp add: collectReferencedBlobHashes_def split: option.split)


section \<open>Runs of the store\<close>

datatype store_op_step = SaveStep checkpoint_info | CollectStep | DropStep string | LoadStep string | SaveIndexStep | ReloadStep

fun store_step :: "'a engine_env_scheme \<Rightarrow> store_op_step \<Rightarrow> engine \<Rightarrow> engine" where
  "store_step env (SaveStep c) s = snd (snd (saveCheckpointToDisk env c s))"
| "store_step env CollectStep s = snd (gcUnreferencedCheckpointBlobs env s)"
| "store_step env (DropStep i) s = deleteCheckpointFromDisk env i s"
| "store_step env (LoadStep i) s = snd (loadCheckpointFromDisk env i s)"
| "store_step env SaveIndexStep s = saveCheckpointHistory env s"
| "store_step env ReloadStep s = loadIndexFromCurrentStore env s"

text \<open>Steps that leave manifests, objects and settings alone.\<close>

definition quiet :: "engine \<Rightarrow> engine \<Rightarrow> bool" where
  "quiet s s' \<longleftrightarrow> same_settings s s' \<and> egManifests s' = egManifests s \<and> egObjects s' = egObjects s"

lemma quiet_refl [simp]: "quiet s s"
  by (simp add: quiet_def)

lemma quiet_trans: "quiet s t \<Longrightarrow> quiet t u \<Longrightarrow> quiet s u"
  by (auto simp: quiet_def intro: same_settings_trans)

lemma quiet_fold:
  assumes "\<And>x s. quiet s (f x s)"
  shows "quiet s (fold f xs s)"
proof (induction xs arbitrary: s)
  case (Cons x xs)
  show ?case using quiet_trans [OF assms Cons.IH] by simp
qed simp

lemma quiet_health [simp]: "quiet s (recordHealthIssue k m i t) = quiet s t"
  by (simp add: quiet_def)

lemma quiet_fold_fst:
  assumes "\<And>x s n. quiet s (fst (f x (s, n)))"
  shows "quiet s (fst (fold f xs (s, n)))"
proof (induction xs arbitrary: s n)
  case (Cons x xs)
  show ?case using quiet_trans [OF assms [of s x n] Cons.IH [of "fst (f x (s, n))" "snd (f x (s, n))"]] by simp
qed simp

lemma quiet_merge: "quiet s (snd (mergeForeignIndexEntries env s))"
proof -
  have "quiet t (fst (merge_entry e (t, n)))" for e t n
    by (simp add: merge_entry_def quiet_def same_settings_def)
  then have "quiet s (fst (fold merge_entry es (s, 0)))" for es by (rule quiet_fold_fst)
  then show ?thesis
    by (auto simp: mergeForeignIndexEntries_def quiet_def same_settings_def split: option.split prod.split)
      (metis fst_conv)+
qed

lemma quiet_save_index: "quiet s (saveCheckpointHistory env s)"
proof -
  have "quiet t (saveCheckpointHistoryUnlocked env t)" for t
    by (simp add: saveCheckpointHistoryUnlocked_def quiet_def same_settings_def Let_def split: option.split)
  then show ?thesis unfolding saveCheckpointHistory_def using quiet_trans quiet_merge by blast
qed

lemma quiet_hashes: "quiet s (applySnapshotHashes env xs s)"
  by (simp add: applySnapshotHashes_def quiet_def same_settings_def)

lemma quiet_rebuild_hashes: "quiet s (rebuildSnapshotHashIndexFromDisk env s)"
proof -
  have "quiet t (rebuild_step env hd c t)" for hd c t
    by (simp add: rebuild_step_def quiet_def same_settings_def applySnapshotHashes_def Let_def
        split: load_result.split option.split)
  note f = quiet_fold [of "rebuild_step env hd" for hd, OF this]
  have "quiet s (s\<lparr>egSnapshotHashes := []\<rparr>)" by (simp add: quiet_def same_settings_def)
  from quiet_trans [OF this f] show ?thesis
    by (auto simp: rebuildSnapshotHashIndexFromDisk_def Let_def quiet_def same_settings_def split: option.split)
qed

lemma quiet_fold_snd:
  assumes "\<And>x s l. quiet s (snd (f x (l, s)))"
  shows "quiet s (snd (fold f xs (l, s)))"
proof (induction xs arbitrary: s l)
  case (Cons x xs)
  show ?case using quiet_trans [OF assms [of s x l] Cons.IH [of "snd (f x (l, s))" "fst (f x (l, s))"]] by simp
qed simp

lemma quiet_rebuild_history: "quiet s (rebuildHistoryFromManifests env s)"
proof -
  obtain records s1 where f: "fold (scan_manifest env) (manifest_names s) ([], s) = (records, s1)"
    by (cases "fold (scan_manifest env) (manifest_names s) ([], s)")
  have "quiet t (snd (scan_manifest env x (l, t)))" for t x l
    by (simp add: scan_manifest_def split: load_result.split)
  from quiet_fold_snd [of "scan_manifest env", OF this, of s "manifest_names s" "[]"]
  have q1: "quiet s s1" by (simp add: f)
  have m: "quiet t (rebuild_maps env m c t)" for t m c
    by (simp add: rebuild_maps_def quiet_def same_settings_def applySnapshotHashes_def Let_def split: option.split)
  have q2: "quiet s t" if "quiet s1 t" for t using quiet_trans [OF q1 that] .
  show ?thesis
    unfolding rebuildHistoryFromManifests_def f case_prod_conv Let_def
    by (rule q2, rule quiet_trans [OF _ quiet_save_index], rule quiet_trans [OF _ quiet_fold [OF m]])
       (simp add: quiet_def same_settings_def)
qed

lemma quiet_reload: "quiet s (loadIndexFromCurrentStore env s)"
proof (cases "readIndexFile env (egNow s) (egIndex s)")
  case None
  then show ?thesis
    using quiet_trans [OF quiet_rebuild_history quiet_rebuild_hashes] by (simp add: loadIndexFromCurrentStore_def)
next
  case (Some st)
  have "quiet s (applyLoadedIndex st s)" by (simp add: applyLoadedIndex_def quiet_def same_settings_def)
  then show ?thesis
    using Some quiet_trans [OF _ quiet_rebuild_hashes] by (simp add: loadIndexFromCurrentStore_def)
qed

lemma quiet_load: "quiet s (snd (loadCheckpointFromDisk env i s))"
  by (simp add: loadCheckpointFromDisk_def Let_def quiet_def same_settings_def recordHealthIssue_def
      split: load_result.split sum.split engine_error.split blob_error.split)

section \<open>A saved checkpoint survives\<close>

definition step_spares :: "'a engine_env_scheme \<Rightarrow> bytes set \<Rightarrow> string \<Rightarrow> store_op_step \<Rightarrow> bool" where
  "step_spares env U i op \<longleftrightarrow>
     (case op of SaveStep c \<Rightarrow> cpId c \<noteq> i \<and> (\<forall>x \<in> set (snapshots_of c). fresh_ok env U x)
      | DropStep j \<Rightarrow> j \<noteq> i | _ \<Rightarrow> True)"

definition durable :: "'a engine_env_scheme \<Rightarrow> bytes set \<Rightarrow> bytes option \<Rightarrow> (file_snapshot \<Rightarrow> bytes option) \<Rightarrow> string \<Rightarrow> checkpoint_info \<Rightarrow> engine \<Rightarrow> bool" where
  "durable env U key f i c s \<longleftrightarrow> engine_good env U s \<and> engine_key s = key
     \<and> jm_get (egManifests s) i = Some (ManifestJson c) \<and> verifyStoredCheckpointChecksum env c = None
     \<and> loadable env key (egObjects s) f (snapshots_of c)"

lemma durable_run:
  assumes d: "durable env U key f i c s" and same: "same_settings s s'"
    and m: "jm_get (egManifests s') i = jm_get (egManifests s) i"
    and o: "egObjects s' = run_blobs env s ops (egObjects s)"
    and ops: "\<forall>op \<in> set ops. case op of PutOp b \<Rightarrow> b \<in> U
        | SweepOp keep \<Rightarrow> set (referencedBlobHashes (snapshots_of c)) \<subseteq> set keep"
  shows "durable env U key f i c s'"
proof -
  have g: "engine_good env U s" and k: "engine_key s = key" using d by (auto simp: durable_def)
  have "list_all (op_valid U) ops" using ops by (auto simp: list_all_iff op_valid_def split: store_op.splits)
  then have g': "engine_good env U s'" using run_blobs_good [OF g _ same o] by blast
  have "held env key (egObjects s') b y"
    if y: "y \<in> set (snapshots_of c)" "\<not> snapshotIsDeleted y" and h: "held env key (egObjects s) b y" for b y
  proof -
    obtain h where h: "fsHash y = Some h" "isBlobObjectHash h" "blob_get env key (egObjects s) h = Some b"
      using h by (auto simp: held_def)
    have "h \<in> set (referencedBlobHashes (snapshots_of c))"
      using y h by (force simp: referencedBlobHashes_def map_filter_def)
    then have "list_all (blobs.spares U h) ops"
      using ops by (auto simp: list_all_iff blobs.spares_def split: store_op.splits)
    then have "blob_get env key (egObjects s') h = Some b"
      using blobs.run_survives [of env key U "egObjects s" "engine_opts s" h b ops] g k h opts_ok_engine [of s]
      by (auto simp: o engine_good_def)
    then show ?thesis using h by (simp add: held_def)
  qed
  then have "loadable env key (egObjects s') f (snapshots_of c)" using d by (fastforce simp: durable_def loadable_def)
  then show ?thesis using d g' settings_key [OF same] m by (simp add: durable_def)
qed

lemma durable_quiet: "durable env U key f i c s \<Longrightarrow> quiet s s' \<Longrightarrow> durable env U key f i c s'"
  by (rule durable_run [where ops = "[]"]) (auto simp: quiet_def)

lemma durable_collect:
  assumes d: "durable env U key f i c s" and i: "starts_with i ''cp_''"
  shows "durable env U key f i c (snd (gcUnreferencedCheckpointBlobs env s))"
proof (cases "collectReferencedBlobHashes env s")
  case None
  then show ?thesis using d by (simp add: gc_form)
next
  case (Some keep)
  have "i \<in> set (manifest_names s)" using d i by (simp add: manifest_names_def in_jm_keys durable_def)
  then have "set (referencedBlobHashes (snapshots_of c)) \<subseteq> set keep"
    using d by (auto simp: collected_iff [OF Some] named_hash_def list_ex_iff durable_def intro!: bexI [of _ i])
  then show ?thesis
    using Some by (intro durable_run [OF d, where ops = "[SweepOp keep]"]) (auto simp: gc_form same_settings_def)
qed

lemma durable_step:
  assumes d: "durable env U key f i c s" and i: "starts_with i ''cp_''" and op: "step_spares env U i op"
  shows "durable env U key f i c (store_step env op s)"
proof (cases op)
  case (SaveStep a)
  obtain e c' s' where sv: "saveCheckpointToDisk env a s = (e, c', s')" by (cases "saveCheckpointToDisk env a s")
  have g: "engine_good env U s" using d by (simp add: durable_def)
  have f: "\<forall>x \<in> set (snapshots_of a). fresh_ok env U x" "cpId a \<noteq> i" using op SaveStep by (auto simp: step_spares_def)
  note r = save_runs [OF g f(1) sv]
  obtain bs where bs: "set bs \<subseteq> U" "egObjects s' = run_blobs env s (map PutOp bs) (egObjects s)"
    using r [THEN conjunct2, THEN conjunct1] by (elim exE conjE)
  have m: "jm_get (egManifests s') i = jm_get (egManifests s) i"
    using r [THEN conjunct2, THEN conjunct2, THEN conjunct1, rule_format, of i] f(2) by simp
  from r [THEN conjunct1] bs m have "durable env U key f i c s'" by (intro durable_run [OF d, where ops = "map PutOp bs"]) auto
  then show ?thesis using SaveStep sv by simp
next
  case CollectStep
  then show ?thesis using durable_collect [OF d i] by simp
next
  case (DropStep j)
  have "durable env U key f i c (s\<lparr>egManifests := jm_del j (egManifests s)\<rparr>)"
    using op DropStep by (intro durable_run [OF d, where ops = "[]"]) (auto simp: same_settings_def step_spares_def)
  from durable_collect [OF this i] show ?thesis using DropStep by (simp add: deleteCheckpointFromDisk_def)
next
  case (LoadStep j)
  show ?thesis unfolding LoadStep store_step.simps by (rule durable_quiet [OF d quiet_load])
next
  case SaveIndexStep
  show ?thesis unfolding SaveIndexStep store_step.simps by (rule durable_quiet [OF d quiet_save_index])
next
  case ReloadStep
  show ?thesis unfolding ReloadStep store_step.simps by (rule durable_quiet [OF d quiet_reload])
qed

lemma durable_steps:
  "durable env U key f i c s \<Longrightarrow> starts_with i ''cp_'' \<Longrightarrow> \<forall>op \<in> set ops. step_spares env U i op \<Longrightarrow>
   durable env U key f i c (fold (store_step env) ops s)"
proof (induction ops arbitrary: s)
  case (Cons op ops)
  have "durable env U key f i c (store_step env op s)"
    by (rule durable_step) (use Cons.prems in simp_all)
  then show ?case using Cons.IH Cons.prems by simp
qed simp

definition object_of :: "'a blob_env_scheme \<Rightarrow> bytes option \<Rightarrow> object_store \<Rightarrow> file_snapshot \<Rightarrow> bytes option" where
  "object_of env key os y = (case fsHash y of Some h \<Rightarrow> blob_get env key os h | None \<Rightarrow> None)"

lemma deleted_serialized [simp]: "snapshotIsDeleted (serializeSnapshotForDisk y) = snapshotIsDeleted y"
  by (simp add: snapshotIsDeleted_def serializeSnapshotForDisk_def)

lemma stored_as_deleted: "stored_as env key os os' x y \<Longrightarrow> snapshotIsDeleted y = snapshotIsDeleted x"
  by (cases x; cases y) (simp add: stored_as_def snapshotIsDeleted_def)

lemma stored_as_object:
  assumes "stored_as env key os os' x y" and "\<not> snapshotIsDeleted x" and "snapshot_bytes env key os x \<noteq> None"
  shows "fsContent (serializeSnapshotForDisk y) = None
    \<and> object_of env key os' (serializeSnapshotForDisk y) = snapshot_bytes env key os x
    \<and> (\<exists>b. snapshot_bytes env key os x = Some b \<and> held env key os' b (serializeSnapshotForDisk y))"
proof -
  obtain b where b: "snapshot_bytes env key os x = Some b" "held env key os' b y"
    using assms by (auto simp: stored_as_def)
  then show ?thesis using hash_nonempty by (auto simp: object_of_def held_def serializeSnapshotForDisk_def)
qed

lemma saved_durable:
  assumes g: "engine_good env U s" and i: "cpId c \<noteq> []"
    and xs: "\<forall>x \<in> set (snapshots_of c). fresh_ok env U x"
    and b: "\<forall>x \<in> set (snapshots_of c). snapshotIsDeleted x \<or> snapshot_bytes env (engine_key s) (egObjects s) x \<noteq> None"
    and sv: "saveCheckpointToDisk env c s = (None, c', s')"
  shows "\<exists>snaps. durable env U (engine_key s) (object_of env (engine_key s) (egObjects s')) (cpId c) (saved_record env c snaps) s'
    \<and> list_all2 (stored_as env (engine_key s) (egObjects s) (egObjects s')) (snapshots_of c) snaps"
proof -
  let ?key = "engine_key s" and ?os = "egObjects s" and ?os' = "egObjects s'"
  obtain bs snaps where bs: "set bs \<subseteq> U" "egObjects s' = run_blobs env s (map PutOp bs) ?os" "same_settings s s'"
    and m: "jm_get (egManifests s') (cpId c) = Some (ManifestJson (saved_record env c snaps))"
    and st: "list_all2 (stored_as env ?key ?os ?os') (snapshots_of c) snaps"
    using save_runs [OF g xs sv] by blast
  have "loadable env ?key ?os' (object_of env ?key ?os') (map serializeSnapshotForDisk snaps)"
    unfolding loadable_def
  proof (intro ballI impI)
    fix z assume "z \<in> set (map serializeSnapshotForDisk snaps)" and nd: "\<not> snapshotIsDeleted z"
    then obtain y where y: "y \<in> set snaps" "z = serializeSnapshotForDisk y" by auto
    then obtain x where x: "x \<in> set (snapshots_of c)" "stored_as env ?key ?os ?os' x y"
      using st by (metis in_set_conv_nth list_all2_conv_all_nth)
    have l: "\<not> snapshotIsDeleted x" using nd y stored_as_deleted [OF x(2)] by simp
    then have "snapshot_bytes env ?key ?os x \<noteq> None" using b x(1) by blast
    from stored_as_object [OF x(2) l this]
    show "fsContent z = None \<and> (\<exists>b. object_of env ?key ?os' z = Some b \<and> held env ?key ?os' b z)" by (auto simp: y)
  qed
  moreover have "snapshots_of (saved_record env c snaps) = map serializeSnapshotForDisk snaps"
    by (simp add: saved_record_def snapshots_of_def)
  moreover have "engine_good env U s'" by (rule run_blobs_good [OF g puts_valid [OF bs(1)] bs(3,2)])
  ultimately show ?thesis
    using m saved_record_accepted [OF i] settings_key [OF bs(3)] st by (intro exI [of _ snaps]) (simp add: durable_def)
qed

text \<open>The snapshot that a load returns for the snapshot that was saved.\<close>

definition restores :: "'a blob_env_scheme \<Rightarrow> bytes option \<Rightarrow> object_store \<Rightarrow> file_snapshot \<Rightarrow> file_snapshot \<Rightarrow> bool" where
  "restores env key os x z \<longleftrightarrow> fsRelativePath z = fsRelativePath x \<and> fsEncoding z = fsEncoding x \<and> fsSize z = fsSize x
     \<and> fsDeleted z = fsDeleted x \<and> fsChangeType z = fsChangeType x
     \<and> (\<not> snapshotIsDeleted x \<longrightarrow>
          fsContent z = map_option (\<lambda>b. snapshotContentFromBytes env b (js_or (fsEncoding x) ''utf8'')) (snapshot_bytes env key os x))"

lemma stored_then_hydrated:
  assumes st: "stored_as env key os os' x y" and b: "snapshotIsDeleted x \<or> snapshot_bytes env key os x \<noteq> None"
    and h: "hydrated env (object_of env key os') (serializeSnapshotForDisk y) z"
  shows "restores env key os x z"
proof -
  have y: "fsRelativePath y = fsRelativePath x" "fsEncoding y = fsEncoding x" "fsSize y = fsSize x"
    "fsDeleted y = fsDeleted x" "fsChangeType y = fsChangeType x"
    using st by (cases x; cases y; simp add: stored_as_def)+
  have z: "fsRelativePath z = fsRelativePath y" "fsEncoding z = fsEncoding y" "fsSize z = fsSize y"
    "fsDeleted z = fsDeleted y" "fsChangeType z = fsChangeType y"
    using h by (cases y; cases z; simp add: hydrated_def serializeSnapshotForDisk_def)+
  have "fsContent z = map_option (\<lambda>b. snapshotContentFromBytes env b (js_or (fsEncoding x) ''utf8'')) (snapshot_bytes env key os x)"
    if l: "\<not> snapshotIsDeleted x"
    using h stored_as_object [OF st l] b l stored_as_deleted [OF st] y(2)
    by (simp add: hydrated_def, simp add: serializeSnapshotForDisk_def)
  then show ?thesis using y z by (simp add: restores_def)
qed

text \<open>
  C3 (roundtrip): a checkpoint that was saved without an error loads again with the contents its
  snapshots stood for when it was saved (captured text, or an object that was in the store), after
  any run of saves, deletions and loads of other checkpoints, collections, index writes and reloads
  of the index, whether or not later saves fail. The codec behaves as documented, the hash does not
  collide on the contents \<open>U\<close> in play, and the store was readable with its key before.
\<close>

theorem saved_checkpoint_survives:
  assumes "engine_good env U s" and "starts_with (cpId c) ''cp_''"
    and "\<forall>x \<in> set (snapshots_of c). fresh_ok env U x
           \<and> (snapshotIsDeleted x \<or> snapshot_bytes env (engine_key s) (egObjects s) x \<noteq> None)"
    and "saveCheckpointToDisk env c s = (None, c', s')"
    and "\<forall>op \<in> set ops. step_spares env U (cpId c) op"
  shows "\<exists>d. fst (loadCheckpointFromDisk env (cpId c) (fold (store_step env) ops s')) = Inr (Some d)
    \<and> list_all2 (restores env (engine_key s) (egObjects s)) (snapshots_of c) (snapshots_of d)
    \<and> cpFileInventory d = cpFileInventory c"
proof -
  let ?f = "object_of env (engine_key s) (egObjects s')" and ?s = "fold (store_step env) ops s'"
  have ne: "cpId c \<noteq> []" using assms(2) by (auto simp: starts_with_def)
  obtain snaps where d: "durable env U (engine_key s) ?f (cpId c) (saved_record env c snaps) s'"
    and st: "list_all2 (stored_as env (engine_key s) (egObjects s) (egObjects s')) (snapshots_of c) snaps"
    using saved_durable [OF assms(1) ne _ _ assms(4)] assms(3) by blast
  have "durable env U (engine_key s) ?f (cpId c) (saved_record env c snaps) ?s"
    by (rule durable_steps [OF d assms(2,5)])
  then obtain r where r: "fst (loadCheckpointFromDisk env (cpId c) ?s) = Inr (Some r)"
    "r = (saved_record env c snaps)\<lparr>cpFileSnapshots := cpFileSnapshots r\<rparr>"
    "list_all2 (hydrated env ?f) (snapshots_of (saved_record env c snaps)) (snapshots_of r)"
    using load_loadable [of env U ?s "cpId c" "saved_record env c snaps" ?f] by (auto simp: durable_def)
  have sn: "snapshots_of (saved_record env c snaps) = map serializeSnapshotForDisk snaps"
    by (simp add: saved_record_def snapshots_of_def)
  have "list_all2 (restores env (engine_key s) (egObjects s)) (snapshots_of c) (snapshots_of r)"
  proof (rule list_all2_all_nthI)
    show len: "length (snapshots_of c) = length (snapshots_of r)"
      using st r(3) sn by (metis length_map list_all2_lengthD)
    fix k assume k: "k < length (snapshots_of c)"
    then have x: "snapshots_of c ! k \<in> set (snapshots_of c)" by simp
    have "stored_as env (engine_key s) (egObjects s) (egObjects s') (snapshots_of c ! k) (snaps ! k)"
      using st k by (simp add: list_all2_nthD)
    moreover have "snapshotIsDeleted (snapshots_of c ! k)
        \<or> snapshot_bytes env (engine_key s) (egObjects s) (snapshots_of c ! k) \<noteq> None"
      using assms(3) x by blast
    moreover have "hydrated env ?f (serializeSnapshotForDisk (snaps ! k)) (snapshots_of r ! k)"
      using r(3) k st by (metis list_all2_lengthD list_all2_nthD2 nth_map sn len)
    ultimately show "restores env (engine_key s) (egObjects s) (snapshots_of c ! k) (snapshots_of r ! k)"
      by (rule stored_then_hydrated)
  qed
  moreover have "cpFileInventory r = cpFileInventory c"
    using arg_cong [OF r(2), of cpFileInventory] by (simp add: saved_record_def)
  ultimately show ?thesis using r(1) by blast
qed

section \<open>A sample store\<close>

definition sample_engine_env :: engine_env where
  "sample_engine_env = integrity_env.extend sample_integrity_env
     \<lparr>eeIso = (\<lambda>_. ''1970-01-01T00:00:00.000Z''), eeParseDate = (\<lambda>_. Some 0), eeWriteError = (\<lambda>_. None),
      eePins = Some [], eeJsonBytes = (\<lambda>m _ _. 100 * length m)\<rparr>"

definition empty_engine :: engine where
  "empty_engine =
     \<lparr>egInitialized = True, egWorkspacePath = Some ''/w'', egMessageCheckpoints = [], egStableIdCheckpoints = [],
      egHistory = [], egBranches = [], egActiveBranchId = None, egDetachedFrom = None, egLastCheckpointTime = 0,
      egHealthIssues = [], egModifiedFiles = [], egDeletedFiles = [], egPreviousFiles = [], egSnapshotHashes = [],
      egCompress = True, egEncrypt = False, egSecrets = Some None, egMaxCheckpoints = 100, egMaxStorageBytes = 0,
      egLocallyRemoved = [], egManifests = [], egIndex = IndexMissing, egGlobalIndex = None, egObjects = empty_store,
      egStash = None, egAudit = [], egLastLoad = None, egNow = 0\<rparr>"

lemmas sample_env_simps =
  sample_engine_env_def sample_integrity_env_def sample_env_def integrity_env.defs blob_env.defs

lemma sample_engine_codec: "codec_ok sample_engine_env {''x'', ''y''}"
  using sample_codec unfolding codec_ok_def by (simp add: sample_env_simps)

lemma sample_engine_good: "engine_good sample_engine_env {''x'', ''y''} empty_engine"
  using empty_store_good [OF sample_engine_codec]
  by (simp add: engine_good_def empty_engine_def engine_key_def storeHasEncryptedBlobs_def listBlobObjectFiles_def
      empty_store_def map_filter_def)

definition text_snapshot :: "string \<Rightarrow> string \<Rightarrow> file_snapshot" where
  "text_snapshot p t = (new_snapshot p None ''utf8'' (length t) Created)\<lparr>fsContent := Some t\<rparr>"

lemma sample_captured: "captured_bytes sample_engine_env (text_snapshot p t) = Some t"
  by (simp add: captured_bytes_def text_snapshot_def new_snapshot_def snapshotIsDeleted_def
      bytesFromSnapshotContent_def normalizeCheckpointEncoding_def js_or_def sample_env_simps)

lemma sample_fresh: "t \<in> {''x'', ''y''} \<Longrightarrow> fresh_ok sample_engine_env {''x'', ''y''} (text_snapshot p t)"
  by (auto simp: fresh_ok_def sample_captured)

definition text_checkpoint :: "string \<Rightarrow> int \<Rightarrow> file_snapshot list \<Rightarrow> checkpoint_info" where
  "text_checkpoint i t xs = (new_checkpoint i ''d'' t)\<lparr>cpFileSnapshots := Some xs\<rparr>"

lemma text_checkpoint_simps [simp]:
  "cpId (text_checkpoint i t xs) = i" "snapshots_of (text_checkpoint i t xs) = xs"
  by (simp_all add: text_checkpoint_def new_checkpoint_def snapshots_of_def)

lemma sample_put:
  "putBlob sample_engine_env (engine_opts empty_engine) ''x'' (egObjects empty_engine)
     = Inr (sample_hash ''x'', write_blob_file (sample_hash ''x'') RawBlob ''x'' empty_store)"
  by (simp add: putBlob_def hashBlobBytes_def blobExists_def empty_engine_def engine_opts_def BLOB_COMPRESS_THRESHOLD_def
      Let_def sample_env_simps)

lemma sample_save:
  "\<exists>c' s'. saveCheckpointToDisk sample_engine_env (text_checkpoint i t [text_snapshot p ''x'']) empty_engine = (None, c', s')"
proof -
  have e: "bytesFromSnapshotContent sample_engine_env ''x'' ''utf8'' = ''x''"
    by (simp add: bytesFromSnapshotContent_def normalizeCheckpointEncoding_def sample_env_simps)
  have "\<exists>ys s'. ensure_snapshots sample_engine_env [text_snapshot p ''x''] empty_engine = (Inr ys, s')"
    using sample_put e
    by (simp add: ensureSnapshotBlob_def writeBlobOptions_good [OF sample_engine_good] text_snapshot_def new_snapshot_def
        snapshotIsDeleted_def js_or_def)
  then obtain ys s' where "ensure_snapshots sample_engine_env [text_snapshot p ''x''] empty_engine = (Inr ys, s')" by blast
  then show ?thesis by (simp add: saveCheckpointToDisk_def Let_def) (simp add: sample_env_simps)
qed

theorem saved_checkpoint_survives_witness:
  "let c = text_checkpoint ''cp_1'' 1 [text_snapshot ''a.ts'' ''x'']; d = text_checkpoint ''cp_2'' 2 [text_snapshot ''b.ts'' ''y''];
       s' = snd (snd (saveCheckpointToDisk sample_engine_env c empty_engine));
       s'' = fold (store_step sample_engine_env) [SaveStep d, CollectStep, DropStep ''cp_2'', SaveIndexStep, ReloadStep] s'
   in \<exists>e. fst (loadCheckpointFromDisk sample_engine_env ''cp_1'' s'') = Inr (Some e)
        \<and> list_all2 (restores sample_engine_env None empty_store) [text_snapshot ''a.ts'' ''x''] (snapshots_of e)
        \<and> cpFileInventory e = None"
proof -
  let ?c = "text_checkpoint ''cp_1'' 1 [text_snapshot ''a.ts'' ''x'']"
  let ?d = "text_checkpoint ''cp_2'' 2 [text_snapshot ''b.ts'' ''y'']"
  obtain c' s' where sv: "saveCheckpointToDisk sample_engine_env ?c empty_engine = (None, c', s')"
    using sample_save by blast
  have key: "engine_key empty_engine = None" "egObjects empty_engine = empty_store"
    by (simp_all add: engine_key_def empty_engine_def)
  have nd: "truthy (fsHash (text_snapshot p t)) = None" for p t
    by (simp add: text_snapshot_def new_snapshot_def)
  have inv0: "cpFileInventory ?c = None" by (simp add: text_checkpoint_def new_checkpoint_def)
  have "\<exists>e. fst (loadCheckpointFromDisk sample_engine_env (cpId ?c) (fold (store_step sample_engine_env)
        [SaveStep ?d, CollectStep, DropStep ''cp_2'', SaveIndexStep, ReloadStep] s')) = Inr (Some e)
      \<and> list_all2 (restores sample_engine_env (engine_key empty_engine) (egObjects empty_engine)) (snapshots_of ?c) (snapshots_of e)
      \<and> cpFileInventory e = cpFileInventory ?c"
    by (rule saved_checkpoint_survives [OF sample_engine_good _ _ sv])
       (simp_all add: starts_with_def sample_fresh snapshot_bytes_def nd sample_captured step_spares_def)
  then show ?thesis by (simp add: sv key inv0 Let_def)
qed

section \<open>Failed saves, and encryption at rest\<close>

text \<open>Storing blobs changes the objects and, at most, creates the key.\<close>

definition blob_frame :: "engine \<Rightarrow> engine \<Rightarrow> bool" where
  "blob_frame s s' \<longleftrightarrow> s' = s\<lparr>egSecrets := egSecrets s', egObjects := egObjects s'\<rparr>"

lemma blob_frameI [simp]:
  "blob_frame s s" "blob_frame s (s\<lparr>egSecrets := a, egObjects := b\<rparr>)" "blob_frame s (s\<lparr>egObjects := b\<rparr>)"
  by (simp_all add: blob_frame_def)

lemma blob_frame_trans: "blob_frame s t \<Longrightarrow> blob_frame t u \<Longrightarrow> blob_frame s u"
  by (cases s; cases t; cases u) (simp add: blob_frame_def)

lemma blob_frame_encrypt: "blob_frame s t \<Longrightarrow> egEncrypt t = egEncrypt s"
  by (cases s; cases t) (simp add: blob_frame_def)

lemma blob_frame_objects: "blob_frame s t \<Longrightarrow> blob_frame s (t\<lparr>egObjects := os\<rparr>)"
  by (erule blob_frame_trans) simp

lemma writeBlobOptions_frame:
  "blob_frame s (snd (writeBlobOptions env s))
   \<and> osFiles (egObjects (snd (writeBlobOptions env s))) = osFiles (egObjects s)"
  by (cases "egSecrets s") (auto simp: writeBlobOptions_def resolveEncryptionKey_def Let_def split: option.split)

lemma ensureSnapshotBlob_frame: "blob_frame s (snd (ensureSnapshotBlob env x s))"
proof -
  obtain r s1 where r: "writeBlobOptions env s = (r, s1)" by (cases "writeBlobOptions env s")
  have "blob_frame s s1" using writeBlobOptions_frame [of s env] by (simp add: r)
  then show ?thesis
    by (simp add: ensureSnapshotBlob_def r blob_frame_objects split: option.split sum.split prod.split)
qed

lemma ensure_snapshots_frame: "blob_frame s (snd (ensure_snapshots env xs s))"
proof (induction xs arbitrary: s)
  case (Cons x xs)
  obtain r s1 where r: "ensureSnapshotBlob env x s = (r, s1)" by (cases "ensureSnapshotBlob env x s")
  obtain r2 s2 where r2: "ensure_snapshots env xs s1 = (r2, s2)" by (cases "ensure_snapshots env xs s1")
  have a: "blob_frame s s1" using ensureSnapshotBlob_frame [of s env x] by (simp add: r)
  have "blob_frame s s2" by (rule blob_frame_trans [OF a]) (use Cons.IH [of s1] r2 in simp)
  with a show ?case by (cases r; cases r2) (simp_all add: r r2)
qed simp

text \<open>
  C33 (error): a save that fails leaves every manifest, the index, the history and the maps as they
  were, and appends one \<open>write_failed\<close> health issue with the checkpoint and the message of the
  error; the list of issues never exceeds its bound.
\<close>

theorem save_failure_keeps_manifests:
  assumes "saveCheckpointToDisk env c s = (Some e, c', s')" and "length (egHealthIssues s) \<le> MAX_HEALTH_ISSUES"
  shows "\<exists>kept sec os. s' = s\<lparr>egSecrets := sec, egObjects := os,
           egHealthIssues := kept @ [\<lparr>hiTimestamp = egNow s, hiKind = HealthWriteFailed,
             hiMessage = engine_error_message e, hiCheckpointId = Some (cpId c)\<rparr>]\<rparr>
    \<and> length kept < MAX_HEALTH_ISSUES \<and> (\<exists>old. egHealthIssues s = old @ kept)"
proof -
  define s1 where "s1 = snd (ensure_snapshots env (snapshots_of c) s)"
  let ?sec = "egSecrets s1" and ?os = "egObjects s1"
  have s1: "s1 = s\<lparr>egSecrets := ?sec, egObjects := ?os\<rparr>"
    using ensure_snapshots_frame [of s env "snapshots_of c"] by (simp only: blob_frame_def s1_def)
  let ?i = "\<lparr>hiTimestamp = egNow s, hiKind = HealthWriteFailed, hiMessage = engine_error_message e, hiCheckpointId = Some (cpId c)\<rparr>"
  let ?n = "Suc (length (egHealthIssues s)) - MAX_HEALTH_ISSUES"
  have s': "s' = recordHealthIssue HealthWriteFailed (engine_error_message e) (Some (cpId c)) s1"
    using assms(1)
    by (cases rule: saveCheckpointToDisk_cases [where env = env and c = c and s = s]) (auto simp: s1_def)
  have f: "egHealthIssues s1 = egHealthIssues s" "egNow s1 = egNow s" by (subst s1, simp)+
  have "s' = s1\<lparr>egHealthIssues := drop ?n (egHealthIssues s) @ [?i]\<rparr>"
    using assms(2) by (auto simp: s' f recordHealthIssue_def Let_def MAX_HEALTH_ISSUES_def)
  then have "s' = s\<lparr>egSecrets := ?sec, egObjects := ?os, egHealthIssues := drop ?n (egHealthIssues s) @ [?i]\<rparr>"
    using s1 by simp
  moreover have "egHealthIssues s = take ?n (egHealthIssues s) @ drop ?n (egHealthIssues s)" by simp
  moreover have "length (drop ?n (egHealthIssues s)) < MAX_HEALTH_ISSUES" by (simp add: MAX_HEALTH_ISSUES_def)
  ultimately show ?thesis by blast
qed

text \<open>What a store holds after encrypted writes: the files it held, and encrypted ones.\<close>

definition only_encrypted_new :: "object_store \<Rightarrow> object_store \<Rightarrow> bool" where
  "only_encrypted_new os os' \<longleftrightarrow>
     (\<forall>p b. jm_get (osFiles os') p = Some b \<longrightarrow> jm_get (osFiles os) p = Some b \<or> isEncryptedBlobBytes b)"

lemma only_encrypted_trans:
  "only_encrypted_new a b \<Longrightarrow> only_encrypted_new b c \<Longrightarrow> only_encrypted_new a c"
  unfolding only_encrypted_new_def by blast

lemma encrypted_header: "encryptBlobPayload env d b key gz = Inr enc \<Longrightarrow> isEncryptedBlobBytes enc"
  by (auto simp: encryptBlobPayload_def isEncryptedBlobBytes_def blob_header_def MAGIC_def Let_def
      split: sum.splits prod.splits)

lemma putBlob_encrypted:
  "putBlob env opts b s = Inr (h, s') \<Longrightarrow> poEncrypt opts = Some True \<Longrightarrow> h = neSha env b \<and> only_encrypted_new s s'"
  by (auto simp: putBlob_def hashBlobBytes_def only_encrypted_new_def write_blob_file_def Let_def encrypted_header
      split: if_splits option.splits sum.splits)

lemma writeBlobOptions_encrypt:
  "writeBlobOptions env s = (Inr opts, s') \<Longrightarrow> egEncrypt s \<Longrightarrow>
   poEncrypt opts = Some True \<and> egEncrypt s' \<and> only_encrypted_new (egObjects s) (egObjects s')"
  by (auto simp: writeBlobOptions_def resolveEncryptionKey_def only_encrypted_new_def Let_def split: option.splits if_splits)

definition sealed_snapshot :: "file_snapshot \<Rightarrow> bool" where
  "sealed_snapshot y \<longleftrightarrow> snapshotIsDeleted y \<or> truthy (fsHash y) \<noteq> None \<or> fsContent y = None"

lemma ensureSnapshotBlob_encrypted:
  assumes "egEncrypt s" and "\<forall>b. neSha env b \<noteq> []" and r: "ensureSnapshotBlob env x s = (r, s')"
  shows "egEncrypt s' \<and> only_encrypted_new (egObjects s) (egObjects s') \<and> (\<forall>y. r = Inr y \<longrightarrow> sealed_snapshot y)"
proof -
  have refl: "only_encrypted_new os os" for os by (simp add: only_encrypted_new_def)
  obtain w s1 where w: "writeBlobOptions env s = (w, s1)" by (cases "writeBlobOptions env s")
  have e1: "egEncrypt s1 \<and> only_encrypted_new (egObjects s) (egObjects s1)"
    using writeBlobOptions_frame [of s env] assms(1) blob_frame_encrypt [of s s1]
    by (simp add: w only_encrypted_new_def)
  show ?thesis
  proof (cases "snapshotIsDeleted x \<or> truthy (fsHash x) \<noteq> None \<or> fsContent x = None \<or> (\<exists>e. w = Inl e)")
    case True
    then show ?thesis using r e1 refl assms(1)
      by (auto simp: ensureSnapshotBlob_def w sealed_snapshot_def split: if_splits option.splits sum.splits)
  next
    case False
    then obtain t opts where t: "fsContent x = Some t" "w = Inr opts" by (cases w) auto
    have o: "poEncrypt opts = Some True" using writeBlobOptions_encrypt [of env s opts s1] w t(2) assms(1) by simp
    let ?b = "bytesFromSnapshotContent env t (js_or (fsEncoding x) ''utf8'')"
    have e: "ensureSnapshotBlob env x s = (case putBlob env opts ?b (egObjects s1) of
        Inl e \<Rightarrow> (Inl (BlobFailure e), s1) | Inr (h, os) \<Rightarrow> (Inr (x\<lparr>fsHash := Some h\<rparr>), s1\<lparr>egObjects := os\<rparr>))"
      using False t by (simp add: ensureSnapshotBlob_def w)
    show ?thesis
    proof (cases "putBlob env opts ?b (egObjects s1)")
      case (Inl err)
      then show ?thesis using r e e1 by auto
    next
      case (Inr q)
      obtain h os where q: "q = (h, os)" by (cases q)
      note n = putBlob_encrypted [OF Inr [unfolded q] o]
      have "sealed_snapshot (x\<lparr>fsHash := Some h\<rparr>)"
        using n assms(2) by (simp add: sealed_snapshot_def truthy_None_iff)
      moreover have "only_encrypted_new (egObjects s) os" using only_encrypted_trans n e1 by blast
      ultimately show ?thesis using r e e1 Inr q by auto
    qed
  qed
qed

lemma ensure_snapshots_encrypted:
  "egEncrypt s \<Longrightarrow> \<forall>b. neSha env b \<noteq> [] \<Longrightarrow> ensure_snapshots env xs s = (r, s') \<Longrightarrow>
   only_encrypted_new (egObjects s) (egObjects s') \<and> (\<forall>ys. r = Inr ys \<longrightarrow> list_all sealed_snapshot ys)"
proof (induction xs arbitrary: s r s')
  case Nil
  then show ?case by (auto simp: only_encrypted_new_def)
next
  case (Cons x xs)
  obtain q s1 where q: "ensureSnapshotBlob env x s = (q, s1)" by (cases "ensureSnapshotBlob env x s")
  note e = ensureSnapshotBlob_encrypted [OF Cons.prems(1,2) q]
  obtain q2 s2 where q2: "ensure_snapshots env xs s1 = (q2, s2)" by (cases "ensure_snapshots env xs s1")
  have i: "only_encrypted_new (egObjects s1) (egObjects s2) \<and> (\<forall>ys. q2 = Inr ys \<longrightarrow> list_all sealed_snapshot ys)"
    using Cons.IH [OF _ Cons.prems(2) q2] e by blast
  show ?case using Cons.prems(3) e i only_encrypted_trans by (cases q; cases q2) (auto simp: q q2)
qed

text \<open>
  C34 (safety): with encryption at rest a save never writes a plain object and never leaves the text
  of a live file in a manifest: every file that the save adds to the store, also when it fails half
  way, is an encrypted object, and the manifest it writes holds no content of a live snapshot.
\<close>

theorem save_encryption_at_rest:
  assumes "egEncrypt s" and "\<forall>b. neSha env b \<noteq> []" and "saveCheckpointToDisk env c s = (e, c', s')"
  shows "only_encrypted_new (egObjects s) (egObjects s')
    \<and> (\<forall>data x. e = None \<longrightarrow> jm_get (egManifests s') (cpId c) = Some (ManifestJson data) \<longrightarrow>
         x \<in> set (snapshots_of data) \<longrightarrow> \<not> snapshotIsDeleted x \<longrightarrow> fsContent x = None)"
proof (cases rule: saveCheckpointToDisk_cases [where env = env and c = c and s = s])
  case (blob err s1)
  then show ?thesis using assms(3) ensure_snapshots_encrypted [OF assms(1,2) blob(1)] by auto
next
  case (io snaps s1 m c'')
  then show ?thesis using assms(3) ensure_snapshots_encrypted [OF assms(1,2) io(1)] by auto
next
  case (saved snaps s1)
  have n: "only_encrypted_new (egObjects s) (egObjects s1)" "list_all sealed_snapshot snaps"
    using ensure_snapshots_encrypted [OF assms(1,2) saved(1)] by simp_all
  have "fsContent (serializeSnapshotForDisk y) = None" if "y \<in> set snaps" "\<not> snapshotIsDeleted y" for y
    using n(2) that by (auto simp: list_all_iff sealed_snapshot_def serializeSnapshotForDisk_def)
  then show ?thesis using saved(2) assms(3) n(1) by (auto simp: saved_record_def snapshots_of_def)
qed


text \<open>Encryption without a place for the key.\<close>

definition locked_engine :: engine where
  "locked_engine = empty_engine\<lparr>egEncrypt := True, egSecrets := None\<rparr>"

lemma locked_save:
  "saveCheckpointToDisk sample_engine_env (text_checkpoint ''cp_1'' 1 [text_snapshot ''a.ts'' ''x'']) locked_engine
   = (Some (BlobFailure no_secret_storage), text_checkpoint ''cp_1'' 1 [text_snapshot ''a.ts'' ''x''],
      recordHealthIssue HealthWriteFailed (blob_error_message no_secret_storage) (Some ''cp_1'') locked_engine)"
  by (simp add: saveCheckpointToDisk_def ensureSnapshotBlob_def text_snapshot_def new_snapshot_def snapshotIsDeleted_def
      writeBlobOptions_def resolveEncryptionKey_def locked_engine_def)

theorem save_failure_keeps_manifests_witness:
  "let r = saveCheckpointToDisk sample_engine_env (text_checkpoint ''cp_1'' 1 [text_snapshot ''a.ts'' ''x'']) locked_engine
   in fst r = Some (BlobFailure no_secret_storage)
      \<and> (\<exists>kept sec os. snd (snd r) = locked_engine\<lparr>egSecrets := sec, egObjects := os,
           egHealthIssues := kept @ [\<lparr>hiTimestamp = 0, hiKind = HealthWriteFailed,
             hiMessage = engine_error_message (BlobFailure no_secret_storage), hiCheckpointId = Some ''cp_1''\<rparr>]\<rparr>
         \<and> length kept < MAX_HEALTH_ISSUES \<and> (\<exists>old. egHealthIssues locked_engine = old @ kept))"
proof -
  have l: "length (egHealthIssues locked_engine) \<le> MAX_HEALTH_ISSUES" "egNow locked_engine = 0"
    by (simp_all add: locked_engine_def empty_engine_def)
  show ?thesis using save_failure_keeps_manifests [OF locked_save l(1)] unfolding l(2) locked_save by (simp add: Let_def)
qed

theorem save_encryption_at_rest_witness:
  "let s = locked_engine\<lparr>egSecrets := Some None\<rparr>;
       s' = snd (snd (saveCheckpointToDisk sample_engine_env (text_checkpoint ''cp_1'' 1 [text_snapshot ''a.ts'' ''x'']) s))
   in only_encrypted_new empty_store (egObjects s')"
proof -
  let ?s = "locked_engine\<lparr>egSecrets := Some None\<rparr>" and ?c = "text_checkpoint ''cp_1'' 1 [text_snapshot ''a.ts'' ''x'']"
  obtain e c' s' where sv: "saveCheckpointToDisk sample_engine_env ?c ?s = (e, c', s')"
    by (cases "saveCheckpointToDisk sample_engine_env ?c ?s")
  have "egEncrypt ?s" "\<forall>b. neSha sample_engine_env b \<noteq> []" "egObjects ?s = empty_store"
    by (simp_all add: locked_engine_def empty_engine_def sample_env_simps sample_hash_def)
  then show ?thesis using save_encryption_at_rest [OF _ _ sv] sv by (simp add: Let_def)
qed

end
