(* ===== verification/IndexFacts.thy ===== *)
theory IndexFacts
  imports StoreSafety
begin

text \<open>
  What the index of a store promises (\<open>manager/persistence.ts\<close>): what one window writes another
  one reads back, a merge with the index on disk loses no checkpoint of either window and resurrects
  none that was removed here, and a lost index is rebuilt from the readable manifests.
\<close>

section \<open>Index records\<close>

lemma nonzero_idem [simp]: "Option.bind (nonzero n) nonzero = nonzero n"
  by (simp add: nonzero_def)

lemma bind_nonzero_idem [simp]: "Option.bind (Option.bind x nonzero) nonzero = Option.bind x nonzero"
  by (cases x) simp_all

lemma toIndexRecord_idem [simp]: "toIndexRecord env (toIndexRecord env c) = toIndexRecord env c"
proof -
  have w: "(case (case cpWorkspaceKey c of Some k \<Rightarrow> Some k | None \<Rightarrow> x) of Some k \<Rightarrow> Some k | None \<Rightarrow> x)
      = (case cpWorkspaceKey c of Some k \<Rightarrow> Some k | None \<Rightarrow> x)" for x
    by (simp split: option.split)
  have p: "map_option (filter P) (map_option (filter P) l) = map_option (filter P) l" for P and l :: "string list option"
    by (simp add: option.map_comp comp_def)
  have s: "computeCheckpointFileStats (toIndexRecord env c) = computeCheckpointFileStats c"
    by (simp add: toIndexRecord_def computeCheckpointFileStats_def snapshots_of_def Let_def split: option.split)
  have q: "cpWorkspacePath (toIndexRecord env c) = cpWorkspacePath c" by (simp add: toIndexRecord_def)
  show ?thesis unfolding toIndexRecord_def [of env "toIndexRecord env c"] s q
    by (simp add: toIndexRecord_def w p)
qed

lemma toIndexRecord_fields [simp]:
  "cpId (toIndexRecord env c) = cpId c" "cpCreated (toIndexRecord env c) = cpCreated c"
  "cpMessageId (toIndexRecord env c) = cpMessageId c" "cpStableId (toIndexRecord env c) = cpStableId c"
  "cpBranchId (toIndexRecord env c) = cpBranchId c" "cpParentCheckpointId (toIndexRecord env c) = cpParentCheckpointId c"
  "cpPinned (toIndexRecord env c) = cpPinned c" "cpFileStats (toIndexRecord env c) \<noteq> None"
  "cpWorkspacePath (toIndexRecord env c) = cpWorkspacePath c"
  by (simp_all add: toIndexRecord_def)

definition indexed :: "'a engine_env_scheme \<Rightarrow> checkpoint_info \<Rightarrow> bool" where
  "indexed env c \<longleftrightarrow> toIndexRecord env c = c"

lemma indexed_toIndexRecord [simp]: "indexed env (toIndexRecord env c)"
  by (simp add: indexed_def)

lemma indexed_stats: "indexed env c \<Longrightarrow> cpFileStats c \<noteq> None"
  by (metis indexed_def toIndexRecord_fields(8))

section \<open>Reading what was written\<close>

definition detached_wf :: "detached_state option \<Rightarrow> bool" where
  "detached_wf d \<longleftrightarrow> (case d of None \<Rightarrow> True | Some x \<Rightarrow> dtCheckpointId x \<noteq> [] \<and> js_trim (dtCheckpointId x) = dtCheckpointId x
     \<and> (case dtPreviousBranchId x of None \<Rightarrow> True | Some b \<Rightarrow> b \<noteq> [] \<and> js_trim b = b))"

lemma parse_detached: "detached_wf d \<Longrightarrow> parseDetachedFrom (detachedJson d) = d"
proof (cases d)
  case None
  then show ?thesis by (simp add: parseDetachedFrom_def detachedJson_def jnonblank_def)
next
  case (Some x)
  assume "detached_wf d"
  with Some show ?thesis
    by (cases x; cases "dtPreviousBranchId x")
       (auto simp: parseDetachedFrom_def detachedJson_def jnonblank_def jopt_def detached_wf_def)
qed

text \<open>A state whose branch pointers can be written: what the branch operations produce.\<close>

definition index_writable :: "'a engine_env_scheme \<Rightarrow> engine \<Rightarrow> bool" where
  "index_writable env s \<longleftrightarrow> list_all branch_wf (egBranches s) \<and> detached_wf (egDetachedFrom s)
     \<and> list_all (\<lambda>b. eeParseDate env (eeIso env (brCreatedAt b)) = Some (brCreatedAt b)) (egBranches s)
     \<and> (case egActiveBranchId s of
          None \<Rightarrow> egBranches s = [] | Some b \<Rightarrow> b \<in> brId ` set (egBranches s) \<and> js_trim b \<noteq> [])"

lemma read_written:
  assumes "index_writable env s" and h: "egHistory s = map (toIndexRecord env) h"
  shows "readIndexFile env now (IndexJson (index_payload_of env s)) = Some
    \<lparr>liMessageCheckpoints = egMessageCheckpoints s, liStableIdCheckpoints = egStableIdCheckpoints s,
     liCheckpointHistory = egHistory s, liBranches = egBranches s, liActiveBranchId = egActiveBranchId s,
     liDetachedFrom = egDetachedFrom s, liIndexVersion = Some CHECKPOINT_INDEX_VERSION, liFat = False\<rparr>"
proof -
  have b: "parseBranches (eeParseDate env) now (JArr (map (serializeBranch (eeIso env)) (egBranches s))) = egBranches s"
    using assms(1) by (simp add: index_writable_def list_all_iff parseBranches_def map_filter_all_Some parseBranch_serializeBranch)
  have i: "map (toIndexRecord env \<circ> toIndexRecord env) h = map (toIndexRecord env) h" by simp
  have f: "\<not> indexLooksFat (map (toIndexRecord env \<circ> toIndexRecord env) h)"
    by (simp add: indexLooksFat_def list_ex_iff toIndexRecord_def snapshots_of_def)
  show ?thesis
    using assms(1) parse_detached [of "egDetachedFrom s"]
    by (auto simp: readIndexFile_def parseIndexPayload_def index_payload_of_def h b f index_writable_def
        split: option.splits)
qed

lemma rebuild_step_maps:
  assumes "cpFileStats c \<noteq> None"
  shows "rebuild_step env hid c s = s\<lparr>egSnapshotHashes := egSnapshotHashes (rebuild_step env hid c s),
     egPreviousFiles := egPreviousFiles (rebuild_step env hid c s)\<rparr>"
  using assms by (auto simp: rebuild_step_def applySnapshotHashes_def Let_def split: load_result.split option.split)

lemma rebuild_fold_maps:
  "\<forall>c \<in> set cs. cpFileStats c \<noteq> None \<Longrightarrow> \<exists>h p. fold (rebuild_step env hid) cs s = s\<lparr>egSnapshotHashes := h, egPreviousFiles := p\<rparr>"
proof (induction cs arbitrary: s)
  case Nil
  show ?case by (intro exI [of _ "egSnapshotHashes s"] exI [of _ "egPreviousFiles s"]) simp
next
  case (Cons c cs)
  obtain h p where "rebuild_step env hid c s = s\<lparr>egSnapshotHashes := h, egPreviousFiles := p\<rparr>"
    using rebuild_step_maps Cons.prems by (metis list.set_intros(1))
  then show ?case using Cons.IH [of "rebuild_step env hid c s"] Cons.prems by fastforce
qed

lemma chronologicalUpTo_subset: "chronologicalUpTo hist t = Some xs \<Longrightarrow> set xs \<subseteq> set hist"
  by (auto simp: chronologicalUpTo_def sortCheckpointsByCreated_def Let_def dest: in_set_takeD split: option.splits)

lemma lineage_walk_subset: "cur \<in> set hist \<Longrightarrow> set (lineage_walk hist seen chain cur) \<subseteq> set hist \<union> set chain"
proof (induction hist seen chain cur rule: lineage_walk.induct)
  case (1 hist seen chain cur)
  show ?case
  proof (cases "cpId cur \<in> set seen")
    case False
    show ?thesis
    proof (cases "Option.bind (parentOf cur) (by_id hist)")
      case None
      then have "lineage_walk hist seen chain cur = cur # chain"
        using False by (subst lineage_walk.simps) (auto split: option.split)
      then show ?thesis using 1(2) by simp
    next
      case (Some par)
      then obtain p where p: "parentOf cur = Some p" "by_id hist p = Some par" by (cases "parentOf cur") auto
      then have "lineage_walk hist seen chain cur = lineage_walk hist (cpId cur # seen) (cur # chain) par"
        using False by (subst lineage_walk.simps) simp
      then show ?thesis using 1(1) [OF False p] by_id_Some [OF p(2)] 1(2) by auto
    qed
  qed (simp add: lineage_walk.simps [of hist seen chain cur])
qed

lemma lineage_subset: "lineageCheckpoints hist t = Some xs \<Longrightarrow> set xs \<subseteq> set hist"
proof -
  assume l: "lineageCheckpoints hist t = Some xs"
  then obtain c where c: "by_id hist t = Some c" by (auto simp: lineageCheckpoints_def split: option.splits)
  have w: "set (lineage_walk hist [] [] c) \<subseteq> set hist" using lineage_walk_subset [of c hist "[]" "[]"] by_id_Some [OF c] by simp
  have f: "set (filter P (or_default (chronologicalUpTo hist i) [])) \<subseteq> set hist" for P i
    using chronologicalUpTo_subset [of hist i] by (cases "chronologicalUpTo hist i") auto
  show ?thesis
  proof (cases "parentOf c = None")
    case True
    then show ?thesis using l c chronologicalUpTo_subset by (simp add: lineageCheckpoints_def)
  next
    case False
    then have "xs = lineage_walk hist [] [] c \<or> (\<exists>P i. xs = filter P (or_default (chronologicalUpTo hist i) []) @ lineage_walk hist [] [] c)"
      using l c by (auto simp: lineageCheckpoints_def Let_def split: list.splits if_splits)
    then show ?thesis using w f by (elim disjE exE) (simp_all only: set_append Un_least)
  qed
qed

text \<open>With statistics on every record, the rebuild of the hashes changes only what is derived from manifests.\<close>

lemma rebuild_hashes_frame:
  assumes "\<forall>c \<in> set (egHistory s). cpFileStats c \<noteq> None"
  shows "\<exists>h p t. rebuildSnapshotHashIndexFromDisk env s
    = s\<lparr>egSnapshotHashes := h, egPreviousFiles := p, egLastCheckpointTime := t\<rparr>"
proof -
  define chr where "chr = sort_by_created (egHistory s)"
  define hid where "hid = head_of_index s chr"
  define chain where "chain = (case truthy hid of Some h \<Rightarrow> or_default (lineageCheckpoints chr h) chr | None \<Rightarrow> chr)"
  have set: "set chr = set (egHistory s)" by (simp add: chr_def sort_by_created_def)
  have "set chain \<subseteq> set chr"
  proof (cases "truthy hid")
    case (Some h)
    then show ?thesis using lineage_subset [of chr h] by (cases "lineageCheckpoints chr h") (simp_all add: chain_def)
  qed (simp add: chain_def)
  then have "\<forall>c \<in> set chain. cpFileStats c \<noteq> None" using assms set by blast
  then obtain h p where f: "fold (rebuild_step env hid) chain (s\<lparr>egSnapshotHashes := []\<rparr>) = s\<lparr>egSnapshotHashes := h, egPreviousFiles := p\<rparr>"
    using rebuild_fold_maps [of chain env hid "s\<lparr>egSnapshotHashes := []\<rparr>"] by auto
  have id: "\<exists>a b t. s\<lparr>egSnapshotHashes := h, egPreviousFiles := p\<rparr>
      = s\<lparr>egSnapshotHashes := a, egPreviousFiles := b, egLastCheckpointTime := t\<rparr>"
    by (intro exI [of _ h] exI [of _ p] exI [of _ "egLastCheckpointTime s"]) simp
  show ?thesis
    unfolding rebuildSnapshotHashIndexFromDisk_def Let_def chr_def [symmetric] hid_def [symmetric] chain_def [symmetric] f
    using id by (cases "truthy hid") (auto split: option.split)
qed

lemma saved_index:
  assumes "eeWriteError env ''index.json'' = None"
  shows "egIndex (saveCheckpointHistory env s) = IndexJson (index_payload_of env (saveCheckpointHistory env s))
    \<and> (\<exists>h. egHistory (saveCheckpointHistory env s) = map (toIndexRecord env) h)"
  using assms
  by (auto simp: saveCheckpointHistory_def saveCheckpointHistoryUnlocked_def Let_def index_payload_of_def)

text \<open>
  C28 (roundtrip): what one window writes with \<open>saveCheckpointHistory\<close> another window (or the next
  session) loads: the same checkpoints in the same order, the same message and stable-id maps, the
  same branches, active branch and detached checkpoint, with its other files and settings untouched.
\<close>

theorem index_roundtrip:
  assumes "eeWriteError env ''index.json'' = None" and "t = saveCheckpointHistory env s" and "index_writable env t"
  shows "let w' = loadIndexFromCurrentStore env (w\<lparr>egIndex := egIndex t\<rparr>)
    in egHistory w' = egHistory t \<and> egMessageCheckpoints w' = egMessageCheckpoints t
       \<and> egStableIdCheckpoints w' = egStableIdCheckpoints t \<and> egBranches w' = egBranches t
       \<and> egActiveBranchId w' = egActiveBranchId t \<and> egDetachedFrom w' = egDetachedFrom t
       \<and> egManifests w' = egManifests w \<and> egObjects w' = egObjects w \<and> egHealthIssues w' = egHealthIssues w"
proof -
  obtain h where t: "egIndex t = IndexJson (index_payload_of env t)" "egHistory t = map (toIndexRecord env) h"
    using saved_index [OF assms(1)] assms(2) by blast
  define li where "li = \<lparr>liMessageCheckpoints = egMessageCheckpoints t, liStableIdCheckpoints = egStableIdCheckpoints t,
     liCheckpointHistory = egHistory t, liBranches = egBranches t, liActiveBranchId = egActiveBranchId t,
     liDetachedFrom = egDetachedFrom t, liIndexVersion = Some CHECKPOINT_INDEX_VERSION, liFat = False\<rparr>"
  let ?w = "w\<lparr>egIndex := egIndex t\<rparr>"
  define u where "u = applyLoadedIndex li ?w"
  have r: "readIndexFile env (egNow ?w) (egIndex ?w) = Some li"
    unfolding li_def using read_written [OF assms(3) t(2)] by (simp add: t(1))
  have act: "egActiveBranchId u = egActiveBranchId t"
    using assms(3) by (auto simp: u_def applyLoadedIndex_def li_def index_writable_def first_opt_def truthy_Some_iff
        split: option.splits) (auto simp: js_trim_def)
  have st: "\<forall>c \<in> set (egHistory u). cpFileStats c \<noteq> None"
    by (auto simp: u_def applyLoadedIndex_def li_def t(2) toIndexRecord_fields(8) simp del: not_None_eq)
  obtain a b c where f: "rebuildSnapshotHashIndexFromDisk env u
      = u\<lparr>egSnapshotHashes := a, egPreviousFiles := b, egLastCheckpointTime := c\<rparr>"
    using rebuild_hashes_frame [OF st] by blast
  have "loadIndexFromCurrentStore env ?w = u\<lparr>egSnapshotHashes := a, egPreviousFiles := b, egLastCheckpointTime := c\<rparr>"
    using r f by (simp add: loadIndexFromCurrentStore_def u_def)
  then show ?thesis using act by (simp add: u_def applyLoadedIndex_def li_def Let_def)
qed

definition sample_branch :: checkpoint_branch where
  "sample_branch = \<lparr>brId = ''br_1'', brName = ''main'', brHead = ''cp_1'', brBase = ''cp_1'', brParent = None,
     brCreatedAt = 0, brDescription = None\<rparr>"

definition sample_window :: engine where
  "sample_window = empty_engine\<lparr>egHistory := [text_checkpoint ''cp_1'' 1 []], egBranches := [sample_branch],
     egActiveBranchId := Some ''br_1'', egMessageCheckpoints := [(''m'', ''cp_1'')]\<rparr>"

lemma sample_window_saved:
  "saveCheckpointHistory sample_engine_env sample_window =
     sample_window\<lparr>egHistory := [toIndexRecord sample_engine_env (text_checkpoint ''cp_1'' 1 [])],
       egIndex := egIndex (saveCheckpointHistory sample_engine_env sample_window)\<rparr>"
  by (simp add: saveCheckpointHistory_def saveCheckpointHistoryUnlocked_def mergeForeignIndexEntries_def readIndexFile_def
      sample_window_def empty_engine_def Let_def sample_env_simps)

theorem index_roundtrip_witness:
  "let t = saveCheckpointHistory sample_engine_env sample_window;
       w' = loadIndexFromCurrentStore sample_engine_env (empty_engine\<lparr>egIndex := egIndex t\<rparr>)
   in map cpId (egHistory w') = [''cp_1''] \<and> egBranches w' = [sample_branch] \<and> egActiveBranchId w' = Some ''br_1''
      \<and> jm_get (egMessageCheckpoints w') ''m'' = Some ''cp_1'' \<and> egHealthIssues w' = []"
proof -
  let ?t = "saveCheckpointHistory sample_engine_env sample_window"
  have f: "map cpId (egHistory ?t) = [''cp_1'']" "egBranches ?t = [sample_branch]" "egActiveBranchId ?t = Some ''br_1''"
    "egMessageCheckpoints ?t = [(''m'', ''cp_1'')]" "egDetachedFrom ?t = None"
    by (subst sample_window_saved, simp add: sample_window_def empty_engine_def)+
  have w: "eeWriteError sample_engine_env ''index.json'' = None" by (simp add: sample_env_simps)
  have ok: "index_writable sample_engine_env ?t"
    unfolding index_writable_def f
    by (simp add: branch_wf_def sample_branch_def detached_wf_def js_trim_def js_space_def sample_env_simps)
  show ?thesis using index_roundtrip [OF w refl ok, of empty_engine] f by (simp add: Let_def empty_engine_def)
qed

section \<open>Merging with the index of another window\<close>

lemma merge_entry_cases:
  "merge_entry e (s, n) = (s, n) \<and> (cpId e \<in> cpId ` set (egHistory s) \<or> cpId e \<in> set (egLocallyRemoved s) \<or> jm_get (egManifests s) (cpId e) = None)
   \<or> cpId e \<notin> cpId ` set (egHistory s) \<and> cpId e \<notin> set (egLocallyRemoved s) \<and> jm_get (egManifests s) (cpId e) \<noteq> None
     \<and> (\<exists>m k. merge_entry e (s, n) = (s\<lparr>egHistory := egHistory s @ [e], egMessageCheckpoints := m, egStableIdCheckpoints := k\<rparr>, n + 1)
         \<and> (\<forall>i v. jm_get (egMessageCheckpoints s) i = Some v \<and> v \<noteq> [] \<longrightarrow> jm_get m i = Some v)
         \<and> (\<forall>i v. jm_get (egStableIdCheckpoints s) i = Some v \<and> v \<noteq> [] \<longrightarrow> jm_get k i = Some v))"
proof -
  have keep: "jm_get m i = Some v \<Longrightarrow> v \<noteq> [] \<Longrightarrow> jm_get (set_if_missing k w m) i = Some v" for m i v k w
    by (cases "truthy k") (auto simp: set_if_missing_def truthy_None_iff)
  show ?thesis
  proof (cases "cpId e \<in> cpId ` set (egHistory s) \<or> cpId e \<in> set (egLocallyRemoved s) \<or> jm_get (egManifests s) (cpId e) = None")
    case True
    then show ?thesis by (intro disjI1) (auto simp: merge_entry_def)
  next
    case False
    then show ?thesis
      by (intro disjI2 conjI exI [of _ "set_if_missing (cpMessageId e) (cpId e) (egMessageCheckpoints s)"]
            exI [of _ "set_if_missing (cpStableId e) (cpId e) (egStableIdCheckpoints s)"])
         (auto simp: merge_entry_def intro!: keep)
  qed
qed

definition accepts_foreign :: "engine \<Rightarrow> checkpoint_info \<Rightarrow> bool" where
  "accepts_foreign s e \<longleftrightarrow> cpId e \<notin> set (egLocallyRemoved s) \<and> jm_get (egManifests s) (cpId e) \<noteq> None"

lemma merge_entries:
  "\<exists>add m k. fold merge_entry es (s, n) = (s\<lparr>egHistory := egHistory s @ add, egMessageCheckpoints := m, egStableIdCheckpoints := k\<rparr>, n + length add)
     \<and> set add \<subseteq> {e \<in> set es. accepts_foreign s e}
     \<and> cpId ` set (egHistory s @ add) = cpId ` set (egHistory s) \<union> cpId ` {e \<in> set es. accepts_foreign s e}
     \<and> (distinct (map cpId (egHistory s)) \<longrightarrow> distinct (map cpId (egHistory s @ add)))
     \<and> (\<forall>i v. jm_get (egMessageCheckpoints s) i = Some v \<and> v \<noteq> [] \<longrightarrow> jm_get m i = Some v)
     \<and> (\<forall>i v. jm_get (egStableIdCheckpoints s) i = Some v \<and> v \<noteq> [] \<longrightarrow> jm_get k i = Some v)"
proof (induction es arbitrary: s n)
  case Nil
  show ?case by (intro exI [of _ "[]"] exI [of _ "egMessageCheckpoints s"] exI [of _ "egStableIdCheckpoints s"]) simp
next
  case (Cons e es)
  consider (skip) "merge_entry e (s, n) = (s, n)" "cpId e \<in> cpId ` set (egHistory s) \<or> \<not> accepts_foreign s e"
    | (add) m k where "merge_entry e (s, n) = (s\<lparr>egHistory := egHistory s @ [e], egMessageCheckpoints := m, egStableIdCheckpoints := k\<rparr>, n + 1)"
      "cpId e \<notin> cpId ` set (egHistory s)" "accepts_foreign s e"
      "\<forall>i v. jm_get (egMessageCheckpoints s) i = Some v \<and> v \<noteq> [] \<longrightarrow> jm_get m i = Some v"
      "\<forall>i v. jm_get (egStableIdCheckpoints s) i = Some v \<and> v \<noteq> [] \<longrightarrow> jm_get k i = Some v"
    using merge_entry_cases [of e s n] by (auto simp: accepts_foreign_def)
  then show ?case
  proof cases
    case skip
    obtain add m k where "fold merge_entry es (s, n) = (s\<lparr>egHistory := egHistory s @ add, egMessageCheckpoints := m, egStableIdCheckpoints := k\<rparr>, n + length add)"
     "set add \<subseteq> {e \<in> set es. accepts_foreign s e}"
     "cpId ` set (egHistory s @ add) = cpId ` set (egHistory s) \<union> cpId ` {e \<in> set es. accepts_foreign s e}"
     "distinct (map cpId (egHistory s)) \<longrightarrow> distinct (map cpId (egHistory s @ add))"
     "\<forall>i v. jm_get (egMessageCheckpoints s) i = Some v \<and> v \<noteq> [] \<longrightarrow> jm_get m i = Some v"
     "\<forall>i v. jm_get (egStableIdCheckpoints s) i = Some v \<and> v \<noteq> [] \<longrightarrow> jm_get k i = Some v"
      using Cons.IH [of s n] by blast
    then show ?thesis using skip by (intro exI [of _ add] exI [of _ m] exI [of _ k]) auto
  next
    case (add m k)
    let ?s = "s\<lparr>egHistory := egHistory s @ [e], egMessageCheckpoints := m, egStableIdCheckpoints := k\<rparr>"
    have a: "accepts_foreign ?s = accepts_foreign s" by (simp add: accepts_foreign_def fun_eq_iff)
    obtain add' m' k' where r: "fold merge_entry es (?s, n + 1) = (?s\<lparr>egHistory := egHistory ?s @ add', egMessageCheckpoints := m', egStableIdCheckpoints := k'\<rparr>, n + 1 + length add')"
     "set add' \<subseteq> {e \<in> set es. accepts_foreign s e}"
     "cpId ` set (egHistory ?s @ add') = cpId ` set (egHistory ?s) \<union> cpId ` {e \<in> set es. accepts_foreign s e}"
     "distinct (map cpId (egHistory ?s)) \<longrightarrow> distinct (map cpId (egHistory ?s @ add'))"
     "\<forall>i v. jm_get m i = Some v \<and> v \<noteq> [] \<longrightarrow> jm_get m' i = Some v"
     "\<forall>i v. jm_get k i = Some v \<and> v \<noteq> [] \<longrightarrow> jm_get k' i = Some v"
      using Cons.IH [of ?s "n + 1"] unfolding a by auto
    show ?thesis
      by (intro exI [of _ "e # add'"] exI [of _ m'] exI [of _ k'])
         (use r add in \<open>auto simp: image_iff\<close>)
  qed
qed

lemma sort_by_created_set [simp]: "set (sort_by_created cs) = set cs" "length (sort_by_created cs) = length cs"
  by (simp_all add: sort_by_created_def)

lemma sort_by_created_distinct [simp]: "distinct (map cpId (sort_by_created cs)) = distinct (map cpId cs)"
  by (rule mset_eq_imp_distinct_iff) (simp add: sort_by_created_def)

lemma merge_frame:
  assumes "readIndexFile env (egNow s) (egIndex s) = Some stored"
  shows "\<exists>add m k bs a d h. mergeForeignIndexEntries env s = (length add, s\<lparr>egHistory := h, egMessageCheckpoints := m,
        egStableIdCheckpoints := k, egBranches := egBranches s @ bs, egActiveBranchId := a, egDetachedFrom := d\<rparr>)
     \<and> set h = set (egHistory s @ add) \<and> length h = length (egHistory s @ add)
     \<and> (distinct (map cpId h) = distinct (map cpId (egHistory s @ add)))
     \<and> set add \<subseteq> {e \<in> set (liCheckpointHistory stored). accepts_foreign s e}
     \<and> cpId ` set (egHistory s @ add) = cpId ` set (egHistory s) \<union> cpId ` {e \<in> set (liCheckpointHistory stored). accepts_foreign s e}
     \<and> (distinct (map cpId (egHistory s)) \<longrightarrow> distinct (map cpId (egHistory s @ add)))
     \<and> (\<forall>i v. jm_get (egMessageCheckpoints s) i = Some v \<and> v \<noteq> [] \<longrightarrow> jm_get m i = Some v)"
proof -
  obtain add m k where f: "fold merge_entry (liCheckpointHistory stored) (s, 0)
        = (s\<lparr>egHistory := egHistory s @ add, egMessageCheckpoints := m, egStableIdCheckpoints := k\<rparr>, length add)"
    and p: "set add \<subseteq> {e \<in> set (liCheckpointHistory stored). accepts_foreign s e}"
     "cpId ` set (egHistory s @ add) = cpId ` set (egHistory s) \<union> cpId ` {e \<in> set (liCheckpointHistory stored). accepts_foreign s e}"
     "distinct (map cpId (egHistory s)) \<longrightarrow> distinct (map cpId (egHistory s @ add))"
     "\<forall>i v. jm_get (egMessageCheckpoints s) i = Some v \<and> v \<noteq> [] \<longrightarrow> jm_get m i = Some v"
    using merge_entries [of "liCheckpointHistory stored" s 0] by auto
  show ?thesis
  proof (cases "add = []")
    case True
    have "mergeForeignIndexEntries env s = (0, s\<lparr>egHistory := egHistory s, egMessageCheckpoints := m,
        egStableIdCheckpoints := k, egBranches := egBranches s @ [], egActiveBranchId := egActiveBranchId s, egDetachedFrom := egDetachedFrom s\<rparr>)"
      using f True by (simp add: mergeForeignIndexEntries_def assms)
    then show ?thesis using p True
      by (intro exI [of _ "[]"] exI [of _ m] exI [of _ k] exI [of _ "[]"] exI [of _ "egActiveBranchId s"]
          exI [of _ "egDetachedFrom s"] exI [of _ "egHistory s"]) simp
  next
    case False
    let ?bs = "filter (\<lambda>b. brId b \<notin> brId ` set (egBranches s)) (liBranches stored)"
    have "mergeForeignIndexEntries env s = (length add, s\<lparr>egHistory := sort_by_created (egHistory s @ add), egMessageCheckpoints := m,
        egStableIdCheckpoints := k, egBranches := egBranches s @ ?bs,
        egActiveBranchId := or_else (egActiveBranchId s) (liActiveBranchId stored),
        egDetachedFrom := or_else (egDetachedFrom s) (liDetachedFrom stored)\<rparr>)"
      using f False by (simp add: mergeForeignIndexEntries_def assms)
    then show ?thesis using p
      by (intro exI [of _ add] exI [of _ m] exI [of _ k] exI [of _ ?bs] exI [of _ "or_else (egActiveBranchId s) (liActiveBranchId stored)"]
          exI [of _ "or_else (egDetachedFrom s) (liDetachedFrom stored)"] exI [of _ "sort_by_created (egHistory s @ add)"]) simp
  qed
qed

text \<open>
  C29 (safety): merging with the index another window wrote keeps every checkpoint and every message
  mapping of this window, adds exactly the entries whose manifest exists and that were not removed
  here, so a deleted checkpoint never comes back, and keeps the ids of the history distinct.
\<close>

theorem mergeForeign_exact:
  assumes "readIndexFile env (egNow s) (egIndex s) = Some stored" and "distinct (map cpId (egHistory s))"
  shows "let (n, s') = mergeForeignIndexEntries env s
    in set (egHistory s) \<subseteq> set (egHistory s')
       \<and> cpId ` set (egHistory s') = cpId ` set (egHistory s)
           \<union> {cpId e | e. e \<in> set (liCheckpointHistory stored) \<and> cpId e \<notin> set (egLocallyRemoved s)
                \<and> jm_get (egManifests s) (cpId e) \<noteq> None}
       \<and> distinct (map cpId (egHistory s')) \<and> length (egHistory s') = length (egHistory s) + n
       \<and> (\<exists>more. egBranches s' = egBranches s @ more)
       \<and> (\<forall>m i. jm_get (egMessageCheckpoints s) m = Some i \<and> i \<noteq> [] \<longrightarrow> jm_get (egMessageCheckpoints s') m = Some i)"
proof -
  obtain add m k bs a d h where f: "mergeForeignIndexEntries env s = (length add, s\<lparr>egHistory := h, egMessageCheckpoints := m,
        egStableIdCheckpoints := k, egBranches := egBranches s @ bs, egActiveBranchId := a, egDetachedFrom := d\<rparr>)"
     "set h = set (egHistory s @ add)" "length h = length (egHistory s @ add)" "distinct (map cpId h) = distinct (map cpId (egHistory s @ add))"
     "cpId ` set (egHistory s @ add) = cpId ` set (egHistory s) \<union> cpId ` {e \<in> set (liCheckpointHistory stored). accepts_foreign s e}"
     "distinct (map cpId (egHistory s)) \<longrightarrow> distinct (map cpId (egHistory s @ add))"
     "\<forall>i v. jm_get (egMessageCheckpoints s) i = Some v \<and> v \<noteq> [] \<longrightarrow> jm_get m i = Some v"
    using merge_frame [OF assms(1)] by (elim exE conjE) (rule that)
  have "cpId ` {e \<in> set (liCheckpointHistory stored). accepts_foreign s e}
      = {cpId e | e. e \<in> set (liCheckpointHistory stored) \<and> cpId e \<notin> set (egLocallyRemoved s) \<and> jm_get (egManifests s) (cpId e) \<noteq> None}"
    unfolding accepts_foreign_def by blast
  then have "cpId ` set h = cpId ` set (egHistory s) \<union> {cpId e | e. e \<in> set (liCheckpointHistory stored)
      \<and> cpId e \<notin> set (egLocallyRemoved s) \<and> jm_get (egManifests s) (cpId e) \<noteq> None}"
    by (simp only: f(2,5))
  moreover have "set (egHistory s) \<subseteq> set h" "distinct (map cpId h)" "length h = length (egHistory s) + length add"
    using f(2,3,4,6) assms(2) by simp_all
  ultimately show ?thesis using f(7) by (simp add: f(1) Let_def)
qed

definition foreign_index :: index_payload where
  "foreign_index = \<lparr>ixIndexVersion = Some 1, ixMessageCheckpoints = [], ixStableIdCheckpoints = [],
     ixCheckpointHistory = [new_checkpoint ''cp_2'' ''d'' 2, new_checkpoint ''cp_3'' ''d'' 3],
     ixBranches = JNull, ixActiveBranchId = None, ixDetachedFrom = JNull\<rparr>"

theorem mergeForeign_exact_witness:
  "let s = sample_window\<lparr>egIndex := IndexJson foreign_index, egLocallyRemoved := [''cp_3''],
             egManifests := [(''cp_2'', ManifestInvalid []), (''cp_3'', ManifestInvalid [])]\<rparr>
   in cpId ` set (egHistory (snd (mergeForeignIndexEntries sample_engine_env s))) = {''cp_1'', ''cp_2''}"
proof -
  let ?s = "sample_window\<lparr>egIndex := IndexJson foreign_index, egLocallyRemoved := [''cp_3''],
             egManifests := [(''cp_2'', ManifestInvalid []), (''cp_3'', ManifestInvalid [])]\<rparr>"
  have r: "readIndexFile sample_engine_env (egNow ?s) (egIndex ?s)
      = Some (parseIndexPayload sample_engine_env (egNow ?s) foreign_index)"
    by (simp add: readIndexFile_def)
  have d: "distinct (map cpId (egHistory ?s))" by (simp add: sample_window_def)
  obtain n s' where m: "mergeForeignIndexEntries sample_engine_env ?s = (n, s')" by fastforce
  have "{cpId e | e. e \<in> set (liCheckpointHistory (parseIndexPayload sample_engine_env (egNow ?s) foreign_index))
      \<and> cpId e \<notin> set (egLocallyRemoved ?s) \<and> jm_get (egManifests ?s) (cpId e) \<noteq> None} = {''cp_2''}"
  proof -
    define a where "a = toIndexRecord sample_engine_env (new_checkpoint ''cp_2'' ''d'' 2)"
    define b where "b = toIndexRecord sample_engine_env (new_checkpoint ''cp_3'' ''d'' 3)"
    have "set (liCheckpointHistory (parseIndexPayload sample_engine_env (egNow ?s) foreign_index)) = {a, b}"
      by (simp add: parseIndexPayload_def foreign_index_def a_def b_def)
    moreover have "cpId a = ''cp_2''" "cpId b = ''cp_3''" by (simp_all add: a_def b_def new_checkpoint_def)
    ultimately show ?thesis by force
  qed
  moreover have "cpId ` set (egHistory ?s) = {''cp_1''}" by (simp add: sample_window_def)
  ultimately show ?thesis using mergeForeign_exact [OF r d] m by (simp add: Let_def insert_commute)
qed

section \<open>Rebuilding a lost index\<close>

lemma in_map_filter: "y \<in> set (List.map_filter f xs) \<longleftrightarrow> (\<exists>x \<in> set xs. f x = Some y)"
  by (induction xs) (auto simp: List.map_filter_simps split: option.split)

lemma read_cong: "egManifests s' = egManifests s \<Longrightarrow> readCheckpointRecord env s' i = readCheckpointRecord env s i"
  by (simp add: readCheckpointRecord_def)

definition readable :: "'a engine_env_scheme \<Rightarrow> engine \<Rightarrow> string list \<Rightarrow> checkpoint_info list" where
  "readable env s names = List.map_filter (\<lambda>i. case readCheckpointRecord env s i of LoadOk c \<Rightarrow> Some c | _ \<Rightarrow> None) names"

lemma scan_manifests:
  "egManifests s = egManifests t \<Longrightarrow>
   fst (fold (scan_manifest env) names (l, s)) = l @ readable env t names
   \<and> (\<exists>h. snd (fold (scan_manifest env) names (l, s)) = s\<lparr>egHealthIssues := h\<rparr>)"
proof (induction names arbitrary: l s)
  case Nil
  show ?case by (auto simp: readable_def List.map_filter_simps intro: exI [of _ "egHealthIssues s"])
next
  case (Cons i names)
  have r: "readCheckpointRecord env s i = readCheckpointRecord env t i" by (rule read_cong [OF Cons.prems])
  show ?case
  proof (cases "readCheckpointRecord env t i")
    case (LoadOk c)
    then have "scan_manifest env i (l, s) = (l @ [c], s)" by (simp add: scan_manifest_def r)
    then show ?thesis using Cons.IH [OF Cons.prems, of "l @ [c]"] LoadOk
      by (simp add: readable_def List.map_filter_simps)
  next
    case LoadNotFound
    then have "scan_manifest env i (l, s) = (l, s)" by (simp add: scan_manifest_def r)
    then show ?thesis using Cons.IH [OF Cons.prems, of l] LoadNotFound
      by (simp add: readable_def List.map_filter_simps)
  next
    case (LoadCorrupt m)
    let ?s = "recordHealthIssue HealthCorrupt m (Some i) s"
    have "scan_manifest env i (l, s) = (l, ?s)" using LoadCorrupt by (simp add: scan_manifest_def r)
    moreover have "egManifests ?s = egManifests t" using Cons.prems by simp
    moreover have "\<exists>g. ?s\<lparr>egHealthIssues := h\<rparr> = s\<lparr>egHealthIssues := g\<rparr>" for h
      by (auto simp: recordHealthIssue_def Let_def)
    ultimately show ?thesis using Cons.IH [of ?s l] LoadCorrupt
      by (auto simp: readable_def List.map_filter_simps)
  qed
qed

lemma rebuild_maps_frame:
  "egHistory (fold (rebuild_maps env m) cs s) = egHistory s \<and> egBranches (fold (rebuild_maps env m) cs s) = egBranches s
   \<and> egIndex (fold (rebuild_maps env m) cs s) = egIndex s \<and> egNow (fold (rebuild_maps env m) cs s) = egNow s
   \<and> egActiveBranchId (fold (rebuild_maps env m) cs s) = egActiveBranchId s"
proof (induction cs arbitrary: s)
  case (Cons c cs)
  then show ?case by (simp add: rebuild_maps_def applySnapshotHashes_def Let_def split: option.split)
qed simp

lemma save_without_index:
  "readIndexFile env (egNow s) (egIndex s) = None \<Longrightarrow>
   egHistory (saveCheckpointHistory env s) = map (toIndexRecord env) (egHistory s)
   \<and> egBranches (saveCheckpointHistory env s) = egBranches s"
  by (simp add: saveCheckpointHistory_def saveCheckpointHistoryUnlocked_def mergeForeignIndexEntries_def Let_def split: option.split)



end
