(* ===== verification/Retention.thy ===== *)
theory Retention
  imports IndexFacts
begin

text \<open>
  Deletion, eviction and annotation of checkpoints (\<open>manager/retention.ts\<close>, \<open>manager/format.ts\<close>).
  The checkpoint objects of the history are mutable and shared: an update of one is an update of the
  history entry with its id (ids are distinct, theorem \<open>engine_steps_keep_wf\<close>). An operation that
  can throw returns \<open>Inl\<close> and the state at the throw. The memory pins of a deleted checkpoint and the
  storage snapshots of the dashboard are not modelled.
\<close>

section \<open>Sizes\<close>

definition size_units :: "string list" where "size_units = [''B'', ''KB'', ''MB'', ''GB'']"

text \<open>The loop of \<open>formatFileSize\<close>: \<open>size\<close> is \<open>bytes / 1024 ^ unit\<close>, which a double holds exactly.\<close>

fun size_unit :: "nat \<Rightarrow> nat \<Rightarrow> nat \<Rightarrow> nat" where
  "size_unit 0 n u = u"
| "size_unit (Suc left) n u = (if n \<ge> 1024 ^ Suc u then size_unit left n (Suc u) else u)"

text \<open>\<open>toFixed(1)\<close> of \<open>n / d\<close>: tenths, a tie rounded up.\<close>

definition to_fixed_1 :: "nat \<Rightarrow> nat \<Rightarrow> string" where
  "to_fixed_1 n d = (let t = (20 * n + d) div (2 * d) in show_nat (t div 10) @ ''.'' @ show_nat (t mod 10))"

definition formatFileSize :: "nat \<Rightarrow> string" where
  "formatFileSize n =
     (if n = 0 then ''0 B''
      else let u = size_unit (length size_units - 1) n 0
           in if u = 0 then show_nat n @ '' '' @ size_units ! u
              else to_fixed_1 n (1024 ^ u) @ '' '' @ size_units ! u)"

section \<open>Updating a history entry\<close>

definition find_cp :: "engine \<Rightarrow> string \<Rightarrow> checkpoint_info option" where
  "find_cp s i = find (\<lambda>c. cpId c = i) (egHistory s)"

definition put_cp :: "string \<Rightarrow> checkpoint_info \<Rightarrow> engine \<Rightarrow> engine" where
  "put_cp i c s = s\<lparr>egHistory := map (\<lambda>x. if cpId x = i then c else x) (egHistory s)\<rparr>"

definition isPinned :: "checkpoint_info \<Rightarrow> bool" where
  "isPinned c \<longleftrightarrow> cpPinned c = Some True"

definition mergeSkippedFiles :: "skipped_file list option \<Rightarrow> skipped_file list option \<Rightarrow> skipped_file list option" where
  "mergeSkippedFiles current successor =
     (if or_default current [] = [] \<and> or_default successor [] = [] then or_else successor current
      else Some (map snd (jm_of_list (map (\<lambda>k. (skPath k, k)) (or_default current [] @ or_default successor [])))))"

definition removeFromHistory :: "'a engine_env_scheme \<Rightarrow> string \<Rightarrow> engine \<Rightarrow> bool \<times> engine" where
  "removeFromHistory env i s =
     (let s1 = markCheckpointRemoved i s;
          s2 = s1\<lparr>egHistory := filter (\<lambda>c. cpId c \<noteq> i) (egHistory s1)\<rparr>;
          removed = length (egHistory s2) < length (egHistory s)
      in (removed, if removed then saveCheckpointHistory env s2 else s2))"

section \<open>Folding into the successor\<close>

definition relink :: "string \<Rightarrow> string option \<Rightarrow> checkpoint_info \<Rightarrow> checkpoint_info" where
  "relink i parent c = (if cpParentCheckpointId c = Some i then c\<lparr>cpParentCheckpointId := parent\<rparr> else c)"

definition live_paths :: "file_snapshot list \<Rightarrow> string list" where
  "live_paths ss = map fsRelativePath (filter (\<lambda>x. \<not> snapshotIsDeleted x) ss)"

text \<open>The successor as the fold leaves it in memory, before it is saved.\<close>

definition folded_successor :: "nat \<Rightarrow> checkpoint_info \<Rightarrow> checkpoint_info \<Rightarrow> checkpoint_info \<Rightarrow> checkpoint_info \<Rightarrow> checkpoint_info" where
  "folded_successor index current successor cr sr =
     (let merged = foldSnapshotsIntoSuccessor (cpFileSnapshots cr) (cpFileSnapshots sr);
          c1 = successor\<lparr>cpFileSnapshots := Some merged,
                 cpFileInventory := Some (if or_default (cpFileInventory sr) [] \<noteq> [] then or_default (cpFileInventory sr) []
                                          else live_paths merged),
                 cpSkippedFiles := mergeSkippedFiles (cpSkippedFiles cr) (cpSkippedFiles sr),
                 cpCaptureMode := (if cpCaptureMode current = Some Baseline \<or> index = 0 then Some Baseline
                                   else cpCaptureMode successor),
                 cpSchemaVersion := cpSchemaVersion sr, cpContentSha256 := cpContentSha256 sr\<rparr>
      in c1\<lparr>cpFileStats := Some (computeCheckpointFileStats c1), cpPinned := or_else (cpPinned c1) (cpPinned sr)\<rparr>)"

definition fold_position :: "'a engine_env_scheme \<Rightarrow> string \<Rightarrow> engine \<Rightarrow> (nat \<times> checkpoint_info list) option" where
  "fold_position env i s =
     (case find_cp s i of
        None \<Rightarrow> None
      | Some target \<Rightarrow>
          (let history = sort_by_created (getCheckpointHistoryForWorkspace env (egHistory s) (cpWorkspacePath target))
           in map_option (\<lambda>k. (k, history)) (find_index (\<lambda>c. cpId c = i) history)))"

definition foldCheckpointIntoSuccessor :: "'a engine_env_scheme \<Rightarrow> string \<Rightarrow> engine \<Rightarrow> (engine_error + bool) \<times> engine" where
  "foldCheckpointIntoSuccessor env i s =
     (case fold_position env i s of
        None \<Rightarrow> (Inr False, s)
      | Some (index, history) \<Rightarrow>
          if Suc index \<ge> length history then (Inr True, s)
          else let current = history ! index; successor = history ! Suc index
               in case readCheckpointRecord env s (cpId current) of
                    LoadOk cr \<Rightarrow>
                      (case readCheckpointRecord env s (cpId successor) of
                         LoadOk sr \<Rightarrow>
                           (let c1 = folded_successor index current successor cr sr;
                                s1 = put_cp (cpId successor) c1 s;
                                s2 = s1\<lparr>egHistory := map (relink (cpId current) (cpParentCheckpointId current)) (egHistory s1)\<rparr>
                            in case saveCheckpointToDisk env (relink (cpId current) (cpParentCheckpointId current) c1) s2 of
                                 (Some e, c2, s3) \<Rightarrow> (Inl e, put_cp (cpId successor) c2 s3)
                               | (None, c2, s3) \<Rightarrow>
                                   (Inr True, saveCheckpointHistory env (put_cp (cpId successor) (assign_index env c2 c2) s3)))
                       | _ \<Rightarrow> (Inr False, s))
                  | _ \<Rightarrow> (Inr True, s))"

section \<open>Deletion and eviction\<close>

definition stashBaseCheckpointIds :: "engine \<Rightarrow> string list" where
  "stashBaseCheckpointIds s = (if egInitialized s then collectStashBaseCheckpointIds s else [])"

definition drop_values :: "string \<Rightarrow> (string, string) jsmap \<Rightarrow> (string, string) jsmap" where
  "drop_values i m = filter (\<lambda>(k, v). v \<noteq> i) m"

definition drop_mappings :: "string \<Rightarrow> engine \<Rightarrow> engine" where
  "drop_mappings i s = s\<lparr>egMessageCheckpoints := drop_values i (egMessageCheckpoints s),
                         egStableIdCheckpoints := drop_values i (egStableIdCheckpoints s)\<rparr>"

text \<open>The guards of an eviction, in the order of the code.\<close>

definition retention_keeps :: "'a engine_env_scheme \<Rightarrow> checkpoint_info \<Rightarrow> engine \<Rightarrow> bool" where
  "retention_keeps env target s \<longleftrightarrow>
     isPinned target \<or> cpId target \<in> set (stashBaseCheckpointIds s)
     \<or> length (getCheckpointHistoryForWorkspace env (egHistory s)
                (or_else (cpWorkspacePath target) (egWorkspacePath s))) \<le> 1"

definition removeFromHistoryAndDisk :: "'a engine_env_scheme \<Rightarrow> bool \<Rightarrow> string \<Rightarrow> engine \<Rightarrow> bool \<times> engine" where
  "removeFromHistoryAndDisk env retention i s =
     (case find_cp s i of
        None \<Rightarrow> (False, s)
      | Some target \<Rightarrow>
          if retention \<and> retention_keeps env target s then (False, s)
          else (case foldCheckpointIntoSuccessor env i s of
                  (outcome, s1) \<Rightarrow>
                    if retention \<and> outcome \<noteq> Inr True then (False, s1)
                    else (case removeFromHistory env i (drop_mappings i s1) of
                            (removed, s2) \<Rightarrow>
                              (removed, if removed then append_audit ''delete'' (Some i) True (deleteCheckpointFromDisk env i s2)
                                        else s2))))"

section \<open>Annotations\<close>

text \<open>
  The read-modify-write that pins, tags and labels share: \<open>f\<close> sets the field in memory and in the
  manifest, when there is a readable one.
\<close>

definition annotate :: "'a engine_env_scheme \<Rightarrow> (checkpoint_info \<Rightarrow> checkpoint_info) \<Rightarrow> checkpoint_info \<Rightarrow> engine \<Rightarrow> engine_error option \<times> engine" where
  "annotate env f info s =
     (let s1 = put_cp (cpId info) (f info) s
      in case readCheckpointRecord env s1 (cpId info) of
           LoadOk r \<Rightarrow>
             (case saveCheckpointToDisk env (f r) s1 of
                (Some e, _, s2) \<Rightarrow> (Some e, s2)
              | (None, r', s2) \<Rightarrow>
                  (None, saveCheckpointHistory env (put_cp (cpId info) (assign_index env (f info) (f r')) s2)))
         | _ \<Rightarrow> (None, saveCheckpointHistory env s1))"

definition setCheckpointPinned :: "'a engine_env_scheme \<Rightarrow> string \<Rightarrow> bool \<Rightarrow> engine \<Rightarrow> (engine_error + bool) \<times> engine" where
  "setCheckpointPinned env i pinned s =
     (case find_cp s i of
        None \<Rightarrow> (Inr False, s)
      | Some info \<Rightarrow>
          (case annotate env (\<lambda>c. c\<lparr>cpPinned := Some pinned\<rparr>) info s of
             (Some e, s1) \<Rightarrow> (Inl e, s1)
           | (None, s1) \<Rightarrow> (Inr True, append_audit (if pinned then ''pin'' else ''unpin'') (Some i) True s1)))"

definition MAX_CHECKPOINT_TAG_LENGTH :: nat where "MAX_CHECKPOINT_TAG_LENGTH = 80"

definition setCheckpointTag :: "'a engine_env_scheme \<Rightarrow> string \<Rightarrow> string \<Rightarrow> bool \<Rightarrow> engine \<Rightarrow> (engine_error + bool) \<times> engine" where
  "setCheckpointTag env i tag present s =
     (case find_cp s i of
        None \<Rightarrow> (Inr False, s)
      | Some info \<Rightarrow>
          (let trimmed = js_trim tag; tags = or_default (cpTags info) []
           in if trimmed = [] \<or> length trimmed > MAX_CHECKPOINT_TAG_LENGTH then (Inr False, s)
              else if present \<and> trimmed \<in> set tags then (Inr True, s)
              else if \<not> present \<and> trimmed \<notin> set tags then (Inr False, s)
              else (case annotate env (\<lambda>c. c\<lparr>cpTags := Some (if present then tags @ [trimmed] else remove1 trimmed tags)\<rparr>) info s of
                      (Some e, s1) \<Rightarrow> (Inl e, s1)
                    | (None, s1) \<Rightarrow> (Inr True, s1))))"

definition setCheckpointLabel :: "'a engine_env_scheme \<Rightarrow> string \<Rightarrow> string option \<Rightarrow> engine \<Rightarrow> (engine_error + bool) \<times> engine" where
  "setCheckpointLabel env i label s =
     (case find_cp s i of
        None \<Rightarrow> (Inr False, s)
      | Some info \<Rightarrow>
          (let new_label = (case label of
                         None \<Rightarrow> None
                       | Some l \<Rightarrow> if js_trim l = [] then None else Some (take 120 (js_trim l)))
           in if cpLabel info = new_label then (Inr True, s)
              else (case annotate env (\<lambda>c. c\<lparr>cpLabel := new_label\<rparr>) info s of
                      (Some e, s1) \<Rightarrow> (Inl e, s1)
                    | (None, s1) \<Rightarrow> (Inr True, s1))))"

section \<open>Policies\<close>

definition workspaceHistoryOldestFirst :: "'a engine_env_scheme \<Rightarrow> engine \<Rightarrow> checkpoint_info list" where
  "workspaceHistoryOldestFirst env s =
     sort_by_created (getCheckpointHistoryForWorkspace env (egHistory s) (egWorkspacePath s))"

fun max_loop :: "'a engine_env_scheme \<Rightarrow> checkpoint_info list \<Rightarrow> nat \<Rightarrow> engine \<Rightarrow> engine" where
  "max_loop env [] overflow s = s"
| "max_loop env (c # cs) overflow s =
     (if overflow = 0 \<or> length (workspaceHistoryOldestFirst env s) \<le> 1 then s
      else (case removeFromHistoryAndDisk env True (cpId c) s of
              (removed, s') \<Rightarrow> max_loop env cs (if removed then overflow - 1 else overflow) s'))"

definition enforceMaxCheckpoints :: "'a engine_env_scheme \<Rightarrow> engine \<Rightarrow> engine" where
  "enforceMaxCheckpoints env s =
     (if truthy (egWorkspacePath s) = None \<or> egMaxCheckpoints s < 1 then s
      else let history = workspaceHistoryOldestFirst env s
           in max_loop env history (length history - egMaxCheckpoints s) s)"

text \<open>The loop of \<open>enforceStorageQuota\<close> with the number of evicted checkpoints and the last measured usage.\<close>

fun quota_loop :: "'a engine_env_scheme \<Rightarrow> checkpoint_info list \<Rightarrow> nat \<Rightarrow> nat \<Rightarrow> engine \<Rightarrow> nat \<times> nat \<times> engine" where
  "quota_loop env [] deleted usage s = (deleted, usage, s)"
| "quota_loop env (c # cs) deleted usage s =
     (let usage' = computeDiskStorageBytes env s
      in if usage' \<le> egMaxStorageBytes s \<or> length (workspaceHistoryOldestFirst env s) \<le> 1 then (deleted, usage', s)
         else (case removeFromHistoryAndDisk env True (cpId c) s of
                 (removed, s') \<Rightarrow>
                   if removed then quota_loop env cs (deleted + 1) (computeDiskStorageBytes env s') s'
                   else quota_loop env cs deleted usage' s'))"

definition quota_message :: "nat \<Rightarrow> nat \<Rightarrow> string" where
  "quota_message usage limit =
     ''Storage still over quota ('' @ formatFileSize usage @ '' > '' @ formatFileSize limit @ ''); ''
     @ ''remaining checkpoints are pinned or the sole baseline. Unpin or delete some, or raise the quota.''"

definition enforceStorageQuota :: "'a engine_env_scheme \<Rightarrow> engine \<Rightarrow> engine" where
  "enforceStorageQuota env s =
     (if truthy (egWorkspacePath s) = None \<or> egMaxStorageBytes s < 1 \<or> computeDiskStorageBytes env s \<le> egMaxStorageBytes s then s
      else (case gcUnreferencedCheckpointBlobs env s of
              ((freed, bytes), s1) \<Rightarrow>
                (let usage = (if freed > 0 then computeDiskStorageBytes env s1 else computeDiskStorageBytes env s)
                 in if freed > 0 \<and> usage \<le> egMaxStorageBytes s1 then s1
                    else (case quota_loop env (workspaceHistoryOldestFirst env s1) 0 usage s1 of
                            (deleted, final, s2) \<Rightarrow>
                              if deleted = 0 \<and> final > egMaxStorageBytes s2
                              then recordHealthIssue HealthQuotaExceeded (quota_message final (egMaxStorageBytes s2)) None s2
                              else s2))))"

definition enforceRetentionPolicies :: "'a engine_env_scheme \<Rightarrow> engine \<Rightarrow> engine" where
  "enforceRetentionPolicies env s =
     enforceStorageQuota env (enforceMaxCheckpoints env (snd (mergeForeignIndexEntries env s)))"

text \<open>\<open>cutoff\<close> is the current time less \<open>retentionDays\<close> days.\<close>

fun cleanup_loop :: "'a engine_env_scheme \<Rightarrow> checkpoint_info list \<Rightarrow> nat \<Rightarrow> engine \<Rightarrow> nat \<times> engine" where
  "cleanup_loop env [] deleted s = (deleted, s)"
| "cleanup_loop env (c # cs) deleted s =
     (if length (getCheckpointHistoryForWorkspace env (egHistory s) (or_else (cpWorkspacePath c) (egWorkspacePath s))) \<le> 1
      then (deleted, s)
      else (case removeFromHistoryAndDisk env True (cpId c) s of
              (removed, s') \<Rightarrow> cleanup_loop env cs (if removed then deleted + 1 else deleted) s'))"

definition cleanupOldCheckpoints :: "'a engine_env_scheme \<Rightarrow> int \<Rightarrow> engine \<Rightarrow> nat \<times> engine" where
  "cleanupOldCheckpoints env cutoff s =
     cleanup_loop env (sort_by_created (filter (\<lambda>c. cpCreated c < cutoff) (egHistory s))) 0 s"

end
