(* ===== verification/Branches.thy ===== *)
theory Branches
  imports Retention
begin

text \<open>
  The branch pointers and the recording of a new checkpoint on the active line
  (\<open>manager/branches.ts\<close>, the second half of \<open>createCheckpointRecord\<close> in \<open>manager/create.ts\<close>).
  Identifiers of new branches are arguments (\<open>randomUUID\<close>); an operation that can throw returns
  \<open>Inl\<close> with the message. What touches the working tree is not part of this theory.
\<close>

section \<open>The active line\<close>

definition workspaceHistory :: "'a node_env_scheme \<Rightarrow> engine \<Rightarrow> checkpoint_info list" where
  "workspaceHistory env s = getCheckpointHistoryForWorkspace env (egHistory s) (egWorkspacePath s)"

definition latestCheckpoint :: "'a node_env_scheme \<Rightarrow> engine \<Rightarrow> checkpoint_info option" where
  "latestCheckpoint env s = last_opt (sort_by_created (workspaceHistory env s))"

definition update_branch :: "string \<Rightarrow> (checkpoint_branch \<Rightarrow> checkpoint_branch) \<Rightarrow> checkpoint_branch list \<Rightarrow> checkpoint_branch list" where
  "update_branch i f bs = map (\<lambda>b. if brId b = i then f b else b) bs"

definition ensureDefaultBranchSync ::
    "'a node_env_scheme \<Rightarrow> string \<Rightarrow> string \<Rightarrow> engine \<Rightarrow> checkpoint_branch \<times> engine" where
  "ensureDefaultBranchSync env uuid base s =
     (case defaultBranch (egBranches s) of
        Some b \<Rightarrow> (b, if truthy (egActiveBranchId s) = None then s\<lparr>egActiveBranchId := Some (brId b)\<rparr> else s)
      | None \<Rightarrow>
          (let history = workspaceHistory env s; oldest = first_opt history; latest = last_opt history;
               main = \<lparr>brId = generateBranchId uuid, brName = DEFAULT_BRANCH_NAME,
                       brHead = or_default (map_option cpId latest) base,
                       brBase = or_default (map_option cpId oldest) base, brParent = None,
                       brCreatedAt = or_default (map_option cpCreated oldest) (egNow s),
                       brDescription = Some ''Default checkpoint line''\<rparr>
           in (main, s\<lparr>egBranches := egBranches s @ [main], egActiveBranchId := Some (brId main)\<rparr>)))"

text \<open>The checkpoint is not in the history yet; both results are what the two arguments become.\<close>

definition bindCheckpointToActiveLine ::
    "'a node_env_scheme \<Rightarrow> string \<Rightarrow> checkpoint_info \<Rightarrow> engine \<Rightarrow> checkpoint_info \<times> engine" where
  "bindCheckpointToActiveLine env uuid c s =
     (case egDetachedFrom s of
        Some d \<Rightarrow>
          (if dtCheckpointId d \<noteq> [] \<and> dtCheckpointId d \<noteq> cpId c then c\<lparr>cpParentCheckpointId := Some (dtCheckpointId d)\<rparr> else c,
           s\<lparr>egDetachedFrom := Some (d\<lparr>dtCheckpointId := cpId c\<rparr>)\<rparr>)
      | None \<Rightarrow>
          (case (case Option.bind (truthy (egActiveBranchId s)) (findBranchById (egBranches s)) of
                   Some b \<Rightarrow> (b, s) | None \<Rightarrow> ensureDefaultBranchSync env uuid (cpId c) s) of
             (active, s1) \<Rightarrow>
               (let previous = or_else (find (\<lambda>x. cpId x = brHead active) (workspaceHistory env s1)) (latestCheckpoint env s1);
                    c1 = (case previous of
                            Some p \<Rightarrow> if cpId p \<noteq> cpId c then c\<lparr>cpParentCheckpointId := Some (cpId p)\<rparr> else c
                          | None \<Rightarrow> c)
                in (c1\<lparr>cpBranchId := Some (brId active)\<rparr>,
                    s1\<lparr>egBranches := update_branch (brId active) (\<lambda>b. b\<lparr>brHead := cpId c\<rparr>) (egBranches s1)\<rparr>))))"

text \<open>
  \<open>createCheckpointRecord\<close> from the moment the checkpoint object exists: it is bound to the line,
  listed, saved and indexed; an exception of the save is caught and reported in the audit log.
\<close>

definition record_checkpoint ::
    "'a engine_env_scheme \<Rightarrow> string \<Rightarrow> checkpoint_info \<Rightarrow> engine \<Rightarrow> string option \<times> engine" where
  "record_checkpoint env uuid info s =
     (case bindCheckpointToActiveLine env uuid info s of
        (c, s1) \<Rightarrow>
          (let s2 = s1\<lparr>egHistory := egHistory s1 @ [c]\<rparr>;
               s3 = (case truthy (cpMessageId c) of
                       Some m \<Rightarrow> s2\<lparr>egMessageCheckpoints := jm_set m (cpId c) (egMessageCheckpoints s2)\<rparr> | None \<Rightarrow> s2);
               s4 = (case truthy (cpStableId c) of
                       Some m \<Rightarrow> s3\<lparr>egStableIdCheckpoints := jm_set m (cpId c) (egStableIdCheckpoints s3)\<rparr> | None \<Rightarrow> s3)
           in case saveCheckpointToDisk env c s4 of
                (Some _, c', s5) \<Rightarrow> (None, append_audit ''create'' None False (put_cp (cpId c) c' s5))
              | (None, c', s5) \<Rightarrow>
                  (let s6 = applySnapshotHashes env (snapshots_of c) (saveCheckpointHistory env (put_cp (cpId c) c' s5))
                   in (Some (cpId c),
                       enforceRetentionPolicies env
                         (append_audit ''create'' (Some (cpId c)) True (s6\<lparr>egLastCheckpointTime := egNow s6\<rparr>))))))"

text \<open>The two early returns: the message or the stable id already has a checkpoint.\<close>

definition existing_checkpoint :: "string option \<Rightarrow> string option \<Rightarrow> engine \<Rightarrow> string option" where
  "existing_checkpoint messageId stableId s =
     (case Option.bind (truthy messageId) (\<lambda>m. truthy (jm_get (egMessageCheckpoints s) m)) of
        Some i \<Rightarrow> Some i
      | None \<Rightarrow> Option.bind (truthy stableId) (\<lambda>m. truthy (jm_get (egStableIdCheckpoints s) m)))"

definition normalizeTags :: "string list option \<Rightarrow> string list option" where
  "normalizeTags tags =
     (case or_default tags [] of
        [] \<Rightarrow> None
      | ts \<Rightarrow> (let unique = set_of (filter (\<lambda>x. x \<noteq> []) (map js_trim ts))
               in if unique = [] then None else Some unique))"

section \<open>Branch operations\<close>

definition getActiveBranch :: "engine \<Rightarrow> checkpoint_branch option" where
  "getActiveBranch s =
     (case truthy (egActiveBranchId s) of
        None \<Rightarrow> defaultBranch (egBranches s)
      | Some i \<Rightarrow> or_else (findBranchById (egBranches s) i) (defaultBranch (egBranches s)))"

definition createBranch ::
    "'a engine_env_scheme \<Rightarrow> string \<Rightarrow> string \<Rightarrow> string \<Rightarrow> string \<Rightarrow> string \<Rightarrow> engine
     \<Rightarrow> (string + checkpoint_branch option) \<times> engine" where
  "createBranch env uuidMain uuid name base description s =
     (let trimmed = js_trim name
      in if trimmed = [] then (Inl ''Branch name is required'', s)
         else if \<not> egInitialized s \<or> truthy (egWorkspacePath s) = None then (Inr None, s)
         else if find_cp s base = None then (Inl (''Checkpoint '' @ base @ '' not found''), s)
         else if findBranchByName (egBranches s) trimmed \<noteq> None
         then (Inl (''Branch \"'' @ trimmed @ ''\" already exists''), s)
         else (case ensureDefaultBranchSync env uuidMain base s of
                 (parent, s1) \<Rightarrow>
                   (let b = \<lparr>brId = generateBranchId uuid, brName = trimmed, brHead = base, brBase = base,
                             brParent = Some (case truthy (egActiveBranchId s1) of
                                                Some a \<Rightarrow> if a \<noteq> brId parent then a else brId parent
                                              | None \<Rightarrow> brId parent),
                             brCreatedAt = egNow s1,
                             brDescription = (if js_trim description = [] then None else Some (js_trim description))\<rparr>;
                        s2 = s1\<lparr>egBranches := egBranches s1 @ [b], egActiveBranchId := Some (brId b), egDetachedFrom := None\<rparr>
                    in (Inr (Some b),
                        append_audit ''branch'' (Some (brId b)) True
                          (rebuildSnapshotHashIndexFromDisk env (saveCheckpointHistory env s2))))))"

definition alnum :: "char \<Rightarrow> bool" where
  "alnum c \<longleftrightarrow> (let n = (of_char c :: nat) in (48 \<le> n \<and> n \<le> 57) \<or> (65 \<le> n \<and> n \<le> 90) \<or> (97 \<le> n \<and> n \<le> 122))"

definition what_if_stem :: "string \<Rightarrow> string" where
  "what_if_stem recipeId = ''what-if/'' @ js_or (take 8 (filter alnum recipeId)) ''recipe''"

text \<open>The \<open>while\<close> loop; \<open>left\<close> bounds it, and theorem \<open>whatIfBranchName_fresh\<close> shows the bound is enough.\<close>

fun free_suffix :: "string list \<Rightarrow> string \<Rightarrow> nat \<Rightarrow> nat \<Rightarrow> nat option" where
  "free_suffix taken stem 0 n = None"
| "free_suffix taken stem (Suc left) n =
     (if stem @ ''-'' @ show_nat n \<in> set taken then free_suffix taken stem left (n + 1) else Some n)"

definition whatIfBranchName :: "string list \<Rightarrow> string \<Rightarrow> string option" where
  "whatIfBranchName taken recipeId =
     (let stem = what_if_stem recipeId
      in if stem \<notin> set taken then Some stem
         else map_option (\<lambda>n. stem @ ''-'' @ show_nat n) (free_suffix taken stem (length taken + 1) 2))"

text \<open>\<open>switchBranch\<close> with \<open>checkout: 'none'\<close>: the pointer moves, the files stay.\<close>

definition switchBranchPointer :: "'a engine_env_scheme \<Rightarrow> string \<Rightarrow> engine \<Rightarrow> bool \<times> engine" where
  "switchBranchPointer env i s =
     (case findBranchById (egBranches s) i of
        None \<Rightarrow> (False, s)
      | Some b \<Rightarrow>
          if egActiveBranchId s = Some (brId b) \<and> egDetachedFrom s = None then (True, s)
          else (True, append_audit ''branch'' (Some (brId b)) True
                  (rebuildSnapshotHashIndexFromDisk env
                    (saveCheckpointHistory env (s\<lparr>egActiveBranchId := Some (brId b), egDetachedFrom := None\<rparr>)))))"

definition deleteBranch :: "'a engine_env_scheme \<Rightarrow> string \<Rightarrow> engine \<Rightarrow> (string + bool) \<times> engine" where
  "deleteBranch env i s =
     (case findBranchById (egBranches s) i of
        None \<Rightarrow> (Inr False, s)
      | Some b \<Rightarrow>
          if egActiveBranchId s = Some (brId b) then (Inl ''Cannot delete the current branch'', s)
          else if map_option brId (defaultBranch (egBranches s)) = Some (brId b)
          then (Inl ''Cannot delete the default main branch'', s)
          else if brHead b \<noteq> brBase b then (Inl ''Cannot delete a branch that has checkpoints after the fork'', s)
          else (Inr True, append_audit ''branch'' (Some (brId b)) True
                  (saveCheckpointHistory env (s\<lparr>egBranches := filter (\<lambda>x. brId x \<noteq> i) (egBranches s)\<rparr>))))"

definition renameBranch :: "'a engine_env_scheme \<Rightarrow> string \<Rightarrow> string \<Rightarrow> engine \<Rightarrow> string option \<times> engine" where
  "renameBranch env i name s =
     (case findBranchById (egBranches s) i of
        None \<Rightarrow> (Some ''checkpoint.graph.branchMissing'', s)
      | Some b \<Rightarrow>
          (let trimmed = js_trim name
           in if trimmed = [] then (Some ''checkpoint.graph.branchNameRequired'', s)
              else if (case findBranchByName (egBranches s) trimmed of Some e \<Rightarrow> brId e \<noteq> brId b | None \<Rightarrow> False)
              then (Some ''checkpoint.graph.branchExists'', s)
              else (None, append_audit ''branch'' (Some (brId b)) True
                      (saveCheckpointHistory env
                        (s\<lparr>egBranches := update_branch (brId b) (\<lambda>x. x\<lparr>brName := trimmed\<rparr>) (egBranches s)\<rparr>)))))"

section \<open>Trees of hashes\<close>

fun read_all :: "'a engine_env_scheme \<Rightarrow> engine \<Rightarrow> checkpoint_info list \<Rightarrow> file_snapshot list list option" where
  "read_all env s [] = Some []"
| "read_all env s (c # cs) =
     (case readCheckpointRecord env s (cpId c) of
        LoadOk r \<Rightarrow> map_option (\<lambda>rest. snapshots_of r # rest) (read_all env s cs)
      | _ \<Rightarrow> None)"

definition hashStateAtCheckpoint :: "'a engine_env_scheme \<Rightarrow> engine \<Rightarrow> string \<Rightarrow> hash_map option" where
  "hashStateAtCheckpoint env s i =
     (case lineageCheckpoints (workspaceHistory env s) i of
        None \<Rightarrow> None
      | Some chain \<Rightarrow> map_option replayHashState (read_all env s chain))"

end
