(* ===== verification/Worktree.thy ===== *)
theory Worktree
  imports Branches FileClass RenameDetect
begin

text \<open>
  The working tree and its scan (\<open>manager/workspaceScan.ts\<close>, \<open>checkpointIgnore.ts\<close>, the snapshot of one
  file in \<open>manager/capture.ts\<close>). The files of the disk are a map from full paths to contents
  and modification times; directories are those of the files in them, and there are no symbolic
  links. The record \<open>work\<close> adds to the engine the files and the fields of the host that only these
  modules use. The workers of a capture run one after the other, in the order of their items; the
  order in which directories are listed is the order of the map. Scan statistics are left out.
\<close>

section \<open>State\<close>

record disk_file =
  dfBytes :: bytes
  dfMtime :: int

type_synonym disk = "(string, disk_file) jsmap"

datatype journal_status = JournalWriting | JournalRollingBack

record restore_journal =
  rjCheckpointId :: string
  rjBackupId :: "string option"
  rjPlannedWrites :: "string list"
  rjPlannedDeletes :: "string list"
  rjCompleted :: "string list"
  rjStatus :: journal_status

record restoration_event =
  reCheckpointId :: string
  reSuccess :: bool
  reRestored :: nat
  reFailed :: nat
  reError :: "string option"

record work =
  wkEngine :: engine
  wkFiles :: disk
  wkJournal :: "restore_journal option"
  wkMerge :: "merge_state option"
  wkRestorations :: "restoration_event list"
  wkWatchers :: nat
  wkTrusted :: bool
  wkLastFullScan :: int
  wkSessionStart :: int
  wkTrackedAI :: "string list"
  wkBoundSession :: "string option"
  wkDraws :: nat

text \<open>
  The environment: the settings of the host, the \<open>ignore\<close> package's filter (\<open>None\<close> when it failed to load),
  open documents with unsaved changes, failures of the file system by path, the answers to prompts,
  cancellation (of a restore or of its rollback) by path and index, local dates and the draws of \<open>randomUUID\<close>.
\<close>

datatype answer = AnswerNo | AnswerYes | AnswerAll | AnswerShow | AnswerNone

record work_env = engine_env +
  weMaxFileSize :: nat
  weMaxScanDepth :: nat
  weClass :: class_options
  weIgnores :: "(string \<Rightarrow> bool) option"
  weDirtyDocs :: "string list"
  weStatError :: "string \<Rightarrow> string option"
  weReadError :: "string \<Rightarrow> string option"
  weFileWriteError :: "string \<Rightarrow> string option"
  weUnlinkError :: "string \<Rightarrow> string option"
  weAnswer :: "string \<Rightarrow> answer"
  weCancel :: "bool \<Rightarrow> string \<Rightarrow> nat \<Rightarrow> bool"
  weLocaleDate :: "int \<Rightarrow> string"
  weUuid :: "nat \<Rightarrow> string"
  weColl :: "string \<Rightarrow> string"

definition on_engine :: "(engine \<Rightarrow> engine) \<Rightarrow> work \<Rightarrow> work" where
  "on_engine f w = w\<lparr>wkEngine := f (wkEngine w)\<rparr>"

abbreviation wk_path :: "work \<Rightarrow> string option" where
  "wk_path w \<equiv> egWorkspacePath (wkEngine w)"

text \<open>\<open>fs.stat\<close> and \<open>fs.readFile\<close> of a regular file.\<close>

definition stat_file :: "'a work_env_scheme \<Rightarrow> work \<Rightarrow> string \<Rightarrow> disk_file option" where
  "stat_file env w full = (if weStatError env full \<noteq> None then None else jm_get (wkFiles w) full)"

definition read_file :: "'a work_env_scheme \<Rightarrow> work \<Rightarrow> string \<Rightarrow> bytes option" where
  "read_file env w full = (if weReadError env full \<noteq> None then None else map_option dfBytes (jm_get (wkFiles w) full))"

section \<open>Ignored paths\<close>

definition toIgnorePath :: "string \<Rightarrow> bool \<Rightarrow> string" where
  "toIgnorePath p isDirectory =
     (let n = js_replace_char backslash slash p
      in if isDirectory \<and> n \<noteq> [] \<and> \<not> ends_with n ''/'' then n @ ''/'' else n)"

definition isIgnoredByCheckpointFilter :: "string \<Rightarrow> (string \<Rightarrow> bool) option \<Rightarrow> bool \<Rightarrow> bool" where
  "isIgnoredByCheckpointFilter p f isDirectory =
     (case f of None \<Rightarrow> True | Some ignores \<Rightarrow> ignores (toIgnorePath p isDirectory))"

definition isScanPathIgnored :: "'a work_env_scheme \<Rightarrow> string \<Rightarrow> string \<Rightarrow> bool \<Rightarrow> bool" where
  "isScanPathIgnored env workspace full isDirectory =
     (let rel = posix_relative (neCwd env) workspace full; ext = fileExtension full
      in if starts_with rel ''..'' \<or> posix_isAbsolute rel then True
         else if \<not> isDirectory \<and> ext \<noteq> [] \<and> \<not> coBinary (weClass env) \<and> ext \<in> set BINARY_SNAPSHOT_EXTENSIONS then True
         else if \<not> isDirectory \<and> ext \<noteq> [] \<and> ext \<in> set NEVER_TRACK_EXTENSIONS \<and> ext \<notin> set (coExtra (weClass env)) then True
         else isIgnoredByCheckpointFilter rel (weIgnores env) isDirectory)"

definition isFileIgnored :: "'a work_env_scheme \<Rightarrow> work \<Rightarrow> string \<Rightarrow> bool" where
  "isFileIgnored env w full =
     (case truthy (wk_path w) of None \<Rightarrow> True | Some workspace \<Rightarrow> isScanPathIgnored env workspace full False)"

section \<open>The scan\<close>

record scanned_file =
  sfRelative :: string
  sfFull :: string
  sfMtime :: int
  sfSize :: nat

record scan_result =
  srFiles :: "scanned_file list"
  srSkipped :: "skipped_file list"

definition parent_dirs :: "string list \<Rightarrow> string list list" where
  "parent_dirs segs = map (\<lambda>n. take n segs) [1..<length segs]"

text \<open>Whether the walk reaches a file: below the root, no directory on the way ignored, within the depth cap.\<close>

definition walk_reaches :: "'a work_env_scheme \<Rightarrow> string \<Rightarrow> string \<Rightarrow> bool" where
  "walk_reaches env workspace full \<longleftrightarrow>
     (let root = posix_resolve (neCwd env) [workspace];
          segs = path_segs (posix_relative (neCwd env) workspace full)
      in startsWithPathPrefix full root \<and> full \<noteq> root
         \<and> (weMaxScanDepth env = 0 \<or> length segs \<le> weMaxScanDepth env)
         \<and> list_all (\<lambda>d. \<not> isScanPathIgnored env workspace (join ''/'' (root # d)) True) (parent_dirs segs))"

definition scan_file :: "'a work_env_scheme \<Rightarrow> work \<Rightarrow> string \<Rightarrow> string \<Rightarrow> scan_result \<Rightarrow> scan_result" where
  "scan_file env w workspace full acc =
     (let rel = posix_relative (neCwd env) workspace full
      in if \<not> walk_reaches env workspace full \<or> isScanPathIgnored env workspace full False
            \<or> \<not> shouldTrackFile full (weClass env) then acc
         else case stat_file env w full of
                None \<Rightarrow> acc\<lparr>srSkipped := srSkipped acc @ [\<lparr>skPath = rel, skReason = Unreadable\<rparr>]\<rparr>
              | Some f \<Rightarrow>
                  if length (dfBytes f) > weMaxFileSize env
                  then acc\<lparr>srSkipped := srSkipped acc @ [\<lparr>skPath = rel, skReason = TooLarge\<rparr>]\<rparr>
                  else acc\<lparr>srFiles := srFiles acc @ [\<lparr>sfRelative = rel, sfFull = full, sfMtime = dfMtime f,
                                                     sfSize = length (dfBytes f)\<rparr>]\<rparr>)"

definition scanWorkspaceFiles :: "'a work_env_scheme \<Rightarrow> work \<Rightarrow> scan_result" where
  "scanWorkspaceFiles env w =
     (case truthy (wk_path w) of
        None \<Rightarrow> \<lparr>srFiles = [], srSkipped = []\<rparr>
      | Some workspace \<Rightarrow> fold (scan_file env w workspace) (jm_keys (wkFiles w)) \<lparr>srFiles = [], srSkipped = []\<rparr>)"

definition inventoryPathsFromScan :: "scan_result \<Rightarrow> string list" where
  "inventoryPathsFromScan r = map sfRelative (srFiles r)"

definition CHECKPOINT_MTIME_SLACK_MS :: int where "CHECKPOINT_MTIME_SLACK_MS = 2000"

definition changedFullPathsFromScan :: "scan_result \<Rightarrow> int option \<Rightarrow> (string, string) jsmap option \<Rightarrow> string list" where
  "changedFullPathsFromScan r changedSince known =
     (case changedSince of
        None \<Rightarrow> map sfFull (srFiles r)
      | Some since \<Rightarrow>
          map sfFull (filter (\<lambda>f. sfMtime f > since - CHECKPOINT_MTIME_SLACK_MS
            \<or> (case known of None \<Rightarrow> False | Some m \<Rightarrow> m \<noteq> [] \<and> jm_get m (sfRelative f) = None)) (srFiles r)))"

section \<open>Snapshots of files\<close>

datatype snap_result = SnapNothing | SnapFile file_snapshot | SnapSkip skipped_file

definition trySnapshotFile :: "'a work_env_scheme \<Rightarrow> string \<Rightarrow> string \<Rightarrow> bool \<Rightarrow> work \<Rightarrow> snap_result \<times> work" where
  "trySnapshotFile env full rel skipUnchanged w =
     (let p = toPosixRelative rel; unreadable = SnapSkip \<lparr>skPath = p, skReason = Unreadable\<rparr>
      in case stat_file env w full of
           None \<Rightarrow> (unreadable, w)
         | Some f \<Rightarrow>
             if length (dfBytes f) > weMaxFileSize env then (SnapSkip \<lparr>skPath = p, skReason = TooLarge\<rparr>, w)
             else if \<not> shouldTrackFile full (weClass env) then (SnapNothing, w)
             else (case read_file env w full of
                     None \<Rightarrow> (unreadable, w)
                   | Some bytes \<Rightarrow>
                       (case classifyFileBuffer (\<lambda>e b. snapshotContentFromBytes env b e) full bytes (weClass env) of
                          None \<Rightarrow> (SnapSkip \<lparr>skPath = p, skReason = BinaryDisabled\<rparr>, w)
                        | Some (content, encoding) \<Rightarrow>
                            (let h = hashBlobBytes env bytes; known = jm_get (egSnapshotHashes (wkEngine w)) p
                             in if skipUnchanged \<and> known = Some h then (SnapNothing, w)
                                else (case writeBlobOptions env (wkEngine w) of
                                        (Inl _, s1) \<Rightarrow> (unreadable, w\<lparr>wkEngine := s1\<rparr>)
                                      | (Inr opts, s1) \<Rightarrow>
                                          (case putBlob env opts bytes (egObjects s1) of
                                             Inl _ \<Rightarrow> (unreadable, w\<lparr>wkEngine := s1\<rparr>)
                                           | Inr (_, objs) \<Rightarrow>
                                               (SnapFile \<lparr>fsRelativePath = p, fsContent = Some content, fsHash = Some h,
                                                          fsEncoding = encoding, fsLastModified = dfMtime f,
                                                          fsSize = length (dfBytes f), fsDeleted = None,
                                                          fsChangeType = Some (if known \<noteq> None then Modified else Created),
                                                          fsRenamedFrom = None, fsCopiedFrom = None\<rparr>,
                                                w\<lparr>wkEngine := s1\<lparr>egObjects := objs\<rparr>\<rparr>)))))))"

end
