(* ===== verification/Capture.thy ===== *)
theory Capture
  imports Worktree
begin

text \<open>
  Captures of the working tree (\<open>manager/capture.ts\<close>): filtered, baseline and delta captures, each
  with the reset of the watcher's sets.
\<close>

section \<open>Helpers\<close>

definition resolve_in :: "'a work_env_scheme \<Rightarrow> work \<Rightarrow> string \<Rightarrow> string + string" where
  "resolve_in env w rel = resolveWorkspaceRelativePath env (wk_path w) rel"

definition getLastCheckpointTime :: "work \<Rightarrow> int" where
  "getLastCheckpointTime w =
     (if egHistory (wkEngine w) = [] then wkSessionStart w else egLastCheckpointTime (wkEngine w))"

definition workspaceHasBaseline :: "'a work_env_scheme \<Rightarrow> work \<Rightarrow> bool" where
  "workspaceHasBaseline env w = list_ex (\<lambda>c. cpCaptureMode c = Some Baseline) (workspaceHistory env (wkEngine w))"

definition isWatcherIndexTrusted :: "work \<Rightarrow> bool" where
  "isWatcherIndexTrusted w \<longleftrightarrow> wkTrusted w \<and> wkWatchers w > 0 \<and> egSnapshotHashes (wkEngine w) \<noteq> []"

definition markFullScanComplete :: "work \<Rightarrow> work" where
  "markFullScanComplete w =
     w\<lparr>wkLastFullScan := egNow (wkEngine w), wkTrusted := (if wkWatchers w > 0 then True else wkTrusted w)\<rparr>"

definition invalidateWatcherIndex :: "work \<Rightarrow> work" where
  "invalidateWatcherIndex w = w\<lparr>wkTrusted := False\<rparr>"

definition deletion_snapshot :: "work \<Rightarrow> string \<Rightarrow> file_snapshot" where
  "deletion_snapshot w rel =
     \<lparr>fsRelativePath = rel, fsContent = None, fsHash = jm_get (egSnapshotHashes (wkEngine w)) rel, fsEncoding = ''utf8'',
      fsLastModified = egNow (wkEngine w), fsSize = 0, fsDeleted = Some True, fsChangeType = Some Deleted,
      fsRenamedFrom = None, fsCopiedFrom = None\<rparr>"

definition inventoryFromHashIndex :: "work \<Rightarrow> file_snapshot list \<Rightarrow> string list" where
  "inventoryFromHashIndex w ss =
     fold (\<lambda>x paths. if snapshotIsDeleted x then filter (\<lambda>p. p \<noteq> fsRelativePath x) paths else set_add (fsRelativePath x) paths)
       ss (jm_keys (egSnapshotHashes (wkEngine w)))"

text \<open>The snapshot phase: a worker per item, its snapshots and its skipped files collected in order.\<close>

fun snapshot_all ::
    "('i \<Rightarrow> work \<Rightarrow> snap_result \<times> work) \<Rightarrow> 'i list \<Rightarrow> work \<Rightarrow> file_snapshot list \<times> skipped_file list \<times> work" where
  "snapshot_all worker [] w = ([], [], w)"
| "snapshot_all worker (i # is) w =
     (case worker i w of
        (r, w1) \<Rightarrow>
          (case snapshot_all worker is w1 of
             (ss, sk, w2) \<Rightarrow>
               (case r of SnapNothing \<Rightarrow> (ss, sk, w2)
                | SnapFile x \<Rightarrow> (x # ss, sk, w2)
                | SnapSkip x \<Rightarrow> (ss, x # sk, w2))))"

definition applyCaptureFilterToSnapshots ::
    "'a work_env_scheme \<Rightarrow> string \<Rightarrow> file_snapshot list \<Rightarrow> skipped_file list \<Rightarrow> capture_filter option
     \<Rightarrow> file_snapshot list \<times> skipped_file list" where
  "applyCaptureFilterToSnapshots env workspace ss sk f =
     (if \<not> captureFilterIsActive f then (ss, sk)
      else (filter (\<lambda>x. shouldCaptureRelativePath (neCwd env) workspace (fsRelativePath x) f) ss,
            filter (\<lambda>x. shouldCaptureRelativePath (neCwd env) workspace (skPath x) f) sk))"

record capture_result =
  crSnapshots :: "file_snapshot list"
  crSkipped :: "skipped_file list"
  crMode :: capture_mode
  crInventory :: "string list"

text \<open>The end of every capture: the watcher's sets are cleared and the captured paths remembered.\<close>

definition finish_capture :: "file_snapshot list \<Rightarrow> work \<Rightarrow> work" where
  "finish_capture ss w = on_engine (\<lambda>s. s\<lparr>egDeletedFiles := [], egModifiedFiles := [],
     egPreviousFiles := set_of (map fsRelativePath (filter (\<lambda>x. fsDeleted x \<noteq> Some True) ss))\<rparr>) w"

section \<open>Filtered captures\<close>

text \<open>The include patterns that name a file the scan did not give.\<close>

definition include_target ::
    "'a work_env_scheme \<Rightarrow> string \<Rightarrow> string \<Rightarrow> (string, string) jsmap \<times> skipped_file list \<Rightarrow> work
     \<Rightarrow> (string, string) jsmap \<times> skipped_file list" where
  "include_target env workspace pattern acc w =
     (case acc of (targets, sk) \<Rightarrow>
        (let rel = normalizeCapturePath (neCwd env) workspace pattern
         in if rel = [] \<or> starts_with rel ''../'' \<or> rel = ''..'' \<or> jm_get targets rel \<noteq> None then acc
            else case resolve_in env w rel of
                   Inl _ \<Rightarrow> (targets, sk @ [\<lparr>skPath = rel, skReason = UnsafePath\<rparr>])
                 | Inr full \<Rightarrow> if stat_file env w full \<noteq> None then (jm_set rel full targets, sk) else acc))"

definition filtered_worker ::
    "'a work_env_scheme \<Rightarrow> string \<Rightarrow> capture_filter \<Rightarrow> string \<times> string \<Rightarrow> work \<Rightarrow> snap_result \<times> work" where
  "filtered_worker env workspace f item w =
     (case item of (rel, full) \<Rightarrow>
        if \<not> isExactIncludePath (neCwd env) workspace rel (cfInclude f) \<and> isFileIgnored env w full then (SnapNothing, w)
        else trySnapshotFile env full rel False w)"

definition captureFilteredFiles :: "'a work_env_scheme \<Rightarrow> capture_filter \<Rightarrow> work \<Rightarrow> capture_result \<times> work" where
  "captureFilteredFiles env f w =
     (case truthy (wk_path w) of
        None \<Rightarrow> (\<lparr>crSnapshots = [], crSkipped = [], crMode = Delta, crInventory = []\<rparr>, w)
      | Some workspace \<Rightarrow>
          (let scan = scanWorkspaceFiles env w; wanted = (\<lambda>p. shouldCaptureRelativePath (neCwd env) workspace p (Some f));
               scanned = fold (\<lambda>x m. if wanted (sfRelative x) then jm_set (sfRelative x) (sfFull x) m else m) (srFiles scan) [];
               (targets, sk) = fold (\<lambda>p acc. include_target env workspace p acc w) (or_default (cfInclude f) [])
                                 (scanned, srSkipped scan)
           in case snapshot_all (filtered_worker env workspace f) targets w of
                (ss, extra, w1) \<Rightarrow>
                  (let gone = filter (\<lambda>p. wanted p \<and> jm_get targets p = None \<and> \<not> isl (resolve_in env w1 p))
                                (jm_keys (egSnapshotHashes (wkEngine w1)));
                       (ss2, sk2) = applyCaptureFilterToSnapshots env workspace (ss @ map (deletion_snapshot w1) gone) (sk @ extra) (Some f)
                   in (\<lparr>crSnapshots = ss2, crSkipped = sk2, crMode = Delta, crInventory = inventoryPathsFromScan scan\<rparr>,
                       finish_capture ss2 w1))))"

definition includes_files :: "capture_filter option \<Rightarrow> bool" where
  "includes_files f \<longleftrightarrow> (case f of None \<Rightarrow> False | Some c \<Rightarrow> or_default (cfInclude c) [] \<noteq> [])"

section \<open>Baseline captures\<close>

definition baseline_worker ::
    "'a work_env_scheme \<Rightarrow> string \<Rightarrow> capture_filter option \<Rightarrow> scanned_file \<Rightarrow> work \<Rightarrow> snap_result \<times> work" where
  "baseline_worker env workspace f x w =
     (case resolve_in env w (sfRelative x) of
        Inl _ \<Rightarrow> (SnapSkip \<lparr>skPath = sfRelative x, skReason = UnsafePath\<rparr>, w)
      | Inr full \<Rightarrow>
          if \<not> shouldCaptureRelativePath (neCwd env) workspace (sfRelative x) f then (SnapNothing, w)
          else trySnapshotFile env full (sfRelative x) False w)"

definition captureBaselineFiles :: "'a work_env_scheme \<Rightarrow> capture_filter option \<Rightarrow> work \<Rightarrow> capture_result \<times> work" where
  "captureBaselineFiles env f w =
     (case truthy (wk_path w) of
        None \<Rightarrow> (\<lparr>crSnapshots = [], crSkipped = [], crMode = Baseline, crInventory = []\<rparr>, w)
      | Some workspace \<Rightarrow>
          if includes_files f then captureFilteredFiles env (or_default f \<lparr>cfInclude = None, cfExclude = None\<rparr>) w
          else (let scan = scanWorkspaceFiles env w; inventory = inventoryPathsFromScan scan
                in case snapshot_all (baseline_worker env workspace f) (srFiles scan) w of
                     (ss, extra, w1) \<Rightarrow>
                       (let gone = filter (\<lambda>p. p \<notin> set inventory \<and> shouldCaptureRelativePath (neCwd env) workspace p f
                                             \<and> \<not> isl (resolve_in env w1 p)) (jm_keys (egSnapshotHashes (wkEngine w1)));
                            (ss2, sk2) = applyCaptureFilterToSnapshots env workspace (ss @ map (deletion_snapshot w1) gone)
                                           (srSkipped scan @ extra) f
                        in (\<lparr>crSnapshots = ss2, crSkipped = sk2, crMode = Baseline, crInventory = inventory\<rparr>,
                            markFullScanComplete (finish_capture ss2 w1)))))"

section \<open>Delta captures\<close>

definition getRecentlyModifiedFiles :: "'a work_env_scheme \<Rightarrow> work \<Rightarrow> string list" where
  "getRecentlyModifiedFiles env w =
     (case truthy (wk_path w) of
        None \<Rightarrow> []
      | Some workspace \<Rightarrow>
          fold set_add (filter (\<lambda>p. starts_with p workspace) (weDirtyDocs env))
            (filter (\<lambda>p. starts_with p workspace) (egModifiedFiles (wkEngine w))))"

definition getChangedFilesFromFileSystem :: "'a work_env_scheme \<Rightarrow> work \<Rightarrow> string list \<times> work" where
  "getChangedFilesFromFileSystem env w =
     (case truthy (wk_path w) of
        None \<Rightarrow> ([], w)
      | Some _ \<Rightarrow> (changedFullPathsFromScan (scanWorkspaceFiles env w) (Some (getLastCheckpointTime w))
                    (Some (egSnapshotHashes (wkEngine w))), markFullScanComplete w))"

definition delta_worker ::
    "'a work_env_scheme \<Rightarrow> string \<Rightarrow> capture_filter option \<Rightarrow> string \<Rightarrow> work \<Rightarrow> snap_result \<times> work" where
  "delta_worker env workspace f p w =
     (let full = (if posix_isAbsolute p then p else posix_join [workspace, p]);
          rel = toPosixRelative (posix_relative (neCwd env) workspace full)
      in case resolve_in env w rel of
           Inl _ \<Rightarrow> (SnapSkip \<lparr>skPath = rel, skReason = UnsafePath\<rparr>, w)
         | Inr resolved \<Rightarrow>
             if \<not> shouldCaptureRelativePath (neCwd env) workspace rel f then (SnapNothing, w)
             else if isFileIgnored env w resolved then (SnapNothing, w)
             else trySnapshotFile env resolved rel True w)"

text \<open>Deletions that the watcher reported, then those that the inventory shows.\<close>

definition watched_deletions :: "'a work_env_scheme \<Rightarrow> string \<Rightarrow> capture_filter option \<Rightarrow> work \<Rightarrow> file_snapshot list" where
  "watched_deletions env workspace f w =
     map (deletion_snapshot w)
       (filter (\<lambda>p. \<not> isl (resolve_in env w p) \<and> shouldCaptureRelativePath (neCwd env) workspace p f
                    \<and> (jm_get (egSnapshotHashes (wkEngine w)) p \<noteq> None \<or> p \<in> set (egPreviousFiles (wkEngine w))))
          (map (\<lambda>full. toPosixRelative (posix_relative (neCwd env) workspace full)) (egDeletedFiles (wkEngine w))))"

definition inventory_deletions ::
    "'a work_env_scheme \<Rightarrow> string \<Rightarrow> capture_filter option \<Rightarrow> string list \<Rightarrow> file_snapshot list \<Rightarrow> skipped_file list
     \<Rightarrow> work \<Rightarrow> file_snapshot list" where
  "inventory_deletions env workspace f inventory ss sk w =
     map (deletion_snapshot w)
       (filter (\<lambda>p. p \<notin> set inventory \<and> p \<notin> set (map fsRelativePath ss) \<and> p \<notin> set (map skPath sk)
                    \<and> shouldCaptureRelativePath (neCwd env) workspace p f \<and> \<not> isl (resolve_in env w p))
          (jm_keys (egSnapshotHashes (wkEngine w))))"

text \<open>What a delta capture looks at: the watcher's files, or those a full scan finds changed.\<close>

definition delta_plan :: "'a work_env_scheme \<Rightarrow> work \<Rightarrow> string list \<times> string list option \<times> skipped_file list \<times> work" where
  "delta_plan env w =
     (if isWatcherIndexTrusted w then (getRecentlyModifiedFiles env w, None, [], w)
      else (let scan = scanWorkspaceFiles env w; w1 = markFullScanComplete w;
                changed = changedFullPathsFromScan scan (Some (getLastCheckpointTime w1)) (Some (egSnapshotHashes (wkEngine w1)))
            in (if changed = [] then getRecentlyModifiedFiles env w1 else changed,
                Some (inventoryPathsFromScan scan), srSkipped scan, w1)))"

definition captureChangedFiles :: "'a work_env_scheme \<Rightarrow> capture_filter option \<Rightarrow> work \<Rightarrow> capture_result \<times> work" where
  "captureChangedFiles env f w =
     (case truthy (wk_path w) of
        None \<Rightarrow> (\<lparr>crSnapshots = [], crSkipped = [], crMode = Delta, crInventory = []\<rparr>, w)
      | Some workspace \<Rightarrow>
          if includes_files f then captureFilteredFiles env (or_default f \<lparr>cfInclude = None, cfExclude = None\<rparr>) w
          else (case delta_plan env w of
                  (files, inventory, sk, w1) \<Rightarrow>
                    (case snapshot_all (delta_worker env workspace f) files w1 of
                       (ss, extra, w2) \<Rightarrow>
                         (let ss1 = ss @ watched_deletions env workspace f w2;
                              ss2 = ss1 @ (case inventory of None \<Rightarrow> []
                                           | Some present \<Rightarrow> inventory_deletions env workspace f present ss1 (sk @ extra) w2);
                              (ss3, sk3) = applyCaptureFilterToSnapshots env workspace ss2 (sk @ extra) f;
                              w3 = finish_capture ss3 w2
                          in (\<lparr>crSnapshots = ss3, crSkipped = sk3, crMode = Delta,
                               crInventory = (case inventory of Some present \<Rightarrow> present | None \<Rightarrow> inventoryFromHashIndex w3 ss3)\<rparr>, w3)))))"

definition captureWorkspaceState ::
    "'a work_env_scheme \<Rightarrow> capture_mode option \<Rightarrow> capture_filter option \<Rightarrow> work \<Rightarrow> capture_result \<times> work" where
  "captureWorkspaceState env mode f w =
     (if includes_files f then captureFilteredFiles env (or_default f \<lparr>cfInclude = None, cfExclude = None\<rparr>) w
      else if or_default mode (if workspaceHasBaseline env w then Delta else Baseline) = Baseline
           then captureBaselineFiles env f w else captureChangedFiles env f w)"

definition captureCompleteFileInventory :: "'a work_env_scheme \<Rightarrow> work \<Rightarrow> string list" where
  "captureCompleteFileInventory env w =
     (case truthy (wk_path w) of None \<Rightarrow> [] | Some _ \<Rightarrow> inventoryPathsFromScan (scanWorkspaceFiles env w))"

end
