(* ===== verification/Restore.thy ===== *)
theory Restore
  imports Capture
begin

text \<open>
  Creation of checkpoints from the working tree (\<open>manager/create.ts\<close>) and their restoration
  (\<open>manager/restore.ts\<close>, \<open>manager/restoreJournal.ts\<close>). A message that is looked up in the translations is
  its key and its argument. Writing a file fails where a directory is in the way, where an ancestor is a
  file, and where the environment says so; the code's progress reports and its cache of the brain are
  left out.
\<close>

section \<open>Creation\<close>

record create_options =
  coMessageId :: "string option"
  coStableId :: "string option"
  coDescription :: "string option"
  coIntent :: "string option"
  coTags :: "string list option"
  coIncludeFiles :: "string list option"
  coExcludeFiles :: "string list option"
  coAllowEmpty :: "bool option"
  coForceBaseline :: bool
  coForceDelta :: bool
  coContext :: "conversation_context option"
  coTracked :: bool

definition plain_options :: create_options where
  "plain_options =
     \<lparr>coMessageId = None, coStableId = None, coDescription = None, coIntent = None, coTags = None,
      coIncludeFiles = None, coExcludeFiles = None, coAllowEmpty = None, coForceBaseline = False,
      coForceDelta = False, coContext = None, coTracked = False\<rparr>"

definition nonempty_list :: "'a list \<Rightarrow> 'a list option" where
  "nonempty_list xs = (if xs = [] then None else Some xs)"

definition buildCaptureFilter :: "'a work_env_scheme \<Rightarrow> work \<Rightarrow> create_options \<Rightarrow> capture_filter option" where
  "buildCaptureFilter env w opts =
     (let s = wkEngine w; exclude = or_default (coExcludeFiles opts) [];
          tracked = (case truthy (egWorkspacePath s) of
                       None \<Rightarrow> []
                     | Some workspace \<Rightarrow>
                         if coTracked opts \<and> wkTrackedAI w \<noteq> []
                         then wkTrackedAI w @ map (normalizeCapturePath (neCwd env) workspace) (egModifiedFiles s @ egDeletedFiles s)
                         else []);
          incl = or_default (coIncludeFiles opts) [] @ tracked
      in if incl = [] \<and> exclude = [] then None
         else Some \<lparr>cfInclude = nonempty_list incl, cfExclude = nonempty_list exclude\<rparr>)"

definition annotate_load :: "'a work_env_scheme \<Rightarrow> bytes option \<Rightarrow> engine \<Rightarrow> string \<Rightarrow> string option" where
  "annotate_load env key s h =
     (case getBlob env key (egObjects s) h of
        Inl _ \<Rightarrow> None
      | Inr b \<Rightarrow> if length b > RENAME_SIMILARITY_SIZE_CAP \<or> nul \<in> set b then None
                else Some (snapshotContentFromBytes env b ''utf8''))"

definition annotateCaptureSnapshots ::
    "'a work_env_scheme \<Rightarrow> engine \<Rightarrow> file_snapshot list \<Rightarrow> engine_error + file_snapshot list" where
  "annotateCaptureSnapshots env s ss =
     (if ss = [] \<or> egSnapshotHashes s = [] then Inr ss
      else case readBlobOptions s of
             Inl e \<Rightarrow> Inl e
           | Inr key \<Rightarrow> Inr (annotateSnapshotsFromParentIndex (weColl env) ss (egSnapshotHashes s) (Some (annotate_load env key s))))"

text \<open>The modes of a new checkpoint: the one recorded and the one that drives the walk.\<close>

definition recorded_mode :: "create_options \<Rightarrow> bool \<Rightarrow> bool \<Rightarrow> capture_mode" where
  "recorded_mode opts filtered needsBaseline =
     (if filtered then Delta else if coForceBaseline opts \<or> needsBaseline then Baseline else Delta)"

definition walk_mode :: "capture_filter option \<Rightarrow> capture_mode \<Rightarrow> bool \<Rightarrow> bool \<Rightarrow> capture_mode" where
  "walk_mode f recorded filtered needsBaseline =
     (if includes_files f then Delta
      else if recorded = Baseline \<or> (filtered \<and> needsBaseline) then Baseline else Delta)"

definition may_be_empty :: "create_options \<Rightarrow> bool \<Rightarrow> bool \<Rightarrow> bool" where
  "may_be_empty opts filtered needsBaseline \<longleftrightarrow>
     coAllowEmpty opts = Some True \<or> map_option ccRole (coContext opts) = Some ''user''
     \<or> Option.bind (coContext opts) ccAllowEmpty = Some True \<or> (needsBaseline \<and> \<not> filtered)"

text \<open>The checkpoint object as \<open>createCheckpointRecord\<close> builds it.\<close>

definition new_record ::
    "'a work_env_scheme \<Rightarrow> create_options \<Rightarrow> string \<Rightarrow> capture_mode \<Rightarrow> capture_result \<Rightarrow> file_snapshot list \<Rightarrow> work
     \<Rightarrow> checkpoint_info" where
  "new_record env opts i mode captured ss w =
     (let s = wkEngine w;
          ctx = map_option (\<lambda>c. c\<lparr>ccSessionId := or_else (truthy (ccSessionId c)) (truthy (wkBoundSession w))\<rparr>) (coContext opts);
          fallback = (case truthy (coMessageId opts) of
                        Some m \<Rightarrow> ''Checkpoint for message '' @ m
                      | None \<Rightarrow> ''Manual checkpoint - '' @ weLocaleDate env (egNow s))
      in (new_checkpoint (''cp_'' @ i) (js_or (or_default (coDescription opts) []) fallback) (egNow s))
           \<lparr>cpMessageId := coMessageId opts, cpStableId := coStableId opts,
            cpWorkspacePath := egWorkspacePath s,
            cpWorkspaceKey := map_option (workspaceStorageKey env) (truthy (egWorkspacePath s)),
            cpFileSnapshots := Some ss, cpFileInventory := Some (crInventory captured),
            cpCaptureMode := Some mode, cpSkippedFiles := Some (crSkipped captured),
            cpSessionId := or_else (Option.bind ctx (\<lambda>c. truthy (ccSessionId c))) (truthy (wkBoundSession w)),
            cpIntent := truthy (coIntent opts), cpChangedPaths := Some (changedPathsFromSnapshots (Some ss)),
            cpConversationContext := ctx, cpTags := normalizeTags (coTags opts)\<rparr>)"

definition draw_uuid :: "'a work_env_scheme \<Rightarrow> work \<Rightarrow> string \<times> work" where
  "draw_uuid env w = (weUuid env (wkDraws w), w\<lparr>wkDraws := Suc (wkDraws w)\<rparr>)"

definition createCheckpointRecord :: "'a work_env_scheme \<Rightarrow> create_options \<Rightarrow> work \<Rightarrow> string option \<times> work" where
  "createCheckpointRecord env opts w =
     (if \<not> egInitialized (wkEngine w) \<or> truthy (wk_path w) = None then (None, w)
      else case existing_checkpoint (coMessageId opts) (coStableId opts) (wkEngine w) of
        Some i \<Rightarrow> (Some i, w)
      | None \<Rightarrow>
          (let f = buildCaptureFilter env w opts; filtered = captureFilterIsActive f;
               needsBaseline = \<not> workspaceHasBaseline env w;
               mode = walk_mode f (recorded_mode opts filtered needsBaseline) filtered needsBaseline
           in case captureWorkspaceState env (Some mode) f w of
                (captured, w1) \<Rightarrow>
                  (let recorded = (if filtered then Delta else crMode captured)
                   in case annotateCaptureSnapshots env (wkEngine w1) (crSnapshots captured) of
                        Inl _ \<Rightarrow> (None, on_engine (append_audit ''create'' None False) w1)
                      | Inr ss \<Rightarrow>
                          if ss = [] \<and> \<not> may_be_empty opts filtered needsBaseline then (None, w1)
                          else (case draw_uuid env w1 of
                                  (i, w2) \<Rightarrow>
                                    (case draw_uuid env w2 of
                                       (branch, w3) \<Rightarrow>
                                         (case record_checkpoint env branch (new_record env opts i recorded captured ss w2) (wkEngine w3) of
                                            (result, s) \<Rightarrow> (result, w3\<lparr>wkEngine := s\<rparr>)))))))"

definition createManualCheckpoint :: "'a work_env_scheme \<Rightarrow> create_options \<Rightarrow> work \<Rightarrow> string option \<times> work" where
  "createManualCheckpoint env opts w = createCheckpointRecord env (opts\<lparr>coTracked := False\<rparr>) w"

definition createCheckpointForMessage ::
    "'a work_env_scheme \<Rightarrow> string \<Rightarrow> string option \<Rightarrow> string option \<Rightarrow> conversation_context option \<Rightarrow> string option
     \<Rightarrow> work \<Rightarrow> string option \<times> work" where
  "createCheckpointForMessage env message description stableId ctx intent w =
     createCheckpointRecord env
       (plain_options\<lparr>coDescription := description, coIntent := intent, coMessageId := Some message, coStableId := stableId,
          coContext := ctx,
          coAllowEmpty := Some (map_option ccRole ctx = Some ''user'' \<or> Option.bind ctx ccAllowEmpty = Some True)\<rparr>) w"

definition turn_context :: "'a work_env_scheme \<Rightarrow> string \<Rightarrow> string \<Rightarrow> bool option \<Rightarrow> work \<Rightarrow> conversation_context" where
  "turn_context env session description allow w =
     \<lparr>ccMessageContent = description, ccRole = ''agent-turn'', ccTimestamp = eeIso env (egNow (wkEngine w)), ccIndex = 0,
      ccSessionId = Some session, ccAllowEmpty = allow\<rparr>"

definition createAgentCheckpoint ::
    "'a work_env_scheme \<Rightarrow> create_options \<Rightarrow> string option \<Rightarrow> string option \<Rightarrow> work \<Rightarrow> string option \<times> work" where
  "createAgentCheckpoint env opts sessionId bound w =
     (let session = or_else (truthy sessionId) (truthy bound);
          description = js_or (or_default (coDescription opts) []) ''AI agent changes''
      in createCheckpointRecord env
           (plain_options\<lparr>coDescription := Some description, coTags := coTags opts, coIncludeFiles := coIncludeFiles opts,
              coExcludeFiles := coExcludeFiles opts, coTracked := True, coAllowEmpty := Some True,
              coMessageId := Some (case session of Some i \<Rightarrow> i | None \<Rightarrow> ''agent-'' @ show_nat (nat (egNow (wkEngine w)))),
              coContext := map_option (\<lambda>i. turn_context env i description (Some True) w) session\<rparr>) w)"

definition createIncrementalCheckpoint ::
    "'a work_env_scheme \<Rightarrow> create_options \<Rightarrow> string option \<Rightarrow> work \<Rightarrow> string option \<times> work" where
  "createIncrementalCheckpoint env opts bound w =
     (let description = js_or (or_default (coDescription opts) [])
            (''Incremental checkpoint - '' @ (case truthy bound of Some i \<Rightarrow> i | None \<Rightarrow> weLocaleDate env (egNow (wkEngine w))))
      in createCheckpointRecord env
           (plain_options\<lparr>coDescription := Some description, coTags := Some (''incremental'' # or_default (coTags opts) []),
              coIncludeFiles := coIncludeFiles opts, coExcludeFiles := coExcludeFiles opts, coTracked := True,
              coForceDelta := True, coAllowEmpty := Some False,
              coContext := map_option (\<lambda>i. turn_context env i description None w) (truthy bound)\<rparr>) w)"

section \<open>Writing and removing files\<close>

definition RESTORE_TMP_SUFFIX :: string where "RESTORE_TMP_SUFFIX = ''.knox-restore-tmp''"

definition is_dir :: "disk \<Rightarrow> string \<Rightarrow> bool" where
  "is_dir d p \<longleftrightarrow> list_ex (\<lambda>q. starts_with q (p @ ''/'')) (jm_keys d)"

definition below_file :: "disk \<Rightarrow> string \<Rightarrow> bool" where
  "below_file d p \<longleftrightarrow> list_ex (\<lambda>q. starts_with p (q @ ''/'')) (jm_keys d)"

definition restoreTempPath :: "string \<Rightarrow> string" where
  "restoreTempPath full = full @ RESTORE_TMP_SUFFIX"

definition removeRestoreTempFile :: "string \<Rightarrow> work \<Rightarrow> work" where
  "removeRestoreTempFile full w = w\<lparr>wkFiles := jm_del (restoreTempPath full) (wkFiles w)\<rparr>"

text \<open>The bytes of a snapshot: its object, or its inline content.\<close>

definition snapshot_data :: "'a work_env_scheme \<Rightarrow> engine \<Rightarrow> file_snapshot \<Rightarrow> string + bytes" where
  "snapshot_data env s x =
     (case truthy (fsHash x) of
        Some h \<Rightarrow>
          (case readBlobOptions s of
             Inl e \<Rightarrow> Inl (engine_error_message e)
           | Inr key \<Rightarrow> (case getBlob env key (egObjects s) h of Inl e \<Rightarrow> Inl (blob_error_message e) | Inr b \<Rightarrow> Inr b))
      | None \<Rightarrow>
          (case fsContent x of
             Some c \<Rightarrow> Inr (bytesFromSnapshotContent env c (js_or (fsEncoding x) ''utf8''))
           | None \<Rightarrow> Inl (''Snapshot for '' @ fsRelativePath x @ '' has no blob hash or content'')))"

text \<open>The temporary file is renamed over the target, or removed when anything fails.\<close>

definition writeSnapshotContent :: "'a work_env_scheme \<Rightarrow> file_snapshot \<Rightarrow> work \<Rightarrow> string option \<times> work" where
  "writeSnapshotContent env x w =
     (case resolve_in env w (fsRelativePath x) of
        Inl _ \<Rightarrow> (Some (''checkpoint.error.sandbox '' @ fsRelativePath x), w)
      | Inr full \<Rightarrow>
          if below_file (wkFiles w) full then (Some ''ENOTDIR'', w)
          else (case snapshot_data env (wkEngine w) x of
                  Inl m \<Rightarrow> (Some m, removeRestoreTempFile full w)
                | Inr bytes \<Rightarrow>
                    (case weFileWriteError env full of
                       Some m \<Rightarrow> (Some m, removeRestoreTempFile full w)
                     | None \<Rightarrow>
                         if is_dir (wkFiles w) full \<or> is_dir (wkFiles w) (restoreTempPath full)
                         then (Some ''EISDIR'', removeRestoreTempFile full w)
                         else (None, (removeRestoreTempFile full w)\<lparr>wkFiles :=
                                 jm_set full \<lparr>dfBytes = bytes, dfMtime = egNow (wkEngine w)\<rparr>
                                   (jm_del (restoreTempPath full) (wkFiles w))\<rparr>))))"

definition unlink_file :: "'a work_env_scheme \<Rightarrow> string \<Rightarrow> work \<Rightarrow> string option \<times> work" where
  "unlink_file env full w =
     (case weUnlinkError env full of
        Some m \<Rightarrow> (Some m, w)
      | None \<Rightarrow>
          if jm_get (wkFiles w) full \<noteq> None then (None, w\<lparr>wkFiles := jm_del full (wkFiles w)\<rparr>)
          else (Some (if below_file (wkFiles w) full then ''ENOTDIR'' else if is_dir (wkFiles w) full then ''EISDIR''
                      else ''ENOENT''), w))"

text \<open>The removal loop of both clean-ups: removed and failed paths are collected.\<close>

fun remove_files ::
    "'a work_env_scheme \<Rightarrow> string list \<Rightarrow> work \<Rightarrow> string list \<times> (string \<times> string) list \<times> work" where
  "remove_files env [] w = ([], [], w)"
| "remove_files env (p # ps) w =
     (case resolve_in env w p of
        Inl _ \<Rightarrow> (case remove_files env ps w of
                    (removed, failed, w') \<Rightarrow> (removed, (p, ''checkpoint.error.sandbox '' @ p) # failed, w'))
      | Inr full \<Rightarrow>
          (case unlink_file env full w of
             (Some m, w1) \<Rightarrow> (case remove_files env ps w1 of
                               (removed, failed, w') \<Rightarrow> (removed, (p, ''Failed to remove: '' @ m) # failed, w'))
           | (None, w1) \<Rightarrow> (case remove_files env ps w1 of (removed, failed, w') \<Rightarrow> (p # removed, failed, w'))))"

definition cleanupFilesNotInInventory ::
    "'a work_env_scheme \<Rightarrow> string list \<Rightarrow> work \<Rightarrow> string list \<times> (string \<times> string) list \<times> work" where
  "cleanupFilesNotInInventory env inventory w =
     (if truthy (wk_path w) = None then ([], [], w)
      else remove_files env (filter (\<lambda>p. p \<notin> set inventory) (captureCompleteFileInventory env w)) w)"

datatype conflict_mode = ConflictSkip | ConflictOverwrite | ConflictBackup | ConflictPrompt

definition cleanupExtraFiles ::
    "'a work_env_scheme \<Rightarrow> file_snapshot list \<Rightarrow> conflict_mode option \<Rightarrow> work \<Rightarrow> string list \<times> (string \<times> string) list \<times> work" where
  "cleanupExtraFiles env ss mode w =
     (let extra = filter (\<lambda>p. p \<notin> set (map fsRelativePath ss)) (captureCompleteFileInventory env w);
          choice = weAnswer env ''checkpoint.filesNotInCheckpoint'';
          agreed = (mode \<noteq> Some ConflictPrompt \<or> choice = AnswerAll
                    \<or> (choice = AnswerShow \<and> weAnswer env ''checkpoint.filesToBeRemoved'' = AnswerAll))
      in if truthy (wk_path w) = None \<or> extra = [] \<or> \<not> agreed then ([], [], w) else remove_files env extra w)"

section \<open>The tree at a checkpoint\<close>

datatype restore_error = RestoreCrypt encryption_code | RestoreThrow string

fun encryptionFailureMessage :: "encryption_code \<Rightarrow> string" where
  "encryptionFailureMessage MissingKey = ''checkpoint.encrypt.missingKey''"
| "encryptionFailureMessage DecryptFailed = ''checkpoint.encrypt.decryptFailed''"

fun restore_error_of :: "engine_error \<Rightarrow> restore_error" where
  "restore_error_of (BlobFailure (EncryptionError code m)) = RestoreCrypt code"
| "restore_error_of e = RestoreThrow (engine_error_message e)"

definition load_corrupt :: "engine \<Rightarrow> string option" where
  "load_corrupt s = (case egLastLoad s of Some (LoadCorrupt r) \<Rightarrow> Some r | _ \<Rightarrow> None)"

fun load_chain ::
    "'a engine_env_scheme \<Rightarrow> checkpoint_info list \<Rightarrow> engine \<Rightarrow> (restore_error + file_snapshot list list option) \<times> engine" where
  "load_chain env [] s = (Inr (Some []), s)"
| "load_chain env (c # cs) s =
     (case loadCheckpointFromDisk env (cpId c) s of
        (Inl e, s1) \<Rightarrow> (Inl (restore_error_of e), s1)
      | (Inr d, s1) \<Rightarrow>
          if d = None \<and> load_corrupt s1 \<noteq> None then (Inr None, s1)
          else (case load_chain env cs s1 of
                  (Inr (Some rest), s2) \<Rightarrow>
                    (Inr (Some ((case d of Some x \<Rightarrow> snapshots_of x | None \<Rightarrow> []) # rest)), s2)
                | r \<Rightarrow> r))"

definition reconstructStateAtCheckpoint ::
    "'a engine_env_scheme \<Rightarrow> string \<Rightarrow> engine \<Rightarrow> (restore_error + resolved_map option) \<times> engine" where
  "reconstructStateAtCheckpoint env i s =
     (case lineageCheckpoints (workspaceHistory env s) i of
        None \<Rightarrow> (Inr None, s)
      | Some chain \<Rightarrow>
          (case load_chain env chain s of
             (Inl e, s1) \<Rightarrow> (Inl e, s1)
           | (Inr ss, s1) \<Rightarrow> (Inr (map_option replaySnapshotsToState ss), s1)))"

section \<open>The journal\<close>

definition writeRestoreJournal :: "'a work_env_scheme \<Rightarrow> restore_journal \<Rightarrow> work \<Rightarrow> string option \<times> work" where
  "writeRestoreJournal env j w =
     (case eeWriteError env ''restore-journal.json'' of
        Some m \<Rightarrow> (Some m, w) | None \<Rightarrow> (None, w\<lparr>wkJournal := Some j\<rparr>))"

definition clearRestoreJournal :: "work \<Rightarrow> work" where
  "clearRestoreJournal w = w\<lparr>wkJournal := None\<rparr>"

section \<open>The write loop\<close>

record restore_options =
  roCreateBackup :: "bool option"
  roConflict :: "conflict_mode option"
  roIncludeFiles :: "string list option"
  roExcludeFiles :: "string list option"
  roCleanup :: "bool option"
  roSkipJournal :: bool

record restore_result =
  rrSuccess :: bool
  rrRestored :: "string list"
  rrFailed :: "(string \<times> string) list"
  rrConflicts :: "(string \<times> string) list"
  rrRemoved :: "string list"

record restore_loop =
  rlRestored :: "string list"
  rlFailed :: "(string \<times> string) list"
  rlConflicts :: "(string \<times> string) list"
  rlCancelled :: bool
  rlMode :: "conflict_mode option"
  rlProcessed :: nat
  rlJournal :: "restore_journal option"

definition resolved_snapshot :: "work \<Rightarrow> string \<Rightarrow> resolved_state \<Rightarrow> file_snapshot" where
  "resolved_snapshot w p r =
     \<lparr>fsRelativePath = p, fsContent = Some (rsContent r), fsHash = rsHash r, fsEncoding = rsEncoding r,
      fsLastModified = egNow (wkEngine w), fsSize = length (rsContent r), fsDeleted = None, fsChangeType = None,
      fsRenamedFrom = None, fsCopiedFrom = None\<rparr>"

definition same_bytes :: "'a work_env_scheme \<Rightarrow> file_snapshot \<Rightarrow> bytes \<Rightarrow> bool" where
  "same_bytes env x current =
     (case truthy (fsHash x) of
        Some h \<Rightarrow> hashBlobBytes env current = h
      | None \<Rightarrow> (case fsContent x of
                  Some c \<Rightarrow> bytesFromSnapshotContent env c (js_or (fsEncoding x) ''utf8'') = current | None \<Rightarrow> False))"

text \<open>What the conflict test decides: whether to write, the mode from now on, and whether it is a conflict.\<close>

definition conflict_step ::
    "'a work_env_scheme \<Rightarrow> file_snapshot \<Rightarrow> bytes option \<Rightarrow> conflict_mode option \<Rightarrow> bool \<times> conflict_mode option \<times> bool" where
  "conflict_step env x current mode =
     (case current of
        None \<Rightarrow> (True, mode, False)
      | Some b \<Rightarrow>
          if same_bytes env x b then (True, mode, False)
          else if mode = Some ConflictSkip then (False, mode, True)
          else if mode = Some ConflictPrompt then
            (let a = weAnswer env (fsRelativePath x)
             in (a \<noteq> AnswerNo, if a = AnswerAll then Some ConflictOverwrite else mode, True))
          else (True, mode, True))"

definition fail_file :: "string \<Rightarrow> string \<Rightarrow> restore_loop \<Rightarrow> restore_loop" where
  "fail_file p m l = l\<lparr>rlFailed := rlFailed l @ [(p, m)]\<rparr>"

text \<open>The write of one file and, with a journal, its entry; the journal's own failure is the file's.\<close>

definition write_entry ::
    "'a work_env_scheme \<Rightarrow> string \<Rightarrow> file_snapshot \<Rightarrow> restore_loop \<times> work \<Rightarrow> restore_loop \<times> work" where
  "write_entry env p x lw =
     (case lw of (l, w) \<Rightarrow>
        (case writeSnapshotContent env x w of
           (Some m, w1) \<Rightarrow> (fail_file p m l, w1)
         | (None, w1) \<Rightarrow>
             (let l1 = l\<lparr>rlRestored := rlRestored l @ [p]\<rparr>
              in case rlJournal l1 of
                   None \<Rightarrow> (l1, w1)
                 | Some j \<Rightarrow>
                     (let j1 = j\<lparr>rjCompleted := rjCompleted j @ [p]\<rparr>; l2 = l1\<lparr>rlJournal := Some j1\<rparr>
                      in case writeRestoreJournal env j1 w1 of
                           (Some m, w2) \<Rightarrow> (fail_file p m l2, w2) | (None, w2) \<Rightarrow> (l2, w2)))))"

definition restore_entry ::
    "'a work_env_scheme \<Rightarrow> string \<Rightarrow> resolved_state \<Rightarrow> restore_loop \<times> work \<Rightarrow> restore_loop \<times> work" where
  "restore_entry env p r lw =
     (case lw of (l, w) \<Rightarrow>
        (case resolve_in env w p of
           Inl _ \<Rightarrow> (fail_file p (''checkpoint.error.sandbox '' @ p) l, w)
         | Inr full \<Rightarrow>
             (let x = resolved_snapshot w p r
              in if below_file (wkFiles w) full then ((fail_file p ''ENOTDIR'' l)\<lparr>rlProcessed := Suc (rlProcessed l)\<rparr>, w)
                 else (case conflict_step env x (read_file env w full) (rlMode l) of
                         (write, mode, conflict) \<Rightarrow>
                           (let l1 = l\<lparr>rlMode := mode, rlProcessed := Suc (rlProcessed l),
                                       rlConflicts := rlConflicts l @ (if conflict then [(p, ''content_changed'')] else [])\<rparr>
                            in if write then write_entry env p x (l1, w) else (l1, w))))))"

fun restore_entries ::
    "'a work_env_scheme \<Rightarrow> bool \<Rightarrow> (string \<times> resolved_state) list \<Rightarrow> restore_loop \<times> work \<Rightarrow> restore_loop \<times> work" where
  "restore_entries env rollback [] lw = lw"
| "restore_entries env rollback ((p, r) # es) lw =
     (if weCancel env rollback p (rlProcessed (fst lw))
      then ((fail_file p ''cancelled'' (fst lw))\<lparr>rlCancelled := True\<rparr>, snd lw)
      else restore_entries env rollback es (restore_entry env p r lw))"

section \<open>Restoring a checkpoint\<close>

record restore_outcome =
  rocLoop :: restore_loop
  rocRemoved :: "string list"
  rocBackup :: "string option"
  rocTreeSize :: nat

definition record_restoration :: "string \<Rightarrow> bool \<Rightarrow> nat \<Rightarrow> nat \<Rightarrow> string option \<Rightarrow> work \<Rightarrow> work" where
  "record_restoration i ok restored failed err w =
     w\<lparr>wkRestorations := wkRestorations w
        @ [\<lparr>reCheckpointId = i, reSuccess = ok, reRestored = restored, reFailed = failed, reError = err\<rparr>]\<rparr>"

definition restore_targets :: "restore_options \<Rightarrow> resolved_map \<Rightarrow> (string \<times> resolved_state) list" where
  "restore_targets opts tree =
     filter (\<lambda>(p, r). (case roIncludeFiles opts of None \<Rightarrow> True | Some ps \<Rightarrow> p \<in> set ps) \<and> p \<notin> set (or_default (roExcludeFiles opts) []))
       tree"

definition backup_options :: "string \<Rightarrow> create_options" where
  "backup_options i =
     plain_options\<lparr>coDescription := Some (''Pre-restore backup for '' @ i), coAllowEmpty := Some True, coForceBaseline := True\<rparr>"

text \<open>The removal of files that the checkpoint does not have, once all writes succeeded.\<close>

definition restore_cleanup ::
    "'a work_env_scheme \<Rightarrow> restore_options \<Rightarrow> checkpoint_info \<Rightarrow> (string \<times> resolved_state) list \<Rightarrow> restore_loop \<Rightarrow> work
     \<Rightarrow> string list \<times> (string \<times> string) list \<times> work" where
  "restore_cleanup env opts d entries l w =
     (if rlFailed l \<noteq> [] \<or> rlCancelled l \<or> roCleanup opts = Some False then ([], [], w)
      else case cpFileInventory d of
             Some present \<Rightarrow> cleanupFilesNotInInventory env (present @ map skPath (or_default (cpSkippedFiles d) [])) w
           | None \<Rightarrow> cleanupExtraFiles env (map (\<lambda>(p, r). resolved_snapshot w p r) entries) (rlMode l) w)"

text \<open>The progress block, after the tree is known: backup, journal, writes, clean-up.\<close>

definition restore_progress ::
    "'a work_env_scheme \<Rightarrow> bool \<Rightarrow> string \<Rightarrow> restore_options \<Rightarrow> checkpoint_info \<Rightarrow> resolved_map \<Rightarrow> work
     \<Rightarrow> (restore_error + restore_outcome) \<times> work" where
  "restore_progress env rollback i opts d tree w =
     (case (if roCreateBackup opts = Some False then (None, w) else createManualCheckpoint env (backup_options i) w) of
        (backup, w1) \<Rightarrow>
          (let entries = restore_targets opts tree;
               j = \<lparr>rjCheckpointId = i, rjBackupId = backup, rjPlannedWrites = map fst entries,
                    rjPlannedDeletes = or_default (cpFileInventory d) [], rjCompleted = [], rjStatus = JournalWriting\<rparr>;
               journal = (if roSkipJournal opts then None else Some j)
           in case (case journal of None \<Rightarrow> (None, w1) | Some j \<Rightarrow> writeRestoreJournal env j w1) of
                (Some m, w2) \<Rightarrow> (Inl (RestoreThrow m), w2)
              | (None, w2) \<Rightarrow>
                  (case restore_entries env rollback entries
                          (\<lparr>rlRestored = [], rlFailed = [], rlConflicts = [], rlCancelled = False, rlMode = roConflict opts,
                            rlProcessed = 0, rlJournal = journal\<rparr>, w2) of
                     (l, w3) \<Rightarrow>
                       (case restore_cleanup env opts d entries l w3 of
                          (removed, failed, w4) \<Rightarrow>
                            (Inr \<lparr>rocLoop = l\<lparr>rlFailed := rlFailed l @ failed\<rparr>, rocRemoved = removed, rocBackup = backup,
                                  rocTreeSize = length tree\<rparr>, w4)))))"

definition restore_phase ::
    "'a work_env_scheme \<Rightarrow> bool \<Rightarrow> string \<Rightarrow> restore_options \<Rightarrow> work \<Rightarrow> (restore_error + restore_outcome) \<times> work" where
  "restore_phase env rollback i opts w =
     (case loadCheckpointFromDisk env i (wkEngine w) of
        (Inl e, s1) \<Rightarrow> (Inl (restore_error_of e), w\<lparr>wkEngine := s1\<rparr>)
      | (Inr None, s1) \<Rightarrow>
          (Inl (RestoreThrow (case load_corrupt s1 of
                                Some r \<Rightarrow> ''checkpoint.corrupt '' @ i @ '' '' @ r
                              | None \<Rightarrow> ''checkpoint.dataNotFound '' @ i)), w\<lparr>wkEngine := s1\<rparr>)
      | (Inr (Some d), s1) \<Rightarrow>
          (case reconstructStateAtCheckpoint env i s1 of
             (Inl e, s2) \<Rightarrow> (Inl e, w\<lparr>wkEngine := s2\<rparr>)
           | (Inr None, s2) \<Rightarrow> (Inl (RestoreThrow (''checkpoint.error.reconstruct '' @ i)), w\<lparr>wkEngine := s2\<rparr>)
           | (Inr (Some tree), s2) \<Rightarrow> restore_progress env rollback i opts d tree (w\<lparr>wkEngine := s2\<rparr>)))"

text \<open>The handler of an exception: an encryption error is a failed result, any other is thrown on.\<close>

definition restore_caught :: "string \<Rightarrow> restore_error \<Rightarrow> work \<Rightarrow> (string + restore_result) \<times> work" where
  "restore_caught i e w =
     (case e of
        RestoreCrypt code \<Rightarrow>
          (let m = encryptionFailureMessage code
           in (Inr \<lparr>rrSuccess = False, rrRestored = [], rrFailed = [(''*'', m)], rrConflicts = [], rrRemoved = []\<rparr>,
               record_restoration i False 0 1 (Some m) w))
      | RestoreThrow m \<Rightarrow> (Inl m, record_restoration i False 0 0 (Some m) w))"

definition first_error :: "(string \<times> string) list \<Rightarrow> string option" where
  "first_error failed = map_option snd (first_opt failed)"

text \<open>The end of a restore that is not rolled back.\<close>

definition restore_finish ::
    "string \<Rightarrow> restore_options \<Rightarrow> restore_outcome \<Rightarrow> work \<Rightarrow> (string + restore_result) \<times> work" where
  "restore_finish i opts oc w =
     (let l = rocLoop oc; w1 = (if roSkipJournal opts then w else clearRestoreJournal w);
          ok = (rlFailed l = [] \<and> (rlRestored l \<noteq> [] \<or> rocTreeSize oc = 0))
      in (Inr \<lparr>rrSuccess = ok, rrRestored = rlRestored l, rrFailed = rlFailed l, rrConflicts = rlConflicts l,
               rrRemoved = rocRemoved oc\<rparr>,
          record_restoration i ok (length (rlRestored l)) (length (rlFailed l)) (first_error (rlFailed l)) w1))"

definition restore_guard :: "string \<Rightarrow> work \<Rightarrow> string option" where
  "restore_guard i w =
     (if \<not> egInitialized (wkEngine w) then Some ''Checkpoint system not initialized''
      else if find_cp (wkEngine w) i = None then Some (''Checkpoint '' @ i @ '' not found'') else None)"

definition rollback_options :: restore_options where
  "rollback_options =
     \<lparr>roCreateBackup = Some False, roConflict = Some ConflictOverwrite, roIncludeFiles = None, roExcludeFiles = None,
      roCleanup = Some False, roSkipJournal = True\<rparr>"

text \<open>The nested restore of the backup: it makes no backup itself, so it is never rolled back.\<close>

definition restore_backup :: "'a work_env_scheme \<Rightarrow> string \<Rightarrow> work \<Rightarrow> (string + restore_result) \<times> work" where
  "restore_backup env i w =
     (case restore_guard i w of
        Some m \<Rightarrow> (Inl m, w)
      | None \<Rightarrow>
          (case restore_phase env True i rollback_options w of
             (Inl e, w1) \<Rightarrow> restore_caught i e w1 | (Inr oc, w1) \<Rightarrow> restore_finish i rollback_options oc w1))"

definition restore_rollback ::
    "'a work_env_scheme \<Rightarrow> string \<Rightarrow> string \<Rightarrow> restore_outcome \<Rightarrow> work \<Rightarrow> (string + restore_result) \<times> work" where
  "restore_rollback env i backup oc w =
     (let l = rocLoop oc
      in case (case rlJournal l of
                 None \<Rightarrow> (None, w) | Some j \<Rightarrow> writeRestoreJournal env (j\<lparr>rjStatus := JournalRollingBack\<rparr>) w) of
           (Some m, w1) \<Rightarrow> restore_caught i (RestoreThrow m) w1
         | (None, w1) \<Rightarrow>
             (case restore_backup env backup w1 of
                (Inl m, w2) \<Rightarrow> restore_caught i (RestoreThrow m) w2
              | (Inr _, w2) \<Rightarrow>
                  (Inr \<lparr>rrSuccess = False, rrRestored = [], rrFailed = rlFailed l, rrConflicts = rlConflicts l, rrRemoved = []\<rparr>,
                   record_restoration i False 0 (length (rlFailed l))
                     (if rlCancelled l then Some ''cancelled'' else first_error (rlFailed l)) (clearRestoreJournal w2))))"

definition restoreCheckpoint ::
    "'a work_env_scheme \<Rightarrow> string \<Rightarrow> restore_options \<Rightarrow> work \<Rightarrow> (string + restore_result) \<times> work" where
  "restoreCheckpoint env i opts w =
     (case restore_guard i w of
        Some m \<Rightarrow> (Inl m, w)
      | None \<Rightarrow>
          (case restore_phase env False i opts w of
             (Inl e, w1) \<Rightarrow> restore_caught i e w1
           | (Inr oc, w1) \<Rightarrow>
               (case truthy (rocBackup oc) of
                  Some backup \<Rightarrow>
                    if (rlCancelled (rocLoop oc) \<or> rlFailed (rocLoop oc) \<noteq> []) \<and> \<not> roSkipJournal opts
                    then restore_rollback env i backup oc w1 else restore_finish i opts oc w1
                | None \<Rightarrow> restore_finish i opts oc w1)))"

section \<open>Recovery and selective restores\<close>

text \<open>After a crash: the backup is put back, temporary files are removed, the journal is cleared.\<close>

definition recoverIncompleteRestore :: "'a work_env_scheme \<Rightarrow> work \<Rightarrow> string option \<times> work" where
  "recoverIncompleteRestore env w =
     (case wkJournal w of
        None \<Rightarrow> (None, w)
      | Some j \<Rightarrow>
          (let w1 = on_engine (recordHealthIssue HealthRestoreIncomplete (''Incomplete restore of '' @ rjCheckpointId j)
                                 (Some (rjCheckpointId j))) w;
               tidy = (\<lambda>w. clearRestoreJournal (fold (\<lambda>p w. case resolve_in env w p of
                          Inl _ \<Rightarrow> w | Inr full \<Rightarrow> removeRestoreTempFile full w) (rjPlannedWrites j) w))
           in case writeRestoreJournal env (j\<lparr>rjStatus := JournalRollingBack\<rparr>) w1 of
                (Some m, w2) \<Rightarrow> (Some m, w2)
              | (None, w2) \<Rightarrow>
                  (case truthy (rjBackupId j) of
                     None \<Rightarrow> (None, tidy w2)
                   | Some b \<Rightarrow>
                       (case restore_backup env b w2 of (Inl _, w3) \<Rightarrow> (None, w3) | (Inr _, w3) \<Rightarrow> (None, tidy w3)))))"

definition restore_one ::
    "'a work_env_scheme \<Rightarrow> resolved_map \<Rightarrow> string \<Rightarrow> string list \<times> (string \<times> string) list \<times> work
     \<Rightarrow> string list \<times> (string \<times> string) list \<times> work" where
  "restore_one env tree p acc =
     (case acc of (restored, failed, w) \<Rightarrow>
        (case resolve_in env w p of
           Inl _ \<Rightarrow> (restored, failed @ [(p, ''checkpoint.error.sandbox '' @ p)], w)
         | Inr full \<Rightarrow>
             (case jm_get tree p of
                None \<Rightarrow> (restored @ [p], failed, snd (unlink_file env full w))
              | Some r \<Rightarrow>
                  (case writeSnapshotContent env (resolved_snapshot w p r) w of
                     (Some m, w1) \<Rightarrow> (restored, failed @ [(p, m)], w1) | (None, w1) \<Rightarrow> (restored @ [p], failed, w1)))))"

definition restoreCheckpointFiles ::
    "'a work_env_scheme \<Rightarrow> string \<Rightarrow> string list \<Rightarrow> work \<Rightarrow> (restore_error + restore_result) \<times> work" where
  "restoreCheckpointFiles env i paths w =
     (if \<not> egInitialized (wkEngine w) then (Inl (RestoreThrow ''Checkpoint system not initialized''), w)
      else if truthy (wk_path w) = None then (Inl (RestoreThrow ''No workspace available''), w)
      else case reconstructStateAtCheckpoint env i (wkEngine w) of
             (Inl e, s1) \<Rightarrow> (Inl e, w\<lparr>wkEngine := s1\<rparr>)
           | (Inr None, s1) \<Rightarrow>
               (Inl (RestoreThrow (case load_corrupt s1 of
                                     Some r \<Rightarrow> ''checkpoint.corrupt '' @ i @ '' '' @ r
                                   | None \<Rightarrow> ''Checkpoint data not found or corrupted for '' @ i)), w\<lparr>wkEngine := s1\<rparr>)
           | (Inr (Some tree), s1) \<Rightarrow>
               (case fold (restore_one env tree) (set_of paths) ([], [], w\<lparr>wkEngine := s1\<rparr>) of
                  (restored, failed, w1) \<Rightarrow>
                    (let ok = (failed = [] \<and> restored \<noteq> [])
                     in (Inr \<lparr>rrSuccess = ok, rrRestored = restored, rrFailed = failed, rrConflicts = [], rrRemoved = []\<rparr>,
                         record_restoration i ok (length restored) (length failed) (first_error failed) w1))))"

end
