(* ===== verification/Stash.thy ===== *)
theory Stash
  imports Restore
begin

text \<open>
  The stash: its index file (\<open>store/stashIndex.ts\<close>) and the operations on it (\<open>manager/stash.ts\<close>).
  \<open>egStash\<close> holds what a reader parses from the index file, so that a write stores the entries as
  they are read back; \<open>None\<close> is a missing file. The operations that throw return \<open>Inl\<close> with the message.
\<close>

section \<open>The index file\<close>

definition STASH_ID_PREFIX :: string where "STASH_ID_PREFIX = ''st_''"

fun change_name :: "change_type \<Rightarrow> string" where
  "change_name Created = ''created''"
| "change_name Modified = ''modified''"
| "change_name Deleted = ''deleted''"

fun skip_name :: "skip_reason \<Rightarrow> string" where
  "skip_name TooLarge = ''too_large''"
| "skip_name Unreadable = ''unreadable''"
| "skip_name BinaryDisabled = ''binary_disabled''"
| "skip_name UnsafePath = ''unsafe_path''"

definition parseDate :: "(string \<Rightarrow> int option) \<Rightarrow> int \<Rightarrow> json option \<Rightarrow> int" where
  "parseDate dparse now v =
     (case v of
        Some (JDate t) \<Rightarrow> t
      | Some (JStr x) \<Rightarrow> or_default (dparse x) now
      | Some (JNum n) \<Rightarrow> if \<bar>n\<bar> \<le> max_time then n else now
      | _ \<Rightarrow> now)"

definition parseSnapshot :: "(string \<Rightarrow> int option) \<Rightarrow> int \<Rightarrow> json \<Rightarrow> file_snapshot option" where
  "parseSnapshot dparse now v =
     (case (v, jnonblank (jfield v ''relativePath'')) of
        (JObj _, Some p) \<Rightarrow>
          (let change = jstring (jfield v ''changeType'');
               deleted = (jfield v ''deleted'' = Some (JBool True) \<or> change = Some ''deleted'')
           in Some \<lparr>fsRelativePath = p, fsContent = None, fsHash = jstring (jfield v ''hash''),
                    fsEncoding = or_default (jnonblank (jfield v ''encoding'')) ''utf8'',
                    fsLastModified = parseDate dparse now (jfield v ''lastModified''),
                    fsSize = (case jfield v ''size'' of Some (JNum n) \<Rightarrow> nat n | _ \<Rightarrow> 0),
                    fsDeleted = (if deleted then Some True else None),
                    fsChangeType = Some (if change = Some ''created'' then Created
                                         else if change = Some ''modified'' then Modified
                                         else if deleted then Deleted else Modified),
                    fsRenamedFrom = None, fsCopiedFrom = None\<rparr>)
      | _ \<Rightarrow> None)"

definition parseSkipped :: "json \<Rightarrow> skipped_file option" where
  "parseSkipped v =
     (case (v, jstring (jfield v ''path''), jstring (jfield v ''reason'')) of
        (JObj _, Some p, Some r) \<Rightarrow>
          map_option (\<lambda>reason. \<lparr>skPath = p, skReason = reason\<rparr>)
            (find (\<lambda>reason. skip_name reason = r) [TooLarge, Unreadable, BinaryDisabled, UnsafePath])
      | _ \<Rightarrow> None)"

definition parseEntry :: "(string \<Rightarrow> int option) \<Rightarrow> int \<Rightarrow> json \<Rightarrow> stash_entry option" where
  "parseEntry dparse now v =
     (case (v, jstring (jfield v ''id'')) of
        (JObj _, Some i) \<Rightarrow>
          if \<not> starts_with i STASH_ID_PREFIX then None
          else Some \<lparr>seId = i, seMessage = map_option js_trim (jnonblank (jfield v ''message'')),
                     seCreatedAt = parseDate dparse now (jfield v ''createdAt''),
                     seBaseCheckpointId = jnonblank (jfield v ''baseCheckpointId''),
                     seBranchId = jnonblank (jfield v ''branchId''),
                     seFileSnapshots = (case jfield v ''fileSnapshots'' of
                        Some (JArr xs) \<Rightarrow> List.map_filter (parseSnapshot dparse now) xs | _ \<Rightarrow> []),
                     seSkippedFiles = (case jfield v ''skippedFiles'' of
                        Some (JArr xs) \<Rightarrow> nonempty_list (List.map_filter parseSkipped xs) | _ \<Rightarrow> None)\<rparr>
      | _ \<Rightarrow> None)"

definition serializeSnapshot :: "(int \<Rightarrow> string) \<Rightarrow> file_snapshot \<Rightarrow> json" where
  "serializeSnapshot toISO x = JObj
     ([(''relativePath'', JStr (fsRelativePath x))] @ jopt ''hash'' (fsHash x)
      @ [(''encoding'', JStr (fsEncoding x)), (''lastModified'', JStr (toISO (fsLastModified x))),
         (''size'', JNum (int (fsSize x)))]
      @ (case fsDeleted x of None \<Rightarrow> [] | Some b \<Rightarrow> [(''deleted'', JBool b)])
      @ jopt ''changeType'' (map_option change_name (fsChangeType x)))"

definition skippedJson :: "skipped_file \<Rightarrow> json" where
  "skippedJson x = JObj [(''path'', JStr (skPath x)), (''reason'', JStr (skip_name (skReason x)))]"

definition serializeEntry :: "(int \<Rightarrow> string) \<Rightarrow> stash_entry \<Rightarrow> json" where
  "serializeEntry toISO e = JObj
     ([(''id'', JStr (seId e))] @ jopt ''message'' (seMessage e) @ [(''createdAt'', JStr (toISO (seCreatedAt e)))]
      @ jopt ''baseCheckpointId'' (seBaseCheckpointId e) @ jopt ''branchId'' (seBranchId e)
      @ [(''fileSnapshots'', JArr (map (serializeSnapshot toISO) (seFileSnapshots e)))]
      @ (case seSkippedFiles e of None \<Rightarrow> [] | Some xs \<Rightarrow> [(''skippedFiles'', JArr (map skippedJson xs))]))"

record stash_list_item =
  slId :: string
  slMessage :: "string option"
  slCreatedAt :: int
  slBaseCheckpointId :: "string option"
  slBranchId :: "string option"
  slFileCount :: nat

definition toStashListItem :: "stash_entry \<Rightarrow> stash_list_item" where
  "toStashListItem e =
     \<lparr>slId = seId e, slMessage = seMessage e, slCreatedAt = seCreatedAt e, slBaseCheckpointId = seBaseCheckpointId e,
      slBranchId = seBranchId e, slFileCount = length (seFileSnapshots e)\<rparr>"

definition loadStashIndex :: "work \<Rightarrow> stash_entry list" where
  "loadStashIndex w = or_default (egStash (wkEngine w)) []"

definition saveStashIndex :: "'a work_env_scheme \<Rightarrow> stash_entry list \<Rightarrow> work \<Rightarrow> string option \<times> work" where
  "saveStashIndex env entries w =
     (case eeWriteError env ''stash/index.json'' of
        Some m \<Rightarrow> (Some m, w)
      | None \<Rightarrow> (None, on_engine (\<lambda>s. s\<lparr>egStash := Some (List.map_filter (parseEntry (eeParseDate env) (egNow s))
                                             (map (serializeEntry (eeIso env)) entries))\<rparr>) w))"

section \<open>Trees\<close>

definition stashHeadId :: "'a node_env_scheme \<Rightarrow> engine \<Rightarrow> string option" where
  "stashHeadId env s =
     or_else (Option.bind (Option.bind (truthy (egActiveBranchId s)) (findBranchById (egBranches s))) (\<lambda>b. truthy (Some (brHead b))))
       (map_option cpId (latestCheckpoint env s))"

definition workspaceHashState :: "'a work_env_scheme \<Rightarrow> work \<Rightarrow> string \<Rightarrow> file_hash_state option" where
  "workspaceHashState env w p =
     (case resolve_in env w p of
        Inl _ \<Rightarrow> None
      | Inr full \<Rightarrow>
          map_option (\<lambda>b. \<lparr>hsHash = Some (hashBlobBytes env b), hsEncoding = detectFileEncoding p b,
                           hsSize = length b, hsDeleted = None\<rparr>) (read_file env w full))"

definition stashTheirsState :: "hash_map \<Rightarrow> file_snapshot list \<Rightarrow> hash_map" where
  "stashTheirsState base ss =
     fold (\<lambda>x theirs. (let next_state = snapshotToHashState x
                       in if hsDeleted next_state = Some True then jm_del (fsRelativePath x) theirs
                          else jm_set (fsRelativePath x) next_state theirs)) ss base"

definition scoped :: "hash_map \<Rightarrow> string list \<Rightarrow> hash_map" where
  "scoped m ps = fold (\<lambda>p acc. case jm_get m p of None \<Rightarrow> acc | Some st \<Rightarrow> jm_set p st acc) ps []"

definition live_states :: "'a work_env_scheme \<Rightarrow> work \<Rightarrow> string list \<Rightarrow> hash_map" where
  "live_states env w ps =
     fold (\<lambda>p acc. case workspaceHashState env w p of None \<Rightarrow> acc | Some st \<Rightarrow> jm_set p st acc) ps []"

section \<open>Writing a merged tree\<close>

definition state_snapshot :: "int \<Rightarrow> string \<Rightarrow> file_hash_state \<Rightarrow> file_snapshot" where
  "state_snapshot now p st =
     \<lparr>fsRelativePath = p, fsContent = None, fsHash = hsHash st, fsEncoding = hsEncoding st, fsLastModified = now,
      fsSize = hsSize st, fsDeleted = None, fsChangeType = Some Modified, fsRenamedFrom = None, fsCopiedFrom = None\<rparr>"

text \<open>The writes of a merged tree on the given paths; every other path is a deletion.\<close>

definition wanted_write :: "int \<Rightarrow> hash_map \<Rightarrow> string \<Rightarrow> file_snapshot option" where
  "wanted_write now merged p =
     (case jm_get merged p of
        None \<Rightarrow> None
      | Some st \<Rightarrow> if hsDeleted st = Some True \<or> truthy (hsHash st) = None then None else Some (state_snapshot now p st))"

fun check_blobs :: "'a blob_env_scheme \<Rightarrow> bytes option \<Rightarrow> object_store \<Rightarrow> file_snapshot list \<Rightarrow> string option" where
  "check_blobs env key objs [] = None"
| "check_blobs env key objs (x # xs) =
     (case truthy (fsHash x) of
        None \<Rightarrow> check_blobs env key objs xs
      | Some h \<Rightarrow> (case getBlob env key objs h of
                     Inl e \<Rightarrow> Some (blob_error_message e) | Inr _ \<Rightarrow> check_blobs env key objs xs))"

fun write_all :: "'a work_env_scheme \<Rightarrow> file_snapshot list \<Rightarrow> work \<Rightarrow> string option \<times> work" where
  "write_all env [] w = (None, w)"
| "write_all env (x # xs) w =
     (case writeSnapshotContent env x w of (Some m, w1) \<Rightarrow> (Some m, w1) | (None, w1) \<Rightarrow> write_all env xs w1)"

text \<open>A missing file is not an error; an unsafe path is passed over.\<close>

fun unlink_all :: "'a work_env_scheme \<Rightarrow> string list \<Rightarrow> work \<Rightarrow> (string + string list) \<times> work" where
  "unlink_all env [] w = (Inr [], w)"
| "unlink_all env (p # ps) w =
     (case resolve_in env w p of
        Inl _ \<Rightarrow> unlink_all env ps w
      | Inr full \<Rightarrow>
          (case unlink_file env full w of
             (Some m, w1) \<Rightarrow> if m \<noteq> ''ENOENT'' then (Inl m, w1) else unlink_all env ps w1
           | (None, w1) \<Rightarrow> (case unlink_all env ps w1 of
                               (Inr removed, w2) \<Rightarrow> (Inr (p # removed), w2) | r \<Rightarrow> r)))"

definition applyMergedPaths ::
    "'a work_env_scheme \<Rightarrow> hash_map \<Rightarrow> string list \<Rightarrow> work \<Rightarrow> (string + string list \<times> string list) \<times> work" where
  "applyMergedPaths env merged unionPaths w =
     (let ps = sorted_set unionPaths; writes = List.map_filter (wanted_write (egNow (wkEngine w)) merged) ps;
          deletes = filter (\<lambda>p. wanted_write (egNow (wkEngine w)) merged p = None) ps
      in case readBlobOptions (wkEngine w) of
           Inl e \<Rightarrow> (Inl (engine_error_message e), w)
         | Inr key \<Rightarrow>
             (case check_blobs env key (egObjects (wkEngine w)) writes of
                Some m \<Rightarrow> (Inl m, w)
              | None \<Rightarrow>
                  (case write_all env writes w of
                     (Some m, w1) \<Rightarrow> (Inl m, w1)
                   | (None, w1) \<Rightarrow>
                       (case unlink_all env deletes w1 of
                          (Inl m, w2) \<Rightarrow> (Inl m, w2)
                        | (Inr removed, w2) \<Rightarrow> (Inr (map fsRelativePath writes, removed), w2)))))"

section \<open>Push\<close>

record stash_push_result =
  spSuccess :: bool
  spEmpty :: bool
  spStashId :: "string option"
  spFileCount :: "nat option"
  spMessage :: "string option"

definition not_ready :: string where "not_ready = ''Checkpoint system is not ready''"

definition ready :: "work \<Rightarrow> bool" where
  "ready w \<longleftrightarrow> egInitialized (wkEngine w) \<and> truthy (wk_path w) \<noteq> None"

definition stashed_snapshot :: "file_snapshot \<Rightarrow> file_snapshot" where
  "stashed_snapshot x = x\<lparr>fsContent := None, fsRenamedFrom := None, fsCopiedFrom := None\<rparr>"

definition stash_entry_of :: "'a work_env_scheme \<Rightarrow> string \<Rightarrow> string option \<Rightarrow> capture_result \<Rightarrow> work \<Rightarrow> stash_entry" where
  "stash_entry_of env uuid message captured w =
     \<lparr>seId = STASH_ID_PREFIX @ uuid, seMessage = truthy (map_option js_trim message), seCreatedAt = egNow (wkEngine w),
      seBaseCheckpointId = stashHeadId env (wkEngine w), seBranchId = egActiveBranchId (wkEngine w),
      seFileSnapshots = map stashed_snapshot (crSnapshots captured), seSkippedFiles = nonempty_list (crSkipped captured)\<rparr>"

text \<open>How the stash, a checkout and an aborted merge restore a tree: no backup, overwriting, with clean-up.\<close>

definition checkout_options :: restore_options where
  "checkout_options =
     \<lparr>roCreateBackup = Some False, roConflict = Some ConflictOverwrite, roIncludeFiles = None, roExcludeFiles = None,
      roCleanup = Some True, roSkipJournal = False\<rparr>"

definition stashPush :: "'a work_env_scheme \<Rightarrow> string option \<Rightarrow> work \<Rightarrow> (string + stash_push_result) \<times> work" where
  "stashPush env message w =
     (if \<not> ready w
      then (Inr \<lparr>spSuccess = False, spEmpty = False, spStashId = None, spFileCount = None, spMessage = Some not_ready\<rparr>, w)
      else case captureWorkspaceState env (Some Delta) None w of
        (captured, w1) \<Rightarrow>
          if crSnapshots captured = []
          then (Inr \<lparr>spSuccess = True, spEmpty = True, spStashId = None, spFileCount = Some 0, spMessage = None\<rparr>, w1)
          else case draw_uuid env w1 of
            (uuid, w2) \<Rightarrow>
              (let entry = stash_entry_of env uuid message captured w2; n = length (seFileSnapshots entry);
                   pushed = \<lparr>spSuccess = True, spEmpty = False, spStashId = Some (seId entry), spFileCount = Some n, spMessage = None\<rparr>
               in case saveStashIndex env (entry # loadStashIndex w2) w2 of
                    (Some m, w3) \<Rightarrow> (Inl m, w3)
                  | (None, w3) \<Rightarrow>
                      (case truthy (seBaseCheckpointId entry) of
                         None \<Rightarrow> (Inr pushed, on_engine (append_audit ''stash'' (Some (seId entry)) True) w3)
                       | Some head \<Rightarrow>
                           (case restoreCheckpoint env head checkout_options w3 of
                              (Inl m, w4) \<Rightarrow> (Inl m, w4)
                            | (Inr restored, w4) \<Rightarrow>
                                if rrSuccess restored
                                then (Inr pushed, on_engine (append_audit ''stash'' (Some (seId entry)) True) w4)
                                else (Inr (pushed\<lparr>spSuccess := False, spMessage := Some (or_default (first_error (rrFailed restored))
                                             ''Could not restore the checkpoint head after stashing'')\<rparr>),
                                      on_engine (append_audit ''stash'' (Some (seId entry)) False) w4)))))"

section \<open>Apply, drop, pop and clear\<close>

record stash_apply_result =
  saSuccess :: bool
  saEmpty :: bool
  saStashId :: "string option"
  saRestored :: "string list"
  saRemoved :: "string list"
  saConflicts :: "string list"
  saMessage :: "string option"

definition apply_failed :: "string option \<Rightarrow> string list \<Rightarrow> string option \<Rightarrow> stash_apply_result" where
  "apply_failed i conflicts m =
     \<lparr>saSuccess = False, saEmpty = False, saStashId = i, saRestored = [], saRemoved = [], saConflicts = conflicts, saMessage = m\<rparr>"

definition select_stash :: "string option \<Rightarrow> stash_entry list \<Rightarrow> stash_entry option" where
  "select_stash i es = (case truthy i of Some j \<Rightarrow> find (\<lambda>e. seId e = j) es | None \<Rightarrow> first_opt es)"

text \<open>The three-way merge of an entry, restricted to its paths, against the files on the disk.\<close>

definition stash_merge :: "'a work_env_scheme \<Rightarrow> hash_map \<Rightarrow> stash_entry \<Rightarrow> work \<Rightarrow> merge_acc" where
  "stash_merge env base e w =
     (let ps = set_of (map fsRelativePath (seFileSnapshots e)); theirs = stashTheirsState base (seFileSnapshots e)
      in threeWayMergeHashes (scoped base ps) (scoped theirs ps) (scoped (live_states env w ps) ps))"

definition stash_base :: "'a work_env_scheme \<Rightarrow> work \<Rightarrow> stash_entry \<Rightarrow> hash_map option" where
  "stash_base env w e =
     (case truthy (seBaseCheckpointId e) of None \<Rightarrow> Some [] | Some b \<Rightarrow> hashStateAtCheckpoint env (wkEngine w) b)"

definition stashApply :: "'a work_env_scheme \<Rightarrow> string option \<Rightarrow> work \<Rightarrow> (string + stash_apply_result) \<times> work" where
  "stashApply env i w =
     (if \<not> ready w then (Inr (apply_failed None [] (Some not_ready)), w)
      else case select_stash i (loadStashIndex w) of
        None \<Rightarrow> (Inr ((apply_failed None [] None)\<lparr>saSuccess := True, saEmpty := True\<rparr>), w)
      | Some e \<Rightarrow>
          (case stash_base env w e of
             None \<Rightarrow>
               (Inr (apply_failed (Some (seId e)) [] (Some (''Stash base checkpoint '' @ or_default (seBaseCheckpointId e) []
                       @ '' is no longer reconstructable''))), w)
           | Some base \<Rightarrow>
               (case stash_merge env base e w of
                  (merged, conflicts) \<Rightarrow>
                    if conflicts \<noteq> []
                    then (Inr (apply_failed (Some (seId e)) (map mcPath conflicts) None),
                          on_engine (append_audit ''stash'' (Some (seId e)) False) w)
                    else (case applyMergedPaths env merged (map fsRelativePath (seFileSnapshots e)) w of
                            (Inl m, w1) \<Rightarrow> (Inl m, w1)
                          | (Inr (restored, removed), w1) \<Rightarrow>
                              (Inr \<lparr>saSuccess = True, saEmpty = False, saStashId = Some (seId e), saRestored = restored,
                                    saRemoved = removed, saConflicts = [], saMessage = None\<rparr>,
                               on_engine (append_audit ''stash'' (Some (seId e)) True) w1)))))"

record stash_drop_result =
  sdSuccess :: bool
  sdEmpty :: bool
  sdStashId :: "string option"
  sdMessage :: "string option"

definition stashDrop :: "'a work_env_scheme \<Rightarrow> string option \<Rightarrow> work \<Rightarrow> (string + stash_drop_result) \<times> work" where
  "stashDrop env i w =
     (if \<not> ready w then (Inr \<lparr>sdSuccess = False, sdEmpty = False, sdStashId = None, sdMessage = Some not_ready\<rparr>, w)
      else case loadStashIndex w of
        [] \<Rightarrow> (Inr \<lparr>sdSuccess = True, sdEmpty = True, sdStashId = None, sdMessage = None\<rparr>, w)
      | e # es \<Rightarrow>
          (let j = or_default i (seId e); kept = filter (\<lambda>x. seId x \<noteq> j) (e # es)
           in if length kept = length (e # es)
              then (Inr \<lparr>sdSuccess = False, sdEmpty = False, sdStashId = Some j,
                         sdMessage = Some (''Stash '' @ j @ '' not found'')\<rparr>, w)
              else (case saveStashIndex env kept w of
                      (Some m, w1) \<Rightarrow> (Inl m, w1)
                    | (None, w1) \<Rightarrow> (Inr \<lparr>sdSuccess = True, sdEmpty = False, sdStashId = Some j, sdMessage = None\<rparr>,
                                      on_engine (append_audit ''stash'' (Some j) True) w1))))"

definition stashPop :: "'a work_env_scheme \<Rightarrow> string option \<Rightarrow> work \<Rightarrow> (string + stash_apply_result) \<times> work" where
  "stashPop env i w =
     (case stashApply env i w of
        (Inl m, w1) \<Rightarrow> (Inl m, w1)
      | (Inr applied, w1) \<Rightarrow>
          if \<not> saSuccess applied \<or> saEmpty applied then (Inr applied, w1)
          else (case stashDrop env (saStashId applied) w1 of
                  (Inl m, w2) \<Rightarrow> (Inl m, w2)
                | (Inr dropped, w2) \<Rightarrow>
                    if \<not> sdSuccess dropped
                    then (Inr (applied\<lparr>saSuccess := False, saMessage := Some (or_default (sdMessage dropped)
                                 ''Applied the stash but could not drop it from the stack'')\<rparr>), w2)
                    else (Inr applied, on_engine (append_audit ''stash'' (saStashId applied) True) w2)))"

definition stashClear :: "'a work_env_scheme \<Rightarrow> work \<Rightarrow> (string + bool \<times> nat) \<times> work" where
  "stashClear env w =
     (if \<not> ready w then (Inr (False, 0), w)
      else case saveStashIndex env [] w of
             (Some m, w1) \<Rightarrow> (Inl m, w1)
           | (None, w1) \<Rightarrow> (Inr (True, length (loadStashIndex w)), on_engine (append_audit ''stash'' None True) w1))"

definition listStash :: "work \<Rightarrow> stash_list_item list" where
  "listStash w = (if ready w then map toStashListItem (loadStashIndex w) else [])"

end
