(* ===== verification/Checkout.thy ===== *)
theory Checkout
  imports Stash
begin

text \<open>
  Checkouts (\<open>manager/branches.ts\<close>): moving to another branch or checkpoint together with the files of the
  workspace, and the branch made for a what-if replay. A checkout parks uncheckpointed changes in the stash,
  restores the tree and then moves the pointers; the model keeps that order. Messages that are
  looked up in the translations are their keys, with the argument behind.
\<close>

section \<open>Options and results\<close>

record checkout_env = work_env +
  ceAutoStash :: bool

datatype checkout_mode = CheckoutNone | CheckoutHard

datatype checkout_refusal = RefusedDirty | RefusedStash | RefusedRestore | RefusedMissing

record switch_result =
  swSuccess :: bool
  swCheckout :: checkout_mode
  swBranchId :: "string option"
  swHead :: "string option"
  swStashed :: "bool option"
  swStashId :: "string option"
  swRestored :: "string list option"
  swRemoved :: "string list option"
  swDetached :: "bool option"
  swRefused :: "checkout_refusal option"
  swMessage :: "string option"
  swCheckpointId :: "string option"

text \<open>A result with every optional field absent.\<close>

definition bare_result :: "bool \<Rightarrow> checkout_mode \<Rightarrow> switch_result" where
  "bare_result ok mode =
     \<lparr>swSuccess = ok, swCheckout = mode, swBranchId = None, swHead = None, swStashed = None, swStashId = None,
      swRestored = None, swRemoved = None, swDetached = None, swRefused = None, swMessage = None, swCheckpointId = None\<rparr>"

definition refused_result :: "checkout_mode \<Rightarrow> checkout_refusal \<Rightarrow> string \<Rightarrow> switch_result" where
  "refused_result mode why m = (bare_result False mode)\<lparr>swRefused := Some why, swMessage := Some m\<rparr>"

definition pointerOnlySwitchResult :: "checkpoint_branch \<Rightarrow> checkout_mode \<Rightarrow> switch_result" where
  "pointerOnlySwitchResult b mode = (bare_result True mode)\<lparr>swBranchId := Some (brId b), swHead := Some (brHead b)\<rparr>"

section \<open>Parking and restoring\<close>

definition workspaceDiffersFromHead :: "'a work_env_scheme \<Rightarrow> work \<Rightarrow> bool \<times> work" where
  "workspaceDiffersFromHead env w =
     (if \<not> ready w then (False, w)
      else case captureWorkspaceState env (Some Delta) None w of (captured, w1) \<Rightarrow> (crSnapshots captured \<noteq> [], w1))"

datatype parked = Parked bool "string option" | ParkRefused checkout_refusal string

definition stashDirtyTreeBeforeCheckout ::
    "'a checkout_env_scheme \<Rightarrow> bool option \<Rightarrow> string \<Rightarrow> work \<Rightarrow> (string + parked) \<times> work" where
  "stashDirtyTreeBeforeCheckout env auto message w =
     (case workspaceDiffersFromHead env w of
        (dirty, w1) \<Rightarrow>
          if \<not> dirty then (Inr (Parked False None), w1)
          else if \<not> or_default auto (ceAutoStash env)
          then (Inr (ParkRefused RefusedDirty ''checkpoint.checkout.refusedDirty''), w1)
          else (case stashPush env (Some message) w1 of
                  (Inl m, w2) \<Rightarrow> (Inl m, w2)
                | (Inr pushed, w2) \<Rightarrow>
                    if \<not> spSuccess pushed
                    then (Inr (ParkRefused RefusedStash (or_default (spMessage pushed) ''checkpoint.checkout.stashFailed'')), w2)
                    else (Inr (Parked (\<not> spEmpty pushed) (spStashId pushed)), w2)))"

definition restoreCheckedOutHead ::
    "'a work_env_scheme \<Rightarrow> string \<Rightarrow> work \<Rightarrow> (string + (string + string list \<times> string list)) \<times> work" where
  "restoreCheckedOutHead env i w =
     (case restoreCheckpoint env i checkout_options w of
        (Inl m, w1) \<Rightarrow> (Inl m, w1)
      | (Inr restored, w1) \<Rightarrow>
          if \<not> rrSuccess restored
          then (Inr (Inl (or_default (first_error (rrFailed restored)) ''checkpoint.checkout.restoreFailed'')), w1)
          else (Inr (Inr (rrRestored restored, rrRemoved restored)), w1))"

text \<open>
  Both checkouts do the same to the tree: they park, then restore. A refusal is reported in the audit log.
\<close>

datatype tree_checkout =
    TreeRefused checkout_refusal string
  | TreeStuck bool "string option" string
  | TreeRestored bool "string option" "string list" "string list"

definition checkout_tree ::
    "'a checkout_env_scheme \<Rightarrow> bool option \<Rightarrow> string \<Rightarrow> string \<Rightarrow> string \<Rightarrow> work \<Rightarrow> (string + tree_checkout) \<times> work" where
  "checkout_tree env auto message resource i w =
     (case stashDirtyTreeBeforeCheckout env auto message w of
        (Inl m, w1) \<Rightarrow> (Inl m, w1)
      | (Inr (ParkRefused why m), w1) \<Rightarrow>
          (Inr (TreeRefused why m), on_engine (append_audit ''checkout'' (Some resource) False) w1)
      | (Inr (Parked stashed stashId), w1) \<Rightarrow>
          (case restoreCheckedOutHead env i w1 of
             (Inl m, w2) \<Rightarrow> (Inl m, w2)
           | (Inr (Inl m), w2) \<Rightarrow>
               (Inr (TreeStuck stashed stashId m), on_engine (append_audit ''checkout'' (Some resource) False) w2)
           | (Inr (Inr (restored, removed)), w2) \<Rightarrow> (Inr (TreeRestored stashed stashId restored removed), w2)))"

definition stash_message :: "string \<Rightarrow> string" where
  "stash_message name = ''checkpoint.checkout.stashMessage '' @ name"

definition stash_message_detached :: "string \<Rightarrow> string" where
  "stash_message_detached i = ''checkpoint.checkout.stashMessageDetached '' @ take 11 i"

section \<open>Switching and checking out\<close>

text \<open>The pointers, the index and the audit log, once the tree is in place.\<close>

definition enter_branch :: "'a engine_env_scheme \<Rightarrow> checkout_mode \<Rightarrow> checkpoint_branch \<Rightarrow> engine \<Rightarrow> engine" where
  "enter_branch env mode b s =
     append_audit (if mode = CheckoutHard then ''checkout'' else ''branch'') (Some (brId b)) True
       (rebuildSnapshotHashIndexFromDisk env
         (saveCheckpointHistory env (s\<lparr>egActiveBranchId := Some (brId b), egDetachedFrom := None\<rparr>)))"

definition switchBranch ::
    "'a checkout_env_scheme \<Rightarrow> string \<Rightarrow> checkout_mode option \<Rightarrow> bool option \<Rightarrow> work \<Rightarrow> (string + switch_result) \<times> work" where
  "switchBranch env i mode auto w =
     (let checkout = or_default mode CheckoutNone
      in case findBranchById (egBranches (wkEngine w)) i of
           None \<Rightarrow> (Inr (refused_result checkout RefusedMissing ''checkpoint.checkout.missingBranch''), w)
         | Some b \<Rightarrow>
             if egActiveBranchId (wkEngine w) = Some (brId b) \<and> egDetachedFrom (wkEngine w) = None \<and> checkout = CheckoutNone
             then (Inr (pointerOnlySwitchResult b checkout), w)
             else (case (if checkout = CheckoutHard
                         then checkout_tree env auto (stash_message (brName b)) (brId b) (brHead b) w
                         else (Inr (TreeRestored False None [] []), w)) of
                     (Inl m, w1) \<Rightarrow> (Inl m, w1)
                   | (Inr (TreeRefused why m), w1) \<Rightarrow>
                       (Inr ((refused_result checkout why m)\<lparr>swBranchId := Some (brId b), swHead := Some (brHead b)\<rparr>), w1)
                   | (Inr (TreeStuck stashed stashId m), w1) \<Rightarrow>
                       (Inr ((refused_result checkout RefusedRestore m)\<lparr>swBranchId := Some (brId b), swHead := Some (brHead b),
                               swStashed := Some stashed, swStashId := stashId\<rparr>), w1)
                   | (Inr (TreeRestored stashed stashId restored removed), w1) \<Rightarrow>
                       (Inr ((pointerOnlySwitchResult b checkout)\<lparr>swStashed := Some stashed, swStashId := stashId,
                               swRestored := Some restored, swRemoved := Some removed\<rparr>),
                        on_engine (enter_branch env checkout b) w1)))"

definition enter_detached :: "'a engine_env_scheme \<Rightarrow> string \<Rightarrow> engine \<Rightarrow> engine" where
  "enter_detached env i s =
     append_audit ''checkout'' (Some i) True
       (rebuildSnapshotHashIndexFromDisk env
         (saveCheckpointHistory env
           (s\<lparr>egDetachedFrom := Some \<lparr>dtCheckpointId = i, dtPreviousBranchId = egActiveBranchId s\<rparr>\<rparr>)))"

text \<open>A checkpoint that is the head of a branch is checked out as that branch.\<close>

definition checkoutCheckpoint ::
    "'a checkout_env_scheme \<Rightarrow> string \<Rightarrow> bool option \<Rightarrow> work \<Rightarrow> (string + switch_result) \<times> work" where
  "checkoutCheckpoint env i auto w =
     (if find_cp (wkEngine w) i = None
      then (Inr (refused_result CheckoutHard RefusedMissing ''checkpoint.checkout.missingCheckpoint''), w)
      else case find (\<lambda>b. brHead b = i) (egBranches (wkEngine w)) of
        Some owner \<Rightarrow>
          (case switchBranch env (brId owner) (Some CheckoutHard) auto w of
             (Inl m, w1) \<Rightarrow> (Inl m, w1)
           | (Inr switched, w1) \<Rightarrow> (Inr (switched\<lparr>swCheckpointId := Some i, swDetached := Some False\<rparr>), w1))
      | None \<Rightarrow>
          (case checkout_tree env auto (stash_message_detached i) i i w of
             (Inl m, w1) \<Rightarrow> (Inl m, w1)
           | (Inr (TreeRefused why m), w1) \<Rightarrow> (Inr ((refused_result CheckoutHard why m)\<lparr>swCheckpointId := Some i\<rparr>), w1)
           | (Inr (TreeStuck stashed stashId m), w1) \<Rightarrow>
               (Inr ((refused_result CheckoutHard RefusedRestore m)\<lparr>swCheckpointId := Some i, swStashed := Some stashed,
                       swStashId := stashId\<rparr>), w1)
           | (Inr (TreeRestored stashed stashId restored removed), w1) \<Rightarrow>
               (Inr ((bare_result True CheckoutHard)\<lparr>swCheckpointId := Some i, swDetached := Some True,
                       swBranchId := egActiveBranchId (wkEngine w1), swHead := Some i, swStashed := Some stashed,
                       swStashId := stashId, swRestored := Some restored, swRemoved := Some removed\<rparr>),
                on_engine (enter_detached env i) w1)))"

section \<open>The branch of a what-if replay\<close>

text \<open>An exception of \<open>createBranch\<close> is caught.\<close>

definition createWhatIfBranch ::
    "'a engine_env_scheme \<Rightarrow> string \<Rightarrow> string \<Rightarrow> string \<Rightarrow> string \<Rightarrow> string option \<Rightarrow> engine
     \<Rightarrow> checkpoint_branch option \<times> engine" where
  "createWhatIfBranch env uuidMain uuid base recipeId intent s =
     (case whatIfBranchName (map brName (egBranches s)) recipeId of
        None \<Rightarrow> (None, s)
      | Some name \<Rightarrow>
          (let note = (case truthy (map_option js_trim intent) of
                         Some x \<Rightarrow> ''Recipe replay: '' @ take 80 x | None \<Rightarrow> ''Recipe replay'')
           in case createBranch env uuidMain uuid name base note s of
                (Inl _, s1) \<Rightarrow> (None, s1) | (Inr b, s1) \<Rightarrow> (b, s1)))"

definition listBranches :: "engine \<Rightarrow> checkpoint_branch list" where
  "listBranches s = egBranches s"

end
