(* ===== verification/RetentionFacts.thy ===== *)
theory RetentionFacts
  imports Branches
begin

text \<open>
  What deletion, eviction and annotation keep (\<open>manager/retention.ts\<close>): the well-formedness of the
  engine, and every checkpoint that is not the one being removed, with its pin and its manifest.
\<close>

section \<open>Well-formed engines\<close>

definition manifests_named :: "engine \<Rightarrow> bool" where
  "manifests_named s \<longleftrightarrow> (\<forall>i c. jm_get (egManifests s) i = Some (ManifestJson c) \<longrightarrow> cpId c = i)"

definition index_distinct :: "index_file \<Rightarrow> bool" where
  "index_distinct f \<longleftrightarrow> (case f of IndexJson p \<Rightarrow> distinct (map cpId (ixCheckpointHistory p)) | _ \<Rightarrow> True)"

definition engine_wf :: "engine \<Rightarrow> bool" where
  "engine_wf s \<longleftrightarrow> distinct (map cpId (egHistory s)) \<and> jm_wf (egManifests s) \<and> manifests_named s
     \<and> index_distinct (egIndex s) \<and> length (egHealthIssues s) \<le> MAX_HEALTH_ISSUES"

text \<open>What stays for the checkpoints with an id in \<open>J\<close>.\<close>

definition keeps :: "string set \<Rightarrow> engine \<Rightarrow> engine \<Rightarrow> bool" where
  "keeps J s s' \<longleftrightarrow> egStash s' = egStash s \<and> egInitialized s' = egInitialized s \<and> egWorkspacePath s' = egWorkspacePath s
     \<and> (\<forall>c \<in> set (egHistory s). cpId c \<in> J \<longrightarrow>
          (\<exists>c' \<in> set (egHistory s'). cpId c' = cpId c \<and> (isPinned c \<longrightarrow> isPinned c')))
     \<and> (\<forall>j \<in> J. jm_get (egManifests s) j \<noteq> None \<longrightarrow> jm_get (egManifests s') j \<noteq> None)"

definition evolves :: "string set \<Rightarrow> engine \<Rightarrow> engine \<Rightarrow> bool" where
  "evolves J s s' \<longleftrightarrow> (engine_wf s \<longrightarrow> engine_wf s' \<and> keeps J s s')"

lemma keeps_refl [simp]: "keeps J s s"
  by (auto simp: keeps_def)

lemma evolves_refl [simp]: "evolves J s s"
  by (simp add: evolves_def)

lemma keeps_trans: "keeps J s t \<Longrightarrow> keeps J t u \<Longrightarrow> keeps J s u"
  unfolding keeps_def by (metis (no_types, lifting))

lemma evolves_trans: "evolves J s t \<Longrightarrow> evolves J t u \<Longrightarrow> evolves J s u"
  unfolding evolves_def using keeps_trans by blast

lemma keeps_mono: "keeps J s t \<Longrightarrow> K \<subseteq> J \<Longrightarrow> keeps K s t"
  by (auto simp: keeps_def)

lemma evolves_mono: "evolves J s t \<Longrightarrow> K \<subseteq> J \<Longrightarrow> evolves K s t"
  unfolding evolves_def using keeps_mono by blast

text \<open>A step on fields that neither definition reads, or that are replaced by the same value.\<close>

lemma evolves_same:
  assumes "egHistory s' = egHistory s" "egManifests s' = egManifests s" "egIndex s' = egIndex s"
    "egStash s' = egStash s" "egInitialized s' = egInitialized s" "egWorkspacePath s' = egWorkspacePath s"
    "length (egHealthIssues s) \<le> MAX_HEALTH_ISSUES \<Longrightarrow> length (egHealthIssues s') \<le> MAX_HEALTH_ISSUES"
  shows "evolves J s s'"
  using assms by (auto simp: evolves_def engine_wf_def keeps_def manifests_named_def)

lemma evolves_health: "evolves J s (recordHealthIssue k m i s)"
  by (rule evolves_same) (auto simp: recordHealthIssue_def Let_def MAX_HEALTH_ISSUES_def)

lemma evolves_frame: "blob_frame s s' \<Longrightarrow> evolves J s s'"
  by (cases s; cases s') (rule evolves_same; simp add: blob_frame_def)

lemma evolves_audit: "evolves J s (append_audit a r ok s)"
  by (rule evolves_same) (simp_all add: append_audit_def)

lemma evolves_save: "saveCheckpointToDisk env c s = (e, c', s') \<Longrightarrow> evolves J s s'"
proof -
  assume p: "saveCheckpointToDisk env c s = (e, c', s')"
  note f = evolves_frame [OF ensure_snapshots_frame [of s env "snapshots_of c"], of J]
  show ?thesis
  proof (cases rule: saveCheckpointToDisk_cases [where env = env and c = c and s = s])
    case (blob e1 s1)
    then show ?thesis using p f evolves_trans [OF _ evolves_health] by auto
  next
    case (io snaps s1 m c1)
    then show ?thesis using p f evolves_trans [OF _ evolves_health] by auto
  next
    case (saved snaps s1)
    have "evolves J s1 (s1\<lparr>egManifests := jm_set (cpId c) (ManifestJson (saved_record env c snaps)) (egManifests s1)\<rparr>)"
      by (auto simp: evolves_def engine_wf_def keeps_def manifests_named_def saved_record_def)
    then show ?thesis using saved p f evolves_trans by auto
  qed
qed

lemma save_same_id: "saveCheckpointToDisk env c s = (e, c', s') \<Longrightarrow> cpId c' = cpId c \<and> cpPinned c' = cpPinned c"
  by (auto simp: saveCheckpointToDisk_def Let_def split: prod.splits sum.splits option.splits)

lemma evolves_gc: "evolves J s (snd (gcUnreferencedCheckpointBlobs env s))"
  by (simp add: gc_form evolves_same)

lemma evolves_delete: "i \<notin> J \<Longrightarrow> evolves J s (deleteCheckpointFromDisk env i s)"
  unfolding deleteCheckpointFromDisk_def
  by (rule evolves_trans [OF _ evolves_gc]) (auto simp: evolves_def engine_wf_def keeps_def manifests_named_def)

lemma evolves_load: "evolves J s (snd (loadCheckpointFromDisk env i s))"
proof -
  have "evolves J s (s\<lparr>egLastLoad := x\<rparr>)" for x by (rule evolves_same) simp_all
  then show ?thesis
    using evolves_trans [OF _ evolves_health]
    by (auto simp: loadCheckpointFromDisk_def Let_def split: load_result.split sum.split engine_error.split blob_error.split)
qed

lemma pinned_index [simp]: "isPinned (toIndexRecord env c) = isPinned c"
  by (simp add: isPinned_def)

lemma keeps_merge: "distinct (map cpId (egHistory s)) \<Longrightarrow> egIndex s = f \<Longrightarrow>
  (let s' = snd (mergeForeignIndexEntries env s) in
     set (egHistory s) \<subseteq> set (egHistory s') \<and> distinct (map cpId (egHistory s'))
     \<and> egManifests s' = egManifests s \<and> egIndex s' = f \<and> egStash s' = egStash s \<and> egInitialized s' = egInitialized s
     \<and> egWorkspacePath s' = egWorkspacePath s \<and> egHealthIssues s' = egHealthIssues s)"
proof (cases "readIndexFile env (egNow s) (egIndex s)")
  case None
  assume "distinct (map cpId (egHistory s))" "egIndex s = f"
  with None show ?thesis by (simp add: mergeForeignIndexEntries_def Let_def)
next
  case (Some stored)
  assume d: "distinct (map cpId (egHistory s))" and f: "egIndex s = f"
  obtain add m k bs a dd h where x: "mergeForeignIndexEntries env s = (length add, s\<lparr>egHistory := h, egMessageCheckpoints := m,
        egStableIdCheckpoints := k, egBranches := egBranches s @ bs, egActiveBranchId := a, egDetachedFrom := dd\<rparr>)"
     "set h = set (egHistory s @ add)" "length h = length (egHistory s @ add)" "distinct (map cpId h) = distinct (map cpId (egHistory s @ add))"
     "distinct (map cpId (egHistory s)) \<longrightarrow> distinct (map cpId (egHistory s @ add))"
    using merge_frame [OF Some] by (elim exE conjE) (rule that)
  then show ?thesis using d f by (simp add: Let_def)
qed

lemma evolves_merge: "evolves J s (snd (mergeForeignIndexEntries env s))"
proof -
  have "engine_wf (snd (mergeForeignIndexEntries env s)) \<and> keeps J s (snd (mergeForeignIndexEntries env s))" if w: "engine_wf s"
  proof -
    have d: "distinct (map cpId (egHistory s))" using w by (simp add: engine_wf_def)
    show ?thesis using keeps_merge [OF d refl, of env] w
      by (auto simp: engine_wf_def keeps_def Let_def manifests_named_def)
  qed
  then show ?thesis by (simp add: evolves_def)
qed

lemma evolves_save_index: "evolves J s (saveCheckpointHistory env s)"
proof -
  have "evolves J t (saveCheckpointHistoryUnlocked env t)" for t
    by (auto simp: saveCheckpointHistoryUnlocked_def evolves_def engine_wf_def keeps_def manifests_named_def index_distinct_def
        index_payload_of_def comp_def Let_def split: option.split)
  then show ?thesis unfolding saveCheckpointHistory_def using evolves_trans [OF evolves_merge] by blast
qed

lemma evolves_put:
  assumes "cpId c = i"
    and "\<And>x. engine_wf s \<Longrightarrow> x \<in> set (egHistory s) \<Longrightarrow> cpId x = i \<Longrightarrow> isPinned x \<Longrightarrow> isPinned c"
  shows "evolves J s (put_cp i c s)"
  unfolding evolves_def
proof
  assume w: "engine_wf s"
  have ids: "map cpId (egHistory (put_cp i c s)) = map cpId (egHistory s)"
    using assms(1) by (simp add: put_cp_def)
  have "\<exists>c' \<in> set (egHistory (put_cp i c s)). cpId c' = cpId x \<and> (isPinned x \<longrightarrow> isPinned c')" if "x \<in> set (egHistory s)" for x
  proof (cases "cpId x = i")
    case True
    then show ?thesis using that assms(1) assms(2) [OF w] by (intro bexI [of _ c]) (auto simp: put_cp_def)
  next
    case False
    then show ?thesis using that by (intro bexI [of _ x]) (auto simp: put_cp_def)
  qed
  then show "engine_wf (put_cp i c s) \<and> keeps J s (put_cp i c s)" using ids w
    by (auto simp: engine_wf_def keeps_def manifests_named_def) (auto simp: put_cp_def)
qed

lemma evolves_map:
  assumes "\<And>c. cpId (f c) = cpId c" and "\<And>c. isPinned (f c) = isPinned c"
  shows "evolves J s (s\<lparr>egHistory := map f (egHistory s)\<rparr>)"
  using assms by (auto simp: evolves_def engine_wf_def keeps_def manifests_named_def comp_def)

lemma relink_same [simp]: "cpId (relink i p c) = cpId c" "cpPinned (relink i p c) = cpPinned c"
  "isPinned (relink i p c) = isPinned c"
  by (simp_all add: relink_def isPinned_def)

lemma save_history: "saveCheckpointToDisk env c s = (e, c', s') \<Longrightarrow> egHistory s' = egHistory s"
proof -
  assume p: "saveCheckpointToDisk env c s = (e, c', s')"
  have h: "egHistory t = egHistory s" if "ensure_snapshots env (snapshots_of c) s = (r, t)" for r t
    using ensure_snapshots_frame [of s env "snapshots_of c"] that by (cases s; cases t) (simp add: blob_frame_def)
  show ?thesis
    by (cases rule: saveCheckpointToDisk_cases [where env = env and c = c and s = s]) (use p h in auto)
qed

lemma fold_position_in:
  assumes "fold_position env i s = Some (k, history)"
  shows "set history \<subseteq> set (egHistory s) \<and> k < length history \<and> cpId (history ! k) = i"
proof -
  obtain target where "find_cp s i = Some target" using assms by (cases "find_cp s i") (auto simp: fold_position_def)
  then have t: "history = sort_by_created (getCheckpointHistoryForWorkspace env (egHistory s) (cpWorkspacePath target))"
    "find_index (\<lambda>c. cpId c = i) history = Some k"
    using assms by (auto simp: fold_position_def Let_def)
  have "set history \<subseteq> set (egHistory s)"
    unfolding t(1) by (auto simp: getCheckpointHistoryForWorkspace_def split: option.splits)
  then show ?thesis using find_index_Some [OF t(2)] by simp
qed

lemma same_id_eq: "distinct (map f xs) \<Longrightarrow> x \<in> set xs \<Longrightarrow> y \<in> set xs \<Longrightarrow> f x = f y \<Longrightarrow> x = y"
  by (simp add: distinct_map inj_on_def)

lemma folded_successor_same:
  "cpId (folded_successor k c n cr sr) = cpId n" "isPinned n \<Longrightarrow> isPinned (folded_successor k c n cr sr)"
  by (simp_all add: folded_successor_def isPinned_def Let_def)

lemma assign_index_same [simp]: "cpId (assign_index env a c) = cpId c" "cpPinned (assign_index env a c) = cpPinned c"
  by (simp_all add: assign_index_def)

lemma evolves_fold: "evolves J s (snd (foldCheckpointIntoSuccessor env i s))"
proof (cases "fold_position env i s")
  case None
  then show ?thesis by (simp add: foldCheckpointIntoSuccessor_def)
next
  case (Some kh)
  obtain k history where kh: "kh = (k, history)" by (cases kh)
  note pos = fold_position_in [OF Some [unfolded kh]]
  let ?cur = "history ! k" and ?suc = "history ! Suc k"
  show ?thesis
  proof (cases "Suc k < length history \<and> (\<exists>cr sr. readCheckpointRecord env s (cpId ?cur) = LoadOk cr \<and> readCheckpointRecord env s (cpId ?suc) = LoadOk sr)")
    case False
    then have "snd (foldCheckpointIntoSuccessor env i s) = s"
      by (auto simp: foldCheckpointIntoSuccessor_def Some kh Let_def split: load_result.split)
    then show ?thesis by simp
  next
    case True
    then obtain cr sr where r: "readCheckpointRecord env s (cpId ?cur) = LoadOk cr" "readCheckpointRecord env s (cpId ?suc) = LoadOk sr"
      and lt: "Suc k < length history" by blast
    define c1 where "c1 = folded_successor k ?cur ?suc cr sr"
    define s1 where "s1 = put_cp (cpId ?suc) c1 s"
    define rl where "rl = relink (cpId ?cur) (cpParentCheckpointId ?cur)"
    define s2 where "s2 = s1\<lparr>egHistory := map rl (egHistory s1)\<rparr>"
    obtain e c2 s3 where sv: "saveCheckpointToDisk env (rl c1) s2 = (e, c2, s3)" by (cases "saveCheckpointToDisk env (rl c1) s2")
    have suc: "?suc \<in> set (egHistory s)" using pos lt by (meson nth_mem subsetD)
    have c1: "cpId c1 = cpId ?suc" "isPinned ?suc \<Longrightarrow> isPinned c1" by (simp_all add: c1_def folded_successor_same)
    have e1: "evolves J s s1"
      unfolding s1_def
    proof (rule evolves_put)
      fix x assume "engine_wf s" "x \<in> set (egHistory s)" "cpId x = cpId ?suc" "isPinned x"
      then show "isPinned c1" using same_id_eq [of cpId "egHistory s" x ?suc] suc c1(2) by (simp add: engine_wf_def)
    qed (simp add: c1)
    have e2: "evolves J s1 s2" unfolding s2_def by (rule evolves_map) (simp_all add: rl_def)
    have e3: "evolves J s2 s3" by (rule evolves_save [OF sv])
    have c2: "cpId c2 = cpId ?suc" "isPinned c2 = isPinned c1"
      using save_same_id [OF sv] c1(1) by (simp_all add: rl_def isPinned_def)
    have all: "isPinned c1" if "x \<in> set (egHistory s3)" "cpId x = cpId ?suc" "isPinned x" for x
      using that unfolding save_history [OF sv] by (auto simp: s2_def s1_def put_cp_def rl_def split: if_splits)
    have e4: "evolves J s3 (put_cp (cpId ?suc) c2 s3)" "evolves J s3 (put_cp (cpId ?suc) (assign_index env c2 c2) s3)"
      using c2 all by (auto intro!: evolves_put simp: isPinned_def)
    have "snd (foldCheckpointIntoSuccessor env i s) =
        (case e of Some _ \<Rightarrow> put_cp (cpId ?suc) c2 s3
         | None \<Rightarrow> saveCheckpointHistory env (put_cp (cpId ?suc) (assign_index env c2 c2) s3))"
      using lt r sv by (simp add: foldCheckpointIntoSuccessor_def Some kh c1_def s1_def s2_def rl_def Let_def split: option.split)
    then show ?thesis
      using evolves_trans [OF e1 evolves_trans [OF e2 evolves_trans [OF e3 e4(1)]]]
        evolves_trans [OF evolves_trans [OF e1 evolves_trans [OF e2 evolves_trans [OF e3 e4(2)]]] evolves_save_index]
      by (cases e) auto
  qed
qed

lemma evolves_remove_history: "i \<notin> J \<Longrightarrow> evolves J s (snd (removeFromHistory env i s))"
proof -
  assume i: "i \<notin> J"
  let ?s = "(markCheckpointRemoved i s)\<lparr>egHistory := filter (\<lambda>c. cpId c \<noteq> i) (egHistory (markCheckpointRemoved i s))\<rparr>"
  have e: "evolves J s ?s"
    using i by (auto simp: evolves_def engine_wf_def keeps_def manifests_named_def markCheckpointRemoved_def distinct_map_filter)
  show ?thesis using e evolves_trans [OF e evolves_save_index [where env = env]] by (simp add: removeFromHistory_def Let_def)
qed

lemma evolves_drop: "evolves J s (drop_mappings i s)"
  by (rule evolves_same) (simp_all add: drop_mappings_def)

lemma evolves_remove:
  assumes "i \<notin> J"
  shows "evolves J s (snd (removeFromHistoryAndDisk env ret i s))"
proof (cases "find_cp s i")
  case None
  then show ?thesis by (simp add: removeFromHistoryAndDisk_def)
next
  case (Some target)
  obtain o1 s1 where f: "foldCheckpointIntoSuccessor env i s = (o1, s1)" by (cases "foldCheckpointIntoSuccessor env i s")
  obtain r s2 where h: "removeFromHistory env i (drop_mappings i s1) = (r, s2)" by (cases "removeFromHistory env i (drop_mappings i s1)")
  have e1: "evolves J s s1" using evolves_fold [of J s env i] by (simp add: f)
  have e2: "evolves J s s2"
    using evolves_trans [OF e1 evolves_trans [OF evolves_drop evolves_remove_history [OF assms]]] h by (metis snd_conv)
  have e3: "evolves J s (append_audit a q ok (deleteCheckpointFromDisk env i s2))" for a q ok
    by (rule evolves_trans [OF e2 evolves_trans [OF evolves_delete [OF assms] evolves_audit]])
  show ?thesis using e1 e2 e3 by (simp add: removeFromHistoryAndDisk_def Some f h)
qed

section \<open>Evictions spare what is guarded\<close>

definition guarded :: "string \<Rightarrow> engine \<Rightarrow> bool" where
  "guarded j s \<longleftrightarrow> engine_wf s
     \<and> (\<exists>c \<in> set (egHistory s). cpId c = j \<and> (isPinned c \<or> j \<in> set (stashBaseCheckpointIds s)))"

text \<open>What every policy does to a guarded checkpoint.\<close>

definition spares :: "string \<Rightarrow> engine \<Rightarrow> engine \<Rightarrow> bool" where
  "spares j s s' \<longleftrightarrow> guarded j s' \<and> keeps {j} s s'"

lemma spares_trans: "spares j s t \<Longrightarrow> spares j t u \<Longrightarrow> spares j s u"
  unfolding spares_def using keeps_trans by blast

lemma spares_refl: "guarded j s \<Longrightarrow> spares j s s"
  by (simp add: spares_def)

lemma stash_bases_cong: "egStash s' = egStash s \<Longrightarrow> egInitialized s' = egInitialized s \<Longrightarrow>
  stashBaseCheckpointIds s' = stashBaseCheckpointIds s"
  by (simp add: stashBaseCheckpointIds_def collectStashBaseCheckpointIds_def)

lemma evolves_spares:
  assumes g: "guarded j s" and e: "evolves {j} s s'"
  shows "spares j s s'"
proof -
  have k: "engine_wf s'" "keeps {j} s s'" using g e by (auto simp: guarded_def evolves_def)
  then have "stashBaseCheckpointIds s' = stashBaseCheckpointIds s" by (intro stash_bases_cong) (auto simp: keeps_def)
  moreover obtain c where c: "c \<in> set (egHistory s)" "cpId c = j" "isPinned c \<or> j \<in> set (stashBaseCheckpointIds s)"
    using g by (auto simp: guarded_def)
  moreover obtain c' where "c' \<in> set (egHistory s')" "cpId c' = j" "isPinned c \<longrightarrow> isPinned c'"
    using k(2) c by (auto simp: keeps_def)
  ultimately show ?thesis using k by (auto simp: spares_def guarded_def)
qed

lemma find_distinct: "distinct (map f xs) \<Longrightarrow> c \<in> set xs \<Longrightarrow> find (\<lambda>x. f x = f c) xs = Some c"
  by (induction xs) auto

lemma find_cp_distinct: "distinct (map cpId (egHistory s)) \<Longrightarrow> c \<in> set (egHistory s) \<Longrightarrow> find_cp s (cpId c) = Some c"
  unfolding find_cp_def by (rule find_distinct)

lemma guarded_refused: "guarded j s \<Longrightarrow> removeFromHistoryAndDisk env True j s = (False, s)"
  using find_cp_distinct [of s]
  by (auto simp: guarded_def engine_wf_def removeFromHistoryAndDisk_def retention_keeps_def)

lemma evict_spares:
  assumes "guarded j s"
  shows "spares j s (snd (removeFromHistoryAndDisk env True i s))"
proof (cases "i = j")
  case True
  then show ?thesis using guarded_refused [OF assms, of env] spares_refl [OF assms] by simp
next
  case False
  then show ?thesis using evolves_spares [OF assms evolves_remove] by simp
qed

lemma max_loop_spares: "guarded j s \<Longrightarrow> spares j s (max_loop env cs n s)"
proof (induction cs arbitrary: n s)
  case (Cons c cs)
  obtain r s' where r: "removeFromHistoryAndDisk env True (cpId c) s = (r, s')" by (cases "removeFromHistoryAndDisk env True (cpId c) s")
  have "spares j s s'" using evict_spares [OF Cons.prems, of env "cpId c"] by (simp add: r)
  then show ?case using spares_trans Cons.IH Cons.prems by (auto simp: r spares_refl) (auto simp: spares_def)
qed (simp add: spares_refl)

lemma quota_loop_spares: "guarded j s \<Longrightarrow> spares j s (snd (snd (quota_loop env cs d u s)))"
proof (induction cs arbitrary: d u s)
  case (Cons c cs)
  obtain r s' where r: "removeFromHistoryAndDisk env True (cpId c) s = (r, s')" by (cases "removeFromHistoryAndDisk env True (cpId c) s")
  have "spares j s s'" using evict_spares [OF Cons.prems, of env "cpId c"] by (simp add: r)
  then have "spares j s (snd (snd (quota_loop env cs d' u' s')))" for d' u'
    using Cons.IH [of s' d' u'] spares_trans [of j s s'] by (simp add: spares_def [of j s s'])
  then show ?case using Cons.prems by (simp add: r Let_def spares_refl)
qed (simp add: spares_refl)

lemma cleanup_loop_spares: "guarded j s \<Longrightarrow> spares j s (snd (cleanup_loop env cs d s))"
proof (induction cs arbitrary: d s)
  case (Cons c cs)
  obtain r s' where r: "removeFromHistoryAndDisk env True (cpId c) s = (r, s')" by (cases "removeFromHistoryAndDisk env True (cpId c) s")
  have "spares j s s'" using evict_spares [OF Cons.prems, of env "cpId c"] by (simp add: r)
  then have "spares j s (snd (cleanup_loop env cs d' s'))" for d'
    using Cons.IH [of s' d'] spares_trans [of j s s'] by (simp add: spares_def [of j s s'])
  then show ?case using Cons.prems by (simp add: r spares_refl)
qed (simp add: spares_refl)

lemma quota_spares: "guarded j s \<Longrightarrow> spares j s (enforceStorageQuota env s)"
proof -
  assume g: "guarded j s"
  obtain freed bytes s1 where c: "gcUnreferencedCheckpointBlobs env s = ((freed, bytes), s1)"
    by (metis prod.exhaust)
  have a: "spares j s s1" using evolves_spares [OF g evolves_gc [where env = env]] by (simp add: c)
  obtain d f s2 where q: "quota_loop env (workspaceHistoryOldestFirst env s1) 0
      (if freed > 0 then computeDiskStorageBytes env s1 else computeDiskStorageBytes env s) s1 = (d, f, s2)"
    by (metis prod.exhaust)
  have g1: "guarded j s1" using a by (simp add: spares_def)
  have b: "spares j s s2" using spares_trans [OF a quota_loop_spares [OF g1]] q by (metis snd_conv)
  then have g2: "guarded j s2" by (simp add: spares_def)
  have h: "spares j s (recordHealthIssue k m i s2)" for k m i
    by (rule spares_trans [OF b evolves_spares [OF g2 evolves_health]])
  show ?thesis using g a b h q by (simp add: enforceStorageQuota_def c spares_refl Let_def)
qed

lemma policies_spare: "guarded j s \<Longrightarrow> spares j s (enforceRetentionPolicies env s)"
proof -
  assume g: "guarded j s"
  have a: "spares j s (snd (mergeForeignIndexEntries env s))" by (rule evolves_spares [OF g evolves_merge])
  have m: "spares j t (enforceMaxCheckpoints env t)" if "guarded j t" for t
    using that by (simp add: enforceMaxCheckpoints_def Let_def spares_refl max_loop_spares)
  show ?thesis
    unfolding enforceRetentionPolicies_def
    using a m quota_spares spares_trans by (metis spares_def)
qed

text \<open>
  C30 (safety): no retention policy (checkpoint count, storage quota, age, or a single eviction) ever
  removes a checkpoint that is pinned or that a stash entry is based on: it stays in the history,
  a pin stays a pin, and its manifest stays on disk, whatever else is evicted and however many
  checkpoints of other windows are merged in between.
\<close>

theorem retention_spares_guarded:
  assumes "engine_wf s" and "c \<in> set (egHistory s)"
    and "isPinned c \<or> cpId c \<in> set (stashBaseCheckpointIds s)"
    and "s' \<in> {enforceRetentionPolicies env s, snd (cleanupOldCheckpoints env cutoff s), snd (removeFromHistoryAndDisk env True i s)}"
  shows "(\<exists>c' \<in> set (egHistory s'). cpId c' = cpId c \<and> (isPinned c \<longrightarrow> isPinned c'))
    \<and> (jm_get (egManifests s) (cpId c) \<noteq> None \<longrightarrow> jm_get (egManifests s') (cpId c) \<noteq> None)"
proof -
  have g: "guarded (cpId c) s" using assms(1-3) by (auto simp: guarded_def)
  have "spares (cpId c) s s'"
    using assms(4) policies_spare [OF g, of env] cleanup_loop_spares [OF g, of env] evict_spares [OF g, of env i]
    by (auto simp: cleanupOldCheckpoints_def)
  then show ?thesis using assms(2) by (auto simp: spares_def keeps_def)
qed

definition pinned_engine :: engine where
  "pinned_engine = (let a = (text_checkpoint ''cp_1'' 1 [])\<lparr>cpPinned := Some True\<rparr>; b = text_checkpoint ''cp_2'' 2 []
     in empty_engine\<lparr>egHistory := [a, b], egMaxCheckpoints := 1,
          egManifests := [(''cp_1'', ManifestJson a), (''cp_2'', ManifestJson b)]\<rparr>)"

theorem retention_spares_guarded_witness:
  "let s' = enforceRetentionPolicies sample_engine_env pinned_engine
   in (\<exists>c' \<in> set (egHistory s'). cpId c' = ''cp_1'' \<and> isPinned c') \<and> jm_get (egManifests s') ''cp_1'' \<noteq> None"
proof -
  let ?a = "(text_checkpoint ''cp_1'' 1 [])\<lparr>cpPinned := Some True\<rparr>"
  have h: "?a \<in> set (egHistory pinned_engine)" "isPinned ?a" "jm_get (egManifests pinned_engine) (cpId ?a) \<noteq> None" "cpId ?a = ''cp_1''"
    by (simp_all add: pinned_engine_def empty_engine_def isPinned_def Let_def)
  have "engine_wf pinned_engine"
    by (auto simp: engine_wf_def pinned_engine_def empty_engine_def manifests_named_def index_distinct_def jm_wf_def Let_def
        split: if_splits)
  from retention_spares_guarded [OF this h(1) disjI1 [OF h(2)], of _ sample_engine_env 0 "''''"] h(2-4)
  show ?thesis by (auto simp: Let_def)
qed

end
