(* ===== verification/EngineRun.thy ===== *)
theory EngineRun
  imports RetentionFacts
begin

text \<open>
  Runs of the engine: the state machine whose steps are the operations of one window on its store,
  and the invariant every reachable state satisfies.
\<close>

section \<open>Steps\<close>

datatype engine_op =
    OpRecord string checkpoint_info
  | OpSave checkpoint_info
  | OpLoad string
  | OpCollect
  | OpRemove bool string
  | OpPin string bool
  | OpTag string string bool
  | OpLabel string "string option"
  | OpRetention
  | OpCleanup int
  | OpSaveIndex
  | OpReload
  | OpCreateBranch string string string string string
  | OpSwitchPointer string
  | OpDeleteBranch string
  | OpRenameBranch string string
  | OpClock int

fun engine_do :: "'a engine_env_scheme \<Rightarrow> engine_op \<Rightarrow> engine \<Rightarrow> engine" where
  "engine_do env (OpRecord uuid c) s = snd (record_checkpoint env uuid c s)"
| "engine_do env (OpSave c) s = snd (snd (saveCheckpointToDisk env c s))"
| "engine_do env (OpLoad i) s = snd (loadCheckpointFromDisk env i s)"
| "engine_do env OpCollect s = snd (gcUnreferencedCheckpointBlobs env s)"
| "engine_do env (OpRemove retention i) s = snd (removeFromHistoryAndDisk env retention i s)"
| "engine_do env (OpPin i p) s = snd (setCheckpointPinned env i p s)"
| "engine_do env (OpTag i t p) s = snd (setCheckpointTag env i t p s)"
| "engine_do env (OpLabel i l) s = snd (setCheckpointLabel env i l s)"
| "engine_do env OpRetention s = enforceRetentionPolicies env s"
| "engine_do env (OpCleanup cutoff) s = snd (cleanupOldCheckpoints env cutoff s)"
| "engine_do env OpSaveIndex s = saveCheckpointHistory env s"
| "engine_do env OpReload s = loadIndexFromCurrentStore env s"
| "engine_do env (OpCreateBranch um u n b d) s = snd (createBranch env um u n b d s)"
| "engine_do env (OpSwitchPointer i) s = snd (switchBranchPointer env i s)"
| "engine_do env (OpDeleteBranch i) s = snd (deleteBranch env i s)"
| "engine_do env (OpRenameBranch i n) s = snd (renameBranch env i n s)"
| "engine_do env (OpClock t) s = s\<lparr>egNow := t\<rparr>"

text \<open>Checkpoint ids come from \<open>generateCheckpointId\<close> and do not repeat.\<close>

definition op_enabled :: "engine_op \<Rightarrow> engine \<Rightarrow> bool" where
  "op_enabled op s \<longleftrightarrow> (case op of OpRecord _ c \<Rightarrow> cpId c \<notin> cpId ` set (egHistory s) | _ \<Rightarrow> True)"

inductive engine_reach :: "'a engine_env_scheme \<Rightarrow> engine \<Rightarrow> engine \<Rightarrow> bool" for env s0 where
  reach_start: "engine_reach env s0 s0"
| reach_step: "engine_reach env s0 s \<Longrightarrow> op_enabled op s \<Longrightarrow> engine_reach env s0 (engine_do env op s)"

section \<open>Each step keeps the invariant\<close>

lemma evolves_wf: "evolves J s s' \<Longrightarrow> engine_wf s \<Longrightarrow> engine_wf s'"
  by (simp add: evolves_def)

lemma wf_put: "engine_wf s \<Longrightarrow> cpId c = i \<Longrightarrow> engine_wf (put_cp i c s)"
proof -
  assume w: "engine_wf s" and c: "cpId c = i"
  have "map cpId (egHistory (put_cp i c s)) = map cpId (egHistory s)" using c by (simp add: put_cp_def)
  then show ?thesis using w by (simp add: engine_wf_def manifests_named_def) (simp add: put_cp_def)
qed

lemma wf_read_id: "engine_wf s \<Longrightarrow> readCheckpointRecord env s i = LoadOk r \<Longrightarrow> cpId r = i"
  by (simp add: readCheckpointRecord_Ok engine_wf_def manifests_named_def)

lemma wf_annotate:
  assumes w: "engine_wf s" and f: "\<And>c. cpId (f c) = cpId c"
  shows "engine_wf (snd (annotate env f info s))"
proof -
  define s1 where "s1 = put_cp (cpId info) (f info) s"
  have w1: "engine_wf s1" unfolding s1_def by (rule wf_put [OF w]) (simp add: f)
  have idx: "engine_wf (saveCheckpointHistory env t)" if "engine_wf t" for t
    using evolves_wf [OF evolves_save_index that] .
  show ?thesis
  proof (cases "readCheckpointRecord env s1 (cpId info)")
    case (LoadOk r)
    obtain e r' s2 where sv: "saveCheckpointToDisk env (f r) s1 = (e, r', s2)" by (cases "saveCheckpointToDisk env (f r) s1")
    have w2: "engine_wf s2" by (rule evolves_wf [OF evolves_save [OF sv] w1])
    have "cpId (f r') = cpId info" using save_same_id [OF sv] f wf_read_id [OF w1 LoadOk] by simp
    then have "engine_wf (put_cp (cpId info) (assign_index env (f info) (f r')) s2)" by (intro wf_put [OF w2]) simp
    then show ?thesis using w2 idx LoadOk sv by (cases e) (simp_all add: annotate_def s1_def [symmetric])
  next
    case LoadNotFound
    then show ?thesis using w1 idx by (simp add: annotate_def s1_def [symmetric])
  next
    case (LoadCorrupt m)
    then show ?thesis using w1 idx by (simp add: annotate_def s1_def [symmetric])
  qed
qed

lemma wf_audit: "engine_wf s \<Longrightarrow> engine_wf (append_audit a r ok s)"
  using evolves_wf [OF evolves_audit] .

lemma wf_pin: "engine_wf s \<Longrightarrow> engine_wf (snd (setCheckpointPinned env i p s))"
  using wf_annotate [of s "\<lambda>c. c\<lparr>cpPinned := Some p\<rparr>" env] wf_audit
  by (auto simp: setCheckpointPinned_def split: option.split prod.split) (metis snd_conv)+

lemma wf_tag: "engine_wf s \<Longrightarrow> engine_wf (snd (setCheckpointTag env i t p s))"
  using wf_annotate [of s "\<lambda>c. c\<lparr>cpTags := Some x\<rparr>" env for x]
  by (auto simp: setCheckpointTag_def Let_def split: option.split prod.split) (metis snd_conv)+

lemma wf_label: "engine_wf s \<Longrightarrow> engine_wf (snd (setCheckpointLabel env i l s))"
  using wf_annotate [of s "\<lambda>c. c\<lparr>cpLabel := x\<rparr>" env for x]
  by (auto simp: setCheckpointLabel_def Let_def split: option.split prod.split) (metis snd_conv)+

lemma wf_max_loop: "engine_wf s \<Longrightarrow> engine_wf (max_loop env cs n s)"
proof (induction cs arbitrary: n s)
  case (Cons c cs)
  then show ?case using evolves_wf [OF evolves_remove [of "cpId c" "{}" s env True]]
    by (cases "removeFromHistoryAndDisk env True (cpId c) s") simp
qed simp

lemma wf_quota_loop: "engine_wf s \<Longrightarrow> engine_wf (snd (snd (quota_loop env cs d u s)))"
proof (induction cs arbitrary: d u s)
  case (Cons c cs)
  then show ?case using evolves_wf [OF evolves_remove [of "cpId c" "{}" s env True]]
    by (cases "removeFromHistoryAndDisk env True (cpId c) s") (simp add: Let_def)
qed simp

lemma wf_cleanup_loop: "engine_wf s \<Longrightarrow> engine_wf (snd (cleanup_loop env cs d s))"
proof (induction cs arbitrary: d s)
  case (Cons c cs)
  then show ?case using evolves_wf [OF evolves_remove [of "cpId c" "{}" s env True]]
    by (cases "removeFromHistoryAndDisk env True (cpId c) s") simp
qed simp

lemma wf_gc: "engine_wf s \<Longrightarrow> engine_wf (snd (gcUnreferencedCheckpointBlobs env s))"
  using evolves_wf [OF evolves_gc] .

lemma wf_quota: "engine_wf s \<Longrightarrow> engine_wf (enforceStorageQuota env s)"
proof -
  assume w: "engine_wf s"
  obtain freed bytes s1 where c: "gcUnreferencedCheckpointBlobs env s = ((freed, bytes), s1)" by (metis prod.exhaust)
  have w1: "engine_wf s1" using wf_gc [OF w, of env] by (simp add: c)
  obtain d f s2 where q: "quota_loop env (workspaceHistoryOldestFirst env s1) 0
      (if freed > 0 then computeDiskStorageBytes env s1 else computeDiskStorageBytes env s) s1 = (d, f, s2)"
    by (metis prod.exhaust)
  have w2: "engine_wf s2" using wf_quota_loop [OF w1] q by (metis snd_conv)
  have "engine_wf (recordHealthIssue k m i s2)" for k m i using evolves_wf [OF evolves_health w2] .
  then show ?thesis using w w1 w2 q by (simp add: enforceStorageQuota_def c Let_def)
qed

lemma wf_retention: "engine_wf s \<Longrightarrow> engine_wf (enforceRetentionPolicies env s)"
proof -
  assume w: "engine_wf s"
  have "engine_wf (snd (mergeForeignIndexEntries env s))" using evolves_wf [OF evolves_merge w] .
  then show ?thesis
    by (simp add: enforceRetentionPolicies_def wf_quota enforceMaxCheckpoints_def Let_def wf_max_loop)
qed

lemma wf_save_index: "engine_wf s \<Longrightarrow> engine_wf (saveCheckpointHistory env s)"
  using evolves_wf [OF evolves_save_index] .

lemma wf_pointers:
  "engine_wf s \<Longrightarrow> egHistory s' = egHistory s \<Longrightarrow> egManifests s' = egManifests s \<Longrightarrow> egIndex s' = egIndex s \<Longrightarrow>
   egHealthIssues s' = egHealthIssues s \<Longrightarrow> engine_wf s'"
  by (simp add: engine_wf_def manifests_named_def)

lemma wf_rebuild_hashes: "engine_wf s \<Longrightarrow> engine_wf (rebuildSnapshotHashIndexFromDisk env s)"
proof -
  assume w: "engine_wf s"
  have step: "map cpId (egHistory (rebuild_step env hid c t)) = map cpId (egHistory t)
      \<and> egManifests (rebuild_step env hid c t) = egManifests t \<and> egIndex (rebuild_step env hid c t) = egIndex t
      \<and> egHealthIssues (rebuild_step env hid c t) = egHealthIssues t" for hid c t
    by (auto simp: rebuild_step_def applySnapshotHashes_def Let_def split: load_result.split option.split)
  have "map cpId (egHistory (fold (rebuild_step env hid) cs t)) = map cpId (egHistory t)
      \<and> egManifests (fold (rebuild_step env hid) cs t) = egManifests t \<and> egIndex (fold (rebuild_step env hid) cs t) = egIndex t
      \<and> egHealthIssues (fold (rebuild_step env hid) cs t) = egHealthIssues t" for hid cs t
    by (induction cs arbitrary: t) (simp_all add: step)
  then show ?thesis using w
    by (simp add: rebuildSnapshotHashIndexFromDisk_def engine_wf_def manifests_named_def Let_def split: option.split)
qed

lemma wf_rebuild_history:
  assumes w: "engine_wf s"
  shows "engine_wf (rebuildHistoryFromManifests env s)"
proof -
  have scan: "engine_wf t \<Longrightarrow> engine_wf (snd (scan_manifest env i (l, t)))" for i l t
    using evolves_wf [OF evolves_health] by (simp add: scan_manifest_def split: load_result.split)
  have scans: "engine_wf t \<Longrightarrow> engine_wf (snd (fold (scan_manifest env) names (l, t)))" for names l t
  proof (induction names arbitrary: l t)
    case (Cons i names)
    then show ?case using scan [OF Cons.prems, of i l] by (cases "scan_manifest env i (l, t)") simp
  qed simp
  obtain records s1 where f: "fold (scan_manifest env) (manifest_names s) ([], s) = (records, s1)"
    by (cases "fold (scan_manifest env) (manifest_names s) ([], s)")
  have w1: "engine_wf s1" using scans [OF w, of "manifest_names s" "[]"] by (simp add: f)
  have r: "records = readable env s (manifest_names s)"
    using scan_manifests [OF refl, of env "manifest_names s" "[]" s] by (simp add: f)
  have ids: "map cpId (readable env s names) = filter (\<lambda>i. \<exists>c. readCheckpointRecord env s i = LoadOk c) names" for names
    by (induction names) (auto simp: readable_def List.map_filter_simps wf_read_id [OF w] split: load_result.split)
  have "distinct (manifest_names s)"
    using w by (simp add: manifest_names_def engine_wf_def jm_keys_wf)
  then have d: "distinct (map cpId records)" by (simp add: r ids)
  have m: "engine_wf t \<Longrightarrow> engine_wf (rebuild_maps env mm c t)" for mm c t
    by (erule wf_pointers) (simp_all add: rebuild_maps_def applySnapshotHashes_def Let_def split: option.split)
  have ms: "engine_wf t \<Longrightarrow> engine_wf (fold (rebuild_maps env mm) cs t)" for mm cs t
    by (induction cs arbitrary: t) (simp_all add: m)
  let ?loaded = "sort_by_created (map (toIndexRecord env) records)"
  have "engine_wf (s1\<lparr>egHistory := ?loaded, egMessageCheckpoints := [], egStableIdCheckpoints := [], egBranches := b,
      egActiveBranchId := a, egDetachedFrom := None, egSnapshotHashes := []\<rparr>)" for a b
    using w1 d by (simp add: engine_wf_def manifests_named_def comp_def)
  then show ?thesis by (simp add: rebuildHistoryFromManifests_def f Let_def wf_save_index ms)
qed

lemma wf_reload: "engine_wf s \<Longrightarrow> engine_wf (loadIndexFromCurrentStore env s)"
proof -
  assume w: "engine_wf s"
  have "engine_wf (applyLoadedIndex stored s)" if "readIndexFile env (egNow s) (egIndex s) = Some stored" for stored
  proof -
    obtain p where "egIndex s = IndexJson p" "stored = parseIndexPayload env (egNow s) p"
      using \<open>readIndexFile env (egNow s) (egIndex s) = Some stored\<close> by (auto simp: readIndexFile_def split: index_file.splits)
    then show ?thesis using w
      by (simp add: engine_wf_def applyLoadedIndex_def parseIndexPayload_def index_distinct_def manifests_named_def comp_def)
  qed
  then show ?thesis
    using w by (simp add: loadIndexFromCurrentStore_def wf_rebuild_hashes wf_rebuild_history split: option.split)
qed

lemma ensure_default_frame:
  "egHistory (snd (ensureDefaultBranchSync env u b s)) = egHistory s \<and> egManifests (snd (ensureDefaultBranchSync env u b s)) = egManifests s
   \<and> egIndex (snd (ensureDefaultBranchSync env u b s)) = egIndex s \<and> egHealthIssues (snd (ensureDefaultBranchSync env u b s)) = egHealthIssues s
   \<and> egWorkspacePath (snd (ensureDefaultBranchSync env u b s)) = egWorkspacePath s"
  by (simp add: ensureDefaultBranchSync_def Let_def split: option.split)

lemma bind_frame:
  assumes "bindCheckpointToActiveLine env u c s = (c', s')"
  shows "cpId c' = cpId c \<and> egHistory s' = egHistory s \<and> egManifests s' = egManifests s \<and> egIndex s' = egIndex s
    \<and> egHealthIssues s' = egHealthIssues s"
proof (cases "egDetachedFrom s")
  case (Some d)
  then show ?thesis using assms by (auto simp: bindCheckpointToActiveLine_def)
next
  case None
  obtain active s1 where a: "(case Option.bind (truthy (egActiveBranchId s)) (findBranchById (egBranches s)) of
      Some b \<Rightarrow> (b, s) | None \<Rightarrow> ensureDefaultBranchSync env u (cpId c) s) = (active, s1)"
    by (metis prod.exhaust)
  have "egHistory s1 = egHistory s \<and> egManifests s1 = egManifests s \<and> egIndex s1 = egIndex s \<and> egHealthIssues s1 = egHealthIssues s"
    using a ensure_default_frame [of env u "cpId c" s] by (auto split: option.splits)
  then show ?thesis using assms None a
    by (auto simp: bindCheckpointToActiveLine_def Let_def split: option.splits)
qed

lemma wf_record:
  assumes w: "engine_wf s" and new: "cpId info \<notin> cpId ` set (egHistory s)"
  shows "engine_wf (snd (record_checkpoint env uuid info s))"
proof -
  obtain c s1 where b: "bindCheckpointToActiveLine env uuid info s = (c, s1)" by (cases "bindCheckpointToActiveLine env uuid info s")
  note bf = bind_frame [OF b]
  define s2 where "s2 = s1\<lparr>egHistory := egHistory s1 @ [c]\<rparr>"
  define s3 where "s3 = (case truthy (cpMessageId c) of
     Some m \<Rightarrow> s2\<lparr>egMessageCheckpoints := jm_set m (cpId c) (egMessageCheckpoints s2)\<rparr> | None \<Rightarrow> s2)"
  define s4 where "s4 = (case truthy (cpStableId c) of
     Some m \<Rightarrow> s3\<lparr>egStableIdCheckpoints := jm_set m (cpId c) (egStableIdCheckpoints s3)\<rparr> | None \<Rightarrow> s3)"
  have w2: "engine_wf s2" using w bf new by (simp add: engine_wf_def s2_def manifests_named_def)
  have w3: "engine_wf s3" by (rule wf_pointers [OF w2]) (simp_all add: s3_def split: option.split)
  have w4: "engine_wf s4" by (rule wf_pointers [OF w3]) (simp_all add: s4_def split: option.split)
  obtain e c' s5 where sv: "saveCheckpointToDisk env c s4 = (e, c', s5)" by (cases "saveCheckpointToDisk env c s4")
  have w5: "engine_wf (put_cp (cpId c) c' s5)"
    by (rule wf_put [OF evolves_wf [OF evolves_save [OF sv] w4]]) (simp add: save_same_id [OF sv])
  have "engine_wf (applySnapshotHashes env xs (saveCheckpointHistory env (put_cp (cpId c) c' s5)))" for xs
    by (rule wf_pointers [OF wf_save_index [OF w5, of env]]) (simp_all add: applySnapshotHashes_def)
  then have w6: "engine_wf ((applySnapshotHashes env xs (saveCheckpointHistory env (put_cp (cpId c) c' s5)))\<lparr>egLastCheckpointTime := t\<rparr>)" for xs t
    by (rule wf_pointers) simp_all
  have r: "record_checkpoint env uuid info s = (case saveCheckpointToDisk env c s4 of
      (Some _, c', s5) \<Rightarrow> (None, append_audit ''create'' None False (put_cp (cpId c) c' s5))
    | (None, c', s5) \<Rightarrow>
        (let s6 = applySnapshotHashes env (snapshots_of c) (saveCheckpointHistory env (put_cp (cpId c) c' s5))
         in (Some (cpId c), enforceRetentionPolicies env
               (append_audit ''create'' (Some (cpId c)) True (s6\<lparr>egLastCheckpointTime := egNow s6\<rparr>)))))"
    unfolding record_checkpoint_def b case_prod_conv s4_def s3_def s2_def by (simp only: Let_def)
  show ?thesis using w5 w6 by (cases e) (simp_all add: r sv Let_def wf_audit wf_retention)
qed

lemma wf_branch_pointers: "engine_wf s \<Longrightarrow> engine_wf (s\<lparr>egBranches := b, egActiveBranchId := a, egDetachedFrom := d\<rparr>)"
  by (rule wf_pointers) simp_all

lemma wf_create_branch: "engine_wf s \<Longrightarrow> engine_wf (snd (createBranch env um u n b d s))"
proof -
  assume w: "engine_wf s"
  obtain parent s1 where e: "ensureDefaultBranchSync env um b s = (parent, s1)" by (cases "ensureDefaultBranchSync env um b s")
  have w1: "engine_wf s1" by (rule wf_pointers [OF w]) (use ensure_default_frame [of env um b s] e in simp_all)
  show ?thesis using w
    by (simp add: createBranch_def e Let_def wf_audit wf_rebuild_hashes wf_save_index wf_branch_pointers [OF w1])
qed

lemma wf_switch: "engine_wf s \<Longrightarrow> engine_wf (snd (switchBranchPointer env i s))"
  using wf_branch_pointers [where b = "egBranches s" and s = s]
  by (simp add: switchBranchPointer_def wf_audit wf_rebuild_hashes wf_save_index split: option.split)

lemma wf_delete_branch: "engine_wf s \<Longrightarrow> engine_wf (snd (deleteBranch env i s))"
  using wf_branch_pointers [where a = "egActiveBranchId s" and d = "egDetachedFrom s" and s = s]
  by (simp add: deleteBranch_def wf_audit wf_save_index split: option.split)

lemma wf_rename_branch: "engine_wf s \<Longrightarrow> engine_wf (snd (renameBranch env i n s))"
  using wf_branch_pointers [where a = "egActiveBranchId s" and d = "egDetachedFrom s" and s = s]
  by (simp add: renameBranch_def wf_audit wf_save_index Let_def split: option.split)

lemmas wf_steps = wf_record wf_gc wf_pin wf_tag wf_label wf_retention wf_save_index wf_reload wf_create_branch
  wf_switch wf_delete_branch wf_rename_branch

lemma wf_do:
  assumes w: "engine_wf s" and e: "op_enabled op s"
  shows "engine_wf (engine_do env op s)"
proof (cases op)
  case (OpSave c)
  then show ?thesis using evolves_wf [OF evolves_save w] by (cases "saveCheckpointToDisk env c s") simp
next
  case (OpLoad i)
  then show ?thesis using evolves_wf [OF evolves_load w] by simp
next
  case (OpRemove r i)
  then show ?thesis using evolves_wf [OF evolves_remove [of i "{}"] w] by simp
next
  case (OpCleanup t)
  then show ?thesis using w by (simp add: cleanupOldCheckpoints_def wf_cleanup_loop)
next
  case (OpClock t)
  then show ?thesis using wf_pointers [OF w] by simp
qed (use w e in \<open>simp_all add: wf_steps op_enabled_def\<close>)

text \<open>
  C31 (type): in every state that a window can reach from a well-formed store, whatever operations
  run, succeed or fail, in any order, the ids of the history are distinct (so one id names one
  checkpoint object), every manifest file holds the checkpoint it is named after, the index on disk
  lists no id twice, and at most 100 health issues are kept.
\<close>

theorem engine_steps_keep_wf:
  assumes "engine_reach env s0 s" and "engine_wf s0"
  shows "engine_wf s"
  using assms by (induction rule: engine_reach.induct) (auto intro: wf_do)

lemma wf_empty: "engine_wf empty_engine"
  by (simp add: engine_wf_def empty_engine_def manifests_named_def index_distinct_def)

theorem engine_steps_keep_wf_witness:
  "let s1 = engine_do sample_engine_env (OpRecord ''u'' (text_checkpoint ''cp_1'' 1 [text_snapshot ''a.ts'' ''x''])) empty_engine
   in engine_wf (engine_do sample_engine_env OpReload (engine_do sample_engine_env (OpRemove False ''cp_1'') s1))"
proof -
  let ?op = "OpRecord ''u'' (text_checkpoint ''cp_1'' 1 [text_snapshot ''a.ts'' ''x''])"
  let ?s1 = "engine_do sample_engine_env ?op empty_engine"
  have "op_enabled ?op empty_engine" by (simp add: op_enabled_def empty_engine_def)
  from reach_step [OF reach_start this] have "engine_reach sample_engine_env empty_engine ?s1" .
  from reach_step [OF reach_step [OF this, of "OpRemove False ''cp_1''"], of OpReload]
  have "engine_reach sample_engine_env empty_engine
      (engine_do sample_engine_env OpReload (engine_do sample_engine_env (OpRemove False ''cp_1'') ?s1))"
    by (simp only: op_enabled_def engine_op.case)
  then show ?thesis unfolding Let_def by (rule engine_steps_keep_wf [OF _ wf_empty])
qed

end
