(* ===== verification/FoldTrees.thy ===== *)
theory FoldTrees
  imports EngineRun
begin

text \<open>
  What deletion keeps of the trees (\<open>manager/retention.ts\<close> over \<open>manager/branchLogic.ts\<close>): on a linear
  history, removing a checkpoint and folding it into its successor leaves the tree of every other
  checkpoint as it was. On a history that branches it does not, which the last section shows.
\<close>

section \<open>Linear histories\<close>

fun linked :: "string option \<Rightarrow> checkpoint_info list \<Rightarrow> bool" where
  "linked p [] = True"
| "linked p (c # cs) = (parentOf c = p \<and> cpId c \<noteq> [] \<and> linked (Some (cpId c)) cs)"

definition linear :: "checkpoint_info list \<Rightarrow> bool" where
  "linear cs \<longleftrightarrow> linked None cs \<and> distinct (map cpId cs) \<and> sorted_wrt (\<lambda>a b. cpCreated a < cpCreated b) cs"

lemma linked_append: "linked p (xs @ ys) \<longleftrightarrow> linked p xs \<and> linked (if xs = [] then p else Some (cpId (last xs))) ys"
  by (induction xs arbitrary: p) auto

lemma linear_by_id:
  assumes "distinct (map cpId cs)" and "mset hist = mset cs" and "c \<in> set cs"
  shows "by_id hist (cpId c) = Some c"
proof (rule by_id_distinct)
  show "distinct (map cpId hist)" using assms(1,2) by (metis mset_eq_imp_distinct_iff mset_map)
  show "c \<in> set hist" using assms(2,3) by (metis mset_eq_setD)
qed

lemma linear_parent:
  assumes l: "linear cs" and m: "mset hist = mset cs" and c: "cs = A @ c # B"
  shows "parent_cp hist c = (if A = [] then None else Some (last A))"
proof -
  have "parentOf c = (if A = [] then None else Some (cpId (last A)))"
    using l unfolding linear_def c linked_append by auto
  moreover have "by_id hist (cpId (last A)) = Some (last A)" if "A \<noteq> []"
    using linear_by_id [of cs hist "last A"] l m that c by (simp add: linear_def)
  ultimately show ?thesis by (simp add: parent_cp_def)
qed

lemma linear_path:
  assumes "linear cs" and "mset hist = mset cs"
  shows "cs = A @ c # B \<Longrightarrow> par_path hist c (c # rev A)"
proof (induction A arbitrary: c B rule: rev_induct)
  case Nil
  then show ?case using linear_parent [OF assms, of "[]" c B] by (simp add: path_end)
next
  case (snoc a A)
  have "par_path hist a (a # rev A)" using snoc.IH [of a "c # B"] snoc.prems by simp
  moreover have "parent_cp hist c = Some a" using linear_parent [OF assms snoc.prems] by simp
  ultimately show ?case by (simp add: path_step)
qed

lemma sorted_key_less: "cpCreated a < cpCreated b \<Longrightarrow> cp_key a < cp_key b"
  by (simp add: cp_key_def)

lemma linear_line_wf:
  assumes l: "linear cs" and m: "mset hist = mset cs"
  shows "line_wf hist"
proof -
  have d: "distinct (map cpId hist)" using l m by (metis linear_def mset_eq_imp_distinct_iff mset_map)
  have one: "case parentOf c of None \<Rightarrow> \<forall>d \<in> set hist. cp_key c \<le> cp_key d
      | Some p \<Rightarrow> (case by_id hist p of None \<Rightarrow> False | Some q \<Rightarrow> cp_key q < cp_key c)" if "c \<in> set hist" for c
  proof -
    have "c \<in> set cs" using that m by (metis mset_eq_setD)
    then obtain A B where s: "cs = A @ c # B" by (meson split_list)
    have srt: "sorted_wrt (\<lambda>a b. cpCreated a < cpCreated b) (A @ c # B)" using l s by (simp add: linear_def)
    have po: "parentOf c = (if A = [] then None else Some (cpId (last A)))"
      using l unfolding linear_def s linked_append by auto
    show ?thesis
    proof (cases "A = []")
      case True
      have "cp_key c \<le> cp_key d" if "d \<in> set hist" for d
        using that m srt True s sorted_key_less [of c d] mset_eq_setD [OF m] by fastforce
      then show ?thesis using True po by simp
    next
      case False
      then have "by_id hist (cpId (last A)) = Some (last A)"
        using linear_by_id [of cs hist "last A"] l m s by (simp add: linear_def)
      moreover have "cp_key (last A) < cp_key c"
        using srt False by (intro sorted_key_less) (simp add: sorted_wrt_append)
      ultimately show ?thesis using False po by simp
    qed
  qed
  show ?thesis unfolding line_wf_def using d one by blast
qed

lemma linear_lineage:
  assumes l: "linear cs" and m: "mset hist = mset cs" and c: "cs = A @ c # B"
  shows "lineageCheckpoints hist (cpId c) = Some (A @ [c])"
proof -
  have "by_id hist (cpId c) = Some c" using linear_by_id [of cs hist c] l m c by (simp add: linear_def)
  from lineage_eq_path [OF linear_line_wf [OF l m] this linear_path [OF l m c]] show ?thesis by simp
qed

section \<open>Trees of a linear history\<close>

text \<open>A checkpoint of the workspace \<open>w\<close>, as capture records it.\<close>

definition home :: "'a node_env_scheme \<Rightarrow> string \<Rightarrow> checkpoint_info \<Rightarrow> bool" where
  "home env w c \<longleftrightarrow> starts_with (cpId c) ''cp_'' \<and> cpWorkspacePath c = Some w \<and> cpWorkspaceKey c = Some (workspaceStorageKey env w)
     \<and> workspaceStorageKey env w \<noteq> []"

definition linear_engine :: "'a node_env_scheme \<Rightarrow> string \<Rightarrow> engine \<Rightarrow> bool" where
  "linear_engine env w s \<longleftrightarrow> w \<noteq> [] \<and> egWorkspacePath s = Some w \<and> (\<forall>c \<in> set (egHistory s). home env w c)
     \<and> linear (sort_by_created (egHistory s))"

lemma home_history:
  "w \<noteq> [] \<Longrightarrow> \<forall>c \<in> set h. home env w c \<Longrightarrow> getCheckpointHistoryForWorkspace env h (Some w) = h"
  by (auto simp: getCheckpointHistoryForWorkspace_def home_def in_workspace_def truthy_Some_iff intro!: filter_True)

lemma linear_hash_state:
  assumes "linear_engine env w s" and "sort_by_created (egHistory s) = A @ c # B"
  shows "hashStateAtCheckpoint env s (cpId c) = map_option replayHashState (read_all env s (A @ [c]))"
proof -
  have h: "workspaceHistory env s = egHistory s"
    using assms(1) home_history [of w "egHistory s" env] by (simp add: workspaceHistory_def linear_engine_def)
  have m: "mset (egHistory s) = mset (sort_by_created (egHistory s))" by (simp add: sort_by_created_def)
  show ?thesis
    using linear_lineage [OF _ m assms(2)] assms(1) by (simp add: hashStateAtCheckpoint_def h linear_engine_def)
qed

lemma read_all_append:
  "read_all env s (xs @ ys) = (case read_all env s xs of None \<Rightarrow> None
     | Some a \<Rightarrow> (case read_all env s ys of None \<Rightarrow> None | Some b \<Rightarrow> Some (a @ b)))"
  by (induction xs) (auto split: load_result.split option.split)

lemma read_all_cong:
  "(\<And>c. c \<in> set cs \<Longrightarrow> readCheckpointRecord env s' (cpId (g c)) = readCheckpointRecord env s (cpId c)) \<Longrightarrow>
   read_all env s' (map g cs) = read_all env s cs"
  by (induction cs) (auto split: load_result.split)

lemma insort_key_map: "insort_key f (g x) (map g xs) = map g (insort_key (\<lambda>y. f (g y)) x xs)"
  by (induction xs) auto

lemma insort_key_cong: "f x = g x \<Longrightarrow> (\<And>y. y \<in> set xs \<Longrightarrow> f y = g y) \<Longrightarrow> insort_key f x xs = insort_key g x xs"
  by (induction xs) auto

lemma sort_by_created_map:
  "(\<And>c. c \<in> set xs \<Longrightarrow> cpCreated (g c) = cpCreated c) \<Longrightarrow> sort_by_created (map g xs) = map g (sort_by_created xs)"
  unfolding sort_by_created_def
proof (induction xs)
  case (Cons x xs)
  then show ?case using insort_key_cong [of "\<lambda>y. cpCreated (g y)" x cpCreated "sort_key cpCreated xs"]
    by (simp add: insort_key_map)
qed simp

lemma sort_by_created_filter: "sort_by_created (filter P xs) = filter P (sort_by_created xs)"
  by (simp add: sort_by_created_def filter_sort)

section \<open>The steps of a deletion\<close>

text \<open>The index on disk lists nothing that this window does not know: no other window is writing.\<close>

definition no_foreign :: "'a engine_env_scheme \<Rightarrow> engine \<Rightarrow> bool" where
  "no_foreign env s \<longleftrightarrow>
     (case readIndexFile env (egNow s) (egIndex s) of
        None \<Rightarrow> True
      | Some st \<Rightarrow> list_all (\<lambda>e. cpId e \<in> cpId ` set (egHistory s) \<union> set (egLocallyRemoved s)) (liCheckpointHistory st))"

definition writes_succeed :: "'a engine_env_scheme \<Rightarrow> bool" where
  "writes_succeed env \<longleftrightarrow> (\<forall>f. eeWriteError env f = None)"

lemma fold_idle: "(\<And>x. x \<in> set xs \<Longrightarrow> f x y = y) \<Longrightarrow> fold f xs y = y"
  by (induction xs) auto

lemma merge_nothing: "no_foreign env s \<Longrightarrow> mergeForeignIndexEntries env s = (0, s)"
proof (cases "readIndexFile env (egNow s) (egIndex s)")
  case (Some st)
  assume "no_foreign env s"
  then have "\<forall>e \<in> set (liCheckpointHistory st). merge_entry e (s, n) = (s, n)" for n
    using Some by (auto simp: no_foreign_def list_all_iff merge_entry_def)
  then have "fold merge_entry (liCheckpointHistory st) (s, 0) = (s, 0)"
    by (intro fold_idle) blast
  then show ?thesis using Some by (simp add: mergeForeignIndexEntries_def)
qed (simp add: mergeForeignIndexEntries_def)

text \<open>What a save of the index does then, and that the condition stays.\<close>

lemma save_index_alone:
  assumes "no_foreign env s" and "writes_succeed env"
  shows "egHistory (saveCheckpointHistory env s) = map (toIndexRecord env) (egHistory s)
    \<and> egManifests (saveCheckpointHistory env s) = egManifests s \<and> egObjects (saveCheckpointHistory env s) = egObjects s
    \<and> egWorkspacePath (saveCheckpointHistory env s) = egWorkspacePath s
    \<and> egLocallyRemoved (saveCheckpointHistory env s) = egLocallyRemoved s
    \<and> no_foreign env (saveCheckpointHistory env s)"
  using assms(2)
  by (auto simp: saveCheckpointHistory_def merge_nothing [OF assms(1)] saveCheckpointHistoryUnlocked_def writes_succeed_def
      no_foreign_def readIndexFile_def parseIndexPayload_def index_payload_of_def list_all_iff Let_def)

text \<open>Snapshots as capture writes them: a live one names its object, and paths are in POSIX form.\<close>

definition tidy_snapshot :: "file_snapshot \<Rightarrow> bool" where
  "tidy_snapshot x \<longleftrightarrow> posixReplayPath (fsRelativePath x) = fsRelativePath x \<and> fsRelativePath x \<noteq> []
     \<and> (snapshotIsDeleted x \<or> truthy (fsHash x) \<noteq> None)"

lemma ensure_tidy: "\<forall>x \<in> set xs. tidy_snapshot x \<Longrightarrow> ensure_snapshots env xs s = (Inr xs, s)"
  by (induction xs) (auto simp: ensureSnapshotBlob_def tidy_snapshot_def)

lemma save_tidy:
  assumes "\<forall>x \<in> set (snapshots_of c). tidy_snapshot x" and "writes_succeed env"
  shows "saveCheckpointToDisk env c s = (None, (saved_record env c (snapshots_of c))\<lparr>cpFileSnapshots := Some (snapshots_of c)\<rparr>,
    s\<lparr>egManifests := jm_set (cpId c) (ManifestJson (saved_record env c (snapshots_of c))) (egManifests s)\<rparr>)"
  using assms by (simp add: saveCheckpointToDisk_def ensure_tidy saved_record_def writes_succeed_def Let_def)

lemma fold_tidy:
  assumes "\<forall>x \<in> set (or_default a [] @ or_default b []). tidy_snapshot x"
  shows "\<forall>x \<in> set (foldSnapshotsIntoSuccessor a b). tidy_snapshot x"
proof
  fix x assume "x \<in> set (foldSnapshotsIntoSuccessor a b)"
  then obtain k where "(k, x) \<in> set (jm_of_list (map (\<lambda>s. (posixReplayPath (fsRelativePath s), s)) (or_default a [] @ or_default b [])))"
    by (auto simp: foldSnapshotsIntoSuccessor_def)
  then have "jm_get (jm_of_list (map (\<lambda>s. (posixReplayPath (fsRelativePath s), s)) (or_default a [] @ or_default b []))) k = Some x"
    by (simp only: jm_entries_wf jm_of_list_wf)
  then have "x \<in> set (or_default a [] @ or_default b [])"
    unfolding jm_of_list_get by (auto dest!: map_of_SomeD)
  then show "tidy_snapshot x" using assms by blast
qed

lemma serialized_hash_state:
  "apply_hash_snapshot (serializeSnapshotForDisk x) st = apply_hash_snapshot x st"
  by (simp add: apply_hash_snapshot_def snapshotToHashState_def serializeSnapshotForDisk_def snapshotIsDeleted_def Let_def)

lemma serialized_fold: "fold apply_hash_snapshot (map serializeSnapshotForDisk xs) st = fold apply_hash_snapshot xs st"
  by (induction xs arbitrary: st) (simp_all add: serialized_hash_state)

lemma serialized_replay:
  "replayHashState (a @ [map serializeSnapshotForDisk xs] @ b) = replayHashState (a @ [xs] @ b)"
  by (simp add: replayHashState_def serialized_fold)

text \<open>The successor chain position of a checkpoint in a linear engine.\<close>

lemma linear_position:
  assumes l: "linear_engine env w s" and c: "sort_by_created (egHistory s) = A @ t # B"
  shows "find_cp s (cpId t) = Some t \<and> fold_position env (cpId t) s = Some (length A, A @ t # B)"
proof -
  have d: "distinct (map cpId (egHistory s))" using l by (simp add: linear_engine_def linear_def)
  have t: "t \<in> set (egHistory s)" using arg_cong [OF c, of set] by simp
  have f: "find_cp s (cpId t) = Some t" by (rule find_cp_distinct [OF d t])
  have p: "cpWorkspacePath t = Some w" using l t by (simp add: linear_engine_def home_def)
  have h: "sort_by_created (getCheckpointHistoryForWorkspace env (egHistory s) (Some w)) = A @ t # B"
    using l home_history [of w "egHistory s" env] c by (simp add: linear_engine_def)
  have "distinct (map cpId (A @ t # B))" using d unfolding c [symmetric] by simp
  then have "find_index (\<lambda>c. cpId c = cpId t) (A @ t # B) = Some (length A)"
    by (induction A) auto
  then show ?thesis using f p h by (simp add: fold_position_def)
qed

lemma no_foreign_cong:
  assumes "no_foreign env s" and e: "egNow s' = egNow s" "egIndex s' = egIndex s"
    and sub: "cpId ` set (egHistory s) \<union> set (egLocallyRemoved s) \<subseteq> cpId ` set (egHistory s') \<union> set (egLocallyRemoved s')"
  shows "no_foreign env s'"
proof (cases "readIndexFile env (egNow s) (egIndex s)")
  case (Some st)
  then show ?thesis using assms(1) subsetD [OF sub] by (simp only: no_foreign_def e option.case list_all_iff) blast
qed (simp add: no_foreign_def e)

lemma removal_tail:
  assumes n: "no_foreign env s" and w: "writes_succeed env" and i: "i \<in> cpId ` set (egHistory s)"
    and r: "removeFromHistory env i (drop_mappings i s) = (removed, s2)"
  shows "removed \<and> egHistory s2 = map (toIndexRecord env) (filter (\<lambda>c. cpId c \<noteq> i) (egHistory s))
    \<and> egManifests s2 = egManifests s \<and> egObjects s2 = egObjects s \<and> egWorkspacePath s2 = egWorkspacePath s"
proof -
  let ?t = "(markCheckpointRemoved i (drop_mappings i s))\<lparr>egHistory := filter (\<lambda>c. cpId c \<noteq> i) (egHistory s)\<rparr>"
  have h: "egHistory (markCheckpointRemoved i (drop_mappings i s)) = egHistory s"
    by (simp add: markCheckpointRemoved_def drop_mappings_def)
  have lt: "length (filter (\<lambda>c. cpId c \<noteq> i) (egHistory s)) < length (egHistory s)"
    using i by (auto intro: length_filter_less)
  have nf: "no_foreign env ?t"
    by (rule no_foreign_cong [OF n]) (auto simp: markCheckpointRemoved_def drop_mappings_def set_add_def)
  have e: "removed = True" "s2 = saveCheckpointHistory env ?t"
    using r lt by (simp_all add: removeFromHistory_def Let_def h drop_mappings_def markCheckpointRemoved_def)
  show ?thesis using save_index_alone [OF nf w] e by (simp add: markCheckpointRemoved_def drop_mappings_def)
qed

text \<open>What a linked checkpoint becomes when \<open>t\<close> leaves the line.\<close>

definition bypasses :: "'a node_env_scheme \<Rightarrow> string \<Rightarrow> checkpoint_info \<Rightarrow> checkpoint_info \<Rightarrow> checkpoint_info \<Rightarrow> bool" where
  "bypasses env w t c d \<longleftrightarrow> cpId d = cpId c \<and> cpCreated d = cpCreated c \<and> home env w d
     \<and> parentOf d = (if parentOf c = Some (cpId t) then parentOf t else parentOf c)"

lemma bypasses_index: "bypasses env w t c d \<Longrightarrow> bypasses env w t c (toIndexRecord env d)"
  by (clarsimp simp: bypasses_def home_def parentOf_def) (simp add: toIndexRecord_def)

lemma bypasses_relink:
  "cpId t \<noteq> [] \<Longrightarrow> home env w c \<Longrightarrow> bypasses env w t c (relink (cpId t) (cpParentCheckpointId t) c)"
  by (auto simp: bypasses_def relink_def home_def parentOf_def truthy_Some_iff)

lemma bypasses_cong:
  "bypasses env w t c d \<Longrightarrow> cpId e = cpId d \<Longrightarrow> cpCreated e = cpCreated d \<Longrightarrow>
   cpParentCheckpointId e = cpParentCheckpointId d \<Longrightarrow> cpWorkspacePath e = cpWorkspacePath d \<Longrightarrow>
   cpWorkspaceKey e = cpWorkspaceKey d \<Longrightarrow> bypasses env w t c e"
  by (clarsimp simp: bypasses_def home_def parentOf_def)

definition readable_tidy :: "'a engine_env_scheme \<Rightarrow> engine \<Rightarrow> bool" where
  "readable_tidy env s \<longleftrightarrow>
     (\<forall>c \<in> set (egHistory s). case readCheckpointRecord env s (cpId c) of
        LoadOk r \<Rightarrow> list_all tidy_snapshot (snapshots_of r) | _ \<Rightarrow> False)"

lemma readable_tidyE:
  assumes "readable_tidy env s" and "c \<in> set (egHistory s)"
  obtains r where "readCheckpointRecord env s (cpId c) = LoadOk r" "\<forall>x \<in> set (snapshots_of r). tidy_snapshot x"
proof -
  have "case readCheckpointRecord env s (cpId c) of LoadOk r \<Rightarrow> list_all tidy_snapshot (snapshots_of r) | _ \<Rightarrow> False"
    using assms by (simp add: readable_tidy_def)
  then show thesis using that by (cases "readCheckpointRecord env s (cpId c)") (auto simp: list_all_iff)
qed

text \<open>The fold of the checkpoint \<open>t\<close> into its successor \<open>u\<close>.\<close>

lemma fold_effect:
  assumes l: "linear_engine env w s" and c: "sort_by_created (egHistory s) = A @ t # u # B"
    and rd: "readable_tidy env s" and n: "no_foreign env s" and ws: "writes_succeed env"
    and rt: "readCheckpointRecord env s (cpId t) = LoadOk rt" and ru: "readCheckpointRecord env s (cpId u) = LoadOk ru"
  shows "\<exists>s1 g ru'. foldCheckpointIntoSuccessor env (cpId t) s = (Inr True, s1)
    \<and> egHistory s1 = map g (egHistory s) \<and> (\<forall>x \<in> set (egHistory s). bypasses env w t x (g x))
    \<and> no_foreign env s1 \<and> egWorkspacePath s1 = egWorkspacePath s \<and> egObjects s1 = egObjects s
    \<and> snapshots_of ru' = map serializeSnapshotForDisk (foldSnapshotsIntoSuccessor (Some (snapshots_of rt)) (Some (snapshots_of ru)))
    \<and> (\<forall>j. readCheckpointRecord env s1 j = (if j = cpId u then LoadOk ru' else readCheckpointRecord env s j))"
proof -
  let ?h = "A @ t # u # B"
  have tu: "t \<in> set (egHistory s)" "u \<in> set (egHistory s)" using arg_cong [OF c, of set] by auto
  have ids: "cpId t \<noteq> []" "cpId u \<noteq> []" using l c by (auto simp: linear_engine_def linear_def linked_append)
  have d: "distinct (map cpId (egHistory s))" using l by (simp add: linear_engine_def linear_def)
  have hm: "home env w x" if "x \<in> set (egHistory s)" for x using l that by (simp add: linear_engine_def)
  define merged where "merged = foldSnapshotsIntoSuccessor (cpFileSnapshots rt) (cpFileSnapshots ru)"
  have m2: "merged = foldSnapshotsIntoSuccessor (Some (snapshots_of rt)) (Some (snapshots_of ru))"
    by (simp add: merged_def foldSnapshotsIntoSuccessor_def snapshots_of_def)
  define rl where "rl = relink (cpId t) (cpParentCheckpointId t)"
  define c1 where "c1 = folded_successor (length A) t u rt ru"
  define s2 where "s2 = (put_cp (cpId u) c1 s)\<lparr>egHistory := map rl (egHistory (put_cp (cpId u) c1 s))\<rparr>"
  have c1: "cpId c1 = cpId u" "cpCreated c1 = cpCreated u" "cpParentCheckpointId c1 = cpParentCheckpointId u"
    "cpWorkspacePath c1 = cpWorkspacePath u" "cpWorkspaceKey c1 = cpWorkspaceKey u" "snapshots_of c1 = merged"
    by (simp_all add: c1_def folded_successor_def merged_def snapshots_of_def Let_def)
  have rl: "cpId (rl x) = cpId x" "cpCreated (rl x) = cpCreated x" "snapshots_of (rl x) = snapshots_of x" for x
    by (simp_all add: rl_def relink_def snapshots_of_def)
  have td: "\<forall>x \<in> set (snapshots_of (rl c1)). tidy_snapshot x"
    unfolding rl c1(6) merged_def
  proof (rule fold_tidy)
    obtain r where r: "readCheckpointRecord env s (cpId t) = LoadOk r" "\<forall>x \<in> set (snapshots_of r). tidy_snapshot x"
      by (rule readable_tidyE [OF rd tu(1)])
    obtain q where q: "readCheckpointRecord env s (cpId u) = LoadOk q" "\<forall>x \<in> set (snapshots_of q). tidy_snapshot x"
      by (rule readable_tidyE [OF rd tu(2)])
    show "\<forall>x \<in> set (or_default (cpFileSnapshots rt) [] @ or_default (cpFileSnapshots ru) []). tidy_snapshot x"
      using r q rt ru by (auto simp: snapshots_of_def)
  qed
  define c2 where "c2 = (saved_record env (rl c1) merged)\<lparr>cpFileSnapshots := Some merged\<rparr>"
  define s3 where "s3 = s2\<lparr>egManifests := jm_set (cpId u) (ManifestJson (saved_record env (rl c1) merged)) (egManifests s2)\<rparr>"
  have sv: "saveCheckpointToDisk env (rl c1) s2 = (None, c2, s3)"
    using save_tidy [OF td ws, of s2] by (simp add: rl c1 c2_def s3_def)
  define s4 where "s4 = put_cp (cpId u) (assign_index env c2 c2) s3"
  have nth: "?h ! length A = t" "?h ! Suc (length A) = u" by (simp_all add: nth_append)
  have f: "foldCheckpointIntoSuccessor env (cpId t) s = (Inr True, saveCheckpointHistory env s4)"
    using linear_position [OF l c] rt ru sv
    by (simp add: foldCheckpointIntoSuccessor_def nth Let_def s4_def c1_def s2_def rl_def)
  have c2: "cpId c2 = cpId u" "cpCreated c2 = cpCreated u" "cpParentCheckpointId c2 = cpParentCheckpointId (rl u)"
    "cpWorkspacePath c2 = cpWorkspacePath u" "cpWorkspaceKey c2 = cpWorkspaceKey u"
    using c1 by (simp_all add: c2_def saved_record_def rl_def relink_def)
  define g where "g = (\<lambda>x. toIndexRecord env (if cpId x = cpId u then assign_index env c2 c2 else rl x))"
  have h4: "egHistory s4 = map (\<lambda>x. if cpId x = cpId u then assign_index env c2 c2 else rl x) (egHistory s)"
    using c1(1) rl(1) by (auto simp: s4_def s3_def s2_def put_cp_def)
  have h4: "egHistory s4 = map (\<lambda>x. if cpId x = cpId u then assign_index env c2 c2 else rl x) (egHistory s)"
    by (rule h4)
  have by_g: "bypasses env w t x (g x)" if x: "x \<in> set (egHistory s)" for x
    unfolding g_def
  proof (rule bypasses_index)
    have r: "bypasses env w t x (rl x)" unfolding rl_def by (rule bypasses_relink [OF ids(1) hm [OF x]])
    show "bypasses env w t x (if cpId x = cpId u then assign_index env c2 c2 else rl x)"
    proof (cases "cpId x = cpId u")
      case True
      then have "x = u" using same_id_eq [OF d x tu(2)] by simp
      then have "bypasses env w t x (assign_index env c2 c2)"
        using c2 hm [OF tu(2)]
        by (intro bypasses_cong [OF r]) (simp_all add: rl_def relink_def assign_index_def toIndexRecord_def home_def)
      then show ?thesis using True by simp
    qed (simp add: r)
  qed
  have "map cpId (egHistory s4) = map cpId (egHistory s)" by (simp add: h4 c2(1) rl(1) comp_def)
  from arg_cong [OF this, of set] have ids4: "cpId ` set (egHistory s4) = cpId ` set (egHistory s)" by simp
  have f4: "egNow s4 = egNow s" "egIndex s4 = egIndex s" "egLocallyRemoved s4 = egLocallyRemoved s"
    by (simp_all add: s4_def s3_def s2_def put_cp_def)
  have nf: "no_foreign env s4"
    by (rule no_foreign_cong [OF n f4(1,2)]) (simp only: ids4 f4(3) subset_refl)
  let ?s1 = "saveCheckpointHistory env s4"
  note sa = save_index_alone [OF nf ws]
  let ?ru = "saved_record env (rl c1) merged"
  have m4: "egManifests s4 = jm_set (cpId u) (ManifestJson ?ru) (egManifests s)"
    by (simp add: s4_def s3_def s2_def put_cp_def)
  have ok: "verifyStoredCheckpointChecksum env ?ru = None"
    by (rule saved_record_accepted) (simp add: rl c1 ids(2))
  have reads: "readCheckpointRecord env ?s1 j = (if j = cpId u then LoadOk ?ru else readCheckpointRecord env s j)" for j
    using ok sa m4 by (simp add: readCheckpointRecord_def)
  have sn: "snapshots_of ?ru = map serializeSnapshotForDisk merged" by (simp add: saved_record_def snapshots_of_def)
  have fields: "egWorkspacePath s4 = egWorkspacePath s" "egObjects s4 = egObjects s"
    by (simp_all add: s4_def s3_def s2_def put_cp_def)
  show ?thesis
    by (intro exI [of _ ?s1] exI [of _ g] exI [of _ ?ru])
       (use f by_g reads sn sa fields h4 m2 in \<open>simp add: g_def comp_def\<close>)
qed

section \<open>The line without the checkpoint\<close>

lemma linked_bypass:
  "linked p xs \<Longrightarrow> p \<noteq> Some (cpId t) \<Longrightarrow> cpId t \<notin> cpId ` set xs \<Longrightarrow> \<forall>x \<in> set xs. bypasses env w t x (g x) \<Longrightarrow>
   linked p (map g xs)"
  by (induction p xs rule: linked.induct) (auto simp: bypasses_def)

lemma linear_bypass:
  assumes l: "linear (A @ t # B)" and g: "\<forall>x \<in> set (A @ B). bypasses env w t x (g x)"
  shows "linear (map g (A @ B))"
proof -
  let ?p = "if A = [] then None else Some (cpId (last A))"
  have lk: "linked None A" "parentOf t = ?p" "linked (Some (cpId t)) B" and dd: "distinct (map cpId (A @ t # B))"
    and srt: "sorted_wrt (\<lambda>a b. cpCreated a < cpCreated b) (A @ t # B)"
    using l by (auto simp: linear_def linked_append)
  have out: "cpId t \<notin> cpId ` set A" "cpId t \<notin> cpId ` set B" using dd by auto
  have a: "linked None (map g A)" by (rule linked_bypass [OF lk(1) _ out(1)]) (use g in auto)
  have b: "linked ?p (map g B)"
  proof (cases B)
    case (Cons u B')
    have u: "parentOf u = Some (cpId t)" "cpId u \<noteq> []" "linked (Some (cpId u)) B'" using lk(3) Cons by auto
    have gu: "bypasses env w t u (g u)" using g Cons by simp
    have "linked (Some (cpId u)) (map g B')"
      by (rule linked_bypass [OF u(3), of t env w]) (use out(2) g Cons in auto)
    then show ?thesis using gu u lk(2) Cons by (simp add: bypasses_def)
  qed simp
  have idA: "cpId (g x) = cpId x" "cpCreated (g x) = cpCreated x" if "x \<in> set (A @ B)" for x
    using g that by (auto simp: bypasses_def)
  have "linked None (map g (A @ B))"
    using a b idA(1) by (auto simp: linked_append last_map)
  moreover have "map cpId (map g (A @ B)) = map cpId (A @ B)" using idA(1) by simp
  then have "distinct (map cpId (map g (A @ B)))" using dd by (simp only: map_append distinct_append) auto
  moreover have "sorted_wrt (\<lambda>a b. cpCreated a < cpCreated b) (map g (A @ B))"
    unfolding sorted_wrt_map
  proof (rule sorted_wrt_mono_rel)
    show "sorted_wrt (\<lambda>a b. cpCreated a < cpCreated b) (A @ B)" using srt by (simp add: sorted_wrt_append)
  qed (simp add: idA(2))
  ultimately show ?thesis by (simp only: linear_def)
qed

lemma read_all_some:
  assumes "readable_tidy env s" and "set cs \<subseteq> set (egHistory s)"
  shows "\<exists>xs. read_all env s cs = Some xs"
  using assms(2)
proof (induction cs)
  case (Cons c cs)
  have c: "c \<in> set (egHistory s)" using Cons.prems by simp
  obtain r where "readCheckpointRecord env s (cpId c) = LoadOk r" by (rule readable_tidyE [OF assms(1) c])
  then show ?case using Cons by auto
qed simp

lemma read_all_map:
  assumes "\<forall>c \<in> set cs. cpId (g c) = cpId c \<and> readCheckpointRecord env s' (cpId c) = readCheckpointRecord env s (cpId c)"
  shows "read_all env s' (map g cs) = read_all env s cs"
  by (rule read_all_cong) (use assms in simp)

text \<open>The state that a successful removal reaches, up to the collection of objects.\<close>

lemma removal_effect:
  assumes l: "linear_engine env w s" and c: "sort_by_created (egHistory s) = A @ t # B"
    and rd: "readable_tidy env s" and n: "no_foreign env s" and ws: "writes_succeed env"
    and rm: "removeFromHistoryAndDisk env retention (cpId t) s = (True, s')"
  shows "\<exists>g m. egHistory s' = map g (filter (\<lambda>x. cpId x \<noteq> cpId t) (egHistory s))
    \<and> (\<forall>x \<in> set (egHistory s). bypasses env w t x (g x))
    \<and> egWorkspacePath s' = egWorkspacePath s
    \<and> (\<forall>j. j \<noteq> cpId t \<longrightarrow> (case B of u # _ \<Rightarrow> j \<noteq> cpId u | [] \<Rightarrow> True) \<longrightarrow> readCheckpointRecord env s' j = readCheckpointRecord env s j)
    \<and> (\<forall>u B' rt ru. B = u # B' \<longrightarrow> readCheckpointRecord env s (cpId t) = LoadOk rt \<longrightarrow> readCheckpointRecord env s (cpId u) = LoadOk ru \<longrightarrow>
         (\<exists>ru'. readCheckpointRecord env s' (cpId u) = LoadOk ru'
            \<and> snapshots_of ru' = map serializeSnapshotForDisk (foldSnapshotsIntoSuccessor (Some (snapshots_of rt)) (Some (snapshots_of ru)))))
    \<and> egObjects s' = egObjects (snd (gcUnreferencedCheckpointBlobs env m)) \<and> egObjects m = egObjects s
    \<and> egManifests m = egManifests s'"
proof -
  have tin: "t \<in> set (egHistory s)" using arg_cong [OF c, of set] by auto
  have hm: "home env w x" if "x \<in> set (egHistory s)" for x using l that by (simp add: linear_engine_def)
  have tid: "cpId t \<noteq> []" using l c by (auto simp: linear_engine_def linear_def linked_append)
  have ft: "find_cp s (cpId t) = Some t" using linear_position [OF l c] by simp
  obtain outcome s1 where fo: "foldCheckpointIntoSuccessor env (cpId t) s = (outcome, s1)" by fastforce
  obtain removed s2 where rh: "removeFromHistory env (cpId t) (drop_mappings (cpId t) s1) = (removed, s2)" by fastforce
  have s': "removed \<and> s' = append_audit ''delete'' (Some (cpId t)) True (deleteCheckpointFromDisk env (cpId t) s2)"
    using rm by (auto simp: removeFromHistoryAndDisk_def ft fo rh split: if_splits)
  have eff: "\<exists>g. egHistory s1 = map g (egHistory s) \<and> (\<forall>x \<in> set (egHistory s). bypasses env w t x (g x))
    \<and> no_foreign env s1 \<and> egWorkspacePath s1 = egWorkspacePath s \<and> egObjects s1 = egObjects s
    \<and> (\<forall>j. (case B of u # _ \<Rightarrow> j \<noteq> cpId u | [] \<Rightarrow> True) \<longrightarrow> readCheckpointRecord env s1 j = readCheckpointRecord env s j)
    \<and> (\<forall>u B' rt ru. B = u # B' \<longrightarrow> readCheckpointRecord env s (cpId t) = LoadOk rt \<longrightarrow> readCheckpointRecord env s (cpId u) = LoadOk ru \<longrightarrow>
         (\<exists>ru'. readCheckpointRecord env s1 (cpId u) = LoadOk ru'
            \<and> snapshots_of ru' = map serializeSnapshotForDisk (foldSnapshotsIntoSuccessor (Some (snapshots_of rt)) (Some (snapshots_of ru)))))"
  proof (cases B)
    case Nil
    have "s1 = s" using fo linear_position [OF l c] Nil by (simp add: foldCheckpointIntoSuccessor_def)
    moreover have "bypasses env w t x x" if x: "x \<in> set (egHistory s)" for x
    proof -
      obtain P Q where pq: "A @ [t] = P @ x # Q" using x arg_cong [OF c, of set] Nil by (auto dest: split_list)
      have "parentOf x \<noteq> Some (cpId t)"
      proof
        assume e: "parentOf x = Some (cpId t)"
        have lin: "linear (P @ x # Q)" using l c Nil pq by (simp add: linear_engine_def)
        then have "P \<noteq> []" "cpId (last P) = cpId t" using e by (auto simp: linear_def linked_append split: if_splits)
        moreover have "t \<in> set (x # Q)" using arg_cong [OF pq, of last] by (auto split: if_splits)
        moreover have "set (map cpId P) \<inter> set (map cpId (x # Q)) = {}" using lin by (auto simp: linear_def)
        ultimately show False using last_in_set [of P] by (metis (no_types) disjoint_iff image_eqI set_map)
      qed
      then show ?thesis using hm [OF x] by (simp add: bypasses_def)
    qed
    ultimately show ?thesis using n Nil by (intro exI [of _ id]) simp
  next
    case (Cons u B')
    have uin: "u \<in> set (egHistory s)" using arg_cong [OF c, of set] Cons by auto
    obtain rt where rt: "readCheckpointRecord env s (cpId t) = LoadOk rt" by (rule readable_tidyE [OF rd tin])
    obtain ru where ru: "readCheckpointRecord env s (cpId u) = LoadOk ru" by (rule readable_tidyE [OF rd uin])
    obtain s1' g ru' where "foldCheckpointIntoSuccessor env (cpId t) s = (Inr True, s1')"
      "egHistory s1' = map g (egHistory s)" "\<forall>x \<in> set (egHistory s). bypasses env w t x (g x)"
      "no_foreign env s1'" "egWorkspacePath s1' = egWorkspacePath s" "egObjects s1' = egObjects s"
      "snapshots_of ru' = map serializeSnapshotForDisk (foldSnapshotsIntoSuccessor (Some (snapshots_of rt)) (Some (snapshots_of ru)))"
      "\<forall>j. readCheckpointRecord env s1' j = (if j = cpId u then LoadOk ru' else readCheckpointRecord env s j)"
      using fold_effect [OF l c [unfolded Cons] rd n ws rt ru] by (elim exE conjE) (rule that)
    then show ?thesis using fo rt ru Cons by (intro exI [of _ g]) simp
  qed
  then obtain g where g: "egHistory s1 = map g (egHistory s)" "\<forall>x \<in> set (egHistory s). bypasses env w t x (g x)"
    "no_foreign env s1" "egWorkspacePath s1 = egWorkspacePath s" "egObjects s1 = egObjects s"
    "\<forall>j. (case B of u # _ \<Rightarrow> j \<noteq> cpId u | [] \<Rightarrow> True) \<longrightarrow> readCheckpointRecord env s1 j = readCheckpointRecord env s j"
    "\<forall>u B' rt ru. B = u # B' \<longrightarrow> readCheckpointRecord env s (cpId t) = LoadOk rt \<longrightarrow> readCheckpointRecord env s (cpId u) = LoadOk ru \<longrightarrow>
         (\<exists>ru'. readCheckpointRecord env s1 (cpId u) = LoadOk ru'
            \<and> snapshots_of ru' = map serializeSnapshotForDisk (foldSnapshotsIntoSuccessor (Some (snapshots_of rt)) (Some (snapshots_of ru))))"
    by (elim exE conjE) (rule that)
  have gid: "cpId (g x) = cpId x" if "x \<in> set (egHistory s)" for x using g(2) that by (simp add: bypasses_def)
  have "g t \<in> set (egHistory s1)" using tin by (simp add: g(1))
  then have "cpId t \<in> cpId ` set (egHistory s1)" using gid [OF tin] by (metis image_eqI)
  note tl = removal_tail [OF g(3) ws this rh]
  define m where "m = s2\<lparr>egManifests := jm_del (cpId t) (egManifests s2)\<rparr>"
  have dl: "deleteCheckpointFromDisk env (cpId t) s2 = snd (gcUnreferencedCheckpointBlobs env m)"
    by (simp add: deleteCheckpointFromDisk_def m_def)
  have fields: "egHistory s' = egHistory s2" "egManifests s' = jm_del (cpId t) (egManifests s2)"
    "egWorkspacePath s' = egWorkspacePath s2" "egObjects s' = egObjects (snd (gcUnreferencedCheckpointBlobs env m))"
    using s' by (simp_all add: dl append_audit_def gc_form m_def)
  have reads: "readCheckpointRecord env s' j = readCheckpointRecord env s1 j" if "j \<noteq> cpId t" for j
    using tl fields(2) that by (simp add: readCheckpointRecord_def)
  have flt: "filter (\<lambda>x. cpId x \<noteq> cpId t) (map g (egHistory s)) = map g (filter (\<lambda>x. cpId x \<noteq> cpId t) (egHistory s))"
    unfolding filter_map comp_def using gid by (metis (mono_tags, lifting) filter_cong)
  have hist: "egHistory s' = map (\<lambda>x. toIndexRecord env (g x)) (filter (\<lambda>x. cpId x \<noteq> cpId t) (egHistory s))"
    unfolding fields(1) using tl by (simp add: g(1) flt comp_def)
  have bp: "\<forall>x \<in> set (egHistory s). bypasses env w t x (toIndexRecord env (g x))"
    using g(2) bypasses_index by blast
  have neq: "cpId u \<noteq> cpId t" if "B = u # B'" for u B'
    using l c that by (auto simp: linear_engine_def linear_def)
  have folded: "\<forall>u B' rt ru. B = u # B' \<longrightarrow> readCheckpointRecord env s (cpId t) = LoadOk rt \<longrightarrow> readCheckpointRecord env s (cpId u) = LoadOk ru \<longrightarrow>
         (\<exists>ru'. readCheckpointRecord env s' (cpId u) = LoadOk ru'
            \<and> snapshots_of ru' = map serializeSnapshotForDisk (foldSnapshotsIntoSuccessor (Some (snapshots_of rt)) (Some (snapshots_of ru))))"
    using g(7) reads neq by simp
  show ?thesis
    by (intro exI [of _ "\<lambda>x. toIndexRecord env (g x)"] exI [of _ m] conjI hist bp folded)
       (use fields tl g(4-6) reads in \<open>simp_all add: m_def\<close>)
qed

lemma tree_hash_source:
  assumes "jm_get (replayHashState css) p = Some st" and "hsHash st = Some h" and "isBlobObjectHash h"
  shows "\<exists>ss \<in> set css. h \<in> set (referencedBlobHashes ss)"
proof -
  have w: "jm.last_write (map snapshot_write (named (concat css))) p = Some (Some st)"
    using assms(1) unfolding replay_concat fold_apply_hash_snapshot jm.get_writes
    by (auto simp: or_default_def split: option.splits)
  then obtain x where x: "x \<in> set (concat css)" "snd (snapshot_write x) = Some st"
    unfolding last_write_snapshots by (auto split: if_splits dest!: find_Some_in)
  then have "\<not> snapshotIsDeleted x" "fsHash x = Some h"
    using assms(2) by (auto simp: snapshot_write_def snapshotToHashState_def Let_def split: if_splits)
  then show ?thesis using x(1) assms(3) by (force simp: referencedBlobHashes_def in_map_filter)
qed

lemma read_all_source:
  "read_all env s cs = Some css \<Longrightarrow> ss \<in> set css \<Longrightarrow>
   \<exists>c \<in> set cs. \<exists>r. readCheckpointRecord env s (cpId c) = LoadOk r \<and> ss = snapshots_of r"
  by (induction cs arbitrary: css) (auto split: load_result.splits)

text \<open>The trees along the line, before and after, up to the collection.\<close>

lemma removal_trees:
  assumes l: "linear_engine env w s" and c: "sort_by_created (egHistory s) = A @ t # B"
    and rd: "readable_tidy env s"
    and hist: "egHistory s' = map g (filter (\<lambda>x. cpId x \<noteq> cpId t) (egHistory s))"
    and by_g: "\<forall>x \<in> set (egHistory s). bypasses env w t x (g x)"
    and ws: "egWorkspacePath s' = egWorkspacePath s"
    and same: "\<forall>j. j \<noteq> cpId t \<longrightarrow> (case B of u # _ \<Rightarrow> j \<noteq> cpId u | [] \<Rightarrow> True) \<longrightarrow> readCheckpointRecord env s' j = readCheckpointRecord env s j"
    and folded: "\<forall>u B' rt ru. B = u # B' \<longrightarrow> readCheckpointRecord env s (cpId t) = LoadOk rt \<longrightarrow> readCheckpointRecord env s (cpId u) = LoadOk ru \<longrightarrow>
         (\<exists>ru'. readCheckpointRecord env s' (cpId u) = LoadOk ru'
            \<and> snapshots_of ru' = map serializeSnapshotForDisk (foldSnapshotsIntoSuccessor (Some (snapshots_of rt)) (Some (snapshots_of ru))))"
    and x: "x \<in> set (A @ B)"
  shows "\<exists>css css' chain'. hashStateAtCheckpoint env s (cpId x) = Some (replayHashState css)
    \<and> hashStateAtCheckpoint env s' (cpId x) = Some (replayHashState css')
    \<and> (\<forall>p. jm_get (replayHashState css') p = jm_get (replayHashState css) p)
    \<and> read_all env s' chain' = Some css' \<and> cpId ` set chain' \<subseteq> cpId ` set (A @ B)"
proof -
  have set: "set (egHistory s) = set (A @ t # B)" using arg_cong [OF c, of set] by simp
  have dst: "distinct (map cpId (A @ t # B))" and lin: "linear (A @ t # B)"
    using l c by (auto simp: linear_engine_def linear_def)
  have gid: "cpId (g y) = cpId y" "cpCreated (g y) = cpCreated y" if "y \<in> set (A @ t # B)" for y
    using by_g that set by (auto simp: bypasses_def)
  have flt: "filter (\<lambda>x. cpId x \<noteq> cpId t) (A @ t # B) = A @ B"
  proof -
    have "cpId t \<notin> cpId ` set A" "cpId t \<notin> cpId ` set B" using dst by auto
    then have "filter (\<lambda>x. cpId x \<noteq> cpId t) A = A" "filter (\<lambda>x. cpId x \<noteq> cpId t) B = B"
      by (auto simp: filter_id_conv image_iff)
    then show ?thesis by simp
  qed
  have srt: "sort_by_created (egHistory s') = map g (A @ B)"
  proof -
    have "sort_by_created (egHistory s') = map g (sort_by_created (filter (\<lambda>x. cpId x \<noteq> cpId t) (egHistory s)))"
      unfolding hist by (rule sort_by_created_map) (use gid(2) set in auto)
    then show ?thesis unfolding sort_by_created_filter c flt .
  qed
  have l': "linear_engine env w s'"
  proof -
    have "linear (map g (A @ B))" using linear_bypass [OF lin] by_g set by auto
    then show ?thesis using l ws by_g unfolding linear_engine_def srt by (auto simp: hist bypasses_def)
  qed
  have before: "hashStateAtCheckpoint env s (cpId y) = map_option replayHashState (read_all env s (P @ [y]))"
    if "A @ t # B = P @ y # Q" for P y Q
    using linear_hash_state [OF l] c that by simp
  have after: "hashStateAtCheckpoint env s' (cpId y) = map_option replayHashState (read_all env s' (map g (P @ [y])))"
    if "A @ B = P @ y # Q" "y \<in> set (A @ B)" for P y Q
  proof -
    have "sort_by_created (egHistory s') = map g P @ g y # map g Q" using srt that(1) by simp
    from linear_hash_state [OF l' this] show ?thesis using gid(1) [of y] that(2) by auto
  qed
  have sub: "cpId ` set (map g R) \<subseteq> cpId ` set (A @ B)" if "set R \<subseteq> set (A @ B)" for R
    using gid(1) that by (force simp: image_iff)
  have dis: "set A \<inter> set B = {}" and db: "distinct B"
    using distinct_map [of cpId "A @ t # B"] dst by auto
  have keep: "read_all env s' (map g R) = read_all env s R"
    if "set R \<subseteq> set (A @ B)" "\<forall>u B'. B = u # B' \<longrightarrow> u \<notin> set R" for R
  proof (rule read_all_map, intro ballI conjI)
    fix y assume y: "y \<in> set R"
    then have m: "y \<in> set (A @ t # B)" using that(1) by auto
    show "cpId (g y) = cpId y" by (rule gid(1) [OF m])
    have "y \<in> set (A @ B)" using y that(1) by blast
    moreover have "cpId t \<notin> cpId ` set (A @ B)" using dst by auto
    ultimately have "cpId y \<noteq> cpId t" by (metis image_eqI)
    moreover have "case B of u # _ \<Rightarrow> cpId y \<noteq> cpId u | [] \<Rightarrow> True"
    proof (cases B)
      case (Cons u B')
      then have "y \<noteq> u" using y that(2) by auto
      then show ?thesis using Cons same_id_eq [OF dst m, of u] by auto
    qed simp
    ultimately show "readCheckpointRecord env s' (cpId y) = readCheckpointRecord env s (cpId y)" using same by blast
  qed
  show ?thesis
  proof (cases "x \<in> set A")
    case True
    then obtain P Q where pq: "A = P @ x # Q" by (meson split_list)
    obtain css where css: "read_all env s (P @ [x]) = Some css"
      using read_all_some [OF rd, of "P @ [x]"] set pq by auto
    have "u \<notin> set (P @ [x])" if "B = u # B'" for u B'
      using dis that pq by auto
    then have "read_all env s' (map g (P @ [x])) = Some css"
      using keep [of "P @ [x]"] css pq by auto
    then show ?thesis using before [of P x "Q @ t # B"] after [of P x "Q @ B"] css pq x sub [of "P @ [x]"]
      by (intro exI [of _ css] exI [of _ "map g (P @ [x])"]) auto
  next
    case False
    then obtain B1 B2 where B: "B = B1 @ x # B2" using x by (auto dest: split_list)
    define u R where "u = hd (B1 @ [x])" and "R = tl (B1 @ [x])"
    have uR: "B1 @ [x] = u # R" by (simp add: u_def R_def)
    have Bu: "B = u # R @ B2" using B uR by (metis append_Cons append_assoc append_Nil)
    obtain rt where rt: "readCheckpointRecord env s (cpId t) = LoadOk rt" by (rule readable_tidyE [OF rd, of t]) (simp add: set)
    obtain ru where ru: "readCheckpointRecord env s (cpId u) = LoadOk ru" by (rule readable_tidyE [OF rd, of u]) (simp add: set Bu)
    obtain ru' where ru': "readCheckpointRecord env s' (cpId u) = LoadOk ru'"
      "snapshots_of ru' = map serializeSnapshotForDisk (foldSnapshotsIntoSuccessor (Some (snapshots_of rt)) (Some (snapshots_of ru)))"
      using folded Bu rt ru by blast
    obtain a where a: "read_all env s A = Some a" using read_all_some [OF rd, of A] set by auto
    obtain r where r: "read_all env s R = Some r" using read_all_some [OF rd, of R] set Bu by auto
    have tidy: "\<forall>y \<in> set (snapshots_of rt @ snapshots_of ru). posixReplayPath (fsRelativePath y) = fsRelativePath y \<and> fsRelativePath y \<noteq> []"
      using readable_tidyE [OF rd, of t] readable_tidyE [OF rd, of u] rt ru set Bu
      by (auto simp: tidy_snapshot_def)
    have css: "read_all env s (A @ t # u # R) = Some (a @ [snapshots_of rt, snapshots_of ru] @ r)"
      by (simp add: read_all_append a r rt ru)
    have "u \<notin> set A" "u \<notin> set R" using dis db Bu by auto
    then have ga: "read_all env s' (map g A) = Some a" and gr: "read_all env s' (map g R) = Some r"
      using keep [of A] a keep [of R] r Bu by auto
    have gu: "cpId (g u) = cpId u" using gid(1) Bu by simp
    have css': "read_all env s' (map g (A @ u # R)) = Some (a @ [snapshots_of ru'] @ r)"
      by (simp add: read_all_append ga gr gu ru'(1))
    have e1: "hashStateAtCheckpoint env s (cpId x) = Some (replayHashState (a @ [snapshots_of rt, snapshots_of ru] @ r))"
      using before [of "A @ t # B1" x B2] B css uR by simp
    have e2: "hashStateAtCheckpoint env s' (cpId x) = Some (replayHashState (a @ [snapshots_of ru'] @ r))"
      using after [of "A @ B1" x B2] B css' uR x by simp
    have e3: "jm_get (replayHashState (a @ [snapshots_of ru'] @ r)) p
        = jm_get (replayHashState (a @ [snapshots_of rt, snapshots_of ru] @ r)) p" for p
      unfolding ru'(2) serialized_replay using foldSnapshots_keeps_hash_replay [OF tidy] by simp
    show ?thesis using e1 e2 e3 css' sub [of "A @ u # R"] Bu
      by (intro exI [of _ "a @ [snapshots_of rt, snapshots_of ru] @ r"] exI [of _ "a @ [snapshots_of ru'] @ r"]
            exI [of _ "map g (A @ u # R)"]) auto
  qed
qed

section \<open>Deletion keeps the other trees\<close>

text \<open>What a readable manifest names is not collected.\<close>

lemma collection_keeps_read:
  assumes "egObjects s' = egObjects (snd (gcUnreferencedCheckpointBlobs env m))" and "egManifests m = egManifests s'"
    and "readCheckpointRecord env s' i = LoadOk r" and "starts_with i ''cp_''" and "h \<in> set (referencedBlobHashes (snapshots_of r))" and "isBlobObjectHash h"
  shows "getBlob env key (egObjects s') h = getBlob env key (egObjects m) h"
proof -
  have g: "jm_get (egManifests m) i = Some (ManifestJson r)" using assms(2,3) by (simp add: readCheckpointRecord_Ok)
  then have "i \<in> set (manifest_names m)" using assms(4) by (simp add: manifest_names_def in_jm_keys)
  then have "named_hash env m h" using g assms(5) by (auto simp: named_hash_def list_ex_iff intro!: bexI [of _ i])
  then show ?thesis
    using assms(1) collected_iff [of env m _ h] getBlob_swept [OF assms(6), of env key _ "egObjects m"]
    by (auto simp: gc_form split: option.splits)
qed

text \<open>Nothing stops the deletion of a checkpoint of a linear history but the guards of an eviction.\<close>

lemma removal_succeeds:
  assumes l: "linear_engine env w s" and rd: "readable_tidy env s" and n: "no_foreign env s" and ws: "writes_succeed env"
    and t: "t \<in> set (egHistory s)" and keeps: "\<not> (retention \<and> retention_keeps env t s)"
  shows "\<exists>s'. removeFromHistoryAndDisk env retention (cpId t) s = (True, s')"
proof -
  have "t \<in> set (sort_by_created (egHistory s))" using t by (simp add: sort_by_created_def)
  then obtain A B where c: "sort_by_created (egHistory s) = A @ t # B" by (meson split_list)
  have "\<exists>s1. foldCheckpointIntoSuccessor env (cpId t) s = (Inr True, s1) \<and> no_foreign env s1 \<and> cpId t \<in> cpId ` set (egHistory s1)"
  proof (cases B)
    case Nil
    then show ?thesis using linear_position [OF l c] n t by (simp add: foldCheckpointIntoSuccessor_def)
  next
    case (Cons u B')
    have u: "u \<in> set (egHistory s)" using arg_cong [OF c, of set] Cons by auto
    obtain rt where rt: "readCheckpointRecord env s (cpId t) = LoadOk rt" by (rule readable_tidyE [OF rd t])
    obtain ru where ru: "readCheckpointRecord env s (cpId u) = LoadOk ru" by (rule readable_tidyE [OF rd u])
    obtain s1 g where s1: "foldCheckpointIntoSuccessor env (cpId t) s = (Inr True, s1)" "egHistory s1 = map g (egHistory s)"
      "\<forall>x \<in> set (egHistory s). bypasses env w t x (g x)" "no_foreign env s1"
      using fold_effect [OF l c [unfolded Cons] rd n ws rt ru] by (elim exE conjE) (rule that)
    have "cpId (g t) = cpId t" using s1(3) t by (simp add: bypasses_def)
    then have "cpId t \<in> cpId ` set (egHistory s1)" using t s1(2) by (metis image_eqI image_set)
    then show ?thesis using s1 by blast
  qed
  then obtain s1 where s1: "foldCheckpointIntoSuccessor env (cpId t) s = (Inr True, s1)" "no_foreign env s1"
    "cpId t \<in> cpId ` set (egHistory s1)" by blast
  obtain removed s2 where r: "removeFromHistory env (cpId t) (drop_mappings (cpId t) s1) = (removed, s2)" by fastforce
  have "removed" using removal_tail [OF s1(2) ws s1(3) r] by simp
  then show ?thesis
    using linear_position [OF l c] keeps s1(1) r by (auto simp: removeFromHistoryAndDisk_def)
qed

text \<open>
  C4 (safety): on a linear history whose manifests are readable, deleting a checkpoint (or evicting
  one that no guard keeps) succeeds, drops just that checkpoint from the history, leaves the tree of
  every other checkpoint as it was, path by path, and leaves every blob of those trees as it read
  before, the collection of unreferenced objects included.
\<close>

theorem removal_keeps_trees:
  assumes "linear_engine env w s" and "readable_tidy env s" and "no_foreign env s" and "writes_succeed env"
    and "t \<in> set (egHistory s)" and "\<not> (retention \<and> retention_keeps env t s)"
    and "s' = snd (removeFromHistoryAndDisk env retention (cpId t) s)"
  shows "fst (removeFromHistoryAndDisk env retention (cpId t) s)
    \<and> map cpId (egHistory s') = filter (\<lambda>i. i \<noteq> cpId t) (map cpId (egHistory s))
    \<and> (\<forall>x \<in> set (egHistory s). cpId x \<noteq> cpId t \<longrightarrow>
      (\<exists>before after. hashStateAtCheckpoint env s (cpId x) = Some before \<and> hashStateAtCheckpoint env s' (cpId x) = Some after
         \<and> (\<forall>p. jm_get after p = jm_get before p)
         \<and> (\<forall>p st h. jm_get before p = Some st \<longrightarrow> hsHash st = Some h \<longrightarrow> isBlobObjectHash h \<longrightarrow>
              getBlob env key (egObjects s') h = getBlob env key (egObjects s) h)))"
proof -
  have rm: "removeFromHistoryAndDisk env retention (cpId t) s = (True, s')"
    using removal_succeeds [OF assms(1-6)] assms(7) by auto
  have set: "set (sort_by_created (egHistory s)) = set (egHistory s)" by (simp add: sort_by_created_def)
  then obtain A B where c: "sort_by_created (egHistory s) = A @ t # B" using assms(5) by (metis split_list)
  obtain g m where e: "egHistory s' = map g (filter (\<lambda>x. cpId x \<noteq> cpId t) (egHistory s))"
    "\<forall>x \<in> set (egHistory s). bypasses env w t x (g x)" "egWorkspacePath s' = egWorkspacePath s"
    "\<forall>j. j \<noteq> cpId t \<longrightarrow> (case B of u # _ \<Rightarrow> j \<noteq> cpId u | [] \<Rightarrow> True) \<longrightarrow> readCheckpointRecord env s' j = readCheckpointRecord env s j"
    "\<forall>u B' rt ru. B = u # B' \<longrightarrow> readCheckpointRecord env s (cpId t) = LoadOk rt \<longrightarrow> readCheckpointRecord env s (cpId u) = LoadOk ru \<longrightarrow>
         (\<exists>ru'. readCheckpointRecord env s' (cpId u) = LoadOk ru'
            \<and> snapshots_of ru' = map serializeSnapshotForDisk (foldSnapshotsIntoSuccessor (Some (snapshots_of rt)) (Some (snapshots_of ru))))"
    "egObjects s' = egObjects (snd (gcUnreferencedCheckpointBlobs env m))" "egObjects m = egObjects s" "egManifests m = egManifests s'"
    using removal_effect [OF assms(1) c assms(2-4) rm] by (elim exE conjE) (rule that)
  have "map cpId (egHistory s') = filter (\<lambda>i. i \<noteq> cpId t) (map cpId (egHistory s))"
    using e(1,2) by (auto simp: filter_map comp_def bypasses_def)
  moreover have "\<forall>x \<in> set (egHistory s). cpId x \<noteq> cpId t \<longrightarrow>
      (\<exists>before after. hashStateAtCheckpoint env s (cpId x) = Some before \<and> hashStateAtCheckpoint env s' (cpId x) = Some after
         \<and> (\<forall>p. jm_get after p = jm_get before p)
         \<and> (\<forall>p st h. jm_get before p = Some st \<longrightarrow> hsHash st = Some h \<longrightarrow> isBlobObjectHash h \<longrightarrow>
              getBlob env key (egObjects s') h = getBlob env key (egObjects s) h))"
  proof (intro ballI impI)
    fix x assume x: "x \<in> set (egHistory s)" "cpId x \<noteq> cpId t"
    then have "x \<in> set (A @ B)" using set c by auto
    from removal_trees [OF assms(1) c assms(2) e(1-5) this]
    obtain css css' chain' where t: "hashStateAtCheckpoint env s (cpId x) = Some (replayHashState css)"
      "hashStateAtCheckpoint env s' (cpId x) = Some (replayHashState css')"
      "\<forall>p. jm_get (replayHashState css') p = jm_get (replayHashState css) p" "read_all env s' chain' = Some css'"
      "cpId ` set chain' \<subseteq> cpId ` set (A @ B)"
      by (elim exE conjE) (rule that)
    have "getBlob env key (egObjects s') h = getBlob env key (egObjects s) h"
      if "jm_get (replayHashState css) p = Some st" "hsHash st = Some h" "isBlobObjectHash h" for p st h
    proof -
      have "jm_get (replayHashState css') p = Some st" using t(3) that(1) by simp
      from tree_hash_source [OF this that(2,3)]
      obtain ss where ss: "ss \<in> set css'" "h \<in> set (referencedBlobHashes ss)" by blast
      obtain d r where r: "d \<in> set chain'" "readCheckpointRecord env s' (cpId d) = LoadOk r" "ss = snapshots_of r"
        using read_all_source [OF t(4) ss(1)] by blast
      obtain y where y: "y \<in> set (A @ B)" "cpId d = cpId y" using r(1) t(5) by blast
      then have "y \<in> set (egHistory s)" using set c by auto
      then have "starts_with (cpId d) ''cp_''" using assms(1) y(2) by (simp add: linear_engine_def home_def)
      from collection_keeps_read [OF e(6,8) r(2) this ss(2) [unfolded r(3)] that(3), of key] show ?thesis by (simp add: e(7))
    qed
    then show "\<exists>before after. hashStateAtCheckpoint env s (cpId x) = Some before \<and> hashStateAtCheckpoint env s' (cpId x) = Some after
         \<and> (\<forall>p. jm_get after p = jm_get before p)
         \<and> (\<forall>p st h. jm_get before p = Some st \<longrightarrow> hsHash st = Some h \<longrightarrow> isBlobObjectHash h \<longrightarrow>
              getBlob env key (egObjects s') h = getBlob env key (egObjects s) h)"
      using t(1-3) by (intro exI [of _ "replayHashState css"] exI [of _ "replayHashState css'"]) blast
  qed
  ultimately show ?thesis using rm by simp
qed

section \<open>A line of three checkpoints\<close>

definition line_checkpoint :: "string \<Rightarrow> int \<Rightarrow> string option \<Rightarrow> checkpoint_info" where
  "line_checkpoint i t parent = (new_checkpoint i ''d'' t)\<lparr>cpWorkspacePath := Some ''/w'',
     cpWorkspaceKey := Some (workspaceStorageKey sample_engine_env ''/w''), cpParentCheckpointId := parent\<rparr>"

definition line_manifest :: "checkpoint_info \<Rightarrow> file_snapshot list \<Rightarrow> string \<times> manifest_file" where
  "line_manifest c ss = (cpId c, ManifestJson (saved_record sample_engine_env c ss))"

definition stored :: "string \<Rightarrow> string \<Rightarrow> file_snapshot" where
  "stored p t = new_snapshot p (Some (sample_hash t)) ''utf8'' 1 Created"

definition line_engine :: engine where
  "line_engine = (let a = line_checkpoint ''cp_1'' 1 None; b = line_checkpoint ''cp_2'' 2 (Some ''cp_1'');
       c = line_checkpoint ''cp_3'' 3 (Some ''cp_2'')
     in empty_engine\<lparr>egHistory := [c, a, b],
          egManifests := [line_manifest a [stored ''a'' ''x''], line_manifest b [stored ''b'' ''y''],
                          line_manifest c [deleted_snapshot ''a'' ''utf8'' 3]]\<rparr>)"

lemma line_checkpoint_id [simp]: "cpId (line_checkpoint i t p) = i" "cpCreated (line_checkpoint i t p) = t"
    "parentOf (line_checkpoint i t p) = truthy p"
  by (simp_all add: line_checkpoint_def new_checkpoint_def parentOf_def)

lemma line_home: "starts_with i ''cp_'' \<Longrightarrow> home sample_engine_env ''/w'' (line_checkpoint i t p)"
  by (simp add: home_def line_checkpoint_def new_checkpoint_def workspaceStorageKey_def sample_env_simps sample_hash_def)

lemma line_order: "sort_by_created (egHistory line_engine)
    = [line_checkpoint ''cp_1'' 1 None, line_checkpoint ''cp_2'' 2 (Some ''cp_1''), line_checkpoint ''cp_3'' 3 (Some ''cp_2'')]"
  by (simp add: line_engine_def empty_engine_def sort_by_created_def Let_def)

lemma line_linear: "linear_engine sample_engine_env ''/w'' line_engine"
  unfolding linear_engine_def line_order
  by (simp add: linear_def line_engine_def empty_engine_def Let_def line_home starts_with_def)

lemma line_reads:
  "readCheckpointRecord sample_engine_env line_engine ''cp_1''
     = LoadOk (saved_record sample_engine_env (line_checkpoint ''cp_1'' 1 None) [stored ''a'' ''x''])"
  "readCheckpointRecord sample_engine_env line_engine ''cp_2''
     = LoadOk (saved_record sample_engine_env (line_checkpoint ''cp_2'' 2 (Some ''cp_1'')) [stored ''b'' ''y''])"
  "readCheckpointRecord sample_engine_env line_engine ''cp_3''
     = LoadOk (saved_record sample_engine_env (line_checkpoint ''cp_3'' 3 (Some ''cp_2'')) [deleted_snapshot ''a'' ''utf8'' 3])"
  unfolding readCheckpointRecord_Ok
  by (simp_all add: saved_record_accepted) (simp_all add: line_engine_def empty_engine_def line_manifest_def Let_def)

lemma line_readable: "readable_tidy sample_engine_env line_engine"
proof -
  have ids: "cpId ` set (egHistory line_engine) = {''cp_1'', ''cp_2'', ''cp_3''}"
    by (auto simp: line_engine_def empty_engine_def Let_def)
  have "posixReplayPath ''a'' = ''a''" "posixReplayPath ''b'' = ''b''"
    by code_simp+
  then have t: "list_all tidy_snapshot (snapshots_of (saved_record env c [stored ''a'' x]))"
    "list_all tidy_snapshot (snapshots_of (saved_record env c [stored ''b'' x]))"
    "list_all tidy_snapshot (snapshots_of (saved_record env c [deleted_snapshot ''a'' ''utf8'' 3]))" for env c x
    by (simp_all add: saved_record_def snapshots_of_def tidy_snapshot_def stored_def new_snapshot_def deleted_snapshot_def
        serializeSnapshotForDisk_def snapshotIsDeleted_def sample_hash_def)
  have "case readCheckpointRecord sample_engine_env line_engine i of
      LoadOk r \<Rightarrow> list_all tidy_snapshot (snapshots_of r) | _ \<Rightarrow> False" if "i \<in> {''cp_1'', ''cp_2'', ''cp_3''}" for i
    using that line_reads t by auto
  then show ?thesis unfolding readable_tidy_def ids [symmetric] by blast
qed

lemma line_quiet: "no_foreign sample_engine_env line_engine" "writes_succeed sample_engine_env"
  by (simp_all add: no_foreign_def readIndexFile_def line_engine_def empty_engine_def writes_succeed_def sample_env_simps Let_def)

theorem removal_keeps_trees_witness:
  "let s' = snd (removeFromHistoryAndDisk sample_engine_env False ''cp_2'' line_engine)
   in map cpId (egHistory s') = [''cp_3'', ''cp_1'']
      \<and> (\<exists>tree. hashStateAtCheckpoint sample_engine_env s' ''cp_3'' = Some tree
           \<and> jm_get tree ''a'' = None \<and> map_option hsHash (jm_get tree ''b'') = Some (Some (sample_hash ''y'')))"
proof -
  let ?b = "line_checkpoint ''cp_2'' 2 (Some ''cp_1'')" and ?c = "line_checkpoint ''cp_3'' 3 (Some ''cp_2'')"
  let ?s' = "snd (removeFromHistoryAndDisk sample_engine_env False (cpId ?b) line_engine)"
  have h: "?b \<in> set (egHistory line_engine)" "?c \<in> set (egHistory line_engine)"
    "map cpId (egHistory line_engine) = [''cp_3'', ''cp_1'', ''cp_2'']"
    by (simp_all add: line_engine_def empty_engine_def Let_def)
  note all = removal_keeps_trees [OF line_linear line_readable line_quiet h(1), of False ?s' None]
  have ids: "map cpId (egHistory ?s') = [''cp_3'', ''cp_1'']" using all h(3) by simp
  obtain tree tree' where t: "hashStateAtCheckpoint sample_engine_env line_engine (cpId ?c) = Some tree"
    "hashStateAtCheckpoint sample_engine_env ?s' (cpId ?c) = Some tree'" "\<forall>p. jm_get tree' p = jm_get tree p"
    using all h(2) by fastforce
  have "tree = replayHashState [map serializeSnapshotForDisk [stored ''a'' ''x''], map serializeSnapshotForDisk [stored ''b'' ''y''],
      map serializeSnapshotForDisk [deleted_snapshot ''a'' ''utf8'' 3]]"
    using t(1) linear_hash_state [OF line_linear, of "[line_checkpoint ''cp_1'' 1 None, ?b]" ?c "[]"] line_reads
    by (simp add: line_order saved_record_def snapshots_of_def)
  moreover have "jm_get \<dots> ''a'' = None" "map_option hsHash (jm_get \<dots> ''b'') = Some (Some (sample_hash ''y''))"
    by code_simp+
  ultimately show ?thesis using ids t(2,3) by simp
qed

section \<open>A history that branches\<close>

text \<open>
  The fold goes into the next checkpoint by time, whatever its branch. Here \<open>cp_2\<close> and \<open>cp_3\<close> are
  both children of \<open>cp_1\<close>, and \<open>cp_4\<close> is a child of \<open>cp_2\<close>: deleting \<open>cp_2\<close> gives its file to \<open>cp_3\<close>,
  which never had it, and takes it from \<open>cp_4\<close>, which does.
\<close>

definition forked_engine :: engine where
  "forked_engine = (let a = line_checkpoint ''cp_1'' 1 None; b = line_checkpoint ''cp_2'' 2 (Some ''cp_1'');
       c = line_checkpoint ''cp_3'' 3 (Some ''cp_1''); d = line_checkpoint ''cp_4'' 4 (Some ''cp_2'')
     in empty_engine\<lparr>egHistory := [d, c, b, a],
          egManifests := [line_manifest a [stored ''a'' ''x''], line_manifest b [stored ''b'' ''y''],
                          line_manifest c [], line_manifest d []]\<rparr>)"

definition tree_has :: "engine \<Rightarrow> string \<Rightarrow> string \<Rightarrow> bool" where
  "tree_has s i p \<longleftrightarrow> (case hashStateAtCheckpoint sample_engine_env s i of None \<Rightarrow> False | Some tree \<Rightarrow> jm_get tree p \<noteq> None)"

lemma fork_before: "tree_has forked_engine ''cp_4'' ''b''" "\<not> tree_has forked_engine ''cp_3'' ''b''"
  by code_simp+

lemma fork_after:
  "let s' = snd (removeFromHistoryAndDisk sample_engine_env False ''cp_2'' forked_engine)
   in \<not> tree_has s' ''cp_4'' ''b'' \<and> tree_has s' ''cp_3'' ''b''"
  by code_simp

end
