(* ===== verification/Recording.thy ===== *)
theory Recording
  imports FoldTrees
begin

text \<open>
  What recording a checkpoint does to the line (\<open>manager/create.ts\<close> over \<open>manager/branches.ts\<close>): the
  new checkpoint descends from the tip of the active line, and its tree is the tip's tree with the
  captured changes applied. Also the names that a replay gives its branches.
\<close>

section \<open>Names of what-if branches\<close>

lemma show_nat_not_Nil: "show_nat n \<noteq> []"
  by (subst show_nat.simps) simp

lemma digit_inj: "i < 10 \<Longrightarrow> j < 10 \<Longrightarrow> ''0123456789'' ! i = ''0123456789'' ! j \<Longrightarrow> i = j"
  using nth_eq_iff_index_eq [of "''0123456789''" i j] by simp

lemma show_nat_inj: "show_nat n = show_nat m \<Longrightarrow> n = m"
proof (induction n arbitrary: m rule: show_nat.induct)
  case (1 n)
  have mod: "n mod 10 < 10" "m mod 10 < 10" by simp_all
  show ?case
  proof (cases "n < 10"; cases "m < 10")
    assume "n < 10" "m < 10"
    then show ?case using 1(2) digit_inj [of n m] by (simp add: show_nat.simps [of n] show_nat.simps [of m])
  next
    assume "n < 10" "\<not> m < 10"
    then show ?case using 1(2) show_nat_not_Nil [of "m div 10"] by (simp add: show_nat.simps [of n] show_nat.simps [of m])
  next
    assume "\<not> n < 10" "m < 10"
    then show ?case using 1(2) show_nat_not_Nil [of "n div 10"] by (simp add: show_nat.simps [of n] show_nat.simps [of m])
  next
    assume b: "\<not> n < 10" "\<not> m < 10"
    then have "show_nat (n div 10) = show_nat (m div 10)" "''0123456789'' ! (n mod 10) = ''0123456789'' ! (m mod 10)"
      using 1(2) by (simp_all only: show_nat.simps [of n] show_nat.simps [of m] if_False append1_eq_conv)
    then have "n div 10 = m div 10" "n mod 10 = m mod 10" using 1(1) b(1) digit_inj mod by blast+
    then show ?case by (metis div_mult_mod_eq)
  qed
qed

lemma free_suffix_Some:
  "free_suffix taken stem k n = Some m \<Longrightarrow>
     n \<le> m \<and> stem @ ''-'' @ show_nat m \<notin> set taken \<and> (\<forall>j \<in> {n..<m}. stem @ ''-'' @ show_nat j \<in> set taken)"
proof (induction k arbitrary: n)
  case (Suc k)
  show ?case
  proof (cases "stem @ ''-'' @ show_nat n \<in> set taken")
    case True
    then have "free_suffix taken stem k (n + 1) = Some m" using Suc.prems by simp
    from Suc.IH [OF this] show ?thesis using True by (auto simp: Suc_le_eq order_le_less)
  next
    case False
    then show ?thesis using Suc.prems by simp
  qed
qed simp

lemma free_suffix_None:
  "free_suffix taken stem k n = None \<Longrightarrow> (\<lambda>j. stem @ ''-'' @ show_nat j) ` {n..<n + k} \<subseteq> set taken"
proof (induction k arbitrary: n)
  case (Suc k)
  have "stem @ ''-'' @ show_nat n \<in> set taken" "free_suffix taken stem k (n + 1) = None"
    using Suc.prems by (auto split: if_splits)
  moreover have "{n..<n + Suc k} = insert n {n + 1..<n + 1 + k}" by auto
  ultimately show ?case using Suc.IH [of "n + 1"] by simp
qed simp

lemma free_suffix_total: "length taken < k \<Longrightarrow> free_suffix taken stem k n \<noteq> None"
proof
  assume k: "length taken < k" and "free_suffix taken stem k n = None"
  then have "card ((\<lambda>j. stem @ ''-'' @ show_nat j) ` {n..<n + k}) \<le> card (set taken)"
    using free_suffix_None by (intro card_mono) auto
  moreover have "inj_on (\<lambda>j. stem @ ''-'' @ show_nat j) {n..<n + k}"
    by (auto simp: inj_on_def dest: show_nat_inj)
  ultimately have "k \<le> card (set taken)" by (simp add: card_image)
  then show False using k card_length [of taken] by linarith
qed

text \<open>
  C40 (termination): the search for the name of a what-if branch ends, whatever names are taken, and
  gives a name that is not taken: the stem, or the stem with the least number from 2 on that is free.
\<close>

theorem whatIfBranchName_fresh:
  "\<exists>name. whatIfBranchName taken r = Some name \<and> name \<notin> set taken
     \<and> (name = what_if_stem r
        \<or> (what_if_stem r \<in> set taken
           \<and> (\<exists>n \<ge> 2. name = what_if_stem r @ ''-'' @ show_nat n
                \<and> set (map (\<lambda>j. what_if_stem r @ ''-'' @ show_nat j) [2..<n]) \<subseteq> set taken)))"
proof (cases "what_if_stem r \<in> set taken")
  case True
  obtain n where n: "free_suffix taken (what_if_stem r) (length taken + 1) 2 = Some n"
    using free_suffix_total [of taken "length taken + 1" "what_if_stem r" 2] by auto
  from free_suffix_Some [OF n] True n show ?thesis
    by (auto simp: whatIfBranchName_def Let_def intro!: exI [of _ n])
qed (simp add: whatIfBranchName_def Let_def)

section \<open>Lineages of a longer history\<close>

lemma by_id_snoc: "by_id (hist @ [c]) i = (if i = cpId c then Some c else by_id hist i)"
  by (simp add: by_id_def jm_of_list_get)

lemma by_id_snoc_old: "cpId c \<notin> cpId ` set hist \<Longrightarrow> by_id hist i = Some h \<Longrightarrow> by_id (hist @ [c]) i = Some h"
  using by_id_Some [of hist i h] by_id_snoc [of hist c i] by (metis image_eqI)

lemma parent_cp_snoc:
  "cpId c \<notin> cpId ` set hist \<Longrightarrow> parent_cp hist x = Some p \<Longrightarrow> parent_cp (hist @ [c]) x = Some p"
  by (auto simp: parent_cp_def bind_eq_Some_conv intro: by_id_snoc_old)

lemma line_wf_snoc:
  assumes w: "line_wf hist" and h: "h \<in> set hist" and new: "cpId c \<notin> cpId ` set hist"
    and p: "parentOf c = Some (cpId h)" and lt: "cp_key h < cp_key c"
  shows "line_wf (hist @ [c])"
proof -
  have h_id: "by_id (hist @ [c]) (cpId h) = Some h"
    by (rule by_id_snoc_old [OF new by_id_distinct [OF line_wf_distinct [OF w] h]])
  have old: "case parentOf x of None \<Rightarrow> \<forall>d \<in> set (hist @ [c]). cp_key x \<le> cp_key d
      | Some q \<Rightarrow> (case by_id (hist @ [c]) q of None \<Rightarrow> False | Some r \<Rightarrow> cp_key r < cp_key x)" if x: "x \<in> set hist" for x
  proof (cases "parentOf x")
    case None
    then have "\<forall>d \<in> set hist. cp_key x \<le> cp_key d" using line_wf_root [OF w x] by blast
    moreover from this h lt have "cp_key x \<le> cp_key c" by fastforce
    ultimately show ?thesis using None by simp
  next
    case (Some q)
    from line_wf_parent [OF w x Some] obtain r where r: "by_id hist q = Some r" "cp_key r < cp_key x" by blast
    then have "q \<noteq> cpId c" using new by_id_Some [of hist q r] by (metis image_eqI)
    then show ?thesis using Some r by (simp add: by_id_snoc)
  qed
  have "distinct (map cpId (hist @ [c]))" using line_wf_distinct [OF w] new by simp
  then show ?thesis unfolding line_wf_def using old p lt h_id by auto
qed

lemma par_path_snoc:
  assumes w: "line_wf hist" and new: "cpId c \<notin> cpId ` set hist"
  shows "par_path hist x xs \<Longrightarrow> x \<in> set hist \<Longrightarrow> par_path (hist @ [c]) x xs"
proof (induction rule: par_path.induct)
  case (path_end x)
  then have "parentOf x = None" using line_wf_parent_None [OF w] by blast
  then show ?case by (intro par_path.path_end) (simp add: parent_cp_def)
next
  case (path_step x p xs)
  then have "par_path (hist @ [c]) p xs" using parent_cp_in by blast
  then show ?case by (rule par_path.path_step [OF parent_cp_snoc [OF new path_step.hyps(1)]])
qed

lemma lineage_snoc:
  assumes w: "line_wf hist" and h: "h \<in> set hist" and new: "cpId c \<notin> cpId ` set hist"
    and p: "parentOf c = Some (cpId h)" and lt: "cp_key h < cp_key c"
    and line: "lineageCheckpoints hist (cpId h) = Some line"
  shows "lineageCheckpoints (hist @ [c]) (cpId c) = Some (line @ [c])"
proof -
  obtain xs where xs: "par_path hist h xs" using par_path_exists [OF w h] by blast
  have "line = rev xs" using lineage_eq_path [OF w by_id_distinct [OF line_wf_distinct [OF w] h] xs] line by simp
  moreover have "by_id (hist @ [c]) (cpId h) = Some h"
    by (rule by_id_snoc_old [OF new by_id_distinct [OF line_wf_distinct [OF w] h]])
  then have "parent_cp (hist @ [c]) c = Some h" using p by (simp add: parent_cp_def)
  then have "par_path (hist @ [c]) c (c # xs)" using par_path_snoc [OF w new xs h] by (rule par_path.path_step)
  moreover have "by_id (hist @ [c]) (cpId c) = Some c" by (simp add: by_id_snoc)
  ultimately show ?thesis using lineage_eq_path [OF line_wf_snoc [OF w h new p lt], of "cpId c" c "c # xs"] by simp
qed

text \<open>A map that keeps ids, dates and parents keeps the lineages.\<close>

definition keeps_line :: "(checkpoint_info \<Rightarrow> checkpoint_info) \<Rightarrow> checkpoint_info list \<Rightarrow> bool" where
  "keeps_line g hist \<longleftrightarrow> list_all (\<lambda>x. cpId (g x) = cpId x \<and> cpCreated (g x) = cpCreated x \<and> parentOf (g x) = parentOf x) hist"

lemma by_id_map: "keeps_line g hist \<Longrightarrow> by_id (map g hist) i = map_option g (by_id hist i)"
  by (induction hist rule: rev_induct) (auto simp: by_id_snoc keeps_line_def, simp add: by_id_def jm_of_list_get)

lemma lineage_map:
  assumes w: "line_wf hist" and g: "keeps_line g hist" and line: "lineageCheckpoints hist i = Some line"
  shows "lineageCheckpoints (map g hist) i = Some (map g line)"
proof -
  have k: "cpId (g x) = cpId x" "cp_key (g x) = cp_key x" "parentOf (g x) = parentOf x" if "x \<in> set hist" for x
    using g that by (auto simp: keeps_line_def list_all_iff cp_key_def)
  have par: "parent_cp (map g hist) (g x) = map_option g (parent_cp hist x)" if "x \<in> set hist" for x
    using k(3) [OF that] by (cases "parentOf x") (simp_all add: parent_cp_def by_id_map [OF g])
  have path: "par_path (map g hist) (g x) (map g xs)" if "par_path hist x xs" "x \<in> set hist" for x xs
    using that
  proof (induction rule: par_path.induct)
    case (path_end x)
    then show ?case using par by (simp add: par_path.path_end)
  next
    case (path_step x p xs)
    have "p \<in> set hist" using path_step.hyps(1) parent_cp_in by blast
    then show ?case using path_step par by (auto intro!: par_path.path_step)
  qed
  have wg: "line_wf (map g hist)"
  proof -
    have "case parentOf (g x) of None \<Rightarrow> \<forall>d \<in> set (map g hist). cp_key (g x) \<le> cp_key d
        | Some q \<Rightarrow> (case by_id (map g hist) q of None \<Rightarrow> False | Some r \<Rightarrow> cp_key r < cp_key (g x))" if x: "x \<in> set hist" for x
    proof (cases "parentOf x")
      case None
      then show ?thesis using line_wf_root [OF w x] k x by simp
    next
      case (Some q)
      from line_wf_parent [OF w x Some] obtain r where r: "by_id hist q = Some r" "cp_key r < cp_key x" by blast
      then have "r \<in> set hist" by (simp add: by_id_Some)
      then show ?thesis using r Some k x by (simp add: by_id_map [OF g])
    qed
    moreover have "map cpId (map g hist) = map cpId hist" using k(1) by simp
    ultimately show ?thesis using line_wf_distinct [OF w] by (simp only: line_wf_def) auto
  qed
  obtain c where c: "by_id hist i = Some c" using line by (auto simp: lineageCheckpoints_def split: option.splits)
  then have ch: "c \<in> set hist" by (simp add: by_id_Some)
  obtain xs where xs: "par_path hist c xs" using par_path_exists [OF w ch] by blast
  have "line = rev xs" using lineage_eq_path [OF w c xs] line by simp
  moreover have "by_id (map g hist) i = Some (g c)" using c by (simp add: by_id_map [OF g])
  ultimately show ?thesis using lineage_eq_path [OF wg _ path [OF xs ch], of i] by (simp add: rev_map)
qed

section \<open>Recording a checkpoint\<close>

text \<open>The checkpoint that the next one will descend from: where the head is detached, or the head of the active branch.\<close>

definition line_tip :: "'a node_env_scheme \<Rightarrow> engine \<Rightarrow> checkpoint_info option" where
  "line_tip env s =
     (case egDetachedFrom s of
        Some d \<Rightarrow> if dtCheckpointId d = [] then None else find_cp s (dtCheckpointId d)
      | None \<Rightarrow>
          (case Option.bind (truthy (egActiveBranchId s)) (findBranchById (egBranches s)) of
             Some b \<Rightarrow> find (\<lambda>x. cpId x = brHead b) (workspaceHistory env s)
           | None \<Rightarrow> None))"

lemma find_update_branch:
  "(\<And>b. brId (f b) = brId b) \<Longrightarrow> findBranchById (update_branch i f bs) j
     = map_option (\<lambda>b. if brId b = i then f b else b) (findBranchById bs j)"
  by (induction bs) (auto simp: findBranchById_def update_branch_def)

lemma bind_extends:
  assumes tip: "line_tip env s = Some h" and new: "cpId c \<notin> cpId ` set (egHistory s)"
    and hist: "workspaceHistory env s = egHistory s" and i: "cpId c \<noteq> []"
  shows "\<exists>c1 s1. bindCheckpointToActiveLine env uuid c s = (c1, s1) \<and> h \<in> set (egHistory s)
    \<and> cpParentCheckpointId c1 = Some (cpId h) \<and> cpId c1 = cpId c \<and> cpCreated c1 = cpCreated c
    \<and> cpWorkspacePath c1 = cpWorkspacePath c \<and> cpWorkspaceKey c1 = cpWorkspaceKey c \<and> snapshots_of c1 = snapshots_of c
    \<and> (\<exists>bs d. s1 = s\<lparr>egBranches := bs, egDetachedFrom := d\<rparr>)
    \<and> (\<forall>t. egBranches t = egBranches s1 \<longrightarrow> egDetachedFrom t = egDetachedFrom s1 \<longrightarrow> egActiveBranchId t = egActiveBranchId s \<longrightarrow>
          workspaceHistory env t = egHistory t \<longrightarrow> line_tip env t = find_cp t (cpId c))"
proof (cases "egDetachedFrom s")
  case (Some d)
  then have d: "dtCheckpointId d \<noteq> []" "find_cp s (dtCheckpointId d) = Some h"
    using tip by (auto simp: line_tip_def split: if_splits)
  then have h: "h \<in> set (egHistory s)" "cpId h = dtCheckpointId d" by (auto simp: find_cp_def dest: find_Some_in)
  then have "dtCheckpointId d \<noteq> cpId c" using new by (metis image_eqI)
  moreover have "\<exists>bs d. s\<lparr>egDetachedFrom := x\<rparr> = s\<lparr>egBranches := bs, egDetachedFrom := d\<rparr>" for x
    by (rule exI [of _ "egBranches s"]) auto
  ultimately show ?thesis
    using Some d h i by (simp add: bindCheckpointToActiveLine_def snapshots_of_def line_tip_def)
next
  case None
  then obtain b where b: "Option.bind (truthy (egActiveBranchId s)) (findBranchById (egBranches s)) = Some b"
    "find (\<lambda>x. cpId x = brHead b) (egHistory s) = Some h"
    using tip hist by (auto simp: line_tip_def split: option.splits)
  then obtain a where a: "truthy (egActiveBranchId s) = Some a" "findBranchById (egBranches s) a = Some b"
    by (auto simp: bind_eq_Some_conv)
  have h: "h \<in> set (egHistory s)" using b by (auto dest: find_Some_in)
  then have "cpId h \<noteq> cpId c" using new by (metis image_eqI)
  moreover have "\<exists>bs' d. s\<lparr>egBranches := bs\<rparr> = s\<lparr>egBranches := bs', egDetachedFrom := d\<rparr>" for bs
    by (intro exI [of _ bs] exI [of _ None]) (use None in auto)
  ultimately show ?thesis
    using None b h hist a by (simp add: bindCheckpointToActiveLine_def snapshots_of_def line_tip_def find_cp_def find_update_branch Let_def)
qed

lemma save_index_pointers:
  assumes "no_foreign env s"
  shows "egBranches (saveCheckpointHistory env s) = egBranches s \<and> egDetachedFrom (saveCheckpointHistory env s) = egDetachedFrom s
    \<and> egActiveBranchId (saveCheckpointHistory env s) = egActiveBranchId s
    \<and> egMaxCheckpoints (saveCheckpointHistory env s) = egMaxCheckpoints s
    \<and> egMaxStorageBytes (saveCheckpointHistory env s) = egMaxStorageBytes s"
  by (simp add: saveCheckpointHistory_def merge_nothing [OF assms] saveCheckpointHistoryUnlocked_def recordHealthIssue_def Let_def
      split: option.split)

lemma policies_idle:
  "no_foreign env s \<Longrightarrow> egMaxCheckpoints s = 0 \<Longrightarrow> egMaxStorageBytes s = 0 \<Longrightarrow> enforceRetentionPolicies env s = s"
  by (simp add: enforceRetentionPolicies_def merge_nothing enforceMaxCheckpoints_def enforceStorageQuota_def)

text \<open>The state in which \<open>record_checkpoint\<close> saves the bound checkpoint.\<close>

definition listed :: "checkpoint_info \<Rightarrow> engine \<Rightarrow> engine" where
  "listed c s1 = (let s2 = s1\<lparr>egHistory := egHistory s1 @ [c]\<rparr>;
               s3 = (case truthy (cpMessageId c) of
                       Some m \<Rightarrow> s2\<lparr>egMessageCheckpoints := jm_set m (cpId c) (egMessageCheckpoints s2)\<rparr> | None \<Rightarrow> s2)
    in case truthy (cpStableId c) of
         Some m \<Rightarrow> s3\<lparr>egStableIdCheckpoints := jm_set m (cpId c) (egStableIdCheckpoints s3)\<rparr> | None \<Rightarrow> s3)"

lemma record_checkpoint_listed:
  "record_checkpoint env uuid info s =
     (case bindCheckpointToActiveLine env uuid info s of
        (c, s1) \<Rightarrow>
          (case saveCheckpointToDisk env c (listed c s1) of
             (Some _, c', s5) \<Rightarrow> (None, append_audit ''create'' None False (put_cp (cpId c) c' s5))
           | (None, c', s5) \<Rightarrow>
               (let s6 = applySnapshotHashes env (snapshots_of c) (saveCheckpointHistory env (put_cp (cpId c) c' s5))
                in (Some (cpId c),
                    enforceRetentionPolicies env
                      (append_audit ''create'' (Some (cpId c)) True (s6\<lparr>egLastCheckpointTime := egNow s6\<rparr>))))))"
  by (simp only: record_checkpoint_def listed_def Let_def)

text \<open>What \<open>record_checkpoint\<close> reaches when nothing fails, no other window writes and no limit is set.\<close>

lemma record_effect:
  assumes b: "bindCheckpointToActiveLine env uuid c s = (c1, s\<lparr>egBranches := bs, egDetachedFrom := d\<rparr>)"
    and c1: "cpId c1 = cpId c" "snapshots_of c1 = snapshots_of c" and i: "cpId c \<noteq> []" "cpId c \<notin> cpId ` set (egHistory s)"
    and td: "\<forall>x \<in> set (snapshots_of c). tidy_snapshot x" and n: "no_foreign env s" and ws: "writes_succeed env"
    and lim: "egMaxCheckpoints s = 0" "egMaxStorageBytes s = 0"
  shows "\<exists>s'. record_checkpoint env uuid c s = (Some (cpId c), s')
    \<and> egHistory s' = map (toIndexRecord env) (egHistory s
         @ [(saved_record env c1 (snapshots_of c))\<lparr>cpFileSnapshots := Some (snapshots_of c)\<rparr>])
    \<and> egManifests s' = jm_set (cpId c) (ManifestJson (saved_record env c1 (snapshots_of c))) (egManifests s)
    \<and> egWorkspacePath s' = egWorkspacePath s \<and> egBranches s' = bs \<and> egDetachedFrom s' = d \<and> egActiveBranchId s' = egActiveBranchId s"
proof -
  define s4 where "s4 = listed c1 (s\<lparr>egBranches := bs, egDetachedFrom := d\<rparr>)"
  have s4: "egHistory s4 = egHistory s @ [c1]" "egManifests s4 = egManifests s" "egWorkspacePath s4 = egWorkspacePath s"
    "egBranches s4 = bs" "egDetachedFrom s4 = d" "egActiveBranchId s4 = egActiveBranchId s" "egNow s4 = egNow s"
    "egIndex s4 = egIndex s" "egLocallyRemoved s4 = egLocallyRemoved s" "egMaxCheckpoints s4 = 0" "egMaxStorageBytes s4 = 0"
    using lim by (simp_all add: s4_def listed_def Let_def split: option.split)
  define r where "r = saved_record env c1 (snapshots_of c)"
  define c2 where "c2 = r\<lparr>cpFileSnapshots := Some (snapshots_of c)\<rparr>"
  define s5 where "s5 = put_cp (cpId c) c2 (s4\<lparr>egManifests := jm_set (cpId c) (ManifestJson r) (egManifests s4)\<rparr>)"
  have td1: "\<forall>x \<in> set (snapshots_of c1). tidy_snapshot x" using td c1(2) by simp
  have sv: "saveCheckpointToDisk env c1 s4 = (None, c2, s4\<lparr>egManifests := jm_set (cpId c) (ManifestJson r) (egManifests s4)\<rparr>)"
    using save_tidy [OF td1 ws, of s4] by (simp add: c1 r_def c2_def)
  have "map (\<lambda>x. if cpId x = cpId c then c2 else x) (egHistory s) = egHistory s"
    using i(2) by (intro map_idI) (metis image_eqI)
  then have h5: "egHistory s5 = egHistory s @ [c2]" by (simp add: s5_def put_cp_def s4 c1)
  have f5: "egManifests s5 = jm_set (cpId c) (ManifestJson r) (egManifests s)" "egWorkspacePath s5 = egWorkspacePath s"
    "egBranches s5 = bs" "egDetachedFrom s5 = d" "egActiveBranchId s5 = egActiveBranchId s" "egNow s5 = egNow s"
    "egIndex s5 = egIndex s" "egLocallyRemoved s5 = egLocallyRemoved s" "egMaxCheckpoints s5 = 0" "egMaxStorageBytes s5 = 0"
    by (simp_all add: s5_def put_cp_def s4)
  have n5: "no_foreign env s5" by (rule no_foreign_cong [OF n f5(6,7)]) (auto simp: h5 f5)
  note sa = save_index_alone [OF n5 ws] and sp = save_index_pointers [OF n5]
  define s7 where "s7 = append_audit ''create'' (Some (cpId c)) True
    ((applySnapshotHashes env (snapshots_of c) (saveCheckpointHistory env s5))\<lparr>egLastCheckpointTime :=
        egNow (applySnapshotHashes env (snapshots_of c) (saveCheckpointHistory env s5))\<rparr>)"
  have s7: "egHistory s7 = egHistory (saveCheckpointHistory env s5)" "egManifests s7 = egManifests (saveCheckpointHistory env s5)"
    "egLocallyRemoved s7 = egLocallyRemoved (saveCheckpointHistory env s5)"
    "egNow s7 = egNow (saveCheckpointHistory env s5)" "egIndex s7 = egIndex (saveCheckpointHistory env s5)"
    "egWorkspacePath s7 = egWorkspacePath (saveCheckpointHistory env s5)" "egBranches s7 = egBranches (saveCheckpointHistory env s5)"
    "egDetachedFrom s7 = egDetachedFrom (saveCheckpointHistory env s5)" "egActiveBranchId s7 = egActiveBranchId (saveCheckpointHistory env s5)"
    "egMaxCheckpoints s7 = egMaxCheckpoints (saveCheckpointHistory env s5)" "egMaxStorageBytes s7 = egMaxStorageBytes (saveCheckpointHistory env s5)"
    by (simp_all add: s7_def append_audit_def applySnapshotHashes_def)
  have n7: "no_foreign env s7" by (rule no_foreign_cong [of env "saveCheckpointHistory env s5"]) (use sa s7 in auto)
  have "record_checkpoint env uuid c s = (Some (cpId c), enforceRetentionPolicies env s7)"
    by (simp add: record_checkpoint_listed b sv c1 s7_def s5_def s4_def [symmetric] Let_def)
  moreover have "enforceRetentionPolicies env s7 = s7" by (rule policies_idle [OF n7]) (use sp s7 f5 in auto)
  ultimately show ?thesis using sa sp s7 h5 f5 by (simp add: c2_def r_def)
qed


text \<open>A fourth checkpoint on the line of three.\<close>

definition branched_line :: engine where
  "branched_line = line_engine\<lparr>egBranches := [sample_branch\<lparr>brHead := ''cp_3''\<rparr>], egActiveBranchId := Some ''br_1'', egMaxCheckpoints := 0\<rparr>"

definition fourth :: checkpoint_info where
  "fourth = (line_checkpoint ''cp_4'' 4 None)\<lparr>cpFileSnapshots := Some [stored ''c'' ''x'']\<rparr>"

lemma branched_line_fields [simp]:
  "egHistory branched_line = egHistory line_engine" "egWorkspacePath branched_line = Some ''/w''"
  "readCheckpointRecord env branched_line i = readCheckpointRecord env line_engine i"
  "egMaxCheckpoints branched_line = 0" "egMaxStorageBytes branched_line = 0"
  by (simp_all add: branched_line_def readCheckpointRecord_def line_engine_def empty_engine_def Let_def)

lemma branched_line_linear: "linear_engine sample_engine_env ''/w'' branched_line"
  using line_linear by (simp add: linear_engine_def)


section \<open>A save that fails\<close>

text \<open>
  The checkpoint is listed and mapped before it is saved, and the handler of the exception does not
  take it back: the call reports no checkpoint, but the history, the head of the branch and the map
  of messages name one that has no manifest, and the next call for the same message returns it.
\<close>

definition failing_env :: engine_env where
  "failing_env = sample_engine_env\<lparr>eeWriteError := (\<lambda>_. Some ''ENOSPC'')\<rparr>"

lemma ghost_checkpoint:
  "let c = (text_checkpoint ''cp_1'' 1 [])\<lparr>cpMessageId := Some ''m''\<rparr>;
       (result, s') = record_checkpoint failing_env ''u'' c empty_engine
   in result = None \<and> existing_checkpoint (Some ''m'') None s' = Some ''cp_1'' \<and> jm_get (egManifests s') ''cp_1'' = None
      \<and> map cpId (egHistory s') = [''cp_1''] \<and> map brHead (egBranches s') = [''cp_1'']"
  by code_simp

end
