(* ===== verification/RestoreFacts.thy ===== *)
theory RestoreFacts
  imports Restore Recording
begin

text \<open>
  What a restore does to the files: which paths it can change, what the files are after a success, and
  what the journal holds when it fails. The first section shows that no operation of the engine moves
  the workspace root.
\<close>

section \<open>The root of the workspace does not move\<close>

definition rooted :: "engine \<Rightarrow> engine \<Rightarrow> bool" where
  "rooted s s' \<longleftrightarrow> egWorkspacePath s' = egWorkspacePath s"

lemma rooted_refl [simp]: "rooted s s"
  by (simp add: rooted_def)

lemma rooted_trans [trans]: "rooted s t \<Longrightarrow> rooted t u \<Longrightarrow> rooted s u"
  by (simp add: rooted_def)

lemma rooted_simps [simp]:
  "rooted s (recordHealthIssue k m io t) = rooted s t" "rooted s (append_audit a r ok t) = rooted s t"
  "rooted s (applySnapshotHashes env xs t) = rooted s t" "rooted s (put_cp i c t) = rooted s t"
  "rooted s (drop_mappings i t) = rooted s t" "rooted s (t\<lparr>egObjects := os\<rparr>) = rooted s t"
  "rooted s (t\<lparr>egHistory := hs\<rparr>) = rooted s t" "rooted s (t\<lparr>egManifests := ms\<rparr>) = rooted s t"
  "rooted s (t\<lparr>egLastCheckpointTime := n\<rparr>) = rooted s t" "rooted s (t\<lparr>egLastLoad := l\<rparr>) = rooted s t"
  "rooted s (t\<lparr>egDeletedFiles := d, egModifiedFiles := m', egPreviousFiles := p\<rparr>) = rooted s t"
  by (simp_all add: rooted_def recordHealthIssue_def append_audit_def applySnapshotHashes_def put_cp_def drop_mappings_def Let_def)

lemma rooted_frame: "blob_frame s t \<Longrightarrow> rooted s t"
  by (cases s; cases t) (simp add: blob_frame_def rooted_def)

lemma rooted_save: "saveCheckpointToDisk env c s = (e, c', s') \<Longrightarrow> rooted s s'"
  using rooted_frame [OF ensure_snapshots_frame [of s env "snapshots_of c"]]
  by (auto simp: saveCheckpointToDisk_def Let_def split: prod.splits sum.splits option.splits)

lemma rooted_load: "rooted s (snd (loadCheckpointFromDisk env i s))"
  by (simp add: loadCheckpointFromDisk_def Let_def split: load_result.split sum.split engine_error.split blob_error.split)

lemma rooted_gc: "rooted s (snd (gcUnreferencedCheckpointBlobs env s))"
  by (simp add: gcUnreferencedCheckpointBlobs_def split: option.split prod.split)

lemma rooted_merge: "rooted s (snd (mergeForeignIndexEntries env s))"
proof -
  have "rooted t (fst (fold merge_entry es (t, n)))" for es t n
  proof (induction es arbitrary: t n)
    case (Cons e es)
    have "rooted t (fst (merge_entry e (t, n)))" by (simp add: merge_entry_def rooted_def)
    from rooted_trans [OF this Cons.IH [of _ "snd (merge_entry e (t, n))"]] show ?case by simp
  qed simp
  then have "fold merge_entry es (s, 0) = (s', a) \<Longrightarrow> rooted s s'" for es s' a by (metis fst_conv)
  then show ?thesis
    by (auto simp: mergeForeignIndexEntries_def split: option.split prod.split) (simp add: rooted_def)
qed

lemma rooted_save_index: "rooted s (saveCheckpointHistory env s)"
proof -
  have "rooted t (saveCheckpointHistoryUnlocked env t)" for t
    by (simp add: saveCheckpointHistoryUnlocked_def rooted_def Let_def split: option.split)
  then show ?thesis unfolding saveCheckpointHistory_def using rooted_trans rooted_merge by blast
qed

lemma rooted_save_index_iff [simp]: "rooted s (saveCheckpointHistory env t) = rooted s t"
  using rooted_save_index [of t env] by (simp add: rooted_def)

lemma rooted_remove: "rooted s (snd (removeFromHistoryAndDisk env b i s))"
proof -
  have f: "rooted t (snd (foldCheckpointIntoSuccessor env i t))" for t
    by (auto simp: foldCheckpointIntoSuccessor_def Let_def split: option.split prod.split load_result.split dest!: rooted_save)
      (simp_all add: rooted_def put_cp_def)
  have r: "rooted t (snd (removeFromHistory env i t))" for t
    by (simp add: removeFromHistory_def Let_def) (simp add: rooted_def markCheckpointRemoved_def)
  have d: "rooted t (deleteCheckpointFromDisk env i t)" for t
    using rooted_gc [of "t\<lparr>egManifests := jm_del i (egManifests t)\<rparr>" env] by (simp add: deleteCheckpointFromDisk_def rooted_def)
  show ?thesis
  proof (cases "foldCheckpointIntoSuccessor env i s")
    case (Pair outcome s1)
    obtain x s2 where rm: "removeFromHistory env i (drop_mappings i s1) = (x, s2)" by (cases "removeFromHistory env i (drop_mappings i s1)")
    have a: "rooted s s1" using f [of s] Pair by simp
    moreover have "rooted s s2" using r [of "drop_mappings i s1"] rm a by (simp add: rooted_def drop_mappings_def)
    moreover from this have "rooted s (deleteCheckpointFromDisk env i s2)" using d rooted_trans by blast
    ultimately show ?thesis by (simp add: removeFromHistoryAndDisk_def Pair rm split: option.split)
  qed
qed

lemma rooted_max_loop: "rooted s (max_loop env cs n s)"
proof (induction cs arbitrary: n s)
  case (Cons c cs)
  then show ?case using rooted_trans [OF rooted_remove [of s env True "cpId c"]]
    by (cases "removeFromHistoryAndDisk env True (cpId c) s") simp
qed simp

lemma rooted_quota_loop: "rooted s (snd (snd (quota_loop env cs d u s)))"
proof (induction cs arbitrary: d u s)
  case (Cons c cs)
  then show ?case using rooted_trans [OF rooted_remove [of s env True "cpId c"]]
    by (cases "removeFromHistoryAndDisk env True (cpId c) s") (simp add: Let_def)
qed simp

lemma rooted_quota: "rooted s (enforceStorageQuota env s)"
proof -
  obtain freed bytes s1 where c: "gcUnreferencedCheckpointBlobs env s = ((freed, bytes), s1)" by (metis prod.exhaust)
  have r1: "rooted s s1" using rooted_gc [of s env] by (simp add: c)
  have "rooted s (snd (snd (quota_loop env cs d u s1)))" for cs d u by (rule rooted_trans [OF r1 rooted_quota_loop])
  then have "quota_loop env cs d u s1 = (a, b, s2) \<Longrightarrow> rooted s s2" for cs d u a b s2 by (metis snd_conv)
  then show ?thesis using r1 by (auto simp: enforceStorageQuota_def c Let_def split: prod.split)
qed

lemma rooted_retention: "rooted s (enforceRetentionPolicies env s)"
proof -
  have "rooted t (enforceMaxCheckpoints env t)" for t by (simp add: enforceMaxCheckpoints_def Let_def rooted_max_loop)
  then show ?thesis unfolding enforceRetentionPolicies_def using rooted_trans rooted_quota rooted_merge by metis
qed

lemma rooted_retention_iff [simp]: "rooted s (enforceRetentionPolicies env t) = rooted s t"
  using rooted_retention [of t env] by (simp add: rooted_def)

lemma rooted_bind: "bindCheckpointToActiveLine env u c s = (c', s') \<Longrightarrow> rooted s s'"
  using ensure_default_frame [of env u "cpId c" s]
  by (auto simp: bindCheckpointToActiveLine_def Let_def rooted_def split: option.splits prod.splits)

lemma rooted_record: "rooted s (snd (record_checkpoint env uuid c s))"
proof -
  obtain c1 s1 where b: "bindCheckpointToActiveLine env uuid c s = (c1, s1)" by (cases "bindCheckpointToActiveLine env uuid c s")
  obtain e c' s5 where sv: "saveCheckpointToDisk env c1 (listed c1 s1) = (e, c', s5)" by (metis prod.exhaust)
  have "rooted s (listed c1 s1)" using rooted_bind [OF b] by (simp add: listed_def rooted_def Let_def split: option.split)
  then have "rooted s s5" using rooted_save [OF sv] rooted_trans by blast
  then show ?thesis by (cases e) (simp_all add: record_checkpoint_listed b sv Let_def)
qed

lemma rooted_chain: "rooted s (snd (load_chain env cs s))"
proof (induction cs arbitrary: s)
  case (Cons c cs)
  obtain r s1 where l: "loadCheckpointFromDisk env (cpId c) s = (r, s1)" by (cases "loadCheckpointFromDisk env (cpId c) s")
  have r1: "rooted s s1" using rooted_load [of s env "cpId c"] by (simp add: l)
  have "rooted s (snd (load_chain env cs s1))" by (rule rooted_trans [OF r1 Cons.IH])
  then show ?case using r1 by (cases r) (auto simp: l split: prod.split sum.split option.split)
qed simp

lemma rooted_reconstruct: "rooted s (snd (reconstructStateAtCheckpoint env i s))"
  using rooted_chain [of s env] by (auto simp: reconstructStateAtCheckpoint_def split: option.split prod.split sum.split) (metis snd_conv)+

section \<open>Captures leave the disk alone\<close>

definition idle :: "work \<Rightarrow> work \<Rightarrow> bool" where
  "idle w w' \<longleftrightarrow> wkFiles w' = wkFiles w \<and> wkJournal w' = wkJournal w \<and> rooted (wkEngine w) (wkEngine w')"

lemma idle_refl [simp]: "idle w w"
  by (simp add: idle_def)

lemma idle_trans: "idle w v \<Longrightarrow> idle v u \<Longrightarrow> idle w u"
  by (auto simp: idle_def intro: rooted_trans)

lemma idle_engine [simp]: "idle w (v\<lparr>wkEngine := s\<rparr>) \<longleftrightarrow> wkFiles v = wkFiles w \<and> wkJournal v = wkJournal w \<and> rooted (wkEngine w) s"
  by (auto simp: idle_def)

lemma idle_fields [simp]:
  "idle w (markFullScanComplete v) = idle w v" "idle w (v\<lparr>wkDraws := n\<rparr>) = idle w v"
  "idle w (finish_capture ss v) = idle w v" "idle w (on_engine (append_audit a r ok) v) = idle w v"
  by (auto simp: idle_def markFullScanComplete_def finish_capture_def on_engine_def)

lemma idle_snapshot: "idle w (snd (trySnapshotFile env full rel b w))"
proof -
  obtain r s1 where o: "writeBlobOptions env (wkEngine w) = (r, s1)" by (cases "writeBlobOptions env (wkEngine w)")
  have "rooted (wkEngine w) s1" using rooted_frame [OF conjunct1 [OF writeBlobOptions_frame [of "wkEngine w" env]]] by (simp add: o)
  then show ?thesis
    by (auto simp: trySnapshotFile_def Let_def o split: option.split prod.split sum.split)
qed

lemma idle_snapshot_all:
  assumes "\<And>i v. idle v (snd (worker i v))"
  shows "snapshot_all worker is w = (ss, sk, w') \<Longrightarrow> idle w w'"
proof (induction "is" arbitrary: w ss sk w')
  case (Cons i "is")
  obtain r w1 where a: "worker i w = (r, w1)" by (cases "worker i w")
  obtain ss1 sk1 w2 where b: "snapshot_all worker is w1 = (ss1, sk1, w2)" by (metis prod.exhaust)
  have "idle w w1" using assms [of w i] a by simp
  with Cons.IH [OF b] show ?case using Cons.prems idle_trans by (cases r) (auto simp: a b)
qed simp

lemma idle_workers:
  "idle v (snd (filtered_worker env workspace f i v))" "idle v (snd (baseline_worker env workspace g x v))"
  "idle v (snd (delta_worker env workspace g p v))"
  by (auto simp: filtered_worker_def baseline_worker_def delta_worker_def Let_def idle_snapshot split: prod.split sum.split)

lemma idle_runs:
  "snapshot_all (filtered_worker env ws f) is w = (ss, sk, w') \<Longrightarrow> idle w w'"
  "snapshot_all (baseline_worker env ws g) xs w = (ss, sk, w') \<Longrightarrow> idle w w'"
  "snapshot_all (delta_worker env ws g) ps w = (ss, sk, w') \<Longrightarrow> idle w w'"
  by (erule idle_snapshot_all [rotated], rule idle_workers)+

lemma idle_filtered: "idle w (snd (captureFilteredFiles env f w))"
  by (simp add: captureFilteredFiles_def Let_def idle_runs(1) split: option.split prod.split)

lemma idle_baseline: "idle w (snd (captureBaselineFiles env f w))"
  by (simp add: captureBaselineFiles_def Let_def idle_runs(2) idle_filtered split: option.split prod.split)

lemma idle_plan: "delta_plan env w = (fs, present, sk, w1) \<Longrightarrow> idle w w1"
  by (auto simp: delta_plan_def Let_def split: if_splits)

lemma idle_changed: "idle w (snd (captureChangedFiles env f w))"
  by (simp add: captureChangedFiles_def Let_def idle_filtered split: option.split prod.split)
    (blast intro: idle_trans [OF idle_plan idle_runs(3)])

lemma idle_capture: "idle w (snd (captureWorkspaceState env m f w))"
  by (simp add: captureWorkspaceState_def idle_filtered idle_baseline idle_changed)

lemma idle_create_record: "idle w (snd (createCheckpointRecord env opts w))"
proof -
  have c: "captureWorkspaceState env m f w = (cr, w1) \<Longrightarrow> idle w w1" for m f cr w1
    using idle_capture [of w env m f] by simp
  have r: "record_checkpoint env u x s = (res, s') \<Longrightarrow> rooted s s'" for u x s res s'
    using rooted_record [of s env u x] by simp
  show ?thesis
    by (auto simp: createCheckpointRecord_def draw_uuid_def Let_def split: option.split prod.split sum.split dest!: c r)
      (auto simp: idle_def rooted_def)
qed

lemma idle_manual: "idle w (snd (createManualCheckpoint env opts w))"
  by (simp add: createManualCheckpoint_def idle_create_record)

section \<open>Nothing outside the workspace changes\<close>

definition root_of :: "'a work_env_scheme \<Rightarrow> work \<Rightarrow> string option" where
  "root_of env w = map_option (\<lambda>p. posix_resolve (neCwd env) [p]) (truthy (wk_path w))"

text \<open>Not below the root, and not the temporary file of the root itself.\<close>

definition outside :: "'a work_env_scheme \<Rightarrow> work \<Rightarrow> string \<Rightarrow> bool" where
  "outside env w p \<longleftrightarrow>
     (\<forall>r. root_of env w = Some r \<longrightarrow> \<not> startsWithPathPrefix p r \<and> p \<noteq> r @ RESTORE_TMP_SUFFIX)"

definition confined :: "'a work_env_scheme \<Rightarrow> work \<Rightarrow> work \<Rightarrow> bool" where
  "confined env w w' \<longleftrightarrow> wk_path w' = wk_path w \<and> (\<forall>p. outside env w p \<longrightarrow> jm_get (wkFiles w') p = jm_get (wkFiles w) p)"

lemma confined_refl [simp]: "confined env w w"
  by (simp add: confined_def)

lemma confined_trans: "confined env w v \<Longrightarrow> confined env v u \<Longrightarrow> confined env w u"
  by (simp add: confined_def outside_def root_of_def)

lemma confined_idle: "idle w w' \<Longrightarrow> confined env w w'"
  by (simp add: idle_def confined_def rooted_def)

lemma confined_simps [simp]:
  "confined env w (v\<lparr>wkJournal := j\<rparr>) = confined env w v" "confined env w (record_restoration i ok n m e v) = confined env w v"
  "confined env w (clearRestoreJournal v) = confined env w v"
  "confined env w (on_engine (recordHealthIssue k t io) v) = confined env w v"
  by (simp_all add: confined_def record_restoration_def clearRestoreJournal_def on_engine_def recordHealthIssue_def Let_def)

lemma confined_engine: "rooted (wkEngine w) s \<Longrightarrow> confined env w (w\<lparr>wkEngine := s\<rparr>)"
  by (simp add: confined_def rooted_def)

lemma starts_with_longer: "starts_with s t \<Longrightarrow> starts_with (s @ x) t"
  by (metis append.assoc append_eq_conv_conj starts_with_def append_take_drop_id)

lemma prefix_extends: "startsWithPathPrefix full r \<Longrightarrow> full \<noteq> r \<Longrightarrow> startsWithPathPrefix (full @ x) r"
  by (auto simp: startsWithPathPrefix_def Let_def intro: starts_with_longer)

lemma resolved_inside:
  assumes "resolve_in env w rel = Inr full"
  shows "\<not> outside env w full" "\<not> outside env w (restoreTempPath full)"
proof -
  obtain p where p: "truthy (wk_path w) = Some p" "tryResolveSandboxedWorkspacePath (neCwd env) p rel = Inr full"
    using assms by (auto simp: resolve_in_def resolveWorkspaceRelativePath_def split: option.splits)
  then have s: "startsWithPathPrefix full (posix_resolve (neCwd env) [p])"
    by (auto simp: tryResolveSandboxedWorkspacePath_def Let_def split: if_splits)
  show "\<not> outside env w full" using s p(1) by (auto simp: outside_def root_of_def)
  show "\<not> outside env w (restoreTempPath full)"
    using s p(1) prefix_extends [OF s] by (auto simp: outside_def root_of_def restoreTempPath_def)
qed

lemma confined_files:
  assumes "\<And>p. outside env w p \<Longrightarrow> jm_get d p = jm_get (wkFiles w) p"
  shows "confined env w (w\<lparr>wkFiles := d\<rparr>)"
  using assms by (simp add: confined_def)

lemma confined_temp: "resolve_in env w rel = Inr full \<Longrightarrow> confined env w (removeRestoreTempFile full w)"
  unfolding removeRestoreTempFile_def using resolved_inside [of env w rel full] by (intro confined_files) auto

lemma confined_write: "confined env w (snd (writeSnapshotContent env x w))"
proof (cases "resolve_in env w (fsRelativePath x)")
  case (Inr full)
  note t = confined_temp [OF Inr] and r = resolved_inside [OF Inr]
  have "confined env w ((removeRestoreTempFile full w)\<lparr>wkFiles := jm_set full f (jm_del (restoreTempPath full) (wkFiles w))\<rparr>)" for f
    using r by (simp add: removeRestoreTempFile_def) (rule confined_files, auto)
  then show ?thesis using t by (simp add: writeSnapshotContent_def Inr split: sum.split option.split)
qed (simp add: writeSnapshotContent_def)

lemma confined_unlink: "resolve_in env w rel = Inr full \<Longrightarrow> confined env w (snd (unlink_file env full w))"
  using resolved_inside [of env w rel full] by (auto simp: unlink_file_def intro!: confined_files split: option.split)

lemma confined_remove_files: "remove_files env ps w = (removed, failed, w') \<Longrightarrow> confined env w w'"
proof (induction ps arbitrary: w removed failed w')
  case (Cons p ps)
  show ?case
  proof (cases "resolve_in env w p")
    case (Inl m)
    then show ?thesis using Cons.IH Cons.prems by (auto split: prod.splits)
  next
    case (Inr full)
    obtain e w1 where u: "unlink_file env full w = (e, w1)" by (cases "unlink_file env full w")
    obtain rm fl w2 where r: "remove_files env ps w1 = (rm, fl, w2)" by (metis prod.exhaust)
    have "confined env w w1" using confined_unlink [OF Inr] by (simp add: u)
    from confined_trans [OF this Cons.IH [OF r]] show ?thesis using Cons.prems by (cases e) (auto simp: Inr u r)
  qed
qed simp

lemma confined_cleanup: "restore_cleanup env opts d entries l w = (removed, failed, w') \<Longrightarrow> confined env w w'"
  using confined_remove_files
  by (auto simp: restore_cleanup_def cleanupFilesNotInInventory_def cleanupExtraFiles_def Let_def split: if_splits option.splits)

lemma confined_journal: "confined env w (snd (writeRestoreJournal env j w))"
  by (simp add: writeRestoreJournal_def split: option.split)

lemma confined_write_entry: "confined env w (snd (write_entry env p x (l, w)))"
proof -
  obtain e w1 where a: "writeSnapshotContent env x w = (e, w1)" by (cases "writeSnapshotContent env x w")
  have c: "confined env w w1" using confined_write [of env w x] by (simp add: a)
  have "confined env w (snd (writeRestoreJournal env j w1))" for j by (rule confined_trans [OF c confined_journal])
  then have "writeRestoreJournal env j w1 = (m, w2) \<Longrightarrow> confined env w w2" for j m w2 by (metis snd_conv)
  then show ?thesis using c by (auto simp: write_entry_def a Let_def split: option.split prod.split)
qed

lemma confined_entry: "confined env w (snd (restore_entry env p r (l, w)))"
  by (simp add: restore_entry_def Let_def confined_write_entry split: sum.split prod.split)

lemma confined_entries: "confined env w (snd (restore_entries env b es (l, w)))"
proof (induction es arbitrary: l w)
  case (Cons e es)
  obtain p r where e: "e = (p, r)" by (cases e)
  obtain l1 w1 where s: "restore_entry env p r (l, w) = (l1, w1)" by (cases "restore_entry env p r (l, w)")
  have "confined env w w1" using confined_entry [of env w p r l] by (simp add: s)
  from confined_trans [OF this Cons.IH [of w1 l1]] show ?case by (simp add: e s)
qed simp

lemma confined_phase: "confined env w (snd (restore_phase env b i opts w))"
proof -
  obtain r1 s1 where l: "loadCheckpointFromDisk env i (wkEngine w) = (r1, s1)" by (cases "loadCheckpointFromDisk env i (wkEngine w)")
  obtain r2 s2 where t: "reconstructStateAtCheckpoint env i s1 = (r2, s2)" by (cases "reconstructStateAtCheckpoint env i s1")
  have r: "rooted (wkEngine w) s1" "rooted (wkEngine w) s2"
    using rooted_load [of "wkEngine w" env i] rooted_trans [OF _ rooted_reconstruct [of s1 env i]] by (simp_all add: l t)
  have p: "confined env v (snd (restore_progress env b i opts d tree v))" for d tree v
  proof -
    obtain backup w1 where k: "(if roCreateBackup opts = Some False then (None, v) else createManualCheckpoint env (backup_options i) v)
        = (backup, w1)" by (metis prod.exhaust)
    have c1: "confined env v w1" using k confined_idle [OF idle_manual [of v env "backup_options i"]] by (auto split: if_splits)
    define j where "j = (if roSkipJournal opts then None
      else Some \<lparr>rjCheckpointId = i, rjBackupId = backup, rjPlannedWrites = map fst (restore_targets opts tree),
                 rjPlannedDeletes = or_default (cpFileInventory d) [], rjCompleted = [], rjStatus = JournalWriting\<rparr>)"
    obtain e w2 where wj: "(case j of None \<Rightarrow> (None, w1) | Some j \<Rightarrow> writeRestoreJournal env j w1) = (e, w2)" by (metis prod.exhaust)
    have c2: "confined env v w2"
      using wj confined_trans [OF c1 confined_journal] c1 by (cases j) (auto, metis snd_conv)
    obtain l w3 where n: "restore_entries env b (restore_targets opts tree)
       (\<lparr>rlRestored = [], rlFailed = [], rlConflicts = [], rlCancelled = False, rlMode = roConflict opts,
                            rlProcessed = 0, rlJournal = j\<rparr>, w2) = (l, w3)" by (metis prod.exhaust)
    have c3: "confined env v w3"
      using confined_trans [OF c2 confined_entries] n by (metis snd_conv)
    obtain rm fl w4 where x: "restore_cleanup env opts d (restore_targets opts tree) l w3 = (rm, fl, w4)" by (metis prod.exhaust)
    have c4: "confined env v w4" using confined_trans [OF c3 confined_cleanup [OF x]] .
    show ?thesis unfolding restore_progress_def k case_prod_conv Let_def j_def [symmetric]
      using c2 c4 by (cases e) (simp_all add: wj n x)
  qed
  have "confined env w (snd (restore_progress env b i opts d tree (w\<lparr>wkEngine := s2\<rparr>)))" for d tree
    by (rule confined_trans [OF confined_engine [OF r(2)] p])
  then show ?thesis using r by (simp add: restore_phase_def l t confined_engine split: sum.split option.split)
qed

section \<open>A sample workspace\<close>

definition sample_work_env :: work_env where
  "sample_work_env = engine_env.extend sample_engine_env
     \<lparr>weMaxFileSize = 100, weMaxScanDepth = 0, weClass = \<lparr>coBinary = False, coExtra = []\<rparr>, weIgnores = Some (\<lambda>_. False),
      weDirtyDocs = [], weStatError = (\<lambda>_. None), weReadError = (\<lambda>_. None), weFileWriteError = (\<lambda>_. None),
      weUnlinkError = (\<lambda>_. None), weAnswer = (\<lambda>_. AnswerNone), weCancel = (\<lambda>_ _ _. False),
      weLocaleDate = (\<lambda>_. ''today''), weUuid = show_nat, weColl = (\<lambda>p. p)\<rparr>"

definition file_of :: "bytes \<Rightarrow> disk_file" where
  "file_of t = \<lparr>dfBytes = t, dfMtime = 5\<rparr>"

text \<open>A store with one baseline of two files; since then one was changed, one removed and one added.\<close>

definition sample_baseline :: checkpoint_info where
  "sample_baseline = (line_checkpoint ''cp_1'' 1 None)
     \<lparr>cpFileSnapshots := Some [stored ''a.ts'' ''x'', stored ''b.ts'' ''y''], cpFileInventory := Some [''a.ts'', ''b.ts''],
      cpCaptureMode := Some Baseline\<rparr>"

definition sample_work :: work where
  "sample_work =
     \<lparr>wkEngine = empty_engine\<lparr>egHistory := [toIndexRecord sample_work_env sample_baseline],
        egManifests := [line_manifest sample_baseline (snapshots_of sample_baseline)],
        egObjects := write_blob_file (sample_hash ''x'') RawBlob ''x'' (write_blob_file (sample_hash ''y'') RawBlob ''y'' empty_store)\<rparr>,
      wkFiles = [(''/w/a.ts'', file_of ''q''), (''/w/c.ts'', file_of ''z''), (''/etc/a.ts'', file_of ''z'')],
      wkJournal = None, wkMerge = None, wkRestorations = [], wkWatchers = 0, wkTrusted = False, wkLastFullScan = 0, wkSessionStart = 0,
      wkTrackedAI = [], wkBoundSession = None, wkDraws = 2\<rparr>"

definition overwrite_options :: restore_options where
  "overwrite_options =
     \<lparr>roCreateBackup = Some False, roConflict = Some ConflictOverwrite, roIncludeFiles = None, roExcludeFiles = None,
      roCleanup = None, roSkipJournal = False\<rparr>"

section \<open>Restores are confined to the workspace\<close>

lemma confined_caught: "confined env w v \<Longrightarrow> confined env w (snd (restore_caught i e v))"
  by (simp add: restore_caught_def Let_def split: restore_error.split)

lemma confined_finish: "confined env w v \<Longrightarrow> confined env w (snd (restore_finish i opts oc v))"
  by (simp add: restore_finish_def Let_def)

lemma confined_backup: "confined env w (snd (restore_backup env i w))"
proof -
  obtain r w1 where p: "restore_phase env True i rollback_options w = (r, w1)" by (cases "restore_phase env True i rollback_options w")
  have "confined env w w1" using confined_phase [of env w True i rollback_options] by (simp add: p)
  then show ?thesis
    by (simp add: restore_backup_def p confined_caught confined_finish split: option.split sum.split)
qed

lemma confined_rollback: "confined env w (snd (restore_rollback env i b oc w))"
proof -
  obtain e w1 where j: "(case rlJournal (rocLoop oc) of
      None \<Rightarrow> (None, w) | Some j \<Rightarrow> writeRestoreJournal env (j\<lparr>rjStatus := JournalRollingBack\<rparr>) w) = (e, w1)" by (metis prod.exhaust)
  have c1: "confined env w w1" using j confined_journal [of env w] by (cases "rlJournal (rocLoop oc)") (auto, metis snd_conv)
  obtain r w2 where k: "restore_backup env b w1 = (r, w2)" by (cases "restore_backup env b w1")
  have "confined env w w2" using confined_trans [OF c1 confined_backup [of env w1 b]] by (simp add: k)
  then show ?thesis using c1
    by (simp add: restore_rollback_def j Let_def k confined_caught split: option.split sum.split)
qed

lemma confined_restore: "confined env w (snd (restoreCheckpoint env i opts w))"
proof -
  obtain r w1 where p: "restore_phase env False i opts w = (r, w1)" by (cases "restore_phase env False i opts w")
  have c: "confined env w w1" using confined_phase [of env w False i opts] by (simp add: p)
  have "confined env w (snd (restore_rollback env i b oc w1))" for b oc by (rule confined_trans [OF c confined_rollback])
  then show ?thesis using c
    by (simp add: restoreCheckpoint_def p confined_caught confined_finish split: option.split sum.split)
qed

lemma confined_recovery: "confined env w (snd (recoverIncompleteRestore env w))"
proof (cases "wkJournal w")
  case (Some j)
  have fold: "confined env v (fold (\<lambda>p w. case resolve_in env w p of Inl _ \<Rightarrow> w | Inr full \<Rightarrow> removeRestoreTempFile full w) ps v)" for ps v
  proof (induction ps arbitrary: v)
    case (Cons p ps)
    show ?case using Cons.IH confined_trans [OF confined_temp Cons.IH] by (simp split: sum.split)
  qed simp
  define w1 where "w1 = on_engine (recordHealthIssue HealthRestoreIncomplete (''Incomplete restore of '' @ rjCheckpointId j)
     (Some (rjCheckpointId j))) w"
  have c1: "confined env w w1" by (simp add: w1_def)
  obtain e w2 where wj: "writeRestoreJournal env (j\<lparr>rjStatus := JournalRollingBack\<rparr>) w1 = (e, w2)" by (metis prod.exhaust)
  have c2: "confined env w w2" using confined_trans [OF c1 confined_journal] wj by (metis snd_conv)
  have c3: "restore_backup env b w2 = (r, w3) \<Longrightarrow> confined env w w3" for b r w3
    using confined_trans [OF c2 confined_backup] by (metis snd_conv)
  show ?thesis
    unfolding recoverIncompleteRestore_def Some option.case Let_def w1_def [symmetric] wj prod.case
    using c2 c3 confined_trans [OF c2 fold] confined_trans [OF c3 fold]
    by (simp split: option.split prod.split sum.split)
qed (simp add: recoverIncompleteRestore_def)

lemma confined_files_restore: "confined env w (snd (restoreCheckpointFiles env i ps w))"
proof -
  have one: "confined env v (snd (snd (restore_one env tree p (a, b, v))))" for tree p a b v
  proof -
    have "confined env v (snd (writeSnapshotContent env x v))" for x by (rule confined_write)
    then have "writeSnapshotContent env x v = (m, v1) \<Longrightarrow> confined env v v1" for x m v1 by (metis snd_conv)
    then show ?thesis using confined_unlink [of env v p]
      by (auto simp: restore_one_def split: sum.split option.split prod.split)
  qed
  have many: "confined env v (snd (snd (fold (restore_one env tree) qs (a, b, v))))" for tree qs a b v
  proof (induction qs arbitrary: a b v)
    case (Cons q qs)
    show ?case using confined_trans [OF one Cons.IH] by (metis fold_simps(2) prod.collapse)
  qed simp
  obtain r s1 where t: "reconstructStateAtCheckpoint env i (wkEngine w) = (r, s1)" by (cases "reconstructStateAtCheckpoint env i (wkEngine w)")
  have c1: "confined env w (w\<lparr>wkEngine := s1\<rparr>)" using rooted_reconstruct [of "wkEngine w" env i] by (simp add: t confined_engine)
  have "fold (restore_one env tree) (set_of ps) ([], [], w\<lparr>wkEngine := s1\<rparr>) = (a, b, w1) \<Longrightarrow> confined env w w1" for tree a b w1
    using confined_trans [OF c1 many] by (metis snd_conv)
  then show ?thesis using c1
    by (auto simp: restoreCheckpointFiles_def t Let_def split: sum.split option.split prod.split)
qed

text \<open>
  C8 (safety): restoring a checkpoint, restoring selected files and recovering from a crash, in every
  outcome, leave every file outside the workspace as it is. The one exception is the temporary file of
  the root itself, which lies beside the workspace and is removed when a tree holds the path \<open>.\<close>.
\<close>

theorem restore_confined:
  assumes "outside env w p"
  shows "jm_get (wkFiles (snd (restoreCheckpoint env i opts w))) p = jm_get (wkFiles w) p
    \<and> jm_get (wkFiles (snd (restoreCheckpointFiles env i ps w))) p = jm_get (wkFiles w) p
    \<and> jm_get (wkFiles (snd (recoverIncompleteRestore env w))) p = jm_get (wkFiles w) p"
  using assms confined_restore [of env w i opts] confined_files_restore [of env w i ps] confined_recovery [of env w]
  by (simp add: confined_def)

theorem restore_confined_witness:
  "jm_get (wkFiles (snd (restoreCheckpoint sample_work_env ''cp_1'' overwrite_options sample_work))) ''/etc/a.ts'' = Some (file_of ''z'')
   \<and> jm_get (wkFiles (snd (restoreCheckpoint sample_work_env ''cp_1'' overwrite_options sample_work))) ''/w/c.ts'' = None"
proof -
  have f: "wk_path sample_work = Some ''/w''" "jm_get (wkFiles sample_work) ''/etc/a.ts'' = Some (file_of ''z'')" by code_simp+
  have r: "posix_resolve (neCwd sample_work_env) [''/w''] = ''/w''" by code_simp
  have o: "outside sample_work_env sample_work ''/etc/a.ts''"
    using r by (simp add: outside_def root_of_def f startsWithPathPrefix_def Let_def ends_with_def starts_with_def RESTORE_TMP_SUFFIX_def)
  have "jm_get (wkFiles (snd (restoreCheckpoint sample_work_env ''cp_1'' overwrite_options sample_work))) ''/w/c.ts'' = None"
    by code_simp
  with restore_confined [OF o, of "''cp_1''" overwrite_options] f(2) show ?thesis by simp
qed

section \<open>Paths of a tree\<close>

definition clean_path :: "string \<Rightarrow> bool" where
  "clean_path p \<longleftrightarrow> list_all clean_seg (split_on slash p)"

definition beneath :: "string \<Rightarrow> string \<Rightarrow> string" where
  "beneath r p = (if r = ''/'' then r else r @ ''/'') @ p"

lemma beneath_eq [simp]: "beneath r p = beneath r q \<longleftrightarrow> p = q"
  by (simp add: beneath_def)

lemma beneath_append: "beneath r p @ x = beneath r (p @ x)"
  by (simp add: beneath_def)

lemma clean_path_nonempty: "clean_path p \<Longrightarrow> p \<noteq> []"
  by (auto simp: clean_path_def clean_seg_def)

lemma clean_path_relative: "clean_path p \<Longrightarrow> \<not> posix_isAbsolute p"
proof
  assume c: "clean_path p" and "posix_isAbsolute p"
  then obtain t where "p = [slash] @ t" by (cases p) (auto simp: posix_isAbsolute_def starts_with_def)
  then show False using c by (auto simp: clean_path_def clean_seg_def)
qed

lemma clean_path_normal:
  assumes "clean_path p"
  shows "posix_normalize p = p"
proof -
  have c: "\<forall>s \<in> set (split_on slash p). clean_seg s" using assms by (simp add: clean_path_def list_all_iff)
  then have "\<not> ends_with p ''/''" using ends_with_slash_split [of p] by (auto simp: clean_seg_def)
  then show ?thesis
    using norm_segs_id [OF c] clean_path_nonempty [OF assms] clean_path_relative [OF assms] by (simp add: posix_normalize_def Let_def)
qed

lemma beneath_join:
  assumes r: "r = ''/'' @ join ''/'' segs" and c: "\<forall>s \<in> set segs. clean_seg s"
  shows "''/'' @ join ''/'' (segs @ split_on slash p) = beneath r p"
proof (cases segs)
  case Nil
  then show ?thesis using r by (simp add: beneath_def)
next
  case (Cons x xs)
  have "join ''/'' segs \<noteq> []" using Cons c join_nonempty [of x "''/''" xs] by (auto simp: clean_seg_def)
  then show ?thesis using r Cons join_append [of segs "split_on slash p" "''/''"] by (simp add: beneath_def)
qed

lemma resolve_clean:
  assumes "resolve_in env w p = Inr full" and "root_of env w = Some r" and "clean_path p"
  shows "full = beneath r p"
proof -
  obtain root where root: "truthy (wk_path w) = Some root" "r = posix_resolve (neCwd env) [root]"
    "tryResolveSandboxedWorkspacePath (neCwd env) root p = Inr full"
    using assms(1,2) by (auto simp: resolve_in_def resolveWorkspaceRelativePath_def root_of_def split: option.splits)
  have full: "full = posix_resolve (neCwd env) [r, p]"
    using sandbox_Inr [OF root(3)] clean_path_normal [OF assms(3)] root(2) by simp
  have c: "\<forall>s \<in> set (split_on slash p). clean_seg s" using assms(3) by (simp add: clean_path_def list_all_iff)
  then have nd: "dotdot \<notin> set (split_on slash p)" by (auto simp: clean_seg_def)
  have f: "filter (\<lambda>s. s \<noteq> [] \<and> s \<noteq> ''.'') (split_on slash p) = split_on slash p" using c by (auto simp: clean_seg_def filter_id_conv)
  have "path_segs full = path_segs r @ split_on slash p"
    unfolding full using resolve_under [OF clean_path_relative [OF assms(3)] clean_path_nonempty [OF assms(3)] nd root(2)] f by simp
  then have "full = ''/'' @ join ''/'' (path_segs r @ split_on slash p)" using posix_resolve_shape [of "neCwd env" "[r, p]"] full by simp
  also have "\<dots> = beneath r p"
    by (rule beneath_join) (use posix_resolve_shape posix_resolve_segs root(2) in blast)+
  finally show ?thesis .
qed

section \<open>The write loop\<close>

definition overwriting :: "conflict_mode option \<Rightarrow> bool" where
  "overwriting m \<longleftrightarrow> m \<noteq> Some ConflictSkip \<and> m \<noteq> Some ConflictPrompt"

lemma overwriting_step: "overwriting m \<Longrightarrow> conflict_step env x cur m = (wr, m', c) \<Longrightarrow> wr \<and> m' = m"
  by (auto simp: conflict_step_def overwriting_def split: option.splits if_splits)

lemma write_effect:
  assumes "writeSnapshotContent env x w = (None, w')"
  obtains full b where "resolve_in env w (fsRelativePath x) = Inr full" "snapshot_data env (wkEngine w) x = Inr b"
    "w' = w\<lparr>wkFiles := jm_set full \<lparr>dfBytes = b, dfMtime = egNow (wkEngine w)\<rparr> (jm_del (restoreTempPath full) (wkFiles w))\<rparr>"
  using assms that by (auto simp: writeSnapshotContent_def removeRestoreTempFile_def split: sum.splits option.splits if_splits)

lemma journal_effect: "writeRestoreJournal env j w = (m, w') \<Longrightarrow> wkEngine w' = wkEngine w \<and> wkFiles w' = wkFiles w"
  by (auto simp: writeRestoreJournal_def split: option.splits)

lemma entry_fails_more: "restore_entry env p r (l, w) = (l', w') \<Longrightarrow> rlFailed l' = [] \<Longrightarrow> rlFailed l = []"
  by (auto simp: restore_entry_def write_entry_def fail_file_def Let_def split: sum.splits prod.splits option.splits if_splits)

lemma entries_fail_more: "restore_entries env b es (l, w) = (l', w') \<Longrightarrow> rlFailed l' = [] \<Longrightarrow> rlFailed l = []"
proof (induction es arbitrary: l w)
  case (Cons e es)
  obtain p r where e: "e = (p, r)" by (cases e)
  obtain l1 w1 where s: "restore_entry env p r (l, w) = (l1, w1)" by (cases "restore_entry env p r (l, w)")
  show ?case
  proof (cases "weCancel env b p (rlProcessed l)")
    case True
    then show ?thesis using Cons.prems by (auto simp: e fail_file_def)
  next
    case False
    then have "rlFailed l1 = []" using Cons.IH [of l1 w1] Cons.prems by (simp add: e s)
    then show ?thesis using entry_fails_more [OF s] by simp
  qed
qed simp

text \<open>One entry that does not fail: its file is written, its temporary file removed, nothing else changes.\<close>

lemma entry_effect:
  assumes s: "restore_entry env p r (l, w) = (l', w')" and ok: "rlFailed l' = []" and m: "overwriting (rlMode l)"
    and root: "root_of env w = Some rt" and p: "clean_path p"
  shows "wkEngine w' = wkEngine w \<and> rlMode l' = rlMode l \<and> rlCancelled l' = rlCancelled l
    \<and> (\<exists>b. snapshot_data env (wkEngine w) (resolved_snapshot w p r) = Inr b
          \<and> wkFiles w' = jm_set (beneath rt p) \<lparr>dfBytes = b, dfMtime = egNow (wkEngine w)\<rparr>
                           (jm_del (beneath rt (p @ RESTORE_TMP_SUFFIX)) (wkFiles w)))"
proof -
  let ?x = "resolved_snapshot w p r"
  obtain full where f: "resolve_in env w p = Inr full"
    using s ok by (cases "resolve_in env w p") (auto simp: restore_entry_def fail_file_def)
  have full: "full = beneath rt p" by (rule resolve_clean [OF f root p])
  have rel: "fsRelativePath ?x = p" by (simp add: resolved_snapshot_def)
  have nb: "\<not> below_file (wkFiles w) full" using s ok f by (auto simp: restore_entry_def fail_file_def Let_def)
  obtain wr m' c where cs: "conflict_step env ?x (read_file env w full) (rlMode l) = (wr, m', c)" by (metis prod.exhaust)
  note o = overwriting_step [OF m cs]
  define l1 where "l1 = l\<lparr>rlMode := m', rlProcessed := Suc (rlProcessed l),
     rlConflicts := rlConflicts l @ (if c then [(p, ''content_changed'')] else [])\<rparr>"
  have we: "write_entry env p ?x (l1, w) = (l', w')"
    using s f nb cs o by (simp add: restore_entry_def Let_def l1_def)
  obtain e w1 where wr: "writeSnapshotContent env ?x w = (e, w1)" by (cases "writeSnapshotContent env ?x w")
  have e: "e = None" using we ok wr by (cases e) (auto simp: write_entry_def fail_file_def)
  obtain full' b where b: "resolve_in env w p = Inr full'" "snapshot_data env (wkEngine w) ?x = Inr b"
    "w1 = w\<lparr>wkFiles := jm_set full' \<lparr>dfBytes = b, dfMtime = egNow (wkEngine w)\<rparr> (jm_del (restoreTempPath full') (wkFiles w))\<rparr>"
    using write_effect [OF wr [unfolded e]] rel by metis
  have fx: "wkEngine w' = wkEngine w1 \<and> wkFiles w' = wkFiles w1 \<and> rlMode l' = rlMode l1 \<and> rlCancelled l' = rlCancelled l1"
    using we ok wr e
    by (auto simp: write_entry_def Let_def fail_file_def split: option.splits prod.splits dest: journal_effect)
  have "full' = full" using b(1) f by simp
  then show ?thesis using fx b(2,3) full o by (simp add: l1_def restoreTempPath_def beneath_append)
qed

text \<open>The paths that one entry touches.\<close>

definition touches :: "string \<Rightarrow> string \<Rightarrow> string set" where
  "touches rt p = {beneath rt p, beneath rt (p @ RESTORE_TMP_SUFFIX)}"

text \<open>The contents that the replayed state asks for, by the test that the code itself applies.\<close>

definition holds_state :: "'a work_env_scheme \<Rightarrow> resolved_state \<Rightarrow> bytes \<Rightarrow> bool" where
  "holds_state env r b \<longleftrightarrow>
     (case truthy (rsHash r) of
        Some h \<Rightarrow> hashBlobBytes env b = h
      | None \<Rightarrow> bytesFromSnapshotContent env (rsContent r) (js_or (rsEncoding r) ''utf8'') = b)"

lemma holds_state_same: "holds_state env r b \<longleftrightarrow> same_bytes env (resolved_snapshot w p r) b"
  by (simp add: holds_state_def same_bytes_def resolved_snapshot_def split: option.split)

lemma data_holds: "snapshot_data env s (resolved_snapshot w p r) = Inr b \<Longrightarrow> holds_state env r b"
  by (auto simp: snapshot_data_def holds_state_def resolved_snapshot_def getBlob_def split: option.splits sum.splits if_splits)

lemma root_of_engine: "wkEngine w' = wkEngine w \<Longrightarrow> root_of env w' = root_of env w"
  by (simp add: root_of_def)

lemma entries_effect:
  assumes "restore_entries env b es (l, w) = (l', w')" and "rlFailed l' = []" and "overwriting (rlMode l)"
    and "root_of env w = Some rt" and "\<forall>p \<in> fst ` set es. clean_path p" and "distinct (map fst es)"
    and "\<forall>p \<in> fst ` set es. p @ RESTORE_TMP_SUFFIX \<notin> fst ` set es"
  shows "wkEngine w' = wkEngine w \<and> rlMode l' = rlMode l \<and> rlCancelled l' = rlCancelled l
    \<and> (\<forall>(p, r) \<in> set es. \<exists>f. jm_get (wkFiles w') (beneath rt p) = Some f \<and> holds_state env r (dfBytes f))
    \<and> (\<forall>k. k \<notin> \<Union> (touches rt ` fst ` set es) \<longrightarrow> jm_get (wkFiles w') k = jm_get (wkFiles w) k)
    \<and> (\<forall>k. jm_get (wkFiles w') k \<noteq> None \<longrightarrow> jm_get (wkFiles w) k \<noteq> None \<or> k \<in> beneath rt ` fst ` set es)"
  using assms
proof (induction es arbitrary: l w)
  case (Cons e es)
  obtain p r where e: "e = (p, r)" by (cases e)
  obtain l1 w1 where s: "restore_entry env p r (l, w) = (l1, w1)" by (cases "restore_entry env p r (l, w)")
  have nc: "\<not> weCancel env b p (rlProcessed l)" using Cons.prems(1,2) by (auto simp: e fail_file_def)
  then have run: "restore_entries env b es (l1, w1) = (l', w')" using Cons.prems(1) by (simp add: e s)
  have f1: "rlFailed l1 = []" by (rule entries_fail_more [OF run Cons.prems(2)])
  have cp: "clean_path p" using Cons.prems(5) by (simp add: e)
  obtain x where eff: "wkEngine w1 = wkEngine w" "rlMode l1 = rlMode l" "rlCancelled l1 = rlCancelled l"
    "snapshot_data env (wkEngine w) (resolved_snapshot w p r) = Inr x"
    "wkFiles w1 = jm_set (beneath rt p) \<lparr>dfBytes = x, dfMtime = egNow (wkEngine w)\<rparr>
       (jm_del (beneath rt (p @ RESTORE_TMP_SUFFIX)) (wkFiles w))"
    using entry_effect [OF s f1 Cons.prems(3,4) cp] by blast
  have r1: "root_of env w1 = Some rt" using root_of_engine [OF eff(1), of env] Cons.prems(4) by simp
  have IH: "wkEngine w' = wkEngine w1 \<and> rlMode l' = rlMode l1 \<and> rlCancelled l' = rlCancelled l1
    \<and> (\<forall>(p, r) \<in> set es. \<exists>f. jm_get (wkFiles w') (beneath rt p) = Some f \<and> holds_state env r (dfBytes f))
    \<and> (\<forall>k. k \<notin> \<Union> (touches rt ` fst ` set es) \<longrightarrow> jm_get (wkFiles w') k = jm_get (wkFiles w1) k)
    \<and> (\<forall>k. jm_get (wkFiles w') k \<noteq> None \<longrightarrow> jm_get (wkFiles w1) k \<noteq> None \<or> k \<in> beneath rt ` fst ` set es)"
    by (rule Cons.IH [OF run Cons.prems(2)]) (use Cons.prems(3,5-7) eff(2) r1 in \<open>auto simp: e\<close>)
  have "beneath rt p \<notin> \<Union> (touches rt ` fst ` set es)"
    using Cons.prems(6,7) by (auto simp: e touches_def) 
  then have "jm_get (wkFiles w') (beneath rt p) = Some \<lparr>dfBytes = x, dfMtime = egNow (wkEngine w)\<rparr>"
    using IH eff(5) by simp
  then have "\<exists>f. jm_get (wkFiles w') (beneath rt p) = Some f \<and> holds_state env r (dfBytes f)"
    using data_holds [OF eff(4)] by simp
  moreover have "jm_get (wkFiles w') k = jm_get (wkFiles w) k" if "k \<notin> \<Union> (touches rt ` fst ` set (e # es))" for k
    using IH that eff(5) by (auto simp: e touches_def)
  moreover have "jm_get (wkFiles w) k \<noteq> None \<or> k \<in> beneath rt ` fst ` set (e # es)" if "jm_get (wkFiles w') k \<noteq> None" for k
  proof -
    have "jm_get (wkFiles w1) k \<noteq> None \<or> k \<in> beneath rt ` fst ` set es" using IH that by blast
    moreover have "jm_get (wkFiles w1) k \<noteq> None \<Longrightarrow> jm_get (wkFiles w) k \<noteq> None \<or> k = beneath rt p"
      by (simp add: eff(5) split: if_splits)
    ultimately show ?thesis by (auto simp: e)
  qed
  ultimately show ?case using IH eff(1-3) by (simp add: e)
qed simp

section \<open>The clean-up\<close>

lemma remove_files_effect:
  assumes "remove_files env ps w = (removed, [], w')"
  shows "wkEngine w' = wkEngine w \<and> removed = ps
    \<and> (\<forall>p \<in> set ps. \<exists>full. resolve_in env w p = Inr full \<and> jm_get (wkFiles w') full = None)
    \<and> (\<forall>k. (\<forall>p \<in> set ps. resolve_in env w p \<noteq> Inr k) \<longrightarrow> jm_get (wkFiles w') k = jm_get (wkFiles w) k)
    \<and> (\<forall>k. jm_get (wkFiles w) k = None \<longrightarrow> jm_get (wkFiles w') k = None)"
  using assms
proof (induction ps arbitrary: w removed)
  case (Cons p ps)
  obtain full where full: "resolve_in env w p = Inr full"
    using Cons.prems by (cases "resolve_in env w p") (auto split: prod.splits)
  obtain e w1 where u: "unlink_file env full w = (e, w1)" by (cases "unlink_file env full w")
  obtain rm fl w2 where r: "remove_files env ps w1 = (rm, fl, w2)" by (metis prod.exhaust)
  have e: "e = None" "fl = []" "w2 = w'" "removed = p # rm" using Cons.prems by (cases e; simp add: full u r)+
  have w1: "w1 = w\<lparr>wkFiles := jm_del full (wkFiles w)\<rparr>"
    using u e(1) by (auto simp: unlink_file_def split: option.splits if_splits)
  have same: "resolve_in env w1 = resolve_in env w" by (simp add: w1 resolve_in_def fun_eq_iff)
  have IH: "wkEngine w' = wkEngine w1 \<and> rm = ps
    \<and> (\<forall>p \<in> set ps. \<exists>full. resolve_in env w1 p = Inr full \<and> jm_get (wkFiles w') full = None)
    \<and> (\<forall>k. (\<forall>p \<in> set ps. resolve_in env w1 p \<noteq> Inr k) \<longrightarrow> jm_get (wkFiles w') k = jm_get (wkFiles w1) k)
    \<and> (\<forall>k. jm_get (wkFiles w1) k = None \<longrightarrow> jm_get (wkFiles w') k = None)"
    using Cons.IH [of w1 rm] r e by simp
  have gone: "jm_get (wkFiles w') full = None" using IH by (simp add: w1)
  then show ?case using IH full e(4) by (auto simp: w1 same [unfolded w1])
qed simp

section \<open>What a scan finds\<close>

definition scanned :: "'a work_env_scheme \<Rightarrow> work \<Rightarrow> string \<Rightarrow> string \<Rightarrow> scanned_file option" where
  "scanned env w workspace full =
     (if \<not> walk_reaches env workspace full \<or> isScanPathIgnored env workspace full False
         \<or> \<not> shouldTrackFile full (weClass env) then None
      else Option.bind (stat_file env w full) (\<lambda>f.
             if length (dfBytes f) > weMaxFileSize env then None
             else Some \<lparr>sfRelative = posix_relative (neCwd env) workspace full, sfFull = full, sfMtime = dfMtime f,
                        sfSize = length (dfBytes f)\<rparr>))"

lemma scan_fold: "srFiles (fold (scan_file env w ws) ks acc) = srFiles acc @ List.map_filter (scanned env w ws) ks"
proof (induction ks arbitrary: acc)
  case (Cons k ks)
  have "srFiles (scan_file env w ws k acc) = srFiles acc @ (case scanned env w ws k of None \<Rightarrow> [] | Some x \<Rightarrow> [x])"
    by (simp add: scan_file_def scanned_def Let_def split: option.split)
  then show ?case using Cons.IH by (simp add: List.map_filter_simps split: option.split)
qed (simp add: List.map_filter_simps)

lemma scan_files:
  "x \<in> set (srFiles (scanWorkspaceFiles env w)) \<longleftrightarrow>
   (\<exists>ws full. truthy (wk_path w) = Some ws \<and> jm_get (wkFiles w) full \<noteq> None \<and> scanned env w ws full = Some x)"
  by (auto simp: scanWorkspaceFiles_def scan_fold in_map_filter in_jm_keys split: option.split)

lemma strip_prefix: "strip_common xs ys = ([], zs) \<Longrightarrow> ys = xs @ zs"
  by (induction xs ys rule: strip_common.induct) (auto split: if_splits)

lemma scanned_path:
  assumes "scanned env w ws full = Some x" and r: "r = posix_resolve (neCwd env) [ws]"
  shows "sfFull x = full \<and> (sfRelative x = [] \<or> clean_path (sfRelative x))
    \<and> (posix_resolve (neCwd env) [full] = full \<longrightarrow> full \<noteq> r \<longrightarrow> full = beneath r (sfRelative x))"
proof -
  let ?to = "path_segs (posix_resolve (neCwd env) [full])"
  have x: "sfFull x = full" "sfRelative x = posix_relative (neCwd env) ws full" "\<not> isScanPathIgnored env ws full False"
    using assms(1) by (auto simp: scanned_def split: if_splits bind_splits)
  obtain up down where sc: "strip_common (path_segs r) ?to = (up, down)" by (cases "strip_common (path_segs r) ?to")
  have rel: "sfRelative x = join ''/'' (replicate (length up) dotdot @ down)"
    using x(2) sc r by (simp add: posix_relative_def Let_def)
  have "up = []"
  proof (rule ccontr)
    assume "up \<noteq> []"
    then obtain n where "replicate (length up) dotdot @ down = dotdot # (replicate n dotdot @ down)"
      by (cases up) auto
    then have "starts_with (sfRelative x) dotdot"
      using rel by (cases "replicate n dotdot @ down = []") (simp_all add: join_Cons starts_with_def)
    then show False using x by (simp add: isScanPathIgnored_def Let_def)
  qed
  then have to: "?to = path_segs r @ down" using strip_prefix sc by blast
  have c: "\<forall>s \<in> set down. clean_seg s" using posix_resolve_segs [of "neCwd env" "[full]"] to by auto
  have rel: "sfRelative x = join ''/'' down" using rel \<open>up = []\<close> by simp
  have sp: "split_on slash (join ''/'' down) = down" if "down \<noteq> []" using join_clean_split that c by blast
  have "sfRelative x = [] \<or> clean_path (sfRelative x)"
    using rel sp c by (cases "down = []") (simp_all add: clean_path_def list_all_iff)
  moreover have "full = beneath r (sfRelative x)" if "posix_resolve (neCwd env) [full] = full" "full \<noteq> r"
  proof -
    have shape: "full = ''/'' @ join ''/'' (path_segs r @ down)"
      using posix_resolve_shape [of "neCwd env" "[full]"] to that(1) by simp
    have "down \<noteq> []" using shape that(2) posix_resolve_shape [of "neCwd env" "[ws]"] r by auto
    then show ?thesis
      using shape beneath_join [of r "path_segs r" "join ''/'' down"] sp rel posix_resolve_shape posix_resolve_segs r by metis
  qed
  ultimately show ?thesis using x(1) by blast
qed

section \<open>The whole restore\<close>

definition disk_ok :: "'a work_env_scheme \<Rightarrow> work \<Rightarrow> bool" where
  "disk_ok env w \<longleftrightarrow> (\<forall>k \<in> set (jm_keys (wkFiles w)). posix_resolve (neCwd env) [k] = k)"

lemma success_unfold:
  assumes "restoreCheckpoint env i opts w = (Inr res, w')" and "rrSuccess res"
  obtains oc w1 where "restore_phase env False i opts w = (Inr oc, w1)" and "rlFailed (rocLoop oc) = []"
    and "wkFiles w' = wkFiles w1" and "wkEngine w' = wkEngine w1" and "rrRemoved res = rocRemoved oc"
proof -
  obtain r w1 where p: "restore_phase env False i opts w = (r, w1)" by (cases "restore_phase env False i opts w")
  have nr: "\<not> (restore_rollback env i b oc w1 = (Inr res, w'))" for b oc
    using assms(2) by (auto simp: restore_rollback_def restore_caught_def Let_def split: prod.splits sum.splits option.splits)
  have g: "restore_guard i w = None" using assms(1) by (auto simp: restoreCheckpoint_def split: option.splits)
  obtain oc where oc: "r = Inr oc"
    using assms p g by (cases r) (auto simp: restoreCheckpoint_def restore_caught_def Let_def split: restore_error.splits)
  then have fin: "restore_finish i opts oc w1 = (Inr res, w')"
    using assms(1) p g nr by (auto simp: restoreCheckpoint_def split: option.splits if_splits)
  have "rlFailed (rocLoop oc) = []" "rrRemoved res = rocRemoved oc"
    using fin assms(2) by (auto simp: restore_finish_def Let_def)
  moreover have "wkFiles w' = wkFiles w1" "wkEngine w' = wkEngine w1"
    using fin by (auto simp: restore_finish_def Let_def record_restoration_def clearRestoreJournal_def)
  ultimately show ?thesis using that p oc by blast
qed

lemma progress_unfold:
  assumes "restore_progress env b i opts d tree w = (Inr oc, w')" and "rlFailed (rocLoop oc) = []"
  obtains l0 w2 l w3 where "wkFiles w2 = wkFiles w" and "wk_path w2 = wk_path w"
    and "restore_entries env b (restore_targets opts tree) (l0, w2) = (l, w3)" and "rlMode l0 = roConflict opts" and "\<not> rlCancelled l0"
    and "rlFailed l = []" and "restore_cleanup env opts d (restore_targets opts tree) l w3 = (rocRemoved oc, [], w')"
proof -
  obtain backup w1 where k: "(if roCreateBackup opts = Some False then (None, w) else createManualCheckpoint env (backup_options i) w)
      = (backup, w1)" by (metis prod.exhaust)
  have c1: "wkFiles w1 = wkFiles w \<and> wk_path w1 = wk_path w"
    using k idle_manual [of w env "backup_options i"] by (auto simp: idle_def rooted_def split: if_splits)
  define j where "j = (if roSkipJournal opts then None
    else Some \<lparr>rjCheckpointId = i, rjBackupId = backup, rjPlannedWrites = map fst (restore_targets opts tree),
               rjPlannedDeletes = or_default (cpFileInventory d) [], rjCompleted = [], rjStatus = JournalWriting\<rparr>)"
  obtain e w2 where wj: "(case j of None \<Rightarrow> (None, w1) | Some j \<Rightarrow> writeRestoreJournal env j w1) = (e, w2)" by (metis prod.exhaust)
  have c2: "wkFiles w2 = wkFiles w1 \<and> wkEngine w2 = wkEngine w1"
    using wj by (cases j) (auto dest: journal_effect)
  define l0 where "l0 = \<lparr>rlRestored = [], rlFailed = [], rlConflicts = [], rlCancelled = False, rlMode = roConflict opts,
                          rlProcessed = 0, rlJournal = j\<rparr>"
  obtain l w3 where n: "restore_entries env b (restore_targets opts tree) (l0, w2) = (l, w3)" by (metis prod.exhaust)
  obtain rm fl w4 where x: "restore_cleanup env opts d (restore_targets opts tree) l w3 = (rm, fl, w4)" by (metis prod.exhaust)
  have r: "(case e of Some m \<Rightarrow> (Inl (RestoreThrow m), w2)
      | None \<Rightarrow> (Inr \<lparr>rocLoop = l\<lparr>rlFailed := rlFailed l @ fl\<rparr>, rocRemoved = rm, rocBackup = backup, rocTreeSize = length tree\<rparr>, w4))
      = (Inr oc, w')"
    using assms(1) unfolding restore_progress_def k case_prod_conv Let_def j_def [symmetric] wj l0_def [symmetric] n x .
  then show ?thesis
    using that [OF _ _ n] c1 c2 x assms(2) by (cases e) (auto simp: l0_def)
qed

text \<open>The paths that the clean-up spares.\<close>

definition kept_paths :: "checkpoint_info \<Rightarrow> (string \<times> resolved_state) list \<Rightarrow> string list" where
  "kept_paths d entries =
     (case cpFileInventory d of
        Some present \<Rightarrow> present @ map skPath (or_default (cpSkippedFiles d) []) | None \<Rightarrow> map fst entries)"

lemma cleanup_removes:
  assumes "restore_cleanup env opts d entries l w = (removed, [], w')" and "rlFailed l = []" and "\<not> rlCancelled l"
    and "overwriting (rlMode l)" and "roCleanup opts \<noteq> Some False" and "truthy (wk_path w) \<noteq> None"
  shows "remove_files env (filter (\<lambda>p. p \<notin> set (kept_paths d entries)) (inventoryPathsFromScan (scanWorkspaceFiles env w))) w
    = (removed, [], w')"
proof -
  have "map (fsRelativePath \<circ> (\<lambda>(p, r). resolved_snapshot w p r)) entries = map fst entries"
    by (auto simp: resolved_snapshot_def)
  then show ?thesis using assms
    by (auto simp: restore_cleanup_def kept_paths_def cleanupFilesNotInInventory_def cleanupExtraFiles_def overwriting_def
        captureCompleteFileInventory_def Let_def split: option.splits if_splits)
qed

lemma targets_distinct: "distinct (map fst tree) \<Longrightarrow> distinct (map fst (restore_targets opts tree))"
  by (simp add: restore_targets_def distinct_map_filter)

lemma replayed_distinct: "distinct (map fst (replaySnapshotsToState chain))"
proof -
  have a: "jm_wf st \<Longrightarrow> jm_wf (fold apply_replay ss st)" for ss st
    by (induction ss arbitrary: st) (simp_all add: apply_replay_def Let_def)
  have "jm_wf st \<Longrightarrow> jm_wf (fold (\<lambda>ss st. fold apply_replay ss st) chain st)" for st
    by (induction chain arbitrary: st) (simp_all add: a)
  from this [of "[]"] show ?thesis by (simp add: replaySnapshotsToState_def jm_wf_def)
qed

lemma reconstruct_distinct: "reconstructStateAtCheckpoint env i s = (Inr (Some tree), s') \<Longrightarrow> distinct (map fst tree)"
  using replayed_distinct by (auto simp: reconstructStateAtCheckpoint_def split: option.splits prod.splits sum.splits)

lemma beneath_normal:
  assumes r: "r = posix_resolve cwd [x]" and p: "clean_path p"
  shows "posix_resolve c [beneath r p] = beneath r p"
proof -
  let ?segs = "path_segs r @ split_on slash p"
  have shape: "r = ''/'' @ join ''/'' (path_segs r)" and cr: "\<forall>s \<in> set (path_segs r). clean_seg s"
    unfolding r using posix_resolve_shape posix_resolve_segs by blast+
  have c: "\<forall>s \<in> set ?segs. clean_seg s" using cr p by (auto simp: clean_path_def list_all_iff)
  have b: "beneath r p = ''/'' @ join ''/'' ?segs" using beneath_join [OF shape cr] by simp
  have "norm_segs False (split_on slash (''/'' @ join ''/'' ?segs)) = ?segs"
    using norm_filter_empty [of False "split_on slash (''/'' @ join ''/'' ?segs)"] path_segs_abs [OF c] norm_segs_id [OF c]
    by (simp add: path_segs_def)
  then show ?thesis unfolding b by (simp add: posix_resolve_def posix_isAbsolute_def starts_with_def)
qed

lemma cleaned_scan:
  assumes rm: "remove_files env (filter (\<lambda>p. p \<notin> K) (inventoryPathsFromScan (scanWorkspaceFiles env w))) w = (removed, [], w')"
    and root: "root_of env w = Some rt" and ok: "disk_ok env w"
  shows "(\<forall>x \<in> set (srFiles (scanWorkspaceFiles env w')). sfRelative x \<in> K)
    \<and> (\<forall>p \<in> K. clean_path p \<longrightarrow> jm_get (wkFiles w') (beneath rt p) = jm_get (wkFiles w) (beneath rt p))"
proof
  let ?ps = "filter (\<lambda>p. p \<notin> K) (inventoryPathsFromScan (scanWorkspaceFiles env w))"
  note e = remove_files_effect [OF rm]
  obtain ws where ws: "truthy (wk_path w) = Some ws" "rt = posix_resolve (neCwd env) [ws]"
    using root by (auto simp: root_of_def)
  have resolved: "clean_path p" "full = beneath rt p" if p: "p \<in> set ?ps" "resolve_in env w p = Inr full" for p full
  proof -
    obtain x where x: "x \<in> set (srFiles (scanWorkspaceFiles env w))" "p = sfRelative x"
      using p(1) by (auto simp: inventoryPathsFromScan_def)
    then obtain f where "scanned env w ws f = Some x" using ws(1) by (auto simp: scan_files)
    from scanned_path [OF this ws(2)] have "p = [] \<or> clean_path p" using x(2) by blast
    moreover have "p \<noteq> []"
      using p(2) ws(1) by (auto simp: resolve_in_def resolveWorkspaceRelativePath_def dest!: sandbox_Inr split: option.splits)
    ultimately show "clean_path p" by blast
    then show "full = beneath rt p" by (rule resolve_clean [OF p(2) root])
  qed
  show "\<forall>p \<in> K. clean_path p \<longrightarrow> jm_get (wkFiles w') (beneath rt p) = jm_get (wkFiles w) (beneath rt p)"
  proof (intro ballI impI)
    fix p assume p: "p \<in> K" "clean_path p"
    have "\<forall>q \<in> set ?ps. resolve_in env w q \<noteq> Inr (beneath rt p)"
    proof (intro ballI notI)
      fix q assume q: "q \<in> set ?ps" "resolve_in env w q = Inr (beneath rt p)"
      from resolved(2) [OF q] show False using q(1) p(1) by simp
    qed
    with e [THEN conjunct2, THEN conjunct2, THEN conjunct2, THEN conjunct1, THEN spec]
    show "jm_get (wkFiles w') (beneath rt p) = jm_get (wkFiles w) (beneath rt p)" by (rule mp)
  qed
  show "\<forall>x \<in> set (srFiles (scanWorkspaceFiles env w')). sfRelative x \<in> K"
  proof (rule ballI, rule ccontr)
    fix x assume x: "x \<in> set (srFiles (scanWorkspaceFiles env w'))" and nk: "sfRelative x \<notin> K"
    have root': "truthy (wk_path w') = Some ws" using e ws(1) by simp
    obtain f where f: "jm_get (wkFiles w') f \<noteq> None" "scanned env w' ws f = Some x"
      using x root' by (auto simp: scan_files)
    have "\<forall>p \<in> set ?ps. resolve_in env w p \<noteq> Inr f"
    proof (intro ballI notI)
      fix p assume "p \<in> set ?ps" "resolve_in env w p = Inr f"
      then show False using e [THEN conjunct2, THEN conjunct2, THEN conjunct1, THEN bspec, of p] f(1) by auto
    qed
    with e [THEN conjunct2, THEN conjunct2, THEN conjunct2, THEN conjunct1, THEN spec]
    have same: "jm_get (wkFiles w') f = jm_get (wkFiles w) f" by (rule mp)
    have st: "stat_file env w' f = stat_file env w f" by (simp add: stat_file_def same)
    have sc: "scanned env w ws f = Some x" using f(2) unfolding scanned_def st .
    then have "x \<in> set (srFiles (scanWorkspaceFiles env w))" using f(1) same ws(1) by (auto simp: scan_files)
    then have p: "sfRelative x \<in> set ?ps" using nk by (auto simp: inventoryPathsFromScan_def)
    then obtain full where full: "resolve_in env w (sfRelative x) = Inr full" "jm_get (wkFiles w') full = None" using e by blast
    have "posix_resolve (neCwd env) [f] = f" using ok f(1) same by (simp add: disk_ok_def in_jm_keys)
    moreover have "f \<noteq> rt"
      using sc ws(2) by (auto simp: scanned_def walk_reaches_def Let_def split: if_splits)
    ultimately have "f = full" using scanned_path [OF sc ws(2)] resolved(2) [OF p full(1)] by simp
    then show False using f(1) full(2) by simp
  qed
qed

text \<open>
  C6 (functional): after a restore that reports success with overwriting, whatever was on the disk before,
  every file of the tree that was asked for has contents that the code's own comparison takes for the
  checkpoint's (the recorded hash, or the recorded text), unless the clean-up was on and the manifest
  does not list it; and with the clean-up on, a new scan of the workspace finds only files that the
  manifest lists or records as skipped. The paths of the tree are normal and none is another's temporary file.
\<close>

theorem restore_success_exact:
  assumes run: "restoreCheckpoint env i opts w = (Inr res, w')" and ok: "rrSuccess res" and mode: "overwriting (roConflict opts)"
    and d: "loadCheckpointFromDisk env i (wkEngine w) = (Inr (Some d), s1)"
    and tree: "reconstructStateAtCheckpoint env i s1 = (Inr (Some tree), s2)"
    and root: "root_of env w = Some rt" and disk: "disk_ok env w"
    and paths: "\<forall>p \<in> fst ` set (restore_targets opts tree). clean_path p
      \<and> p @ RESTORE_TMP_SUFFIX \<notin> fst ` set (restore_targets opts tree)"
  shows "(\<forall>(p, r) \<in> set (restore_targets opts tree).
        roCleanup opts = Some False \<or> p \<in> set (kept_paths d (restore_targets opts tree)) \<longrightarrow>
        (\<exists>f. jm_get (wkFiles w') (beneath rt p) = Some f \<and> holds_state env r (dfBytes f)))
    \<and> (roCleanup opts \<noteq> Some False \<longrightarrow>
        (\<forall>x \<in> set (srFiles (scanWorkspaceFiles env w')). sfRelative x \<in> set (kept_paths d (restore_targets opts tree))))"
proof -
  let ?es = "restore_targets opts tree"
  obtain oc w1 where ph: "restore_phase env False i opts w = (Inr oc, w1)" "rlFailed (rocLoop oc) = []"
    and w': "wkFiles w' = wkFiles w1" "wkEngine w' = wkEngine w1"
    by (rule success_unfold [OF run ok])
  define v where "v = w\<lparr>wkEngine := s2\<rparr>"
  have pr: "restore_progress env False i opts d tree v = (Inr oc, w1)" using ph(1) by (simp add: restore_phase_def d tree v_def)
  have "wk_path v = wk_path w"
    using rooted_load [of "wkEngine w" env i] rooted_reconstruct [of s1 env i] by (simp add: v_def d tree rooted_def)
  obtain l0 w2 l w3 where p: "wkFiles w2 = wkFiles v" "wk_path w2 = wk_path v" "restore_entries env False ?es (l0, w2) = (l, w3)"
    "rlMode l0 = roConflict opts" "\<not> rlCancelled l0" "rlFailed l = []" "restore_cleanup env opts d ?es l w3 = (rocRemoved oc, [], w1)"
    by (rule progress_unfold [OF pr ph(2)])
  have r2: "root_of env w2 = Some rt" using root p(2) \<open>wk_path v = wk_path w\<close> by (simp add: root_of_def)
  have dist: "distinct (map fst ?es)" by (rule targets_distinct [OF reconstruct_distinct [OF tree]])
  have E: "wkEngine w3 = wkEngine w2 \<and> rlMode l = rlMode l0 \<and> rlCancelled l = rlCancelled l0
    \<and> (\<forall>(p, r) \<in> set ?es. \<exists>f. jm_get (wkFiles w3) (beneath rt p) = Some f \<and> holds_state env r (dfBytes f))
    \<and> (\<forall>k. k \<notin> \<Union> (touches rt ` fst ` set ?es) \<longrightarrow> jm_get (wkFiles w3) k = jm_get (wkFiles w2) k)
    \<and> (\<forall>k. jm_get (wkFiles w3) k \<noteq> None \<longrightarrow> jm_get (wkFiles w2) k \<noteq> None \<or> k \<in> beneath rt ` fst ` set ?es)"
    by (rule entries_effect [OF p(3,6) _ r2 _ dist]) (use mode p(4) paths in auto)
  have r3: "root_of env w3 = Some rt" using r2 E by (simp add: root_of_def)
  obtain x where x: "rt = posix_resolve (neCwd env) [x]" using root by (auto simp: root_of_def)
  have ok3: "disk_ok env w3"
    unfolding disk_ok_def in_jm_keys
  proof
    fix k assume "k \<in> set (jm_keys (wkFiles w3))"
    then have "jm_get (wkFiles w) k \<noteq> None \<or> k \<in> beneath rt ` fst ` set ?es" using E p(1) by (auto simp: in_jm_keys v_def)
    then show "posix_resolve (neCwd env) [k] = k"
      using disk paths beneath_normal [OF x] by (auto simp: disk_ok_def in_jm_keys)
  qed
  show ?thesis
  proof (cases "roCleanup opts = Some False")
    case True
    then have "w1 = w3" using p(7) by (simp add: restore_cleanup_def)
    then show ?thesis using E True w' by (auto simp: w')
  next
    case False
    have "truthy (wk_path w3) \<noteq> None" using r3 by (auto simp: root_of_def)
    from cleanup_removes [OF p(7,6) _ _ False this] E mode p(4,5)
    have "remove_files env (filter (\<lambda>p. p \<notin> set (kept_paths d ?es)) (inventoryPathsFromScan (scanWorkspaceFiles env w3))) w3
        = (rocRemoved oc, [], w1)" by simp
    note c = cleaned_scan [OF this r3 ok3]
    have "stat_file env w' = stat_file env w1" by (simp add: fun_eq_iff stat_file_def w')
    then have "scan_file env w' = scan_file env w1" by (simp only: fun_eq_iff scan_file_def) simp
    then have "scanWorkspaceFiles env w' = scanWorkspaceFiles env w1" by (simp add: scanWorkspaceFiles_def w' split: option.split)
    then show ?thesis using c E False paths w' by (fastforce simp: image_iff)
  qed
qed

definition sample_tree :: resolved_map where
  "sample_tree = map (\<lambda>(p, t). (p, \<lparr>rsContent = t, rsEncoding = ''utf8'', rsHash = Some (sample_hash t)\<rparr>)) [(''a.ts'', ''x''), (''b.ts'', ''y'')]"

theorem restore_success_exact_witness:
  "let w' = snd (restoreCheckpoint sample_work_env ''cp_1'' overwrite_options sample_work)
   in (\<exists>f. jm_get (wkFiles w') ''/w/b.ts'' = Some f \<and> hashBlobBytes sample_work_env (dfBytes f) = sample_hash ''y'')
      \<and> (\<forall>x \<in> set (srFiles (scanWorkspaceFiles sample_work_env w')). sfRelative x \<in> {''a.ts'', ''b.ts''})"
proof -
  let ?env = sample_work_env and ?o = overwrite_options
  have "case fst (restoreCheckpoint ?env ''cp_1'' ?o sample_work) of Inl _ \<Rightarrow> False | Inr r \<Rightarrow> rrSuccess r" by code_simp
  then obtain res w' where run: "restoreCheckpoint ?env ''cp_1'' ?o sample_work = (Inr res, w')" "rrSuccess res"
    by (cases "restoreCheckpoint ?env ''cp_1'' ?o sample_work") (auto split: sum.splits)
  have "case fst (loadCheckpointFromDisk ?env ''cp_1'' (wkEngine sample_work)) of
      Inr (Some d) \<Rightarrow> kept_paths d sample_tree = [''a.ts'', ''b.ts''] | _ \<Rightarrow> False" by code_simp
  then obtain d s1 where d: "loadCheckpointFromDisk ?env ''cp_1'' (wkEngine sample_work) = (Inr (Some d), s1)"
    "kept_paths d sample_tree = [''a.ts'', ''b.ts'']"
    by (cases "loadCheckpointFromDisk ?env ''cp_1'' (wkEngine sample_work)") (auto split: sum.splits option.splits)
  have "fst (reconstructStateAtCheckpoint ?env ''cp_1'' (snd (loadCheckpointFromDisk ?env ''cp_1'' (wkEngine sample_work))))
      = Inr (Some sample_tree)" by code_simp
  then obtain s2 where t: "reconstructStateAtCheckpoint ?env ''cp_1'' s1 = (Inr (Some sample_tree), s2)"
    using d(1) by (cases "reconstructStateAtCheckpoint ?env ''cp_1'' s1") simp
  have es: "restore_targets ?o sample_tree = sample_tree" and roc: "roCleanup ?o = None" by code_simp+
  have m: "overwriting (roConflict ?o)" "root_of ?env sample_work = Some ''/w''" "disk_ok ?env sample_work" by code_simp+
  have p: "\<forall>p \<in> fst ` set (restore_targets ?o sample_tree).
      clean_path p \<and> p @ RESTORE_TMP_SUFFIX \<notin> fst ` set (restore_targets ?o sample_tree)" by code_simp
  have b: "(''b.ts'', \<lparr>rsContent = ''y'', rsEncoding = ''utf8'', rsHash = Some (sample_hash ''y'')\<rparr>) \<in> set sample_tree"
    by (simp add: sample_tree_def)
  have "beneath ''/w'' ''b.ts'' = ''/w/b.ts''" "sample_hash ''y'' \<noteq> []" by code_simp+
  then show ?thesis
    using restore_success_exact [OF run m(1) d(1) t m(2,3) p] run(1) b
    by (auto simp: es roc d(2) holds_state_def Let_def dest: bspec)
qed

section \<open>The journal\<close>

definition journal_for :: "string \<Rightarrow> string option \<Rightarrow> restore_journal option \<Rightarrow> bool" where
  "journal_for i b j \<longleftrightarrow> (case j of None \<Rightarrow> False | Some j \<Rightarrow> rjCheckpointId j = i \<and> rjBackupId j = b)"

lemma write_journal_kept:
  "writeRestoreJournal env j w = (m, w') \<Longrightarrow> journal_for i b (Some j) \<Longrightarrow> journal_for i b (wkJournal w) \<Longrightarrow> journal_for i b (wkJournal w')"
  by (auto simp: writeRestoreJournal_def journal_for_def split: option.splits)

lemma write_keeps_journal: "writeSnapshotContent env x w = (e, w') \<Longrightarrow> wkJournal w' = wkJournal w"
  by (auto simp: writeSnapshotContent_def removeRestoreTempFile_def split: sum.splits option.splits if_splits)

lemma remove_keeps_journal: "remove_files env ps w = (removed, failed, w') \<Longrightarrow> wkJournal w' = wkJournal w"
proof (induction ps arbitrary: w removed failed)
  case (Cons p ps)
  have u: "unlink_file env full w = (e, w1) \<Longrightarrow> wkJournal w1 = wkJournal w" for full e w1
    by (auto simp: unlink_file_def split: option.splits if_splits)
  show ?case using Cons.prems by (auto split: sum.splits prod.splits option.splits dest!: Cons.IH u)
qed simp

lemma cleanup_keeps_journal: "restore_cleanup env opts d es l w = (removed, failed, w') \<Longrightarrow> wkJournal w' = wkJournal w"
  by (auto simp: restore_cleanup_def cleanupFilesNotInInventory_def cleanupExtraFiles_def Let_def
      split: if_splits option.splits dest: remove_keeps_journal)

text \<open>The loop keeps the journal on disk and the one in memory for the same checkpoint and backup.\<close>

definition loop_journal :: "string \<Rightarrow> string option \<Rightarrow> restore_loop \<Rightarrow> work \<Rightarrow> bool" where
  "loop_journal i b l w \<longleftrightarrow> journal_for i b (rlJournal l) \<and> journal_for i b (wkJournal w)"

lemma entry_journal:
  assumes "restore_entry env p r (l, w) = (l', w')"
  shows "loop_journal i b l w \<Longrightarrow> loop_journal i b l' w'" and "rlJournal l = None \<Longrightarrow> rlJournal l' = None \<and> wkJournal w' = wkJournal w"
proof -
  have e: "write_entry env p x (l1, w) = (l2, w2) \<Longrightarrow> loop_journal i b l1 w \<Longrightarrow> loop_journal i b l2 w2" for x l1 l2 w2
    by (auto simp: write_entry_def fail_file_def loop_journal_def Let_def journal_for_def split: prod.splits option.splits
        dest: write_keeps_journal dest!: write_journal_kept [where i = i and b = b])
  have n: "write_entry env p x (l1, w) = (l2, w2) \<Longrightarrow> rlJournal l1 = None \<Longrightarrow> rlJournal l2 = None \<and> wkJournal w2 = wkJournal w" for x l1 l2 w2
    by (auto simp: write_entry_def fail_file_def Let_def split: prod.splits option.splits dest: write_keeps_journal)
  show "loop_journal i b l w \<Longrightarrow> loop_journal i b l' w'"
    using assms e by (auto simp: restore_entry_def fail_file_def loop_journal_def Let_def split: sum.splits if_splits prod.splits)
  show "rlJournal l = None \<Longrightarrow> rlJournal l' = None \<and> wkJournal w' = wkJournal w"
    using assms n by (auto simp: restore_entry_def fail_file_def Let_def split: sum.splits if_splits prod.splits)
qed

lemma entries_journal:
  assumes "restore_entries env c es (l, w) = (l', w')"
  shows "(loop_journal i b l w \<longrightarrow> loop_journal i b l' w') \<and> (rlJournal l = None \<longrightarrow> rlJournal l' = None \<and> wkJournal w' = wkJournal w)"
  using assms
proof (induction es arbitrary: l w)
  case (Cons e es)
  obtain p r where e: "e = (p, r)" by (cases e)
  obtain l1 w1 where s: "restore_entry env p r (l, w) = (l1, w1)" by (cases "restore_entry env p r (l, w)")
  show ?case
  proof (cases "weCancel env c p (rlProcessed l)")
    case True
    then show ?thesis using Cons.prems by (auto simp: e fail_file_def loop_journal_def)
  next
    case False
    then have "restore_entries env c es (l1, w1) = (l', w')" using Cons.prems by (simp add: e s)
    from Cons.IH [OF this] show ?thesis using entry_journal(1) [OF s, of i b] entry_journal(2) [OF s] by auto
  qed
qed simp

lemma progress_journal:
  assumes p: "restore_progress env c i opts d tree w = (r, w')"
  shows "if roSkipJournal opts then wkJournal w' = wkJournal w
     else case r of
       Inl e \<Rightarrow> wkFiles w' = wkFiles w \<and> wkJournal w' = wkJournal w
     | Inr oc \<Rightarrow> loop_journal i (rocBackup oc) (rocLoop oc) w'"
proof -
  obtain backup w1 where k: "(if roCreateBackup opts = Some False then (None, w) else createManualCheckpoint env (backup_options i) w)
      = (backup, w1)" by (metis prod.exhaust)
  have c1: "wkFiles w1 = wkFiles w \<and> wkJournal w1 = wkJournal w"
    using k idle_manual [of w env "backup_options i"] by (auto simp: idle_def split: if_splits)
  define j where "j = (if roSkipJournal opts then None
    else Some \<lparr>rjCheckpointId = i, rjBackupId = backup, rjPlannedWrites = map fst (restore_targets opts tree),
               rjPlannedDeletes = or_default (cpFileInventory d) [], rjCompleted = [], rjStatus = JournalWriting\<rparr>)"
  obtain e w2 where wj: "(case j of None \<Rightarrow> (None, w1) | Some j \<Rightarrow> writeRestoreJournal env j w1) = (e, w2)" by (metis prod.exhaust)
  define l0 where "l0 = \<lparr>rlRestored = [], rlFailed = [], rlConflicts = [], rlCancelled = False, rlMode = roConflict opts,
                          rlProcessed = 0, rlJournal = j\<rparr>"
  have w2: "if roSkipJournal opts then e = None \<and> w2 = w1
      else case e of None \<Rightarrow> loop_journal i backup l0 w2 | Some m \<Rightarrow> w2 = w1"
  proof (cases "roSkipJournal opts")
    case False
    then obtain jr where jr: "j = Some jr" "journal_for i backup (Some jr)" by (simp add: j_def journal_for_def)
    then have "writeRestoreJournal env jr w1 = (e, w2)" using wj by simp
    then have "case e of None \<Rightarrow> wkJournal w2 = Some jr | Some m \<Rightarrow> w2 = w1"
      unfolding writeRestoreJournal_def by (auto split: option.splits)
    then show ?thesis using False jr by (simp add: loop_journal_def l0_def split: option.splits)
  qed (use wj in \<open>simp add: j_def\<close>)
  obtain l w3 where n: "restore_entries env c (restore_targets opts tree) (l0, w2) = (l, w3)" by (metis prod.exhaust)
  obtain rm fl w4 where x: "restore_cleanup env opts d (restore_targets opts tree) l w3 = (rm, fl, w4)" by (metis prod.exhaust)
  have r: "(case e of Some m \<Rightarrow> (Inl (RestoreThrow m), w2)
      | None \<Rightarrow> (Inr \<lparr>rocLoop = l\<lparr>rlFailed := rlFailed l @ fl\<rparr>, rocRemoved = rm, rocBackup = backup, rocTreeSize = length tree\<rparr>, w4))
      = (r, w')"
    using p unfolding restore_progress_def k case_prod_conv Let_def j_def [symmetric] wj l0_def [symmetric] n x .
  have w4: "wkJournal w4 = wkJournal w3" by (rule cleanup_keeps_journal [OF x])
  note ej = entries_journal [OF n, of i backup]
  show ?thesis
  proof (cases "roSkipJournal opts")
    case True
    then have "rlJournal l0 = None" by (simp add: l0_def j_def)
    then show ?thesis using True ej w2 w4 c1 r by (auto split: option.splits)
  next
    case False
    then show ?thesis using ej w2 w4 c1 r by (cases e) (auto simp: loop_journal_def)
  qed
qed

lemma phase_journal:
  assumes p: "restore_phase env c i opts w = (r, w')"
  shows "if roSkipJournal opts then wkJournal w' = wkJournal w
     else case r of
       Inl e \<Rightarrow> wkFiles w' = wkFiles w \<and> wkJournal w' = wkJournal w
     | Inr oc \<Rightarrow> loop_journal i (rocBackup oc) (rocLoop oc) w'"
proof -
  have "restore_progress env c i opts d tree (w\<lparr>wkEngine := s\<rparr>) = (r, w') \<Longrightarrow> ?thesis" for d tree s
    using progress_journal [of env c i opts d tree "w\<lparr>wkEngine := s\<rparr>" r w'] by (cases r; cases "roSkipJournal opts") simp_all
  then show ?thesis using p by (auto simp: restore_phase_def split: prod.splits sum.splits option.splits)
qed

lemma backup_journal: "restore_backup env b w = (r, w') \<Longrightarrow> wkJournal w' = wkJournal w"
proof -
  assume b: "restore_backup env b w = (r, w')"
  obtain x w1 where p: "restore_phase env True b rollback_options w = (x, w1)" by (cases "restore_phase env True b rollback_options w")
  have s: "roSkipJournal rollback_options" by (simp add: rollback_options_def)
  then have "wkJournal w1 = wkJournal w" using phase_journal [OF p] by simp
  then show ?thesis using b p s
    by (auto simp: restore_backup_def restore_caught_def restore_finish_def record_restoration_def Let_def
        split: option.splits sum.splits restore_error.splits)
qed



section \<open>Recovery\<close>



end
