(* ===== verification/CaptureFacts.thy ===== *)
theory CaptureFacts
  imports RestoreFacts
begin

text \<open>
  What a capture keeps: the contents of every file it records are in the store when it ends, the files
  of the disk are as before, and of the engine only the store and the watcher's sets change.
\<close>

section \<open>Growth of the store\<close>

definition grown :: "'a work_env_scheme \<Rightarrow> bytes set \<Rightarrow> work \<Rightarrow> work \<Rightarrow> bool" where
  "grown env U w w' \<longleftrightarrow> (\<exists>bs. set bs \<subseteq> U \<and> w' = w\<lparr>wkEngine := (wkEngine w)\<lparr>egObjects :=
     run_blobs env (wkEngine w) (map PutOp bs) (egObjects (wkEngine w))\<rparr>\<rparr>)"

lemma grown_refl [simp]: "grown env U w w"
  unfolding grown_def by (rule exI [of _ "[]"]) simp

lemma grown_trans:
  assumes "grown env U w v" and "grown env U v u"
  shows "grown env U w u"
proof -
  obtain bs where bs: "set bs \<subseteq> U" "v = w\<lparr>wkEngine := (wkEngine w)\<lparr>egObjects :=
      run_blobs env (wkEngine w) (map PutOp bs) (egObjects (wkEngine w))\<rparr>\<rparr>" using assms(1) unfolding grown_def by blast
  obtain cs where cs: "set cs \<subseteq> U" "u = v\<lparr>wkEngine := (wkEngine v)\<lparr>egObjects :=
      run_blobs env (wkEngine v) (map PutOp cs) (egObjects (wkEngine v))\<rparr>\<rparr>" using assms(2) unfolding grown_def by blast
  have o: "engine_opts (wkEngine v) = engine_opts (wkEngine w)" by (simp add: bs(2) engine_opts_def engine_key_def)
  have "u = w\<lparr>wkEngine := (wkEngine w)\<lparr>egObjects :=
      run_blobs env (wkEngine w) (map PutOp (bs @ cs)) (egObjects (wkEngine w))\<rparr>\<rparr>"
    unfolding cs(2) o by (simp add: bs(2) run_store_append)
  then show ?thesis unfolding grown_def using bs(1) cs(1) by (intro exI [of _ "bs @ cs"]) simp
qed

lemma grown_settings: "grown env U w w' \<Longrightarrow> same_settings (wkEngine w) (wkEngine w')"
  by (auto simp: grown_def same_settings_def)

lemma grown_fields:
  "grown env U w w' \<Longrightarrow> wkFiles w' = wkFiles w \<and> wk_path w' = wk_path w \<and> w' = w\<lparr>wkEngine := wkEngine w'\<rparr>
     \<and> wkEngine w' = (wkEngine w)\<lparr>egObjects := egObjects (wkEngine w')\<rparr>"
  by (auto simp: grown_def)

lemma grown_good:
  assumes "grown env U w w'" and "engine_good env U (wkEngine w)"
  shows "engine_good env U (wkEngine w')"
proof -
  obtain bs where bs: "set bs \<subseteq> U" "w' = w\<lparr>wkEngine := (wkEngine w)\<lparr>egObjects :=
      run_blobs env (wkEngine w) (map PutOp bs) (egObjects (wkEngine w))\<rparr>\<rparr>" using assms(1) unfolding grown_def by blast
  show ?thesis
    by (rule run_blobs_good [OF assms(2) puts_valid [OF bs(1)] grown_settings [OF assms(1)]]) (simp add: bs(2))
qed

lemma grown_held:
  assumes "grown env U w w'" and "engine_good env U (wkEngine w)"
    and "held env (engine_key (wkEngine w)) (egObjects (wkEngine w)) b y"
  shows "held env (engine_key (wkEngine w)) (egObjects (wkEngine w')) b y"
  using assms held_puts [of env U "wkEngine w"] by (auto simp: grown_def)

section \<open>The snapshot of one file\<close>

definition files_in :: "bytes set \<Rightarrow> disk \<Rightarrow> bool" where
  "files_in U d \<longleftrightarrow> (\<forall>k f. jm_get d k = Some f \<longrightarrow> dfBytes f \<in> U)"

text \<open>A snapshot of the file at a full path: not a deletion, and its contents are in the store.\<close>

definition captures :: "'a work_env_scheme \<Rightarrow> bytes option \<Rightarrow> object_store \<Rightarrow> disk_file \<Rightarrow> file_snapshot \<Rightarrow> bool" where
  "captures env key os f x \<longleftrightarrow> \<not> snapshotIsDeleted x \<and> held env key os (dfBytes f) x
     \<and> fsHash x = Some (hashBlobBytes env (dfBytes f)) \<and> js_trim (fsEncoding x) \<noteq> []
     \<and> fsDeleted x = None \<and> fsChangeType x \<in> {Some Created, Some Modified}"

lemma encoding_named: "js_trim (detectFileEncoding p b) \<noteq> []"
  by (simp add: detectFileEncoding_def js_trim_def js_space_def)

lemma snapshot_captures:
  assumes run: "trySnapshotFile env full rel skip w = (r, w')" and good: "engine_good env U (wkEngine w)" and files: "files_in U (wkFiles w)"
  shows "grown env U w w' \<and> (\<forall>x. r = SnapFile x \<longrightarrow> (\<exists>f. jm_get (wkFiles w) full = Some f \<and> fsRelativePath x = toPosixRelative rel
     \<and> captures env (engine_key (wkEngine w)) (egObjects (wkEngine w')) f x))"
proof (cases "\<exists>x. r = SnapFile x")
  case False
  then have "w' = w"
    using run unfolding trySnapshotFile_def writeBlobOptions_good [OF good] Let_def
    by (auto split: option.splits prod.splits sum.splits if_splits)
  then show ?thesis using False by simp
next
  case True
  let ?s = "wkEngine w"
  obtain f where f: "jm_get (wkFiles w) full = Some f" "stat_file env w full = Some f" "read_file env w full = Some (dfBytes f)"
    using run True unfolding trySnapshotFile_def Let_def
    by (simp add: stat_file_def read_file_def split: option.splits if_splits)
  obtain content encoding where c: "classifyFileBuffer (\<lambda>e b. snapshotContentFromBytes env b e) full (dfBytes f) (weClass env) = Some (content, encoding)"
    using run True unfolding trySnapshotFile_def Let_def f option.case
    by (simp split: option.splits if_splits) (metis surj_pair)+
  obtain h os where p: "putBlob env (engine_opts ?s) (dfBytes f) (egObjects ?s) = Inr (h, os)"
    using run True unfolding trySnapshotFile_def Let_def f option.case c prod.case writeBlobOptions_good [OF good] sum.case
    by (simp split: option.splits if_splits sum.splits) (metis surj_pair)+
  have r: "w' = w\<lparr>wkEngine := ?s\<lparr>egObjects := os\<rparr>\<rparr>"
    "r = SnapFile \<lparr>fsRelativePath = toPosixRelative rel, fsContent = Some content, fsHash = Some (hashBlobBytes env (dfBytes f)),
       fsEncoding = encoding, fsLastModified = dfMtime f, fsSize = length (dfBytes f), fsDeleted = None,
       fsChangeType = Some (if jm_get (egSnapshotHashes ?s) (toPosixRelative rel) \<noteq> None then Modified else Created),
       fsRenamedFrom = None, fsCopiedFrom = None\<rparr>"
    using run True unfolding trySnapshotFile_def Let_def f option.case c prod.case writeBlobOptions_good [OF good] sum.case p
    by (auto split: if_splits)
  have b: "dfBytes f \<in> U" using files f(1) by (simp add: files_in_def)
  have pb: "blob_put env (engine_opts ?s) (dfBytes f) (egObjects ?s) = Some (h, os)" using p by (simp add: blob_put_def)
  have g: "store_good env (engine_key ?s) U (egObjects ?s)" using good by (simp add: engine_good_def)
  have h: "h = neSha env (dfBytes f)" using putBlob_correct [OF g opts_ok_engine b p] by blast
  have "isBlobObjectHash h \<and> blob_get env (engine_key ?s) os h = Some (dfBytes f)"
    using blobs.put_get [of env "engine_key ?s" U "egObjects ?s" "engine_opts ?s" "dfBytes f" h os] g b pb by auto
  moreover have "encoding = detectFileEncoding full (dfBytes f)" using c by (simp add: classifyFileBuffer_def Let_def split: if_splits)
  moreover have "grown env U w w'"
    unfolding grown_def using b pb by (intro exI [of _ "[dfBytes f]"]) (simp add: r(1))
  ultimately show ?thesis
    using f(1) h encoding_named [of full "dfBytes f"]
    by (simp add: captures_def held_def r snapshotIsDeleted_def hashBlobBytes_def)
qed

section \<open>The snapshot phase\<close>

lemma snapshot_all_grown:
  assumes step: "\<And>i v. i \<in> set is \<Longrightarrow> engine_good env U (wkEngine v) \<Longrightarrow> files_in U (wkFiles v) \<Longrightarrow> wkFiles v = d \<Longrightarrow> wk_path v = wp \<Longrightarrow>
      grown env U v (snd (worker i v)) \<and> (\<forall>x. fst (worker i v) = SnapFile x \<longrightarrow>
        (\<exists>f. Q i f x \<and> captures env (engine_key (wkEngine v)) (egObjects (wkEngine (snd (worker i v)))) f x))"
    and run: "snapshot_all worker is w = (ss, sk, w')" and good: "engine_good env U (wkEngine w)" and files: "files_in U (wkFiles w)"
    and d: "wkFiles w = d" "wk_path w = wp"
  shows "grown env U w w' \<and> (\<forall>x \<in> set ss. \<exists>i \<in> set is. \<exists>f. Q i f x \<and> captures env (engine_key (wkEngine w)) (egObjects (wkEngine w')) f x)"
  using step run good files d
proof (induction "is" arbitrary: w ss sk)
  case (Cons i "is")
  obtain r w1 where s: "worker i w = (r, w1)" by (cases "worker i w")
  obtain ss1 sk1 w2 where n: "snapshot_all worker is w1 = (ss1, sk1, w2)" by (metis prod.exhaust)
  have w2: "w2 = w'" "ss = ss1 \<or> (\<exists>x. r = SnapFile x \<and> ss = x # ss1)" using Cons.prems(2) by (auto simp: s n split: snap_result.splits)
  have g: "grown env U w w1" and x: "\<forall>x. r = SnapFile x \<longrightarrow>
      (\<exists>f. Q i f x \<and> captures env (engine_key (wkEngine w)) (egObjects (wkEngine w1)) f x)"
    using Cons.prems(1) [of i w] Cons.prems(3-6) s by auto
  note fl = grown_fields [OF g] and k = settings_key [OF grown_settings [OF g]]
  have IH: "grown env U w1 w' \<and> (\<forall>x \<in> set ss1. \<exists>i \<in> set is. \<exists>f. Q i f x \<and>
      captures env (engine_key (wkEngine w1)) (egObjects (wkEngine w')) f x)"
    by (rule Cons.IH [OF Cons.prems(1) n [unfolded w2(1)] grown_good [OF g Cons.prems(3)]]) (use Cons.prems(4-6) fl in simp_all)
  have "captures env (engine_key (wkEngine w)) (egObjects (wkEngine w')) f y"
    if c: "captures env (engine_key (wkEngine w)) (egObjects (wkEngine w1)) f y" for f y
    using c grown_held [OF conjunct1 [OF IH] grown_good [OF g Cons.prems(3)]] k by (auto simp: captures_def)
  then have head: "\<exists>f. Q i f y \<and> captures env (engine_key (wkEngine w)) (egObjects (wkEngine w')) f y" if "r = SnapFile y" for y
    using x that by blast
  have "\<exists>j \<in> set (i # is). \<exists>f. Q j f y \<and> captures env (engine_key (wkEngine w)) (egObjects (wkEngine w')) f y" if y: "y \<in> set ss" for y
  proof (cases "y \<in> set ss1")
    case True
    then show ?thesis using IH k by (metis list.set_intros(2))
  next
    case False
    then show ?thesis using head w2(2) y by auto
  qed
  then show ?case using grown_trans [OF g conjunct1 [OF IH]] by blast
qed simp

section \<open>Whole captures\<close>

text \<open>A file of the disk as it is recorded: the place it was read from, and its contents in the store.\<close>

definition recorded :: "'a work_env_scheme \<Rightarrow> work \<Rightarrow> object_store \<Rightarrow> file_snapshot \<Rightarrow> bool" where
  "recorded env w os x \<longleftrightarrow> (\<exists>rel full f. fsRelativePath x = toPosixRelative rel \<and> resolve_in env w rel = Inr full
     \<and> jm_get (wkFiles w) full = Some f \<and> captures env (engine_key (wkEngine w)) os f x)"

lemma recorded_named: "recorded env w os x \<Longrightarrow> js_trim (fsEncoding x) \<noteq> []"
  by (auto simp: recorded_def captures_def)

lemma utf8_named: "js_trim ''utf8'' \<noteq> []"
  by code_simp

lemma trivial_filter: "applyCaptureFilterToSnapshots env ws ss sk None = (ss, sk)"
  by (simp add: applyCaptureFilterToSnapshots_def captureFilterIsActive_def)

lemma deletion_deleted [simp]:
  "snapshotIsDeleted (deletion_snapshot w p)" "fsDeleted (deletion_snapshot w p) = Some True"
  "fsChangeType (deletion_snapshot w p) = Some Deleted" "fsEncoding (deletion_snapshot w p) = ''utf8''" "fsRelativePath (deletion_snapshot w p) = p"
  by (simp_all add: deletion_snapshot_def snapshotIsDeleted_def)

lemma engine_good_watch [simp]:
  "engine_good env U (s\<lparr>egDeletedFiles := d, egModifiedFiles := m, egPreviousFiles := p\<rparr>) = engine_good env U s"
  by (simp add: engine_good_def engine_key_def)

lemma resolve_in_path: "wk_path v = wk_path w \<Longrightarrow> resolve_in env v = resolve_in env w"
  by (simp add: resolve_in_def fun_eq_iff)

lemma delta_workers_grown:
  assumes run: "snapshot_all (delta_worker env ws None) ps w = (ss, sk, w')" and good: "engine_good env U (wkEngine w)"
    and files: "files_in U (wkFiles w)"
  shows "grown env U w w' \<and> (\<forall>x \<in> set ss. recorded env w (egObjects (wkEngine w')) x)"
proof -
  let ?Q = "\<lambda>p f x. \<exists>rel full. fsRelativePath x = toPosixRelative rel \<and> resolve_in env w rel = Inr full \<and> jm_get (wkFiles w) full = Some f"
  have "grown env U w w' \<and> (\<forall>x \<in> set ss. \<exists>i \<in> set ps. \<exists>f. ?Q i f x \<and> captures env (engine_key (wkEngine w)) (egObjects (wkEngine w')) f x)"
  proof (rule snapshot_all_grown [OF _ run good files refl refl])
    fix p v
    assume g: "engine_good env U (wkEngine v)" and fl: "files_in U (wkFiles v)" and same: "wkFiles v = wkFiles w" "wk_path v = wk_path w"
    obtain rel where d: "delta_worker env ws None p v = (case resolve_in env v rel of
         Inl _ \<Rightarrow> (SnapSkip \<lparr>skPath = rel, skReason = UnsafePath\<rparr>, v)
       | Inr resolved \<Rightarrow> if isFileIgnored env v resolved then (SnapNothing, v) else trySnapshotFile env resolved rel True v)"
      by (rule that [of "toPosixRelative (posix_relative (neCwd env) ws (if posix_isAbsolute p then p else posix_join [ws, p]))"])
        (simp add: delta_worker_def shouldCaptureRelativePath_def Let_def split: sum.split)
    have snap: "grown env U v (snd (trySnapshotFile env full rel True v)) \<and> (\<forall>x. fst (trySnapshotFile env full rel True v) = SnapFile x \<longrightarrow>
        (\<exists>f. jm_get (wkFiles v) full = Some f \<and> fsRelativePath x = toPosixRelative rel
           \<and> captures env (engine_key (wkEngine v)) (egObjects (wkEngine (snd (trySnapshotFile env full rel True v)))) f x))" for full
      by (cases "trySnapshotFile env full rel True v") (use snapshot_captures [OF _ g fl] in simp)
    show "grown env U v (snd (delta_worker env ws None p v)) \<and> (\<forall>x. fst (delta_worker env ws None p v) = SnapFile x \<longrightarrow>
        (\<exists>f. ?Q p f x \<and> captures env (engine_key (wkEngine v)) (egObjects (wkEngine (snd (delta_worker env ws None p v)))) f x))"
    proof (cases "resolve_in env v rel")
      case (Inr full)
      then have full: "resolve_in env w rel = Inr full" using resolve_in_path [OF same(2), of env] by simp
      show ?thesis using snap [of full] same full by (simp add: d Inr) blast
    qed (simp add: d)
  qed
  then show ?thesis unfolding recorded_def by blast
qed

lemma plan_fields:
  "delta_plan env w = (ps, present, sk, v) \<Longrightarrow> wkEngine v = wkEngine w \<and> wkFiles v = wkFiles w"
  by (auto simp: delta_plan_def markFullScanComplete_def Let_def split: if_splits)

lemma delta_capture_records:
  assumes run: "captureWorkspaceState env (Some Delta) None w = (c, w')" and good: "engine_good env U (wkEngine w)"
    and files: "files_in U (wkFiles w)"
  shows "wkFiles w' = wkFiles w \<and> engine_good env U (wkEngine w')
    \<and> (\<exists>os pf d m. wkEngine w' = (wkEngine w)\<lparr>egObjects := os, egDeletedFiles := d, egModifiedFiles := m, egPreviousFiles := pf\<rparr>)
    \<and> (\<forall>x \<in> set (crSnapshots c). js_trim (fsEncoding x) \<noteq> []
         \<and> (fsDeleted x = Some True \<and> fsChangeType x = Some Deleted \<or> recorded env w (egObjects (wkEngine w')) x))"
proof (cases "truthy (wk_path w)")
  case None
  then have c: "c = \<lparr>crSnapshots = [], crSkipped = [], crMode = Delta, crInventory = []\<rparr>" "w' = w"
    using run by (auto simp: captureWorkspaceState_def captureChangedFiles_def includes_files_def)
  have "\<exists>os pf d m. s = s\<lparr>egObjects := os, egDeletedFiles := d, egModifiedFiles := m, egPreviousFiles := pf\<rparr>" for s :: engine
    by (cases s) auto
  then show ?thesis using good by (simp add: c)
next
  case (Some ws)
  obtain ps present sk v where p: "delta_plan env w = (ps, present, sk, v)" by (metis prod.exhaust)
  obtain ss extra w2 where s: "snapshot_all (delta_worker env ws None) ps v = (ss, extra, w2)" by (metis prod.exhaust)
  note pf = plan_fields [OF p]
  have g: "grown env U v w2 \<and> (\<forall>x \<in> set ss. recorded env v (egObjects (wkEngine w2)) x)"
    by (rule delta_workers_grown [OF s]) (use good files pf in simp_all)
  then have gr: "grown env U v w2" by blast
  have rec: "recorded env v os x = recorded env w os x" for os x
    using pf by (simp add: recorded_def resolve_in_path [of v w env])
  define ss2 where "ss2 = ss @ watched_deletions env ws None w2 @ (case present of None \<Rightarrow> []
     | Some paths \<Rightarrow> inventory_deletions env ws None paths (ss @ watched_deletions env ws None w2) (sk @ extra) w2)"
  have c: "crSnapshots c = ss2" "w' = finish_capture ss2 w2"
    using run Some p s
    by (auto simp: captureWorkspaceState_def captureChangedFiles_def includes_files_def trivial_filter Let_def ss2_def)
  note f = grown_fields [OF gr]
  have "fsDeleted x = Some True \<and> fsChangeType x = Some Deleted \<and> fsEncoding x = ''utf8''" if "x \<in> set ss2" "x \<notin> set ss" for x
    using that by (auto simp: ss2_def watched_deletions_def inventory_deletions_def split: option.splits)
  then have "\<forall>x \<in> set ss2. js_trim (fsEncoding x) \<noteq> [] \<and> (fsDeleted x = Some True \<and> fsChangeType x = Some Deleted
      \<or> recorded env w (egObjects (wkEngine w2)) x)"
    using g utf8_named recorded_named unfolding rec by metis
  moreover have "egObjects (wkEngine w') = egObjects (wkEngine w2)" by (simp add: c(2) finish_capture_def on_engine_def)
  moreover have "engine_good env U (wkEngine w2)" by (rule grown_good [OF gr]) (simp add: pf good)
  then have "engine_good env U (wkEngine w')" by (simp add: c(2) finish_capture_def on_engine_def)
  moreover have "wkEngine w2 = (wkEngine w)\<lparr>egObjects := egObjects (wkEngine w2)\<rparr>" using f pf by simp
  then have "\<exists>os pf d m. wkEngine w' = (wkEngine w)\<lparr>egObjects := os, egDeletedFiles := d, egModifiedFiles := m, egPreviousFiles := pf\<rparr>"
    unfolding c(2) finish_capture_def on_engine_def by (cases "wkEngine w"; cases "wkEngine w2") auto
  moreover have "wkFiles w' = wkFiles w" using f pf by (simp add: c(2) finish_capture_def on_engine_def)
  ultimately show ?thesis by (simp add: c(1))
qed

end
