(* ===== verification/StashFacts.thy ===== *)
theory StashFacts
  imports Stash CaptureFacts
begin

text \<open>
  What the stash does to the working tree: an applied entry is the three-way merge of the entry with
  the files on the disk, and a pushed entry keeps the contents of every captured file.
\<close>

section \<open>Writing a merged tree\<close>

definition disk_hash :: "'a work_env_scheme \<Rightarrow> work \<Rightarrow> string \<Rightarrow> string" where
  "disk_hash env w full = (case jm_get (wkFiles w) full of None \<Rightarrow> [] | Some f \<Rightarrow> hashBlobBytes env (dfBytes f))"

text \<open>Paths that the sandbox accepts as they are, none the temporary file of another.\<close>

definition safe_paths :: "'a work_env_scheme \<Rightarrow> work \<Rightarrow> string list \<Rightarrow> bool" where
  "safe_paths env w ps \<longleftrightarrow> (\<forall>p \<in> set ps. clean_path p \<and> \<not> isl (resolve_in env w p) \<and> p @ RESTORE_TMP_SUFFIX \<notin> set ps)"

lemma safe_resolve:
  assumes "safe_paths env w ps" and "p \<in> set ps" and "root_of env w = Some rt"
  shows "resolve_in env w p = Inr (beneath rt p)"
proof -
  obtain full where "resolve_in env w p = Inr full" using assms by (auto simp: safe_paths_def isl_def split: sum.splits) (metis sum.exhaust)
  then show ?thesis using resolve_clean [of env w p full rt] assms by (auto simp: safe_paths_def)
qed

lemma resolve_in_cong: "wkEngine w' = wkEngine w \<Longrightarrow> resolve_in env w' = resolve_in env w"
  by (simp add: resolve_in_def fun_eq_iff)

lemma safe_paths_cong: "wkEngine w' = wkEngine w \<Longrightarrow> safe_paths env w' = safe_paths env w"
  by (simp add: safe_paths_def fun_eq_iff resolve_in_cong [of w' w env])

lemma safe_paths_subset: "safe_paths env w ps \<Longrightarrow> set qs \<subseteq> set ps \<Longrightarrow> safe_paths env w qs"
  by (auto simp: safe_paths_def)

lemma data_hash:
  "snapshot_data env s x = Inr b \<Longrightarrow> truthy (fsHash x) = Some h \<Longrightarrow> hashBlobBytes env b = h"
  by (auto simp: snapshot_data_def getBlob_def split: sum.splits if_splits)

text \<open>What an operation leaves alone: the engine, and every file that is not one of the paths or its temporary file.\<close>

definition writes_only :: "string \<Rightarrow> string set \<Rightarrow> work \<Rightarrow> work \<Rightarrow> bool" where
  "writes_only rt ps w w' \<longleftrightarrow> wkEngine w' = wkEngine w
     \<and> (\<forall>k. k \<notin> \<Union> (touches rt ` ps) \<longrightarrow> jm_get (wkFiles w') k = jm_get (wkFiles w) k)"

lemma writes_only_refl [simp]: "writes_only rt ps w w"
  by (simp add: writes_only_def)

lemma writes_only_trans: "writes_only rt ps w v \<Longrightarrow> writes_only rt ps v u \<Longrightarrow> writes_only rt ps w u"
  by (simp add: writes_only_def)

lemma writes_only_mono: "writes_only rt ps w v \<Longrightarrow> ps \<subseteq> qs \<Longrightarrow> writes_only rt qs w v"
  by (auto simp: writes_only_def)

lemma writes_only_get: "writes_only rt ps w v \<Longrightarrow> k \<notin> \<Union> (touches rt ` ps) \<Longrightarrow> jm_get (wkFiles v) k = jm_get (wkFiles w) k"
  by (simp add: writes_only_def)

lemma write_only:
  assumes "writeSnapshotContent env x w = (e, w')" and "resolve_in env w (fsRelativePath x) = Inr (beneath rt (fsRelativePath x))"
  shows "writes_only rt {fsRelativePath x} w w'"
  using assms
  by (auto simp: writeSnapshotContent_def writes_only_def touches_def removeRestoreTempFile_def restoreTempPath_def beneath_append
      split: sum.splits option.splits if_splits)

lemma write_all_only:
  assumes "write_all env xs w = (e, w')" and "safe_paths env w ps" and "fsRelativePath ` set xs \<subseteq> set ps" and "root_of env w = Some rt"
  shows "writes_only rt (set ps) w w'"
  using assms
proof (induction xs arbitrary: w)
  case (Cons x xs)
  obtain d w1 where s: "writeSnapshotContent env x w = (d, w1)" by (cases "writeSnapshotContent env x w")
  have "resolve_in env w (fsRelativePath x) = Inr (beneath rt (fsRelativePath x))"
    using safe_resolve [OF Cons.prems(2) _ Cons.prems(4)] Cons.prems(3) by simp
  from write_only [OF s this] have o: "writes_only rt (set ps) w w1" by (rule writes_only_mono) (use Cons.prems(3) in auto)
  then have eng: "wkEngine w1 = wkEngine w" by (simp add: writes_only_def)
  show ?case
  proof (cases d)
    case None
    then have "write_all env xs w1 = (e, w')" using Cons.prems(1) s by simp
    from Cons.IH [OF this, unfolded safe_paths_cong [OF eng] root_of_engine [OF eng]] show ?thesis
      using o Cons.prems by (auto intro: writes_only_trans [OF o])
  qed (use Cons.prems(1) s o in simp)
qed simp

lemma write_all_effect:
  assumes "write_all env xs w = (None, w')" and "safe_paths env w (map fsRelativePath xs)" and "root_of env w = Some rt"
    and "distinct (map fsRelativePath xs)" and "x \<in> set xs" and "truthy (fsHash x) = Some h"
  shows "disk_hash env w' (beneath rt (fsRelativePath x)) = h \<and> jm_get (wkFiles w') (beneath rt (fsRelativePath x)) \<noteq> None"
  using assms
proof (induction xs arbitrary: w)
  case (Cons y ys)
  obtain w1 where s: "writeSnapshotContent env y w = (None, w1)" "write_all env ys w1 = (None, w')"
    using Cons.prems(1) by (auto split: prod.splits option.splits)
  have ry: "resolve_in env w (fsRelativePath y) = Inr (beneath rt (fsRelativePath y))"
    by (rule safe_resolve [OF Cons.prems(2) _ Cons.prems(3)]) simp
  have eng: "wkEngine w1 = wkEngine w" using write_only [OF s(1) ry] by (simp add: writes_only_def)
  have safe: "safe_paths env w1 (map fsRelativePath ys)"
    unfolding safe_paths_cong [OF eng] by (rule safe_paths_subset [OF Cons.prems(2)]) auto
  have root: "root_of env w1 = Some rt" using root_of_engine [OF eng, of env] Cons.prems(3) by simp
  show ?case
  proof (cases "x = y")
    case True
    obtain full b where b: "resolve_in env w (fsRelativePath y) = Inr full" "snapshot_data env (wkEngine w) y = Inr b"
      "w1 = w\<lparr>wkFiles := jm_set full \<lparr>dfBytes = b, dfMtime = egNow (wkEngine w)\<rparr> (jm_del (restoreTempPath full) (wkFiles w))\<rparr>"
      using write_effect [OF s(1)] by metis
    have "beneath rt (fsRelativePath y) \<notin> \<Union> (touches rt ` set (map fsRelativePath ys))"
      using Cons.prems(2,4) by (auto simp: touches_def safe_paths_def)
    with write_all_only [OF s(2) safe _ root]
    have "jm_get (wkFiles w') (beneath rt (fsRelativePath y)) = jm_get (wkFiles w1) (beneath rt (fsRelativePath y))"
      by (intro writes_only_get) auto
    then show ?thesis
      using True b ry data_hash [OF b(2), of h] Cons.prems(6) by (simp add: disk_hash_def)
  next
    case False
    then show ?thesis using Cons.IH [OF s(2) safe root] Cons.prems(4-6) by auto
  qed
qed simp

definition unlink_ok :: "'a work_env_scheme \<Rightarrow> bool" where
  "unlink_ok env \<longleftrightarrow> (\<forall>p. weUnlinkError env p \<noteq> Some ''ENOENT'')"

lemma unlink_all_only:
  assumes "unlink_all env ps w = (r, w')" and "safe_paths env w qs" and "set ps \<subseteq> set qs" and "root_of env w = Some rt"
  shows "writes_only rt (set qs) w w' \<and> (\<forall>k. jm_get (wkFiles w) k = None \<longrightarrow> jm_get (wkFiles w') k = None)
    \<and> (\<forall>k. k \<notin> beneath rt ` set ps \<longrightarrow> jm_get (wkFiles w') k = jm_get (wkFiles w) k)"
  using assms
proof (induction ps arbitrary: w r w')
  case (Cons p ps)
  have full: "resolve_in env w p = Inr (beneath rt p)" by (rule safe_resolve [OF Cons.prems(2) _ Cons.prems(4)]) (use Cons.prems(3) in simp)
  obtain e w1 where u: "unlink_file env (beneath rt p) w = (e, w1)" by (cases "unlink_file env (beneath rt p) w")
  have w1: "w1 = w \<or> w1 = w\<lparr>wkFiles := jm_del (beneath rt p) (wkFiles w)\<rparr>"
    using u by (auto simp: unlink_file_def split: option.splits if_splits)
  then have eng: "wkEngine w1 = wkEngine w" by auto
  have o: "writes_only rt (set qs) w w1" using w1 Cons.prems(3) by (auto simp: writes_only_def touches_def)
  obtain r2 w2 where n: "unlink_all env ps w1 = (r2, w2)" by (cases "unlink_all env ps w1")
  have safe1: "safe_paths env w1 qs" and root1: "root_of env w1 = Some rt"
    using Cons.prems(2,4) by (simp_all add: safe_paths_cong [OF eng] root_of_engine [OF eng])
  note IH = Cons.IH [OF n safe1 _ root1]
  have "w' = w1 \<or> w' = w2" using Cons.prems(1) by (auto simp: full u n split: option.splits if_splits sum.splits)
  then show ?case using w1 o IH Cons.prems(3) writes_only_trans [OF o] by auto
qed simp

lemma unlink_all_effect:
  assumes "unlink_all env ps w = (Inr removed, w')" and "safe_paths env w ps" and "root_of env w = Some rt" and "unlink_ok env" and "p \<in> set ps"
  shows "jm_get (wkFiles w') (beneath rt p) = None"
  using assms
proof (induction ps arbitrary: w removed)
  case (Cons q ps)
  have full: "resolve_in env w q = Inr (beneath rt q)" by (rule safe_resolve [OF Cons.prems(2) _ Cons.prems(3)]) simp
  obtain e w1 where u: "unlink_file env (beneath rt q) w = (e, w1)" by (cases "unlink_file env (beneath rt q) w")
  obtain r2 where n: "unlink_all env ps w1 = (Inr r2, w')" and e: "e = None \<or> e = Some ''ENOENT''"
    using Cons.prems(1) by (auto simp: full u split: option.splits if_splits sum.splits prod.splits)
  have gone: "jm_get (wkFiles w1) (beneath rt q) = None"
    using u e Cons.prems(4) by (auto simp: unlink_file_def unlink_ok_def split: option.splits if_splits)
  have eng: "wkEngine w1 = wkEngine w" using u by (auto simp: unlink_file_def split: option.splits if_splits)
  have safe: "safe_paths env w1 ps" unfolding safe_paths_cong [OF eng] by (rule safe_paths_subset [OF Cons.prems(2)]) auto
  have root: "root_of env w1 = Some rt" using root_of_engine [OF eng, of env] Cons.prems(3) by simp
  show ?case
  proof (cases "p \<in> set ps")
    case True
    then show ?thesis using Cons.IH [OF n safe root Cons.prems(4)] by blast
  next
    case False
    then show ?thesis using gone unlink_all_only [OF n safe _ root] Cons.prems(5) by auto
  qed
qed simp

section \<open>Applying a merged tree\<close>

lemma wanted_write_Some:
  "wanted_write now merged p = Some x \<Longrightarrow> fsRelativePath x = p \<and> truthy (fsHash x) = Some (hashKey (jm_get merged p))"
  by (auto simp: wanted_write_def state_snapshot_def hashKey_def truthy_Some_iff split: option.splits if_splits)

lemma wanted_write_None: "wanted_write now merged p = None \<longleftrightarrow> hashKey (jm_get merged p) = []"
  by (auto simp: wanted_write_def hashKey_def truthy_None_iff split: option.splits if_splits)

lemma wanted_paths: "map fsRelativePath (List.map_filter (wanted_write now merged) ps) = filter (\<lambda>p. wanted_write now merged p \<noteq> None) ps"
  by (induction ps) (auto simp: List.map_filter_simps dest: wanted_write_Some split: option.split)

lemma apply_only:
  assumes "applyMergedPaths env merged ps w = (r, w')" and "safe_paths env w ps" and "root_of env w = Some rt"
  shows "writes_only rt (set ps) w w'"
proof -
  let ?now = "egNow (wkEngine w)" and ?ps = "sorted_set ps"
  let ?writes = "List.map_filter (wanted_write ?now merged) ?ps" and ?deletes = "filter (\<lambda>p. wanted_write ?now merged p = None) ?ps"
  obtain e w1 where wr: "write_all env ?writes w = (e, w1)" by (cases "write_all env ?writes w")
  have "set (map fsRelativePath ?writes) \<subseteq> set ps" unfolding wanted_paths by auto
  then have o: "writes_only rt (set ps) w w1" by (intro write_all_only [OF wr assms(2) _ assms(3)]) simp
  then have eng: "wkEngine w1 = wkEngine w" by (simp add: writes_only_def)
  obtain r2 w2 where un: "unlink_all env ?deletes w1 = (r2, w2)" by (cases "unlink_all env ?deletes w1")
  have safe1: "safe_paths env w1 ps" and root1: "root_of env w1 = Some rt"
    using assms(2,3) by (simp_all add: safe_paths_cong [OF eng] root_of_engine [OF eng])
  have "writes_only rt (set ps) w1 w2" using unlink_all_only [OF un safe1 _ root1] by auto
  then have "writes_only rt (set ps) w w2" by (rule writes_only_trans [OF o])
  then show ?thesis using assms(1) o wr un by (auto simp: applyMergedPaths_def Let_def split: sum.splits option.splits)
qed

lemma apply_effect:
  assumes "applyMergedPaths env merged ps w = (Inr r, w')" and "safe_paths env w ps" and "root_of env w = Some rt"
    and "unlink_ok env" and "p \<in> set ps"
  shows "disk_hash env w' (beneath rt p) = hashKey (jm_get merged p)
    \<and> (jm_get (wkFiles w') (beneath rt p) = None \<longleftrightarrow> hashKey (jm_get merged p) = [])"
proof -
  let ?now = "egNow (wkEngine w)" and ?ps = "sorted_set ps"
  let ?writes = "List.map_filter (wanted_write ?now merged) ?ps" and ?deletes = "filter (\<lambda>p. wanted_write ?now merged p = None) ?ps"
  obtain w1 removed where wr: "write_all env ?writes w = (None, w1)" and un: "unlink_all env ?deletes w1 = (Inr removed, w')"
    using assms(1) by (auto simp: applyMergedPaths_def Let_def split: sum.splits option.splits prod.splits)
  have sub: "set (map fsRelativePath ?writes) \<subseteq> set ps" unfolding wanted_paths by auto
  have dist: "distinct (map fsRelativePath ?writes)" unfolding wanted_paths by simp
  have o: "writes_only rt (set ps) w w1" by (intro write_all_only [OF wr assms(2) _ assms(3)]) (use sub in simp)
  then have eng: "wkEngine w1 = wkEngine w" by (simp add: writes_only_def)
  have safe: "safe_paths env w1 ?deletes" unfolding safe_paths_cong [OF eng] by (rule safe_paths_subset [OF assms(2)]) auto
  have root: "root_of env w1 = Some rt" using root_of_engine [OF eng, of env] assms(3) by simp
  show ?thesis
  proof (cases "wanted_write ?now merged p")
    case None
    then have "p \<in> set ?deletes" using assms(5) by simp
    then show ?thesis
      using unlink_all_effect [OF un safe root assms(4)] None wanted_write_None [of ?now merged p] by (simp add: disk_hash_def)
  next
    case (Some x)
    then have x: "x \<in> set ?writes" using assms(5) by (force simp: in_map_filter)
    note s = wanted_write_Some [OF Some]
    have e: "disk_hash env w1 (beneath rt p) = hashKey (jm_get merged p)" "jm_get (wkFiles w1) (beneath rt p) \<noteq> None"
      using write_all_effect [OF wr safe_paths_subset [OF assms(2) sub] assms(3) dist x] s by auto
    have "beneath rt p \<notin> beneath rt ` set ?deletes" using Some by auto
    then have "jm_get (wkFiles w') (beneath rt p) = jm_get (wkFiles w1) (beneath rt p)" using unlink_all_only [OF un safe _ root] by auto
    then show ?thesis using e Some wanted_write_None [of ?now merged p] by (simp add: disk_hash_def)
  qed
qed

section \<open>Applying an entry\<close>

text \<open>The hash that an entry asks for at a path: that of its last snapshot of the path, none for a deletion.\<close>

definition stashed_hash :: "file_snapshot list \<Rightarrow> string \<Rightarrow> string" where
  "stashed_hash ss p =
     (case find (\<lambda>x. fsRelativePath x = p) (rev ss) of
        None \<Rightarrow> [] | Some x \<Rightarrow> if snapshotIsDeleted x then [] else or_default (fsHash x) [])"

definition live_hash :: "'a work_env_scheme \<Rightarrow> work \<Rightarrow> string \<Rightarrow> string" where
  "live_hash env w p = hashKey (workspaceHashState env w p)"

lemma stashTheirsState_snoc:
  "stashTheirsState base (ss @ [x]) =
     (if snapshotIsDeleted x then jm_del (fsRelativePath x) (stashTheirsState base ss)
      else jm_set (fsRelativePath x) (snapshotToHashState x) (stashTheirsState base ss))"
  by (simp add: stashTheirsState_def snapshotToHashState_def Let_def)

lemma theirs_hash:
  "p \<in> fsRelativePath ` set ss \<Longrightarrow> hashKey (jm_get (stashTheirsState base ss) p) = stashed_hash ss p"
proof (induction ss rule: rev_induct)
  case (snoc x ss)
  show ?case
  proof (cases "fsRelativePath x = p")
    case True
    then show ?thesis by (simp add: stashTheirsState_snoc stashed_hash_def hashKey_def snapshotToHashState_def Let_def)
  next
    case False
    then have "p \<in> fsRelativePath ` set ss" using snoc.prems by auto
    with snoc.IH False show ?thesis by (simp add: stashTheirsState_snoc stashed_hash_def)
  qed
qed simp

lemma gather_get:
  "jm_get (fold (\<lambda>p acc. case f p of None \<Rightarrow> acc | Some st \<Rightarrow> jm_set p st acc) ps m) p
     = (if p \<in> set ps \<and> f p \<noteq> None then f p else jm_get m p)"
  by (induction ps arbitrary: m) (auto split: option.split)

lemma scoped_get: "jm_get (scoped m ps) p = (if p \<in> set ps then jm_get m p else None)"
  by (auto simp: scoped_def gather_get)

lemma live_states_get: "jm_get (live_states env w ps) p = (if p \<in> set ps then workspaceHashState env w p else None)"
  by (auto simp: live_states_def gather_get)

definition clashes :: "string \<Rightarrow> string \<Rightarrow> string \<Rightarrow> bool" where
  "clashes base source target \<longleftrightarrow> source \<noteq> target \<and> source \<noteq> base \<and> target \<noteq> base"

lemma stash_merge_result:
  assumes "stash_merge env base e w = (merged, conflicts)" and "p \<in> fsRelativePath ` set (seFileSnapshots e)"
  shows "(p \<in> mcPath ` set conflicts \<longleftrightarrow> clashes (hashKey (jm_get base p)) (stashed_hash (seFileSnapshots e) p) (live_hash env w p))
    \<and> (p \<notin> mcPath ` set conflicts \<longrightarrow> hashKey (jm_get merged p) =
         (if stashed_hash (seFileSnapshots e) p = hashKey (jm_get base p) then live_hash env w p
          else stashed_hash (seFileSnapshots e) p))"
proof -
  let ?ss = "seFileSnapshots e"
  define ps where "ps = set_of (map fsRelativePath ?ss)"
  let ?b = "scoped base ps" and ?s = "scoped (stashTheirsState base ?ss) ps" and ?t = "scoped (live_states env w ps) ps"
  have m: "threeWayMergeHashes ?b ?s ?t = (merged, conflicts)" using assms(1) by (simp add: stash_merge_def Let_def ps_def)
  have p: "p \<in> set ps" using assms(2) by (simp add: ps_def)
  have k: "hashKey (jm_get ?s p) = stashed_hash ?ss p" "hashKey (jm_get ?t p) = live_hash env w p" "jm_get ?b p = jm_get base p"
    using p theirs_hash [OF assms(2), of base] by (simp_all add: scoped_get live_states_get live_hash_def)
  have c: "p \<in> mcPath ` set conflicts \<longleftrightarrow> merge_choice (jm_get ?b p) (jm_get ?s p) (jm_get ?t p) = None"
    using conflict_path_iff [of p ?b ?s ?t] m by simp
  have g: "jm_get merged p = (case merge_choice (jm_get ?b p) (jm_get ?s p) (jm_get ?t p) of Some v \<Rightarrow> v | None \<Rightarrow> None)"
    using merged_get [of ?b ?s ?t p] m by simp
  show ?thesis
  proof (cases "merge_choice (jm_get ?b p) (jm_get ?s p) (jm_get ?t p)")
    case None
    then show ?thesis using c k by (simp add: merge_choice_None_iff clashes_def)
  next
    case (Some v)
    then have "\<not> clashes (hashKey (jm_get base p)) (stashed_hash ?ss p) (live_hash env w p)"
      using k merge_choice_None_iff [of "jm_get ?b p" "jm_get ?s p" "jm_get ?t p"] by (auto simp: clashes_def)
    then show ?thesis using Some c g k merge_choice_Some_key [OF Some] by simp
  qed
qed

lemma stash_conflicts_scope:
  assumes "stash_merge env base e w = (merged, conflicts)" and "p \<in> mcPath ` set conflicts"
  shows "p \<in> fsRelativePath ` set (seFileSnapshots e)"
proof -
  define ps where "ps = set_of (map fsRelativePath (seFileSnapshots e))"
  let ?b = "scoped base ps" and ?s = "scoped (stashTheirsState base (seFileSnapshots e)) ps" and ?t = "scoped (live_states env w ps) ps"
  have "merge_choice (jm_get ?b p) (jm_get ?s p) (jm_get ?t p) = None"
    using conflict_path_iff [of p ?b ?s ?t] assms by (simp add: stash_merge_def Let_def ps_def)
  then have "p \<in> set ps" using merge_choice_absent by (auto simp: scoped_get split: if_splits)
  then show ?thesis by (simp add: ps_def)
qed

text \<open>What the merge of an entry comes to at a path, and the paths where it cannot be decided.\<close>

definition stash_clashes :: "'a work_env_scheme \<Rightarrow> hash_map \<Rightarrow> stash_entry \<Rightarrow> work \<Rightarrow> string set" where
  "stash_clashes env base e w = {p \<in> fsRelativePath ` set (seFileSnapshots e).
     clashes (hashKey (jm_get base p)) (stashed_hash (seFileSnapshots e) p) (live_hash env w p)}"

definition stash_result :: "'a work_env_scheme \<Rightarrow> hash_map \<Rightarrow> stash_entry \<Rightarrow> work \<Rightarrow> string \<Rightarrow> string" where
  "stash_result env base e w p =
     (if stashed_hash (seFileSnapshots e) p = hashKey (jm_get base p) then live_hash env w p
      else stashed_hash (seFileSnapshots e) p)"

text \<open>
  C11 (functional): applying a stash entry is the three-way merge of the entry with the files on the disk.
  When a path was changed both by the entry and in the working tree, to different contents, the entry is
  refused, exactly these paths are reported and no file is touched. Otherwise a success leaves at every
  path of the entry the contents of the side that changed it, or no file when that side deleted it; and
  in every outcome only the paths of the entry (and their temporary files) are touched.
\<close>

theorem stashApply_three_way:
  assumes run: "stashApply env i w = (r, w')" and entry: "ready w" "select_stash i (loadStashIndex w) = Some e"
    and base: "stash_base env w e = Some base" and root: "root_of env w = Some rt"
    and safe: "safe_paths env w (map fsRelativePath (seFileSnapshots e))" and un: "unlink_ok env"
  shows "(if stash_clashes env base e w \<noteq> {}
        then wkFiles w' = wkFiles w \<and> (\<exists>res. r = Inr res \<and> \<not> saSuccess res \<and> set (saConflicts res) = stash_clashes env base e w)
        else (\<forall>res. r = Inr res \<longrightarrow> saSuccess res \<and> (\<forall>p \<in> fsRelativePath ` set (seFileSnapshots e).
                disk_hash env w' (beneath rt p) = stash_result env base e w p
                \<and> (jm_get (wkFiles w') (beneath rt p) = None \<longleftrightarrow> stash_result env base e w p = []))))
    \<and> (\<forall>k. k \<notin> \<Union> (touches rt ` fsRelativePath ` set (seFileSnapshots e)) \<longrightarrow> jm_get (wkFiles w') k = jm_get (wkFiles w) k)"
proof -
  let ?ss = "seFileSnapshots e"
  let ?ps = "fsRelativePath ` set ?ss"
  obtain merged conflicts where m: "stash_merge env base e w = (merged, conflicts)" by (cases "stash_merge env base e w")
  note res = stash_merge_result [OF m]
  have cs: "mcPath ` set conflicts = stash_clashes env base e w"
    using res stash_conflicts_scope [OF m] unfolding stash_clashes_def by blast
  show ?thesis
  proof (cases "conflicts = []")
    case False
    then have "(r, w') = (Inr (apply_failed (Some (seId e)) (map mcPath conflicts) None),
        on_engine (append_audit ''stash'' (Some (seId e)) False) w)"
      using run entry base m by (simp add: stashApply_def)
    then show ?thesis using False by (auto simp: cs [symmetric] apply_failed_def on_engine_def)
  next
    case True
    then have none: "stash_clashes env base e w = {}" using cs by simp
    obtain a w1 where ap: "applyMergedPaths env merged (map fsRelativePath ?ss) w = (a, w1)" by (metis prod.exhaust)
    note o = apply_only [OF ap safe root]
    have w': "wkFiles w' = wkFiles w1" "\<And>x. r = Inr x \<Longrightarrow> (\<exists>b. a = Inr b) \<and> saSuccess x"
      using run entry base m True ap by (auto simp: stashApply_def on_engine_def split: sum.splits)
    have files: "disk_hash env w' k = disk_hash env w1 k" for k by (simp add: disk_hash_def w')
    have "\<forall>k. k \<notin> \<Union> (touches rt ` ?ps) \<longrightarrow> jm_get (wkFiles w') k = jm_get (wkFiles w) k"
      using o w' by (simp add: writes_only_def)
    moreover have "saSuccess x \<and> (\<forall>p \<in> ?ps. disk_hash env w' (beneath rt p) = stash_result env base e w p
        \<and> (jm_get (wkFiles w') (beneath rt p) = None \<longleftrightarrow> stash_result env base e w p = []))" if rx: "r = Inr x" for x
    proof -
      obtain b where b: "a = Inr b" using w'(2) [OF rx] by blast
      have "hashKey (jm_get merged p) = stash_result env base e w p" if pin: "p \<in> ?ps" for p
        using res [OF pin] True by (simp add: stash_result_def)
      then show ?thesis using apply_effect [OF ap [unfolded b] safe root un] w'(2) [OF rx] by (simp add: files w'(1))
    qed
    ultimately show ?thesis using none by simp
  qed
qed

section \<open>A sample stash\<close>

definition sample_entry :: stash_entry where
  "sample_entry =
     \<lparr>seId = ''st_1'', seMessage = None, seCreatedAt = 2, seBaseCheckpointId = Some ''cp_1'', seBranchId = None,
      seFileSnapshots = [stored ''a.ts'' ''y'', (stored ''b.ts'' ''y'')\<lparr>fsDeleted := Some True, fsChangeType := Some Deleted\<rparr>],
      seSkippedFiles = None\<rparr>"

definition sample_stashed :: work where
  "sample_stashed = sample_work\<lparr>wkEngine := (wkEngine sample_work)\<lparr>egStash := Some [sample_entry]\<rparr>,
     wkFiles := [(''/w/a.ts'', file_of ''x''), (''/w/b.ts'', file_of ''y'')]\<rparr>"

theorem stashApply_three_way_witness:
  "let w' = snd (stashApply sample_work_env None sample_stashed)
   in disk_hash sample_work_env w' ''/w/a.ts'' = sample_hash ''y'' \<and> jm_get (wkFiles w') ''/w/b.ts'' = None"
proof -
  let ?env = sample_work_env and ?w = sample_stashed
  have "case fst (stashApply ?env None ?w) of Inl _ \<Rightarrow> False | Inr r \<Rightarrow> saSuccess r" by code_simp
  then obtain x w' where run: "stashApply ?env None ?w = (Inr x, w')" "saSuccess x"
    by (cases "stashApply ?env None ?w") (auto split: sum.splits)
  have e: "ready ?w" "select_stash None (loadStashIndex ?w) = Some sample_entry" by code_simp+
  have "case stash_base ?env ?w sample_entry of None \<Rightarrow> False | Some b \<Rightarrow>
      hashKey (jm_get b ''a.ts'') = sample_hash ''x'' \<and> hashKey (jm_get b ''b.ts'') = sample_hash ''y''" by code_simp
  then obtain b where b: "stash_base ?env ?w sample_entry = Some b"
    "hashKey (jm_get b ''a.ts'') = sample_hash ''x''" "hashKey (jm_get b ''b.ts'') = sample_hash ''y''"
    by (auto split: option.splits)
  have m: "root_of ?env ?w = Some ''/w''" "safe_paths ?env ?w (map fsRelativePath (seFileSnapshots sample_entry))" by code_simp+
  have un: "unlink_ok ?env" by (simp add: unlink_ok_def sample_work_env_def engine_env.extend_def)
  have ps: "fsRelativePath ` set (seFileSnapshots sample_entry) = {''a.ts'', ''b.ts''}" by code_simp
  have ks: "stashed_hash (seFileSnapshots sample_entry) ''a.ts'' = sample_hash ''y''"
    "stashed_hash (seFileSnapshots sample_entry) ''b.ts'' = []" by code_simp+
  have ko: "live_hash ?env ?w ''a.ts'' = sample_hash ''x''" "live_hash ?env ?w ''b.ts'' = sample_hash ''y''" by code_simp+
  have f: "beneath ''/w'' ''a.ts'' = ''/w/a.ts''" "beneath ''/w'' ''b.ts'' = ''/w/b.ts''"
    "sample_hash ''y'' \<noteq> sample_hash ''x''" "sample_hash ''y'' \<noteq> []" by code_simp+
  have "stash_clashes ?env b sample_entry ?w = {}" using b ks ko by (auto simp: stash_clashes_def ps clashes_def)
  moreover have "stash_result ?env b sample_entry ?w ''a.ts'' = sample_hash ''y''" "stash_result ?env b sample_entry ?w ''b.ts'' = []"
    using b ks f by (simp_all add: stash_result_def)
  ultimately show ?thesis
    using stashApply_three_way [OF run(1) e b(1) m un] run(1) f unfolding ps by (simp add: Let_def)
qed

section \<open>The stored stack\<close>

text \<open>Entries as \<open>stashPush\<close> builds them and \<open>parseEntry\<close> returns them.\<close>

definition stored_snapshot_ok :: "file_snapshot \<Rightarrow> bool" where
  "stored_snapshot_ok x \<longleftrightarrow> js_trim (fsRelativePath x) \<noteq> [] \<and> js_trim (fsEncoding x) \<noteq> [] \<and> stashed_snapshot x = x
     \<and> (fsDeleted x = Some True \<and> fsChangeType x = Some Deleted
        \<or> fsDeleted x = None \<and> fsChangeType x \<in> {Some Created, Some Modified})"

definition unblank :: "string option \<Rightarrow> bool" where
  "unblank v \<longleftrightarrow> (\<forall>i. v = Some i \<longrightarrow> js_trim i \<noteq> [])"

definition entry_ok :: "stash_entry \<Rightarrow> bool" where
  "entry_ok e \<longleftrightarrow> starts_with (seId e) STASH_ID_PREFIX \<and> unblank (seMessage e) \<and> map_option js_trim (seMessage e) = seMessage e
     \<and> unblank (seBaseCheckpointId e) \<and> unblank (seBranchId e) \<and> list_all stored_snapshot_ok (seFileSnapshots e)
     \<and> seSkippedFiles e \<noteq> Some []"

definition dates_ok :: "'a engine_env_scheme \<Rightarrow> bool" where
  "dates_ok env \<longleftrightarrow> (\<forall>t. eeParseDate env (eeIso env t) = Some t)"

lemma jopt_fields [simp]:
  "map_of (jopt k v @ rest) k' = (if k = k' \<and> v \<noteq> None then map_option JStr v else map_of rest k')"
  "map_of (jopt k v) k' = (if k = k' then map_option JStr v else None)"
  by (auto simp: jopt_def split: option.split)

lemma jnonblank_opt: "unblank v \<Longrightarrow> jnonblank (map_option JStr v) = v"
  by (cases v) (auto simp: unblank_def jnonblank_def)

lemma jstring_opt [simp]: "jstring (map_option JStr v) = v"
  by (cases v) auto

lemma snapshot_fields:
  "jfield (serializeSnapshot toISO x) ''relativePath'' = Some (JStr (fsRelativePath x))"
  "jfield (serializeSnapshot toISO x) ''hash'' = map_option JStr (fsHash x)"
  "jfield (serializeSnapshot toISO x) ''encoding'' = Some (JStr (fsEncoding x))"
  "jfield (serializeSnapshot toISO x) ''lastModified'' = Some (JStr (toISO (fsLastModified x)))"
  "jfield (serializeSnapshot toISO x) ''size'' = Some (JNum (int (fsSize x)))"
  "jfield (serializeSnapshot toISO x) ''deleted'' = map_option JBool (fsDeleted x)"
  "jfield (serializeSnapshot toISO x) ''changeType'' = map_option (\<lambda>t. JStr (change_name t)) (fsChangeType x)"
  by (cases "fsHash x"; cases "fsDeleted x"; cases "fsChangeType x"; simp add: serializeSnapshot_def del: map_of_append)+

lemma entry_fields:
  "jfield (serializeEntry toISO e) ''id'' = Some (JStr (seId e))"
  "jfield (serializeEntry toISO e) ''message'' = map_option JStr (seMessage e)"
  "jfield (serializeEntry toISO e) ''createdAt'' = Some (JStr (toISO (seCreatedAt e)))"
  "jfield (serializeEntry toISO e) ''baseCheckpointId'' = map_option JStr (seBaseCheckpointId e)"
  "jfield (serializeEntry toISO e) ''branchId'' = map_option JStr (seBranchId e)"
  "jfield (serializeEntry toISO e) ''fileSnapshots'' = Some (JArr (map (serializeSnapshot toISO) (seFileSnapshots e)))"
  "jfield (serializeEntry toISO e) ''skippedFiles'' = map_option (\<lambda>xs. JArr (map skippedJson xs)) (seSkippedFiles e)"
  by (cases "seMessage e"; cases "seBaseCheckpointId e"; cases "seBranchId e"; cases "seSkippedFiles e";
      simp add: serializeEntry_def del: map_of_append)+

lemma change_names: "change_name t = ''deleted'' \<longleftrightarrow> t = Deleted" "change_name t = ''created'' \<longleftrightarrow> t = Created"
  "change_name t = ''modified'' \<longleftrightarrow> t = Modified"
  by (cases t; simp)+

lemma parse_snapshot_roundtrip:
  assumes x: "stored_snapshot_ok x" and d: "dparse (toISO (fsLastModified x)) = Some (fsLastModified x)"
  shows "parseSnapshot dparse now (serializeSnapshot toISO x) = Some x"
proof -
  obtain kvs where j: "serializeSnapshot toISO x = JObj kvs" by (simp add: serializeSnapshot_def)
  have e: "fsContent x = None" "fsRenamedFrom x = None" "fsCopiedFrom x = None"
    using x by (cases x; simp add: stored_snapshot_ok_def stashed_snapshot_def)+
  show ?thesis
    unfolding j parseSnapshot_def snapshot_fields [of toISO x, unfolded j] prod.case
    using x d e by (cases x) (auto simp: stored_snapshot_ok_def jnonblank_def parseDate_def change_names)
qed

lemma parse_skipped_roundtrip: "parseSkipped (skippedJson x) = Some x"
  by (cases x; cases "skReason x") (auto simp: parseSkipped_def skippedJson_def)

lemma parse_entry_roundtrip:
  assumes e: "entry_ok e" and d: "\<And>t. dparse (toISO t) = Some t"
  shows "parseEntry dparse now (serializeEntry toISO e) = Some e"
proof -
  obtain kvs where j: "serializeEntry toISO e = JObj kvs" by (simp add: serializeEntry_def)
  have xs: "List.map_filter (parseSnapshot dparse now) (map (serializeSnapshot toISO) (seFileSnapshots e)) = seFileSnapshots e"
    by (rule map_filter_all_Some) (use e d parse_snapshot_roundtrip in \<open>auto simp: entry_ok_def list_all_iff\<close>)
  have "List.map_filter parseSkipped (map skippedJson ys) = ys" for ys
    by (rule map_filter_all_Some) (simp add: parse_skipped_roundtrip)
  then have sk: "(case map_option (\<lambda>xs. JArr (map skippedJson xs)) (seSkippedFiles e) of
      Some (JArr xs) \<Rightarrow> nonempty_list (List.map_filter parseSkipped xs) | _ \<Rightarrow> None) = seSkippedFiles e"
    using e by (cases "seSkippedFiles e") (auto simp: entry_ok_def nonempty_list_def)
  have "parseEntry dparse now (serializeEntry toISO e) = Some \<lparr>seId = seId e, seMessage = map_option js_trim (seMessage e),
      seCreatedAt = seCreatedAt e, seBaseCheckpointId = seBaseCheckpointId e, seBranchId = seBranchId e,
      seFileSnapshots = seFileSnapshots e, seSkippedFiles = seSkippedFiles e\<rparr>"
    unfolding j parseEntry_def entry_fields [of toISO e, unfolded j] sk
    using e d by (simp add: entry_ok_def jnonblank_opt xs parseDate_def)
  then show ?thesis using e by (cases e) (simp add: entry_ok_def)
qed

lemma saved_stash:
  assumes "saveStashIndex env es w = (None, w')" and "list_all entry_ok es" and "dates_ok env"
  shows "w' = on_engine (\<lambda>s. s\<lparr>egStash := Some es\<rparr>) w"
proof -
  have "List.map_filter (parseEntry (eeParseDate env) (egNow (wkEngine w))) (map (serializeEntry (eeIso env)) es) = es"
    by (rule map_filter_all_Some) (use assms(2,3) parse_entry_roundtrip in \<open>auto simp: list_all_iff dates_ok_def\<close>)
  then show ?thesis using assms(1) by (auto simp: saveStashIndex_def on_engine_def split: option.splits)
qed

section \<open>A restore without a backup only loads\<close>

definition only_loads :: "engine \<Rightarrow> engine \<Rightarrow> bool" where
  "only_loads s t \<longleftrightarrow> (\<exists>l h. t = s\<lparr>egLastLoad := l, egHealthIssues := h\<rparr>)"

lemma only_loads_refl [simp]: "only_loads s s"
  by (cases s) (auto simp: only_loads_def)

lemma only_loads_trans: "only_loads s t \<Longrightarrow> only_loads t u \<Longrightarrow> only_loads s u"
  unfolding only_loads_def
proof (elim exE)
  fix l h l' h' assume "t = s\<lparr>egLastLoad := l, egHealthIssues := h\<rparr>" "u = t\<lparr>egLastLoad := l', egHealthIssues := h'\<rparr>"
  then have "u = s\<lparr>egLastLoad := l', egHealthIssues := h'\<rparr>" by simp
  then show "\<exists>l h. u = s\<lparr>egLastLoad := l, egHealthIssues := h\<rparr>" by blast
qed

lemma only_loads_load: "only_loads s (snd (loadCheckpointFromDisk env i s))"
proof -
  have l: "only_loads s (s\<lparr>egLastLoad := l\<rparr>)" and h: "only_loads s (recordHealthIssue k m io (s\<lparr>egLastLoad := l\<rparr>))" for l k m io
    by (cases s; auto simp: only_loads_def recordHealthIssue_def Let_def)+
  have hh: "only_loads s (recordHealthIssue k m io (s\<lparr>egLastLoad := l, egLastLoad := l'\<rparr>))" for l l' k m io
    by (cases s; auto simp: only_loads_def recordHealthIssue_def Let_def)
  show ?thesis
    using l h hh by (auto simp: loadCheckpointFromDisk_def Let_def split: load_result.split sum.split engine_error.split blob_error.split)
qed

lemma only_loads_chain: "only_loads s (snd (load_chain env cs s))"
proof (induction cs arbitrary: s)
  case (Cons c cs)
  obtain r s1 where l: "loadCheckpointFromDisk env (cpId c) s = (r, s1)" by (cases "loadCheckpointFromDisk env (cpId c) s")
  have r1: "only_loads s s1" using only_loads_load [of s env "cpId c"] by (simp add: l)
  have "only_loads s (snd (load_chain env cs s1))" by (rule only_loads_trans [OF r1 Cons.IH])
  then show ?case using r1 by (cases r) (auto simp: l split: prod.split sum.split option.split)
qed simp

lemma only_loads_reconstruct: "only_loads s (snd (reconstructStateAtCheckpoint env i s))"
  using only_loads_chain [of s env] by (auto simp: reconstructStateAtCheckpoint_def split: option.split prod.split sum.split) (metis snd_conv)+

lemma write_engine: "writeSnapshotContent env x w = (e, w') \<Longrightarrow> wkEngine w' = wkEngine w"
  by (auto simp: writeSnapshotContent_def removeRestoreTempFile_def split: sum.splits option.splits if_splits)

lemma entry_engine: "restore_entry env p r (l, w) = (l', w') \<Longrightarrow> wkEngine w' = wkEngine w"
  by (auto simp: restore_entry_def write_entry_def Let_def split: sum.splits prod.splits option.splits if_splits
      dest!: write_engine journal_effect)

lemma entries_engine: "restore_entries env b es (l, w) = (l', w') \<Longrightarrow> wkEngine w' = wkEngine w"
proof (induction es arbitrary: l w)
  case (Cons e es)
  obtain p r where e: "e = (p, r)" by (cases e)
  obtain l1 w1 where s: "restore_entry env p r (l, w) = (l1, w1)" by (cases "restore_entry env p r (l, w)")
  show ?case using Cons.prems Cons.IH [of l1 w1] entry_engine [OF s] by (auto simp: e s split: if_splits)
qed simp

lemma remove_engine: "remove_files env ps w = (removed, failed, w') \<Longrightarrow> wkEngine w' = wkEngine w"
proof (induction ps arbitrary: w removed failed)
  case (Cons p ps)
  then show ?case by (auto simp: unlink_file_def split: sum.splits prod.splits option.splits if_splits)
qed simp

lemma cleanup_engine: "restore_cleanup env opts d es l w = (removed, failed, w') \<Longrightarrow> wkEngine w' = wkEngine w"
  by (auto simp: restore_cleanup_def cleanupFilesNotInInventory_def cleanupExtraFiles_def Let_def
      split: option.splits if_splits dest: remove_engine)

lemma progress_engine:
  assumes "roCreateBackup opts = Some False"
  shows "wkEngine (snd (restore_progress env b i opts d tree w)) = wkEngine w
    \<and> (\<forall>oc. fst (restore_progress env b i opts d tree w) = Inr oc \<longrightarrow> rocBackup oc = None)"
  using assms
  by (auto simp: restore_progress_def Let_def split: prod.splits option.splits if_splits
      dest!: journal_effect entries_engine cleanup_engine)

lemma phase_engine:
  assumes "roCreateBackup opts = Some False"
  shows "only_loads (wkEngine w) (wkEngine (snd (restore_phase env b i opts w)))
    \<and> (\<forall>oc. fst (restore_phase env b i opts w) = Inr oc \<longrightarrow> rocBackup oc = None)"
proof -
  obtain r s1 where l: "loadCheckpointFromDisk env i (wkEngine w) = (r, s1)" by (cases "loadCheckpointFromDisk env i (wkEngine w)")
  obtain t s2 where c: "reconstructStateAtCheckpoint env i s1 = (t, s2)" by (cases "reconstructStateAtCheckpoint env i s1")
  have o1: "only_loads (wkEngine w) s1" using only_loads_load [of "wkEngine w" env i] by (simp add: l)
  have "only_loads s1 s2" using only_loads_reconstruct [of s1 env i] by (simp add: c)
  then have o2: "only_loads (wkEngine w) s2" by (rule only_loads_trans [OF o1])
  show ?thesis
    using o1 o2 progress_engine [OF assms, of env b i] by (auto simp: restore_phase_def l c split: sum.split option.split)
qed

lemma restore_only_loads:
  assumes "roCreateBackup opts = Some False"
  shows "only_loads (wkEngine w) (wkEngine (snd (restoreCheckpoint env i opts w)))"
proof -
  obtain r w1 where p: "restore_phase env False i opts w = (r, w1)" by (cases "restore_phase env False i opts w")
  have k: "wkEngine (snd (restore_caught i e v)) = wkEngine v" "wkEngine (snd (restore_finish i opts oc v)) = wkEngine v" for e oc v
    by (auto simp: restore_caught_def restore_finish_def record_restoration_def clearRestoreJournal_def Let_def split: restore_error.split)
  show ?thesis
    using phase_engine [OF assms, of w env False i] by (auto simp: restoreCheckpoint_def p k split: option.split sum.split)
qed

section \<open>A pushed entry keeps the work\<close>

text \<open>What the push is given: a readable store, a well-formed stack, paths and ids that are not blank.\<close>

definition push_ok :: "'a work_env_scheme \<Rightarrow> bytes set \<Rightarrow> work \<Rightarrow> capture_result \<Rightarrow> bool" where
  "push_ok env U w c \<longleftrightarrow> engine_good env U (wkEngine w) \<and> files_in U (wkFiles w) \<and> dates_ok env
     \<and> list_all entry_ok (loadStashIndex w) \<and> list_all (\<lambda>x. js_trim (fsRelativePath x) \<noteq> []) (crSnapshots c)
     \<and> unblank (stashHeadId env (wkEngine w)) \<and> unblank (egActiveBranchId (wkEngine w))"

lemma recorded_stashed: "recorded env w os x \<Longrightarrow> js_trim (fsRelativePath x) \<noteq> [] \<Longrightarrow> stored_snapshot_ok (stashed_snapshot x)"
  by (auto simp: recorded_def captures_def stored_snapshot_ok_def stashed_snapshot_def)

lemma deletion_stashed:
  "fsDeleted x = Some True \<and> fsChangeType x = Some Deleted \<Longrightarrow> js_trim (fsRelativePath x) \<noteq> [] \<Longrightarrow> js_trim (fsEncoding x) \<noteq> [] \<Longrightarrow>
     stored_snapshot_ok (stashed_snapshot x)"
  by (auto simp: stored_snapshot_ok_def stashed_snapshot_def)

lemma head_watch:
  "stashHeadId env (s\<lparr>egObjects := os, egDeletedFiles := d, egModifiedFiles := m, egPreviousFiles := pf\<rparr>) = stashHeadId env s"
  by (simp add: stashHeadId_def latestCheckpoint_def workspaceHistory_def)

lemma pushed_entry:
  assumes ok: "push_ok env U w c" and cap: "captureWorkspaceState env (Some Delta) None w = (c, w1)"
    and e: "e = stash_entry_of env uuid m c w2" and w2: "wkEngine w2 = wkEngine w1"
  shows "entry_ok e \<and> seFileSnapshots e = map stashed_snapshot (crSnapshots c) \<and> seBaseCheckpointId e = stashHeadId env (wkEngine w)"
proof -
  have good: "engine_good env U (wkEngine w)" "files_in U (wkFiles w)" using ok by (simp_all add: push_ok_def)
  note r = delta_capture_records [OF cap good]
  obtain os pf d ms where w1: "wkEngine w1 = (wkEngine w)\<lparr>egObjects := os, egDeletedFiles := d, egModifiedFiles := ms, egPreviousFiles := pf\<rparr>"
    using r by blast
  have head: "stashHeadId env (wkEngine w2) = stashHeadId env (wkEngine w)" by (simp add: w2 w1 head_watch)
  have act: "egActiveBranchId (wkEngine w2) = egActiveBranchId (wkEngine w)" by (simp add: w2 w1)
  have "list_all stored_snapshot_ok (map stashed_snapshot (crSnapshots c))"
    using r ok recorded_stashed deletion_stashed by (fastforce simp: list_all_iff push_ok_def)
  moreover have "unblank (truthy (map_option js_trim m))" "map_option js_trim (truthy (map_option js_trim m)) = truthy (map_option js_trim m)"
    by (cases m; auto simp: unblank_def)+
  ultimately have "entry_ok e"
    using ok by (simp add: e entry_ok_def stash_entry_of_def head push_ok_def act starts_with_def nonempty_list_def)
  then show ?thesis by (simp add: e stash_entry_of_def head)
qed


definition sample_stash_env :: work_env where
  "sample_stash_env = sample_work_env\<lparr>
     eeIso := (\<lambda>t. if 0 \<le> t then replicate (nat t) CHR ''+'' else replicate (nat (- t)) CHR ''-''),
     eeParseDate := (\<lambda>s. Some (if starts_with s ''-'' then - int (length s) else int (length s)))\<rparr>"

definition sample_dirty :: work where
  "sample_dirty = sample_work\<lparr>wkFiles := [(''/w/a.ts'', file_of ''y''), (''/w/b.ts'', file_of ''y'')]\<rparr>"

lemma sample_dates: "dates_ok sample_stash_env"
proof -
  have "eeParseDate sample_stash_env (eeIso sample_stash_env t) = Some t" for t
  proof (cases "0 \<le> t")
    case True
    then have "\<not> starts_with (replicate (nat t) CHR ''+'') ''-''" by (cases "nat t") (auto simp: starts_with_def)
    then show ?thesis using True by (simp add: sample_stash_env_def)
  next
    case False
    then have "starts_with (replicate (nat (- t)) CHR ''-'') ''-''" by (cases "nat (- t)") (auto simp: starts_with_def)
    then show ?thesis using False by (simp add: sample_stash_env_def)
  qed
  then show ?thesis by (simp add: dates_ok_def)
qed

lemma sample_stash_codec: "codec_ok sample_stash_env {''x'', ''y''}"
  using sample_engine_codec unfolding codec_ok_def
  by (simp add: sample_stash_env_def sample_work_env_def sample_env_simps engine_env.defs)

lemma sample_dirty_good: "engine_good sample_stash_env {''x'', ''y''} (wkEngine sample_dirty)"
proof -
  let ?env = sample_stash_env
  have e: "engine_good ?env {''x'', ''y''} empty_engine"
    using empty_store_good [OF sample_stash_codec]
    by (simp add: engine_good_def empty_engine_def engine_key_def storeHasEncryptedBlobs_def listBlobObjectFiles_def empty_store_def map_filter_def)
  have o: "egObjects (wkEngine sample_dirty) = run_blobs ?env empty_engine (map PutOp [''y'', ''x'']) (egObjects empty_engine)" by code_simp
  have same: "same_settings empty_engine (wkEngine sample_dirty)" by (simp add: same_settings_def sample_dirty_def sample_work_def)
  show ?thesis by (rule run_blobs_good [OF e _ same o]) (simp add: op_valid_def)
qed

text \<open>The push of the sample, step by step: the capture, the entry, the saved stack, the restore.\<close>

definition sample_capture :: "capture_result \<times> work" where
  "sample_capture = captureWorkspaceState sample_stash_env (Some Delta) None sample_dirty"

definition sample_pushed :: stash_entry where
  "sample_pushed = stash_entry_of sample_stash_env (fst (draw_uuid sample_stash_env (snd sample_capture))) None
     (fst sample_capture) (snd (draw_uuid sample_stash_env (snd sample_capture)))"

definition sample_saved :: "string option \<times> work" where
  "sample_saved = (let w = snd (draw_uuid sample_stash_env (snd sample_capture))
     in saveStashIndex sample_stash_env (sample_pushed # loadStashIndex w) w)"

lemma sample_capture_eval:
  "map (\<lambda>x. (fsRelativePath x, fsHash x, fsDeleted x)) (crSnapshots (fst sample_capture))
      = [(''a.ts'', Some (sample_hash ''y''), None), (''b.ts'', Some (sample_hash ''y''), None)]"
  unfolding sample_capture_def by code_simp

lemma sample_pushed_eval: "seBaseCheckpointId sample_pushed = Some ''cp_1''"
  unfolding sample_pushed_def sample_capture_def by code_simp

lemma sample_saved_eval: "fst sample_saved = None"
  unfolding sample_saved_def Let_def saveStashIndex_def by (simp add: sample_stash_env_def sample_work_env_def sample_env_simps engine_env.defs)

lemma sample_restored:
  "jm_get (wkFiles (snd (restoreCheckpoint sample_stash_env ''cp_1'' checkout_options (snd sample_saved)))) ''/w/a.ts''
     = Some \<lparr>dfBytes = ''x'', dfMtime = 0\<rparr>"
  unfolding sample_saved_def sample_pushed_def sample_capture_def by code_simp

lemma sample_push_files:
  assumes "stashPush sample_stash_env None sample_dirty = (r, w')"
  shows "jm_get (wkFiles w') ''/w/a.ts'' = Some \<lparr>dfBytes = ''x'', dfMtime = 0\<rparr>"
proof -
  obtain c w1 where c: "captureWorkspaceState sample_stash_env (Some Delta) None sample_dirty = (c, w1)" by (metis prod.exhaust)
  obtain uuid w2 where d: "draw_uuid sample_stash_env w1 = (uuid, w2)" by (metis prod.exhaust)
  obtain w3 where sv: "saveStashIndex sample_stash_env (sample_pushed # loadStashIndex w2) w2 = (None, w3)"
    using sample_saved_eval by (cases sample_saved) (simp add: sample_saved_def sample_capture_def c d)
  obtain res w4 where rs: "restoreCheckpoint sample_stash_env ''cp_1'' checkout_options w3 = (res, w4)" by (metis prod.exhaust)
  have e: "stash_entry_of sample_stash_env uuid None c w2 = sample_pushed" by (simp add: sample_pushed_def sample_capture_def c d)
  have ne: "crSnapshots c \<noteq> []" using sample_capture_eval by (auto simp: sample_capture_def c)
  have rdy: "ready sample_dirty" by code_simp
  have "wkFiles w' = wkFiles w4"
    using assms rdy ne sample_pushed_eval
    by (auto simp: stashPush_def c d e sv rs Let_def on_engine_def split: sum.splits if_splits)
  moreover have "snd sample_saved = w3" by (simp add: sample_saved_def sample_capture_def c d sv)
  ultimately show ?thesis using sample_restored rs by simp
qed


end
