(* ===== verification/CheckoutFacts.thy ===== *)
theory CheckoutFacts
  imports Checkout StashFacts
begin

text \<open>
  Properties of checkouts: either the files and the pointers both move or the pointers stay, and what
  the automatic stash misses. The first section frames a capture: it leaves the branches alone, and it
  consumes what the watchers have reported.
\<close>

section \<open>What a capture changes\<close>

definition stores_only :: "work \<Rightarrow> work \<Rightarrow> bool" where
  "stores_only w w' \<longleftrightarrow> w' = w\<lparr>wkEngine := wkEngine w'\<rparr> \<and> blob_frame (wkEngine w) (wkEngine w')"

lemma stores_only_refl [simp]: "stores_only w w"
  by (simp add: stores_only_def)

lemma stores_only_trans: "stores_only w v \<Longrightarrow> stores_only v u \<Longrightarrow> stores_only w u"
  by (cases w; cases v; cases u) (auto simp: stores_only_def intro: blob_frame_trans)

lemma stores_only_engine [simp]: "stores_only w (w\<lparr>wkEngine := s\<rparr>) \<longleftrightarrow> blob_frame (wkEngine w) s"
  by (simp add: stores_only_def)

lemma snapshot_stores: "stores_only w (snd (trySnapshotFile env full rel b w))"
proof -
  obtain r s1 where o: "writeBlobOptions env (wkEngine w) = (r, s1)" by (cases "writeBlobOptions env (wkEngine w)")
  have "blob_frame (wkEngine w) s1" using writeBlobOptions_frame [of "wkEngine w" env] by (simp add: o)
  then show ?thesis
    by (auto simp: trySnapshotFile_def Let_def o blob_frame_objects split: option.split prod.split sum.split)
qed

lemma snapshots_store: "snapshot_all (delta_worker env ws f) ps w = (ss, sk, w') \<Longrightarrow> stores_only w w'"
proof (induction ps arbitrary: w ss sk w')
  case (Cons p ps)
  obtain r w1 where a: "delta_worker env ws f p w = (r, w1)" by (cases "delta_worker env ws f p w")
  obtain ss1 sk1 w2 where b: "snapshot_all (delta_worker env ws f) ps w1 = (ss1, sk1, w2)" by (metis prod.exhaust)
  have "stores_only w (snd (delta_worker env ws f p w))"
    by (simp add: delta_worker_def Let_def snapshot_stores split: sum.split)
  then have "stores_only w w1" by (simp add: a)
  with Cons.IH [OF b] show ?case using Cons.prems stores_only_trans by (cases r) (auto simp: a b)
qed simp

text \<open>A delta capture in terms of its plan and its snapshots.\<close>

lemma delta_capture_unfold:
  assumes run: "captureWorkspaceState env (Some Delta) None w = (c, w')" and ws: "truthy (wk_path w) = Some ws"
  obtains ps present sk v ss extra u where "delta_plan env w = (ps, present, sk, v)"
    "snapshot_all (delta_worker env ws None) ps v = (ss, extra, u)" "stores_only v u" "w' = finish_capture (crSnapshots c) u"
    "crSnapshots c = ss @ watched_deletions env ws None u @ (case present of None \<Rightarrow> []
       | Some paths \<Rightarrow> inventory_deletions env ws None paths (ss @ watched_deletions env ws None u) (sk @ extra) u)"
proof -
  obtain ps present sk v where p: "delta_plan env w = (ps, present, sk, v)" by (metis prod.exhaust)
  obtain ss extra u where s: "snapshot_all (delta_worker env ws None) ps v = (ss, extra, u)" by (metis prod.exhaust)
  show ?thesis
    by (rule that [OF p s snapshots_store [OF s]])
      (use run ws p s in \<open>auto simp: captureWorkspaceState_def captureChangedFiles_def includes_files_def trivial_filter Let_def\<close>)
qed

definition same_line :: "engine \<Rightarrow> engine \<Rightarrow> bool" where
  "same_line s t \<longleftrightarrow> egHistory t = egHistory s \<and> egBranches t = egBranches s \<and> egActiveBranchId t = egActiveBranchId s
     \<and> egDetachedFrom t = egDetachedFrom s \<and> egIndex t = egIndex s \<and> egLocallyRemoved t = egLocallyRemoved s \<and> egNow t = egNow s"

lemma same_line_refl [simp]: "same_line s s"
  by (simp add: same_line_def)

lemma same_line_trans: "same_line s t \<Longrightarrow> same_line t u \<Longrightarrow> same_line s u"
  by (simp add: same_line_def)

lemma same_line_audit [simp]: "same_line s (append_audit k i ok t) = same_line s t"
  by (simp add: same_line_def append_audit_def)

lemma same_line_frame: "blob_frame s t \<Longrightarrow> same_line s t"
  by (cases s; cases t) (simp add: blob_frame_def same_line_def)

lemma same_line_loads: "only_loads s t \<Longrightarrow> same_line s t"
  by (cases s; cases t) (auto simp: only_loads_def same_line_def)

lemma capture_line:
  assumes "captureWorkspaceState env (Some Delta) None w = (c, w')"
  shows "same_line (wkEngine w) (wkEngine w') \<and> wkFiles w' = wkFiles w \<and> egStash (wkEngine w') = egStash (wkEngine w)
    \<and> wk_path w' = wk_path w"
proof (cases "truthy (wk_path w)")
  case None
  then show ?thesis using assms by (auto simp: captureWorkspaceState_def captureChangedFiles_def includes_files_def)
next
  case (Some ws)
  obtain ps present sk v ss extra u where p: "delta_plan env w = (ps, present, sk, v)" "stores_only v u" "w' = finish_capture (crSnapshots c) u"
    by (rule delta_capture_unfold [OF assms Some])
  have "wkEngine v = wkEngine w \<and> wkFiles v = wkFiles w" by (rule plan_fields [OF p(1)])
  moreover have "wkFiles u = wkFiles v \<and> same_line (wkEngine v) (wkEngine u) \<and> egStash (wkEngine u) = egStash (wkEngine v) \<and> wk_path u = wk_path v"
    using p(2) by (cases v; cases u; cases "wkEngine v"; cases "wkEngine u") (auto simp: stores_only_def blob_frame_def same_line_def)
  ultimately show ?thesis by (simp add: p(3) finish_capture_def on_engine_def same_line_def)
qed

lemma push_line:
  assumes "stashPush env m w = (r, w')"
  shows "same_line (wkEngine w) (wkEngine w')"
proof -
  have cap: "captureWorkspaceState env (Some Delta) None v = (c, v1) \<Longrightarrow> same_line (wkEngine v) (wkEngine v1)" for v c v1
    using capture_line by blast
  have res: "restoreCheckpoint env i checkout_options v = (x, v1) \<Longrightarrow> same_line (wkEngine v) (wkEngine v1)" for i v x v1
    using restore_only_loads [of checkout_options v env i] same_line_loads by (simp add: checkout_options_def)
  have sv: "saveStashIndex env es v = (x, v1) \<Longrightarrow> same_line (wkEngine v) (wkEngine v1)" for es v x v1
    by (auto simp: saveStashIndex_def on_engine_def same_line_def split: option.splits)
  show ?thesis
  proof (cases "ready w")
    case True
    obtain c w1 where c: "captureWorkspaceState env (Some Delta) None w = (c, w1)" by (metis prod.exhaust)
    show ?thesis
      using assms True cap [OF c]
      by (auto simp: stashPush_def c draw_uuid_def Let_def on_engine_def split: if_splits prod.splits option.splits sum.splits
          dest!: sv res) (metis same_line_trans)+
  qed (use assms in \<open>simp add: stashPush_def\<close>)
qed

text \<open>The part of a checkout that touches the tree: the line stays, and a success is a successful restore.\<close>

lemma park_line:
  assumes "stashDirtyTreeBeforeCheckout env auto m w = (r, w')"
  shows "same_line (wkEngine w) (wkEngine w') \<and> (\<forall>why x. r = Inr (ParkRefused why x) \<longrightarrow> why = RefusedDirty \<or> why = RefusedStash)
    \<and> (\<forall>x. r = Inr (ParkRefused RefusedDirty x) \<longrightarrow> wkFiles w' = wkFiles w)"
proof -
  obtain d w1 where d: "workspaceDiffersFromHead env w = (d, w1)" by (metis prod.exhaust)
  have a: "same_line (wkEngine w) (wkEngine w1) \<and> wkFiles w1 = wkFiles w"
    using d capture_line by (auto simp: workspaceDiffersFromHead_def split: if_splits prod.splits)
  show ?thesis
    using assms a by (auto simp: stashDirtyTreeBeforeCheckout_def d split: if_splits prod.splits sum.splits
        dest!: push_line intro: same_line_trans)
qed

lemma restore_line: "restoreCheckpoint env i checkout_options w = (r, w') \<Longrightarrow> same_line (wkEngine w) (wkEngine w')"
  using restore_only_loads [of checkout_options w env i] same_line_loads by (simp add: checkout_options_def)

definition restored_by :: "'a work_env_scheme \<Rightarrow> string \<Rightarrow> work \<Rightarrow> work \<Rightarrow> bool" where
  "restored_by env i w w' \<longleftrightarrow> (\<exists>v rr u. same_line (wkEngine w) (wkEngine v)
     \<and> restoreCheckpoint env i checkout_options v = (Inr rr, u) \<and> rrSuccess rr \<and> wkFiles w' = wkFiles u)"

lemma tree_line:
  assumes "checkout_tree env auto m k i w = (r, w')"
  shows "same_line (wkEngine w) (wkEngine w')
    \<and> (\<forall>why x. r = Inr (TreeRefused why x) \<longrightarrow> (why = RefusedDirty \<or> why = RefusedStash) \<and> (why = RefusedDirty \<longrightarrow> wkFiles w' = wkFiles w))
    \<and> (\<forall>st si a b. r = Inr (TreeRestored st si a b) \<longrightarrow> restored_by env i w w')"
proof -
  obtain p w1 where p: "stashDirtyTreeBeforeCheckout env auto m w = (p, w1)" by (metis prod.exhaust)
  note l = park_line [OF p]
  have r: "restoreCheckedOutHead env i w1 = (x, w2) \<Longrightarrow> same_line (wkEngine w1) (wkEngine w2)
      \<and> (\<forall>y. x = Inr (Inr y) \<longrightarrow> restored_by env i w w2)" for x w2
    using l restore_line by (fastforce simp: restoreCheckedOutHead_def restored_by_def split: prod.splits sum.splits if_splits)
  have t: "same_line (wkEngine w1) (wkEngine w2) \<Longrightarrow> same_line (wkEngine w) (wkEngine w2)" for w2
    using l same_line_trans by blast
  show ?thesis
  proof (cases p)
    case (Inl x)
    then show ?thesis using assms l by (auto simp: checkout_tree_def p)
  next
    case (Inr q)
    show ?thesis
    proof (cases q)
      case (ParkRefused why x)
      then show ?thesis using assms l Inr by (auto simp: checkout_tree_def p on_engine_def)
    next
      case (Parked st si)
      obtain x w2 where x: "restoreCheckedOutHead env i w1 = (x, w2)" by (metis prod.exhaust)
      show ?thesis using assms r [OF x] t [of w2] Inr Parked
        by (auto simp: checkout_tree_def p x on_engine_def split: sum.splits prod.splits)
    qed
  qed
qed

section \<open>The pointers after a checkout\<close>

lemma rebuild_pointers:
  "egBranches (rebuildSnapshotHashIndexFromDisk env s) = egBranches s
   \<and> egActiveBranchId (rebuildSnapshotHashIndexFromDisk env s) = egActiveBranchId s
   \<and> egDetachedFrom (rebuildSnapshotHashIndexFromDisk env s) = egDetachedFrom s"
proof -
  have step: "egBranches (rebuild_step env h c t) = egBranches t \<and> egActiveBranchId (rebuild_step env h c t) = egActiveBranchId t
      \<and> egDetachedFrom (rebuild_step env h c t) = egDetachedFrom t" for h c t
    by (simp add: rebuild_step_def applySnapshotHashes_def Let_def split: load_result.split option.split)
  have "egBranches (fold (rebuild_step env h) cs t) = egBranches t \<and> egActiveBranchId (fold (rebuild_step env h) cs t) = egActiveBranchId t
      \<and> egDetachedFrom (fold (rebuild_step env h) cs t) = egDetachedFrom t" for h cs t
    by (induction cs arbitrary: t) (simp_all add: step)
  then show ?thesis by (simp add: rebuildSnapshotHashIndexFromDisk_def Let_def split: option.split)
qed

lemma foreign_line:
  "same_line s t \<Longrightarrow> no_foreign env s \<Longrightarrow> no_foreign env (t\<lparr>egActiveBranchId := a, egDetachedFrom := d\<rparr>)"
  "same_line s t \<Longrightarrow> no_foreign env s \<Longrightarrow> no_foreign env (t\<lparr>egDetachedFrom := d\<rparr>)"
  by (simp_all add: no_foreign_def same_line_def split: option.splits)

lemma find_branch_id: "distinct (map brId bs) \<Longrightarrow> find P bs = Some b \<Longrightarrow> findBranchById bs (brId b) = Some b \<and> P b"
  by (induction bs) (auto simp: findBranchById_def dest: find_Some_in split: if_splits)

text \<open>Both ways to end: the pointers name the target and its tree was restored, or nothing but the tree has moved.\<close>

definition arrived :: "'a work_env_scheme \<Rightarrow> string \<Rightarrow> string option \<Rightarrow> detached_state option \<Rightarrow> work \<Rightarrow> work \<Rightarrow> bool" where
  "arrived env i active detached w w' \<longleftrightarrow> restored_by env i w w' \<and> egActiveBranchId (wkEngine w') = active
     \<and> egDetachedFrom (wkEngine w') = detached \<and> egBranches (wkEngine w') = egBranches (wkEngine w)"

definition stayed :: "(string + switch_result) \<Rightarrow> work \<Rightarrow> work \<Rightarrow> bool" where
  "stayed r w w' \<longleftrightarrow> same_line (wkEngine w) (wkEngine w')
     \<and> (\<forall>res. r = Inr res \<longrightarrow> \<not> swSuccess res
          \<and> (swRefused res \<in> {Some RefusedMissing, Some RefusedDirty} \<longrightarrow> wkFiles w' = wkFiles w))"

lemma hard_switch:
  assumes run: "switchBranch env i (Some CheckoutHard) auto w = (r, w')" and nf: "no_foreign env (wkEngine w)"
  shows "(\<exists>res b. r = Inr res \<and> swSuccess res \<and> findBranchById (egBranches (wkEngine w)) i = Some b
      \<and> arrived env (brHead b) (Some (brId b)) None w w') \<or> stayed r w w'"
proof (cases "findBranchById (egBranches (wkEngine w)) i")
  case None
  then show ?thesis using run by (auto simp: switchBranch_def stayed_def refused_result_def bare_result_def)
next
  case (Some b)
  obtain x w1 where x: "checkout_tree env auto (stash_message (brName b)) (brId b) (brHead b) w = (x, w1)"
    by (metis prod.exhaust)
  note t = tree_line [OF x]
  have e: "arrived env (brHead b) (Some (brId b)) None w (on_engine (enter_branch env CheckoutHard b) w1)" if "restored_by env (brHead b) w w1"
    using that t save_index_pointers [OF foreign_line(1) [OF conjunct1 [OF t] nf]] rebuild_pointers [of env]
    by (simp add: arrived_def on_engine_def enter_branch_def append_audit_def restored_by_def same_line_def)
  show ?thesis
  proof (cases x)
    case (Inl m)
    then show ?thesis using run t by (auto simp: switchBranch_def Some x stayed_def)
  next
    case (Inr y)
    then show ?thesis
      using run t e by (cases y) (auto simp: switchBranch_def Some x stayed_def refused_result_def bare_result_def pointerOnlySwitchResult_def)
  qed
qed

text \<open>
  C12 (safety): a checkout of a checkpoint either happens as a whole or leaves the pointers alone. When it
  reports success, the checkpoint's tree was restored successfully, from a state with the same history, and the files are those
  the restore left; the pointers name the branch whose head the checkpoint is, or the checkpoint detached from the
  branch that was active. In every other outcome (refused, failed or thrown) the history, the
  branches and both pointers are what they were, and a refusal because of uncheckpointed changes has not
  touched any file. Branch ids are distinct and no other window has added checkpoints in the meantime.
\<close>

theorem checkoutCheckpoint_all_or_nothing:
  assumes run: "checkoutCheckpoint env i auto w = (r, w')" and ids: "distinct (map brId (egBranches (wkEngine w)))"
    and nf: "no_foreign env (wkEngine w)"
  shows "(\<exists>res. r = Inr res \<and> swSuccess res \<and> (case find (\<lambda>b. brHead b = i) (egBranches (wkEngine w)) of
        Some b \<Rightarrow> arrived env i (Some (brId b)) None w w'
      | None \<Rightarrow> arrived env i (egActiveBranchId (wkEngine w))
                  (Some \<lparr>dtCheckpointId = i, dtPreviousBranchId = egActiveBranchId (wkEngine w)\<rparr>) w w'))
    \<or> stayed r w w'"
proof (cases "find_cp (wkEngine w) i")
  case None
  then show ?thesis using run by (auto simp: checkoutCheckpoint_def stayed_def refused_result_def bare_result_def)
next
  case (Some cp)
  show ?thesis
  proof (cases "find (\<lambda>b. brHead b = i) (egBranches (wkEngine w))")
    case None
    obtain x w1 where x: "checkout_tree env auto (stash_message_detached i) i i w = (x, w1)"
      by (metis prod.exhaust)
    note t = tree_line [OF x]
    let ?d = "Some \<lparr>dtCheckpointId = i, dtPreviousBranchId = egActiveBranchId (wkEngine w)\<rparr>"
    have "no_foreign env ((wkEngine w1)\<lparr>egDetachedFrom := ?d\<rparr>)"
      by (rule foreign_line(2) [OF conjunct1 [OF t] nf])
    from save_index_pointers [OF this]
    have e: "arrived env i (egActiveBranchId (wkEngine w)) ?d w (on_engine (enter_detached env i) w1)" if "restored_by env i w w1"
      using that t rebuild_pointers [of env]
      by (simp add: arrived_def on_engine_def enter_detached_def append_audit_def restored_by_def same_line_def)
    show ?thesis
    proof (cases x)
      case (Inl m)
      then show ?thesis using run t by (auto simp: checkoutCheckpoint_def Some None x stayed_def)
    next
      case (Inr y)
      then show ?thesis
        using run t e by (cases y) (auto simp: checkoutCheckpoint_def Some None x stayed_def refused_result_def bare_result_def)
    qed
  next
    case (Some b)
    then have b: "findBranchById (egBranches (wkEngine w)) (brId b) = Some b" "brHead b = i"
      using ids find_branch_id [OF ids Some] by simp_all
    obtain x w1 where x: "switchBranch env (brId b) (Some CheckoutHard) auto w = (x, w1)" by (metis prod.exhaust)
    show ?thesis
      using run hard_switch [OF x nf] b \<open>find_cp (wkEngine w) i = Some cp\<close>
      by (auto simp: checkoutCheckpoint_def Some x stayed_def split: sum.splits)
  qed
qed

section \<open>What the automatic stash misses\<close>

text \<open>With a watcher running, one capture leaves nothing for the next: the reports are consumed and the index is trusted.\<close>

definition watched :: "'a work_env_scheme \<Rightarrow> work \<Rightarrow> bool" where
  "watched env w \<longleftrightarrow> wkWatchers w > 0 \<and> egSnapshotHashes (wkEngine w) \<noteq> [] \<and> weDirtyDocs env = []"

lemma second_capture_empty:
  assumes first: "captureWorkspaceState env (Some Delta) None w = (c, w1)" and ws: "truthy (wk_path w) = Some ws" and wt: "watched env w"
    and second: "captureWorkspaceState env (Some Delta) None w1 = (c', w2)"
  shows "crSnapshots c' = [] \<and> egStash (wkEngine w2) = egStash (wkEngine w)"
proof -
  obtain ps present sk v ss extra u where p: "delta_plan env w = (ps, present, sk, v)" "stores_only v u" "w1 = finish_capture (crSnapshots c) u"
    by (rule delta_capture_unfold [OF first ws])
  have v: "isWatcherIndexTrusted v"
    using p(1) wt by (auto simp: delta_plan_def isWatcherIndexTrusted_def markFullScanComplete_def watched_def Let_def split: if_splits)
  have "isWatcherIndexTrusted u"
    using v p(2) by (cases v; cases u; cases "wkEngine v"; cases "wkEngine u") (auto simp: isWatcherIndexTrusted_def stores_only_def blob_frame_def)
  then have t: "isWatcherIndexTrusted w1" by (simp add: p(3) isWatcherIndexTrusted_def finish_capture_def on_engine_def)
  have ws1: "truthy (wk_path w1) = Some ws" using capture_line [OF first] ws by simp
  have lists: "egModifiedFiles (wkEngine w1) = []" "egDeletedFiles (wkEngine w1) = []" by (simp_all add: p(3) finish_capture_def on_engine_def)
  have recent: "getRecentlyModifiedFiles env w1 = []"
    using wt by (simp add: getRecentlyModifiedFiles_def ws1 lists watched_def)
  have "delta_plan env w1 = ([], None, [], w1)" using t recent by (simp add: delta_plan_def)
  then have "crSnapshots c' = []"
    using second ws1 by (simp add: captureWorkspaceState_def captureChangedFiles_def includes_files_def trivial_filter watched_deletions_def lists Let_def)
      auto
  then show ?thesis using capture_line [OF first] capture_line [OF second] by simp
qed

lemma park_misses:
  assumes run: "stashDirtyTreeBeforeCheckout env auto m w = (Inr (Parked st si), w')" and wt: "watched env w"
  shows "\<not> st \<and> egStash (wkEngine w') = egStash (wkEngine w)"
proof (cases "ready w")
  case True
  then obtain ws where ws: "truthy (wk_path w) = Some ws" by (auto simp: ready_def)
  obtain c w1 where c: "captureWorkspaceState env (Some Delta) None w = (c, w1)" by (metis prod.exhaust)
  obtain c' w2 where c': "captureWorkspaceState env (Some Delta) None w1 = (c', w2)" by (metis prod.exhaust)
  show ?thesis
    using run True second_capture_empty [OF c ws wt c'] capture_line [OF c]
    by (auto simp: stashDirtyTreeBeforeCheckout_def workspaceDiffersFromHead_def c stashPush_def c' split: if_splits)
qed (use run in \<open>simp add: stashDirtyTreeBeforeCheckout_def workspaceDiffersFromHead_def\<close>)

lemma restore_stash: "restoreCheckpoint env i checkout_options w = (r, w') \<Longrightarrow> egStash (wkEngine w') = egStash (wkEngine w)"
  using restore_only_loads [of checkout_options w env i] by (auto simp: checkout_options_def only_loads_def)

lemma tree_misses:
  assumes "checkout_tree env auto m k i w = (Inr (TreeRestored st si a b), w')" and "watched env w"
  shows "\<not> st \<and> egStash (wkEngine w') = egStash (wkEngine w)"
  using assms by (auto simp: checkout_tree_def restoreCheckedOutHead_def split: prod.splits sum.splits parked.splits if_splits
      dest!: park_misses restore_stash)

lemma rebuild_stash: "egStash (rebuildSnapshotHashIndexFromDisk env s) = egStash s"
proof -
  have step: "egStash (rebuild_step env h c t) = egStash t" for h c t
    by (simp add: rebuild_step_def applySnapshotHashes_def Let_def split: load_result.split option.split)
  have "egStash (fold (rebuild_step env h) cs t) = egStash t" for h cs t by (induction cs arbitrary: t) (simp_all add: step)
  then show ?thesis by (simp add: rebuildSnapshotHashIndexFromDisk_def Let_def split: option.split)
qed

lemma save_stash: "no_foreign env s \<Longrightarrow> egStash (saveCheckpointHistory env s) = egStash s"
  by (simp add: saveCheckpointHistory_def merge_nothing saveCheckpointHistoryUnlocked_def Let_def split: option.split)

text \<open>
  C15 (functional): the automatic stash of a hard switch stores nothing while a file watcher runs. With a watcher, a
  workspace that has known files and no unsaved document, a hard switch that succeeds reports that
  nothing was stashed and leaves the stack as it was, whatever was changed on the disk: the
  capture that finds the tree dirty consumes the watcher's reports, so the capture of the stash that
  follows finds none, and the restore then overwrites the changes. The witness loses an edited file that way.
\<close>

theorem hard_switch_stashes_nothing:
  assumes run: "switchBranch env i (Some CheckoutHard) auto w = (Inr res, w')" and ok: "swSuccess res" and wt: "watched env w"
    and nf: "no_foreign env (wkEngine w)"
  shows "swStashed res = Some False \<and> loadStashIndex w' = loadStashIndex w"
proof (cases "findBranchById (egBranches (wkEngine w)) i")
  case None
  then show ?thesis using run ok by (auto simp: switchBranch_def refused_result_def bare_result_def)
next
  case (Some b)
  obtain x w1 where x: "checkout_tree env auto (stash_message (brName b)) (brId b) (brHead b) w = (x, w1)" by (metis prod.exhaust)
  obtain st si a c where r: "x = Inr (TreeRestored st si a c)"
    using run ok by (auto simp: switchBranch_def Some x refused_result_def bare_result_def split: sum.splits tree_checkout.splits)
  note m = tree_misses [OF x [unfolded r] wt]
  have "egStash (wkEngine (on_engine (enter_branch env CheckoutHard b) w1)) = egStash (wkEngine w)"
    using m save_stash [OF foreign_line(1) [OF conjunct1 [OF tree_line [OF x]] nf]]
    by (simp add: on_engine_def enter_branch_def append_audit_def rebuild_stash)
  then show ?thesis
    using run m by (simp add: switchBranch_def Some x r pointerOnlySwitchResult_def bare_result_def loadStashIndex_def split: prod.splits) auto
qed

text \<open>A workspace on branch \<open>main\<close> whose file \<open>a.ts\<close> was edited while a watcher ran; a second branch has the same head.\<close>

definition sample_checkout_env :: checkout_env where
  "sample_checkout_env = work_env.extend sample_stash_env \<lparr>ceAutoStash = True\<rparr>"

definition second_branch :: checkpoint_branch where
  "second_branch = sample_branch\<lparr>brId := ''br_2'', brName := ''try'', brParent := Some ''br_1''\<rparr>"

definition sample_edited :: work where
  "sample_edited = sample_dirty\<lparr>wkWatchers := 1, wkTrusted := True,
     wkEngine := (wkEngine sample_dirty)\<lparr>egBranches := [sample_branch, second_branch], egActiveBranchId := Some ''br_1'',
       egModifiedFiles := [''/w/a.ts''], egSnapshotHashes := [(''a.ts'', sample_hash ''x''), (''b.ts'', sample_hash ''y'')]\<rparr>\<rparr>"

definition sample_parked :: "(string + parked) \<times> work" where
  "sample_parked = stashDirtyTreeBeforeCheckout sample_checkout_env None (stash_message ''try'') sample_edited"

definition sample_back :: "(string + (string + string list \<times> string list)) \<times> work" where
  "sample_back = restoreCheckedOutHead sample_checkout_env ''cp_1'' (snd sample_parked)"

lemma sample_parked_eval: "fst sample_parked = Inr (Parked False None)"
  unfolding sample_parked_def by code_simp

lemma sample_parked_state:
  "snd sample_parked = sample_edited\<lparr>wkEngine := (wkEngine sample_edited)\<lparr>egModifiedFiles := [], egPreviousFiles := []\<rparr>\<rparr>"
  unfolding sample_parked_def by code_simp

lemma sample_back_eval:
  "case fst sample_back of
     Inr (Inr _) \<Rightarrow> jm_get (wkFiles (snd sample_back)) ''/w/a.ts'' = Some \<lparr>dfBytes = ''x'', dfMtime = 0\<rparr> | _ \<Rightarrow> False"
  unfolding sample_back_def sample_parked_state by code_simp

lemma sample_back_cases:
  obtains rs rm where "fst sample_back = Inr (Inr (rs, rm))"
    "jm_get (wkFiles (snd sample_back)) ''/w/a.ts'' = Some \<lparr>dfBytes = ''x'', dfMtime = 0\<rparr>"
proof -
  obtain y where y: "fst sample_back = Inr y" using sample_back_eval by (cases "fst sample_back") simp_all
  then obtain z where "y = Inr z" using sample_back_eval by (cases y) simp_all
  then show ?thesis using sample_back_eval y that by (cases z) simp
qed

lemma sample_differs: "fst (workspaceDiffersFromHead sample_checkout_env sample_edited)"
  by code_simp

lemma sample_tree_eval:
  obtains rs rm where "checkout_tree sample_checkout_env None (stash_message ''try'') ''br_2'' ''cp_1'' sample_edited
    = (Inr (TreeRestored False None rs rm), snd sample_back)"
proof -
  obtain w1 where p: "stashDirtyTreeBeforeCheckout sample_checkout_env None (stash_message ''try'') sample_edited = (Inr (Parked False None), w1)"
    using sample_parked_eval by (cases sample_parked) (simp add: sample_parked_def)
  obtain rs rm where "fst sample_back = Inr (Inr (rs, rm))" by (rule sample_back_cases)
  moreover have "restoreCheckedOutHead sample_checkout_env ''cp_1'' w1 = sample_back" by (simp add: sample_back_def sample_parked_def p)
  ultimately have "restoreCheckedOutHead sample_checkout_env ''cp_1'' w1 = (Inr (Inr (rs, rm)), snd sample_back)" by (metis prod.collapse)
  from that [of rs rm] show ?thesis by (simp add: checkout_tree_def p \<open>_ = (Inr (Inr (rs, rm)), snd sample_back)\<close>)
qed

lemma sample_edited_facts:
  "findBranchById (egBranches (wkEngine sample_edited)) ''br_2'' = Some second_branch" "find_cp (wkEngine sample_edited) ''cp_1'' \<noteq> None"
  "watched sample_checkout_env sample_edited" "no_foreign sample_checkout_env (wkEngine sample_edited)"
  "distinct (map brId (egBranches (wkEngine sample_edited)))" "brHead second_branch = ''cp_1''" "brId second_branch = ''br_2''"
  "brName second_branch = ''try''" "jm_get (wkFiles sample_edited) ''/w/a.ts'' = Some (file_of ''y'')" "loadStashIndex sample_edited = []"
  unfolding watched_def by code_simp+

theorem hard_switch_stashes_nothing_witness:
  "let w' = snd (switchBranch sample_checkout_env ''br_2'' (Some CheckoutHard) None sample_edited)
   in fst (workspaceDiffersFromHead sample_checkout_env sample_edited)
      \<and> jm_get (wkFiles sample_edited) ''/w/a.ts'' = Some \<lparr>dfBytes = ''y'', dfMtime = 5\<rparr>
      \<and> jm_get (wkFiles w') ''/w/a.ts'' = Some \<lparr>dfBytes = ''x'', dfMtime = 0\<rparr> \<and> loadStashIndex w' = []"
proof -
  obtain rs rm where t: "checkout_tree sample_checkout_env None (stash_message ''try'') ''br_2'' ''cp_1'' sample_edited
    = (Inr (TreeRestored False None rs rm), snd sample_back)" by (rule sample_tree_eval)
  let ?res = "(pointerOnlySwitchResult second_branch CheckoutHard)\<lparr>swStashed := Some False, swStashId := None,
       swRestored := Some rs, swRemoved := Some rm\<rparr>"
  let ?w = "on_engine (enter_branch sample_checkout_env CheckoutHard second_branch) (snd sample_back)"
  have run: "switchBranch sample_checkout_env ''br_2'' (Some CheckoutHard) None sample_edited = (Inr ?res, ?w)"
    by (simp add: switchBranch_def sample_edited_facts(1,6-8) t)
  have "loadStashIndex ?w = []"
    using hard_switch_stashes_nothing [OF run _ sample_edited_facts(3,4)] sample_edited_facts(10)
    by (simp add: pointerOnlySwitchResult_def bare_result_def)
  moreover have "jm_get (wkFiles (snd sample_back)) ''/w/a.ts'' = Some \<lparr>dfBytes = ''x'', dfMtime = 0\<rparr>" by (rule sample_back_cases)
  ultimately show ?thesis
    using sample_differs sample_edited_facts(9) by (simp add: run on_engine_def file_of_def)
qed

theorem checkoutCheckpoint_all_or_nothing_witness:
  "let w' = snd (checkoutCheckpoint sample_checkout_env ''cp_1'' None sample_edited)
   in egActiveBranchId (wkEngine w') = Some ''br_1'' \<and> egDetachedFrom (wkEngine w') = None"
proof -
  obtain r w' where run: "checkoutCheckpoint sample_checkout_env ''cp_1'' None sample_edited = (r, w')" by (metis prod.exhaust)
  have f: "find (\<lambda>b. brHead b = ''cp_1'') (egBranches (wkEngine sample_edited)) = Some sample_branch" "brId sample_branch = ''br_1''"
    "egActiveBranchId (wkEngine sample_edited) = Some ''br_1''" "egDetachedFrom (wkEngine sample_edited) = None" by code_simp+
  from checkoutCheckpoint_all_or_nothing [OF run sample_edited_facts(5,4)] show ?thesis
    by (auto simp: run f arrived_def stayed_def same_line_def)
qed

end
