(* ===== verification/MergeState.thy ===== *)
theory MergeState
  imports Stash TextMerge
begin

text \<open>
  Merges in progress (\<open>manager/mergeState.ts\<close>) and the merge of branches (\<open>manager/branches.ts\<close>).
  \<open>wkMerge\<close> holds what a reader parses from \<open>merge-head.json\<close>; \<open>None\<close> is a missing or unreadable file.
  Operations that throw return \<open>Inl\<close> with the message; what they had changed by then stays changed.
\<close>

section \<open>The file of the merge in progress\<close>

fun operation_name :: "merge_operation \<Rightarrow> string" where
  "operation_name OpMerge = ''merge''"
| "operation_name OpCherryPick = ''cherry_pick''"
| "operation_name OpRevert = ''revert''"

definition json_strings :: "json list \<Rightarrow> string list" where
  "json_strings = List.map_filter (\<lambda>v. case v of JStr x \<Rightarrow> Some x | _ \<Rightarrow> None)"

definition jstrings :: "json option \<Rightarrow> string list option" where
  "jstrings v = (case v of Some (JArr xs) \<Rightarrow> Some (json_strings xs) | _ \<Rightarrow> None)"

definition parse_auto_entry :: "json \<Rightarrow> auto_merged option" where
  "parse_auto_entry v =
     (case (v, jstring (jfield v ''path''), jstring (jfield v ''encoding''), jfield v ''size'') of
        (JObj _, Some p, Some e, Some (JNum n)) \<Rightarrow>
          Some \<lparr>amPath = p, amHash = jstring (jfield v ''hash''), amEncoding = e, amSize = nat n,
                amDeleted = (if jfield v ''deleted'' = Some (JBool True) then Some True else None)\<rparr>
      | _ \<Rightarrow> None)"

definition parseAutoMerged :: "json option \<Rightarrow> auto_merged list option" where
  "parseAutoMerged v = (case v of Some (JArr xs) \<Rightarrow> Some (List.map_filter parse_auto_entry xs) | _ \<Rightarrow> None)"

definition parseMergeState :: "json \<Rightarrow> merge_state option" where
  "parseMergeState v =
     (case (v, jstring (jfield v ''operation''), jstrings (jfield v ''conflictPaths''), jstring (jfield v ''sourceId''),
            jstring (jfield v ''targetId''), jstring (jfield v ''targetHeadId'')) of
        (JObj _, Some name, Some conflicts, Some source, Some target, Some head) \<Rightarrow>
          map_option (\<lambda>op. \<lparr>msOperation = op, msSourceId = source, msTargetId = target,
              msSourceHeadId = jstring (jfield v ''sourceHeadId''), msTargetHeadId = head,
              msTargetBranchId = jstring (jfield v ''targetBranchId''), msLcaId = jstring (jfield v ''lcaId''),
              msConflictPaths = conflicts, msAutoMergedPaths = jstrings (jfield v ''autoMergedPaths''),
              msAutoMerged = parseAutoMerged (jfield v ''autoMerged''), msInventory = jstrings (jfield v ''inventory''),
              msPreMergeCheckpointId = jstring (jfield v ''preMergeCheckpointId''), msStashId = jstring (jfield v ''stashId''),
              msSourceName = jstring (jfield v ''sourceName''), msTargetName = jstring (jfield v ''targetName''),
              msOursLabel = jstring (jfield v ''oursLabel''), msTheirsLabel = jstring (jfield v ''theirsLabel''),
              msDescription = jstring (jfield v ''description''), msLabel = jstring (jfield v ''label''),
              msIntent = jstring (jfield v ''intent''), msTags = jstrings (jfield v ''tags''),
              msCreatedAt = jstring (jfield v ''createdAt'')\<rparr>)
            (find (\<lambda>op. operation_name op = name) [OpMerge, OpCherryPick, OpRevert])
      | _ \<Rightarrow> None)"

text \<open>What \<open>JSON.stringify\<close> writes: a field that is undefined is left out.\<close>

definition jlist :: "string \<Rightarrow> string list option \<Rightarrow> (string \<times> json) list" where
  "jlist k v = (case v of None \<Rightarrow> [] | Some xs \<Rightarrow> [(k, JArr (map JStr xs))])"

definition auto_json :: "auto_merged \<Rightarrow> json" where
  "auto_json a = JObj
     ([(''path'', JStr (amPath a))] @ jopt ''hash'' (amHash a) @ [(''encoding'', JStr (amEncoding a)), (''size'', JNum (int (amSize a)))]
      @ (case amDeleted a of None \<Rightarrow> [] | Some b \<Rightarrow> [(''deleted'', JBool b)]))"

definition mergeStateJson :: "merge_state \<Rightarrow> json" where
  "mergeStateJson st = JObj
     ([(''operation'', JStr (operation_name (msOperation st))), (''sourceId'', JStr (msSourceId st)), (''targetId'', JStr (msTargetId st))]
      @ jopt ''sourceHeadId'' (msSourceHeadId st) @ [(''targetHeadId'', JStr (msTargetHeadId st))]
      @ jopt ''targetBranchId'' (msTargetBranchId st) @ jopt ''lcaId'' (msLcaId st)
      @ [(''conflictPaths'', JArr (map JStr (msConflictPaths st)))] @ jlist ''autoMergedPaths'' (msAutoMergedPaths st)
      @ (case msAutoMerged st of None \<Rightarrow> [] | Some xs \<Rightarrow> [(''autoMerged'', JArr (map auto_json xs))])
      @ jlist ''inventory'' (msInventory st) @ jopt ''preMergeCheckpointId'' (msPreMergeCheckpointId st)
      @ jopt ''stashId'' (msStashId st) @ jopt ''sourceName'' (msSourceName st) @ jopt ''targetName'' (msTargetName st)
      @ jopt ''oursLabel'' (msOursLabel st) @ jopt ''theirsLabel'' (msTheirsLabel st) @ jopt ''description'' (msDescription st)
      @ jopt ''label'' (msLabel st) @ jopt ''intent'' (msIntent st) @ jlist ''tags'' (msTags st) @ jopt ''createdAt'' (msCreatedAt st))"

definition loadMergeState :: "work \<Rightarrow> merge_state option" where
  "loadMergeState w = wkMerge w"

definition saveMergeState :: "'a work_env_scheme \<Rightarrow> merge_state \<Rightarrow> work \<Rightarrow> string option \<times> work" where
  "saveMergeState env st w =
     (case eeWriteError env ''merge-head.json'' of
        Some m \<Rightarrow> (Some m, w) | None \<Rightarrow> (None, w\<lparr>wkMerge := parseMergeState (mergeStateJson st)\<rparr>))"

definition clearMergeState :: "work \<Rightarrow> work" where
  "clearMergeState w = w\<lparr>wkMerge := None\<rparr>"

text \<open>\<open>String.replace\<close> with a string replaces the first occurrence.\<close>

definition inProgressMergeMessage :: "work \<Rightarrow> string option" where
  "inProgressMergeMessage w =
     map_option (\<lambda>st. ''A '' @ (case msOperation st of OpCherryPick \<Rightarrow> ''cherry-pick'' | op \<Rightarrow> operation_name op)
                   @ '' is already in progress. Continue or abort it first.'') (loadMergeState w)"

section \<open>Uncheckpointed changes in the way\<close>

text \<open>The comparison is with the hash of an absent file as \<open>undefined\<close>, which no recorded hash equals.\<close>

definition in_the_way :: "'a work_env_scheme \<Rightarrow> work \<Rightarrow> hash_map \<Rightarrow> hash_map \<Rightarrow> hash_map \<Rightarrow> string \<Rightarrow> bool" where
  "in_the_way env w ours merged theirs p \<longleftrightarrow>
     hashKey (jm_get ours p) \<noteq> hashKey (jm_get merged p)
     \<and> (case resolve_in env w p of
          Inl _ \<Rightarrow> False
        | Inr full \<Rightarrow> map_option (hashBlobBytes env) (read_file env w full)
            \<notin> {Some (hashKey (jm_get ours p)), Some (hashKey (jm_get merged p)), Some (hashKey (jm_get theirs p))})"

definition overlappingDirtyConflicts ::
    "'a work_env_scheme \<Rightarrow> work \<Rightarrow> hash_map \<Rightarrow> hash_map \<Rightarrow> hash_map option \<Rightarrow> string list" where
  "overlappingDirtyConflicts env w ours merged theirs =
     filter (in_the_way env w ours merged (or_default theirs []))
       (sorted_set (jm_keys ours @ jm_keys merged @ jm_keys (or_default theirs [])))"

section \<open>Merging contents\<close>

definition textFromHash :: "'a work_env_scheme \<Rightarrow> engine \<Rightarrow> string option \<Rightarrow> string option" where
  "textFromHash env s h =
     (case truthy h of
        None \<Rightarrow> Some []
      | Some x \<Rightarrow>
          (case readBlobOptions s of
             Inl _ \<Rightarrow> None
           | Inr key \<Rightarrow>
               (case getBlob env key (egObjects s) x of
                  Inl _ \<Rightarrow> None
                | Inr bytes \<Rightarrow> if nul \<in> set bytes then None else Some (snapshotContentFromBytes env bytes ''utf8''))))"

definition side_text :: "'a work_env_scheme \<Rightarrow> engine \<Rightarrow> string option \<Rightarrow> hash_map \<Rightarrow> string \<Rightarrow> string option" where
  "side_text env s h side p = textFromHash env s (Some (or_default h (hashKey (jm_get side p))))"

definition merged_text :: "'a work_env_scheme \<Rightarrow> engine \<Rightarrow> hash_map \<Rightarrow> hash_map \<Rightarrow> merge_conflict \<Rightarrow> string option" where
  "merged_text env s ours theirs c =
     (case (textFromHash env s (mcBaseHash c), side_text env s (mcTargetHash c) ours (mcPath c),
            side_text env s (mcSourceHash c) theirs (mcPath c)) of
        (Some b, Some o', Some t) \<Rightarrow> threeWayMergeText b o' t
      | _ \<Rightarrow> None)"

fun resolve_contents ::
    "'a work_env_scheme \<Rightarrow> put_options \<Rightarrow> hash_map \<Rightarrow> hash_map \<Rightarrow> merge_conflict list \<Rightarrow> hash_map \<Rightarrow> merge_conflict list
     \<Rightarrow> engine \<Rightarrow> (string + hash_map \<times> merge_conflict list) \<times> engine" where
  "resolve_contents env opts ours theirs [] merged remaining s = (Inr (merged, remaining), s)"
| "resolve_contents env opts ours theirs (c # cs) merged remaining s =
     (case merged_text env s ours theirs c of
        None \<Rightarrow> resolve_contents env opts ours theirs cs merged (remaining @ [c]) s
      | Some content \<Rightarrow>
          (let bytes = bytesFromSnapshotContent env content ''utf8''
           in case putBlob env opts bytes (egObjects s) of
                Inl e \<Rightarrow> (Inl (blob_error_message e), s)
              | Inr (h, objs) \<Rightarrow>
                  resolve_contents env opts ours theirs cs
                    (jm_set (mcPath c) \<lparr>hsHash = Some h, hsEncoding = detectFileEncoding (mcPath c) bytes, hsSize = length bytes,
                                        hsDeleted = None\<rparr> merged) remaining (s\<lparr>egObjects := objs\<rparr>)))"

definition resolveContentConflicts ::
    "'a work_env_scheme \<Rightarrow> merge_conflict list \<Rightarrow> hash_map \<Rightarrow> hash_map \<Rightarrow> work
     \<Rightarrow> (string + hash_map \<times> merge_conflict list) \<times> work" where
  "resolveContentConflicts env conflicts ours theirs w =
     (case writeBlobOptions env (wkEngine w) of
        (Inl e, s1) \<Rightarrow> (Inl (engine_error_message e), w\<lparr>wkEngine := s1\<rparr>)
      | (Inr opts, s1) \<Rightarrow>
          (case resolve_contents env opts ours theirs conflicts [] [] s1 of (r, s2) \<Rightarrow> (r, w\<lparr>wkEngine := s2\<rparr>)))"

text \<open>The hash merge with the texts that merge put over it, and the conflicts that remain.\<close>

definition merge_contents ::
    "'a work_env_scheme \<Rightarrow> hash_map \<Rightarrow> hash_map \<Rightarrow> hash_map \<Rightarrow> work \<Rightarrow> (string + hash_map \<times> merge_conflict list) \<times> work" where
  "merge_contents env base theirs ours w =
     (case threeWayMergeHashes base theirs ours of
        (hashed, conflicts) \<Rightarrow>
          (case resolveContentConflicts env conflicts ours theirs w of
             (Inl m, w1) \<Rightarrow> (Inl m, w1)
           | (Inr (content, remaining), w1) \<Rightarrow> (Inr (fold (\<lambda>(p, st) m. jm_set p st m) content hashed, remaining), w1)))"

section \<open>Writing the merged tree\<close>

text \<open>\<open>fs.unlink\<close> of a path of the tree; a missing file is no error, an unsafe path is passed over.\<close>

definition unlink_path :: "'a work_env_scheme \<Rightarrow> string \<Rightarrow> work \<Rightarrow> string option \<times> work" where
  "unlink_path env p w =
     (case resolve_in env w p of
        Inl _ \<Rightarrow> (None, w)
      | Inr full \<Rightarrow> (case unlink_file env full w of
                       (Some m, w1) \<Rightarrow> (if m = ''ENOENT'' then None else Some m, w1) | (None, w1) \<Rightarrow> (None, w1)))"

definition apply_path :: "'a work_env_scheme \<Rightarrow> hash_map \<Rightarrow> hash_map \<Rightarrow> int \<Rightarrow> string \<Rightarrow> work \<Rightarrow> string option \<times> work" where
  "apply_path env ours merged now p w =
     (if hashKey (jm_get ours p) = hashKey (jm_get merged p) then (None, w)
      else case wanted_write now merged p of
             None \<Rightarrow> unlink_path env p w | Some x \<Rightarrow> writeSnapshotContent env x w)"

text \<open>A loop of writes that an exception ends.\<close>

fun until_error :: "('b \<Rightarrow> work \<Rightarrow> string option \<times> work) \<Rightarrow> 'b list \<Rightarrow> work \<Rightarrow> string option \<times> work" where
  "until_error f [] w = (None, w)"
| "until_error f (x # xs) w = (case f x w of (Some m, w1) \<Rightarrow> (Some m, w1) | (None, w1) \<Rightarrow> until_error f xs w1)"

definition applyMergedHashState :: "'a work_env_scheme \<Rightarrow> hash_map \<Rightarrow> hash_map \<Rightarrow> work \<Rightarrow> string option \<times> work" where
  "applyMergedHashState env ours merged w =
     until_error (apply_path env ours merged (egNow (wkEngine w))) (sorted_set (jm_keys ours @ jm_keys merged)) w"

text \<open>\<open>fs.mkdir\<close> of the parent and \<open>fs.writeFile\<close>.\<close>

definition write_plain :: "'a work_env_scheme \<Rightarrow> string \<Rightarrow> bytes \<Rightarrow> work \<Rightarrow> string option \<times> work" where
  "write_plain env full bytes w =
     (if below_file (wkFiles w) full then (Some ''ENOTDIR'', w)
      else if is_dir (wkFiles w) full then (Some ''EISDIR'', w)
      else case weFileWriteError env full of
             Some m \<Rightarrow> (Some m, w)
           | None \<Rightarrow> (None, w\<lparr>wkFiles := jm_set full \<lparr>dfBytes = bytes, dfMtime = egNow (wkEngine w)\<rparr> (wkFiles w)\<rparr>))"

definition write_conflict ::
    "'a work_env_scheme \<Rightarrow> hash_map \<Rightarrow> hash_map \<Rightarrow> string \<Rightarrow> string \<Rightarrow> merge_conflict \<Rightarrow> work \<Rightarrow> string option \<times> work" where
  "write_conflict env ours theirs oursLabel theirsLabel c w =
     (case (side_text env (wkEngine w) (mcTargetHash c) ours (mcPath c),
            side_text env (wkEngine w) (mcSourceHash c) theirs (mcPath c)) of
        (Some o', Some t) \<Rightarrow>
          (case resolve_in env w (mcPath c) of
             Inl _ \<Rightarrow> (None, w)
           | Inr full \<Rightarrow>
               write_plain env full
                 (bytesFromSnapshotContent env (formatConflictMarkers o' t oursLabel theirsLabel) ''utf8'') w)
      | _ \<Rightarrow> (None, w))"

definition writeConflictFiles ::
    "'a work_env_scheme \<Rightarrow> merge_conflict list \<Rightarrow> hash_map \<Rightarrow> hash_map \<Rightarrow> string \<Rightarrow> string \<Rightarrow> work \<Rightarrow> string option \<times> work" where
  "writeConflictFiles env conflicts ours theirs oursLabel theirsLabel w =
     until_error (write_conflict env ours theirs oursLabel theirsLabel) conflicts w"

definition auto_entry :: "string \<times> file_hash_state \<Rightarrow> auto_merged" where
  "auto_entry e = (case e of (p, st) \<Rightarrow>
     \<lparr>amPath = p, amHash = hsHash st, amEncoding = hsEncoding st, amSize = hsSize st, amDeleted = hsDeleted st\<rparr>)"

definition conflict_state ::
    "'a work_env_scheme \<Rightarrow> merge_state \<Rightarrow> hash_map \<Rightarrow> hash_map \<Rightarrow> merge_conflict list \<Rightarrow> work \<Rightarrow> merge_state" where
  "conflict_state env st ours merged conflicts w =
     st\<lparr>msConflictPaths := map mcPath conflicts, msAutoMerged := Some (map auto_entry merged),
        msAutoMergedPaths := Some (filter (\<lambda>p. p \<notin> set (map mcPath conflicts)
            \<and> hashKey (jm_get ours p) \<noteq> hashKey (jm_get merged p)) (map fst merged)),
        msInventory := Some (sorted_set (filter (\<lambda>p. hashKey (jm_get merged p) \<noteq> []) (jm_keys merged))),
        msCreatedAt := or_else (truthy (msCreatedAt st)) (Some (eeIso env (egNow (wkEngine w))))\<rparr>"

definition beginConflict ::
    "'a work_env_scheme \<Rightarrow> merge_state \<Rightarrow> hash_map \<Rightarrow> hash_map \<Rightarrow> hash_map \<Rightarrow> merge_conflict list \<Rightarrow> work
     \<Rightarrow> string option \<times> work" where
  "beginConflict env st ours theirs merged conflicts w =
     (case applyMergedHashState env ours merged w of
        (Some m, w1) \<Rightarrow> (Some m, w1)
      | (None, w1) \<Rightarrow>
          (case writeConflictFiles env conflicts ours theirs (js_or (or_default (msOursLabel st) []) ''HEAD'')
                  (js_or (or_default (msTheirsLabel st) []) (js_or (or_default (msSourceName st) []) ''theirs'')) w1 of
             (Some m, w2) \<Rightarrow> (Some m, w2)
           | (None, w2) \<Rightarrow> saveMergeState env (conflict_state env st ours merged conflicts w2) w2))"

section \<open>A checkpoint with given snapshots\<close>

text \<open>The last steps of a merge, a continued merge and a cherry pick: list, save, index. A failed save is thrown.\<close>

definition commit_checkpoint :: "'a engine_env_scheme \<Rightarrow> checkpoint_info \<Rightarrow> engine \<Rightarrow> string option \<times> engine" where
  "commit_checkpoint env c s =
     (case saveCheckpointToDisk env c (s\<lparr>egHistory := egHistory s @ [c]\<rparr>) of
        (Some e, c', s1) \<Rightarrow> (Some (engine_error_message e), put_cp (cpId c) c' s1)
      | (None, c', s1) \<Rightarrow>
          (let s2 = applySnapshotHashes env (snapshots_of c) (saveCheckpointHistory env (put_cp (cpId c) c' s1))
           in (None, s2\<lparr>egLastCheckpointTime := egNow s2\<rparr>)))"

definition bare_checkpoint ::
    "'a work_env_scheme \<Rightarrow> string \<Rightarrow> string \<Rightarrow> capture_mode \<Rightarrow> file_snapshot list \<Rightarrow> string list \<Rightarrow> string list \<Rightarrow> engine
     \<Rightarrow> checkpoint_info" where
  "bare_checkpoint env i description mode ss inventory tags s =
     (new_checkpoint i description (egNow s))
       \<lparr>cpWorkspacePath := egWorkspacePath s,
        cpWorkspaceKey := map_option (workspaceStorageKey env) (truthy (egWorkspacePath s)),
        cpFileSnapshots := Some ss, cpFileInventory := Some inventory, cpCaptureMode := Some mode,
        cpSkippedFiles := Some [], cpTags := Some tags, cpChangedPaths := Some (changedPathsFromSnapshots (Some ss))\<rparr>"

section \<open>Continuing and aborting\<close>

fun resolved_conflicts ::
    "'a work_env_scheme \<Rightarrow> string list \<Rightarrow> file_snapshot list \<Rightarrow> work
     \<Rightarrow> (string + file_snapshot list \<times> string option) \<times> work" where
  "resolved_conflicts env [] acc w = (Inr (acc, None), w)"
| "resolved_conflicts env (p # ps) acc w =
     (case resolve_in env w p of
        Inl _ \<Rightarrow> (Inr ([], Some (''Unsafe conflict path '' @ p)), w)
      | Inr full \<Rightarrow>
          (case jm_get (wkFiles w) full of
             None \<Rightarrow>
               if below_file (wkFiles w) full then (Inl ''ENOTDIR'', w)
               else if is_dir (wkFiles w) full then (Inl ''EISDIR'', w)
               else resolved_conflicts env ps (acc @ [deleted_snapshot p ''utf8'' (egNow (wkEngine w))]) w
           | Some f \<Rightarrow>
               (case weReadError env full of
                  Some m \<Rightarrow> (Inl m, w)
                | None \<Rightarrow>
                    if fileHasConflictMarkers (snapshotContentFromBytes env (dfBytes f) ''utf8'')
                    then (Inr ([], Some (''Unresolved conflict markers in '' @ p)), w)
                    else (case writeBlobOptions env (wkEngine w) of
                            (Inl e, s1) \<Rightarrow> (Inl (engine_error_message e), w\<lparr>wkEngine := s1\<rparr>)
                          | (Inr opts, s1) \<Rightarrow>
                              (case putBlob env opts (dfBytes f) (egObjects s1) of
                                 Inl e \<Rightarrow> (Inl (blob_error_message e), w\<lparr>wkEngine := s1\<rparr>)
                               | Inr (h, objs) \<Rightarrow>
                                   resolved_conflicts env ps
                                     (acc @ [\<lparr>fsRelativePath = p, fsContent = None, fsHash = Some h,
                                              fsEncoding = detectFileEncoding p (dfBytes f), fsLastModified = egNow (wkEngine w),
                                              fsSize = length (dfBytes f), fsDeleted = None, fsChangeType = Some Modified,
                                              fsRenamedFrom = None, fsCopiedFrom = None\<rparr>])
                                     (w\<lparr>wkEngine := s1\<lparr>egObjects := objs\<rparr>\<rparr>))))))"

definition resolvedConflictSnapshots ::
    "'a work_env_scheme \<Rightarrow> merge_state \<Rightarrow> work \<Rightarrow> (string + file_snapshot list \<times> string option) \<times> work" where
  "resolvedConflictSnapshots env st w = resolved_conflicts env (msConflictPaths st) [] w"

definition auto_snapshot :: "int \<Rightarrow> auto_merged \<Rightarrow> file_snapshot" where
  "auto_snapshot now a =
     \<lparr>fsRelativePath = amPath a, fsContent = None, fsHash = amHash a, fsEncoding = amEncoding a, fsLastModified = now,
      fsSize = amSize a, fsDeleted = amDeleted a, fsChangeType = Some (if amDeleted a = Some True then Deleted else Modified),
      fsRenamedFrom = None, fsCopiedFrom = None\<rparr>"

definition continued_snapshots :: "int \<Rightarrow> merge_state \<Rightarrow> file_snapshot list \<Rightarrow> file_snapshot list" where
  "continued_snapshots now st resolved =
     map (auto_snapshot now) (filter (\<lambda>a. amPath a \<notin> set (map fsRelativePath resolved)) (or_default (msAutoMerged st) [])) @ resolved"

definition continued_inventory :: "merge_state \<Rightarrow> file_snapshot list \<Rightarrow> string list" where
  "continued_inventory st ss =
     sorted_set (filter (\<lambda>p. \<not> list_ex (\<lambda>x. fsRelativePath x = p \<and> fsDeleted x = Some True) ss)
       (or_default (msInventory st) [] @ map fsRelativePath (filter (\<lambda>x. fsDeleted x \<noteq> Some True) ss)))"

definition continued_description :: "merge_state \<Rightarrow> string" where
  "continued_description st =
     js_or (or_default (msDescription st) [])
       (let source = js_or (or_default (msSourceName st) []) (msSourceId st)
        in case msOperation st of
             OpMerge \<Rightarrow> ''Merge '' @ source @ '' into '' @ js_or (or_default (msTargetName st) []) (msTargetId st)
           | OpRevert \<Rightarrow> ''Revert \"'' @ source @ ''\"''
           | OpCherryPick \<Rightarrow> js_or (or_default (msSourceName st) []) (''Cherry-pick '' @ msSourceId st))"

definition continued_tags :: "merge_state \<Rightarrow> string list" where
  "continued_tags st =
     or_default (msTags st)
       (case msOperation st of
          OpMerge \<Rightarrow> [''merge'', or_default (msSourceName st) [], or_default (msTargetName st) []]
        | OpRevert \<Rightarrow> [''revert'', msSourceId st]
        | OpCherryPick \<Rightarrow> [''cherry-pick'', msSourceId st])"

definition continued_checkpoint ::
    "'a work_env_scheme \<Rightarrow> merge_state \<Rightarrow> string \<Rightarrow> file_snapshot list \<Rightarrow> engine \<Rightarrow> checkpoint_info" where
  "continued_checkpoint env st i ss s =
     (bare_checkpoint env i (continued_description st) (if msOperation st = OpMerge then Baseline else Delta) ss
        (continued_inventory st ss) (continued_tags st) s)
       \<lparr>cpBranchId := msTargetBranchId st, cpParentCheckpointId := Some (msTargetHeadId st),
        cpParentCheckpointIds := Some (case (msOperation st, truthy (msSourceHeadId st)) of
            (OpMerge, Some source) \<Rightarrow> [msTargetHeadId st, source] | _ \<Rightarrow> [msTargetHeadId st]),
        cpLabel := truthy (msLabel st), cpIntent := truthy (msIntent st)\<rparr>"

text \<open>The branch that a merge ends on takes the new head and becomes the active one.\<close>

definition advance_branch :: "string option \<Rightarrow> string \<Rightarrow> engine \<Rightarrow> engine" where
  "advance_branch target i s =
     (case Option.bind (truthy target) (findBranchById (egBranches s)) of
        None \<Rightarrow> s\<lparr>egDetachedFrom := None\<rparr>
      | Some b \<Rightarrow> s\<lparr>egBranches := update_branch (brId b) (\<lambda>b. b\<lparr>brHead := i\<rparr>) (egBranches s),
                    egActiveBranchId := Some (brId b), egDetachedFrom := None\<rparr>)"

definition operation_action :: "merge_operation \<Rightarrow> string" where
  "operation_action op = (case op of OpMerge \<Rightarrow> ''branch'' | OpCherryPick \<Rightarrow> ''cherry_pick'' | OpRevert \<Rightarrow> ''revert'')"

definition mergeContinue :: "'a work_env_scheme \<Rightarrow> work \<Rightarrow> (string + merge_continue_result) \<times> work" where
  "mergeContinue env w =
     (case loadMergeState w of
        None \<Rightarrow> (Inr \<lparr>mrSuccess = False, mrCheckpointId = None, mrConflicts = [], mrMessage = Some ''No merge in progress''\<rparr>, w)
      | Some st \<Rightarrow>
          (case resolvedConflictSnapshots env st w of
             (Inl m, w1) \<Rightarrow> (Inl m, w1)
           | (Inr (_, Some m), w1) \<Rightarrow>
               (Inr \<lparr>mrSuccess = False, mrCheckpointId = None, mrConflicts = msConflictPaths st, mrMessage = Some m\<rparr>, w1)
           | (Inr (resolved, None), w1) \<Rightarrow>
               (case draw_uuid env w1 of
                  (uuid, w2) \<Rightarrow>
                    (let i = ''cp_'' @ uuid; s = wkEngine w2; ss = continued_snapshots (egNow s) st resolved
                     in case commit_checkpoint env (continued_checkpoint env st i ss s) (advance_branch (msTargetBranchId st) i s) of
                          (Some m, s1) \<Rightarrow> (Inl m, w2\<lparr>wkEngine := s1\<rparr>)
                        | (None, s1) \<Rightarrow>
                            (Inr \<lparr>mrSuccess = True, mrCheckpointId = Some i, mrConflicts = [], mrMessage = None\<rparr>,
                             on_engine (\<lambda>s. enforceRetentionPolicies env (append_audit (operation_action (msOperation st)) (Some i) True s))
                               (clearMergeState (w2\<lparr>wkEngine := s1\<rparr>)))))))"

definition finish_abort :: "'a work_env_scheme \<Rightarrow> merge_state \<Rightarrow> work \<Rightarrow> (string + bool \<times> string option) \<times> work" where
  "finish_abort env st w =
     (case (case truthy (msStashId st) of
              None \<Rightarrow> (Inr (), w)
            | Some i \<Rightarrow> (case stashApply env (Some i) w of (Inl m, w1) \<Rightarrow> (Inl m, w1) | (Inr _, w1) \<Rightarrow> (Inr (), w1))) of
        (Inl m, w1) \<Rightarrow> (Inl m, w1)
      | (Inr _, w1) \<Rightarrow> (Inr (True, None), on_engine (append_audit ''branch'' None True) (clearMergeState w1)))"

definition mergeAbort :: "'a work_env_scheme \<Rightarrow> work \<Rightarrow> (string + bool \<times> string option) \<times> work" where
  "mergeAbort env w =
     (case loadMergeState w of
        None \<Rightarrow> (Inr (True, None), w)
      | Some st \<Rightarrow>
          (case truthy (msPreMergeCheckpointId st) of
             None \<Rightarrow> finish_abort env st w
           | Some i \<Rightarrow>
               (case restoreCheckpoint env i checkout_options w of
                  (Inl m, w1) \<Rightarrow> (Inl m, w1)
                | (Inr restored, w1) \<Rightarrow>
                    if \<not> rrSuccess restored
                    then (Inr (False, Some (or_default (first_error (rrFailed restored)) ''Could not restore the pre-merge tree'')), w1)
                    else finish_abort env st w1)))"

section \<open>Merging branches\<close>

definition merge_failed :: "merge_conflict list \<Rightarrow> string option \<Rightarrow> branch_merge_result" where
  "merge_failed conflicts m =
     \<lparr>bmSuccess = False, bmMergeCheckpointId = None, bmConflicts = conflicts, bmMergeInProgress = False, bmMessage = m\<rparr>"

definition merge_done :: "string option \<Rightarrow> branch_merge_result" where
  "merge_done i =
     \<lparr>bmSuccess = True, bmMergeCheckpointId = i, bmConflicts = [], bmMergeInProgress = False, bmMessage = None\<rparr>"

definition dirty_message :: string where "dirty_message = ''Working tree has overlapping uncheckpointed changes''"

definition path_conflict :: "string \<Rightarrow> merge_conflict" where
  "path_conflict p = \<lparr>mcPath = p, mcBaseHash = None, mcSourceHash = None, mcTargetHash = None\<rparr>"

definition identical_to_target :: "file_snapshot list \<Rightarrow> hash_map \<Rightarrow> bool" where
  "identical_to_target ss target \<longleftrightarrow>
     length (filter (\<lambda>x. fsDeleted x \<noteq> Some True) ss) = length target
     \<and> list_all (\<lambda>x. if fsDeleted x = Some True then jm_get target (fsRelativePath x) = None
                     else Option.bind (jm_get target (fsRelativePath x)) hsHash = fsHash x) ss"

definition merge_in_progress :: "checkpoint_branch \<Rightarrow> checkpoint_branch \<Rightarrow> string \<Rightarrow> merge_conflict list \<Rightarrow> merge_state" where
  "merge_in_progress source target lca conflicts =
     \<lparr>msOperation = OpMerge, msSourceId = brId source, msTargetId = brId target, msSourceHeadId = Some (brHead source),
      msTargetHeadId = brHead target, msTargetBranchId = Some (brId target), msLcaId = Some lca,
      msConflictPaths = map mcPath conflicts, msAutoMergedPaths = None, msAutoMerged = None, msInventory = None,
      msPreMergeCheckpointId = Some (brHead target), msStashId = None, msSourceName = Some (brName source),
      msTargetName = Some (brName target), msOursLabel = Some (brName target), msTheirsLabel = Some (brName source),
      msDescription = None, msLabel = None, msIntent = None, msTags = None, msCreatedAt = None\<rparr>"

text \<open>The merge checkpoint, once every path has merged.\<close>

definition merge_commit ::
    "'a work_env_scheme \<Rightarrow> checkpoint_branch \<Rightarrow> checkpoint_branch \<Rightarrow> string list \<Rightarrow> hash_map \<Rightarrow> hash_map \<Rightarrow> work
     \<Rightarrow> (string + branch_merge_result) \<times> work" where
  "merge_commit env source target unionPaths targetState merged w =
     (case hashStateToSnapshots (egNow (wkEngine w)) merged unionPaths of
        (ss, inventory) \<Rightarrow>
          if identical_to_target ss targetState then (Inr (merge_done None), w)
          else (case draw_uuid env w of
            (uuid, w1) \<Rightarrow>
              (let i = ''cp_'' @ uuid;
                   c = (bare_checkpoint env i (''Merge '' @ brName source @ '' into '' @ brName target) Baseline ss inventory
                          [''merge'', brName source, brName target] (wkEngine w1))
                         \<lparr>cpBranchId := Some (brId target), cpParentCheckpointId := Some (brHead target),
                          cpParentCheckpointIds := Some [brHead target, brHead source]\<rparr>
               in case applyMergedHashState env targetState merged w1 of
                    (Some m, w2) \<Rightarrow> (Inl m, w2)
                  | (None, w2) \<Rightarrow>
                      (case commit_checkpoint env c
                              ((wkEngine w2)\<lparr>egBranches := update_branch (brId target) (\<lambda>b. b\<lparr>brHead := i\<rparr>) (egBranches (wkEngine w2)),
                                             egActiveBranchId := Some (brId target), egDetachedFrom := None\<rparr>) of
                         (Some m, s1) \<Rightarrow> (Inl m, w2\<lparr>wkEngine := s1\<rparr>)
                       | (None, s1) \<Rightarrow>
                           (Inr (merge_done (Some i)),
                            w2\<lparr>wkEngine := enforceRetentionPolicies env (append_audit ''branch'' (Some i) True s1)\<rparr>)))))"

text \<open>From the three trees on: merge, refuse over uncheckpointed changes, stop at conflicts, or commit.\<close>

definition merge_trees ::
    "'a work_env_scheme \<Rightarrow> checkpoint_branch \<Rightarrow> checkpoint_branch \<Rightarrow> string \<Rightarrow> hash_map \<Rightarrow> hash_map \<Rightarrow> hash_map \<Rightarrow> work
     \<Rightarrow> (string + branch_merge_result) \<times> work" where
  "merge_trees env source target lca base theirs ours w =
     (case merge_contents env base theirs ours w of
        (Inl m, w1) \<Rightarrow> (Inl m, w1)
      | (Inr (merged, conflicts), w1) \<Rightarrow>
          (let dirty = overlappingDirtyConflicts env w1 ours merged (Some theirs);
               failed = on_engine (append_audit ''branch'' (Some (brId target)) False)
           in if dirty \<noteq> [] then (Inr (merge_failed (map path_conflict dirty) (Some dirty_message)), failed w1)
              else if conflicts \<noteq> []
              then (case beginConflict env (merge_in_progress source target lca conflicts) ours theirs merged conflicts w1 of
                      (Some m, w2) \<Rightarrow> (Inl m, w2)
                    | (None, w2) \<Rightarrow> (Inr ((merge_failed conflicts None)\<lparr>bmMergeInProgress := True\<rparr>), failed w2))
              else merge_commit env source target (jm_keys base @ jm_keys theirs @ jm_keys ours) ours merged w1))"

definition mergeBranches :: "'a work_env_scheme \<Rightarrow> string \<Rightarrow> string \<Rightarrow> work \<Rightarrow> (string + branch_merge_result) \<times> work" where
  "mergeBranches env sourceId targetId w =
     (let s = wkEngine w
      in case (findBranchById (egBranches s) sourceId, findBranchById (egBranches s) targetId) of
           (Some source, Some target) \<Rightarrow>
             if brId source = brId target then (Inr (merge_done None), w)
             else (case inProgressMergeMessage w of
               Some busy \<Rightarrow> (Inr (merge_failed [] (Some busy)), w)
             | None \<Rightarrow>
                 (case Option.bind (lowestCommonAncestorId (workspaceHistory env s) (brHead source) (brHead target)) (\<lambda>i. truthy (Some i)) of
                    None \<Rightarrow> (Inr (merge_failed [\<lparr>mcPath = ''*'', mcBaseHash = None, mcSourceHash = Some (brHead source),
                                                 mcTargetHash = Some (brHead target)\<rparr>] None), w)
                  | Some lca \<Rightarrow>
                      (case (hashStateAtCheckpoint env s lca, hashStateAtCheckpoint env s (brHead source),
                             hashStateAtCheckpoint env s (brHead target)) of
                         (Some base, Some theirs, Some ours) \<Rightarrow> merge_trees env source target lca base theirs ours w
                       | _ \<Rightarrow> (Inr (merge_failed [] None), w))))
         | _ \<Rightarrow> (Inr (merge_failed [] None), w))"

end
