(* ===== verification/CherryPick.thy ===== *)
theory CherryPick
  imports MergeState
begin

text \<open>
  Cherry picks and reverts (\<open>manager/cherryPick.ts\<close>): the change that one checkpoint made, or its inverse,
  is merged onto a head and recorded as a new checkpoint. A path that the checkpoint renamed is renamed in
  the base and in the head before the merge.
\<close>

section \<open>Source, parent and head\<close>

definition activeHeadId :: "'a node_env_scheme \<Rightarrow> engine \<Rightarrow> string option" where
  "activeHeadId env s =
     or_else (Option.bind (egDetachedFrom s) (\<lambda>d. truthy (Some (dtCheckpointId d)))) (stashHeadId env s)"

definition firstParentId :: "checkpoint_info \<Rightarrow> string option" where
  "firstParentId c = or_else (truthy (cpParentCheckpointId c)) (first_opt (or_default (cpParentCheckpointIds c) []))"

definition isMergeCheckpoint :: "checkpoint_info \<Rightarrow> bool" where
  "isMergeCheckpoint c \<longleftrightarrow> length (or_default (cpParentCheckpointIds c) []) > 1"

section \<open>Renames\<close>

definition rename_pair :: "file_snapshot \<Rightarrow> (string \<times> string) option" where
  "rename_pair x =
     (case truthy (fsRenamedFrom x) of
        None \<Rightarrow> None
      | Some r \<Rightarrow>
          (let from_path = posixDetectPath r; to_path = posixDetectPath (fsRelativePath x)
           in if snapshotIsDeleted x \<or> from_path = [] \<or> to_path = [] \<or> from_path = to_path then None
              else Some (from_path, to_path)))"

definition collectRenameMap :: "file_snapshot list \<Rightarrow> bool \<Rightarrow> (string, string) jsmap" where
  "collectRenameMap ss invert =
     fold (\<lambda>x m. case rename_pair x of
                   None \<Rightarrow> m | Some (a, b) \<Rightarrow> if invert then jm_set b a m else jm_set a b m) ss []"

definition move_state :: "string \<times> string \<Rightarrow> hash_map \<Rightarrow> hash_map" where
  "move_state r m =
     (case r of (a, b) \<Rightarrow>
        (case jm_get m a of
           Some st \<Rightarrow> if jm_get m b = None then jm_del a (jm_set b st m) else m
         | None \<Rightarrow> m))"

definition remapHashState :: "hash_map \<Rightarrow> (string, string) jsmap \<Rightarrow> hash_map" where
  "remapHashState state renames = fold move_state renames state"

section \<open>The delta and its application\<close>

definition delta_snapshot :: "hash_map \<Rightarrow> hash_map \<Rightarrow> (string, string) jsmap \<Rightarrow> int \<Rightarrow> string \<Rightarrow> file_snapshot option" where
  "delta_snapshot ours merged renames now p =
     (let before = hashKey (jm_get ours p); after = hashKey (jm_get merged p);
          by_dest = fold (\<lambda>(a, b) m. jm_set b a m) renames []
      in if before = after then None
         else case (if after = [] then None else jm_get merged p) of
           None \<Rightarrow> Some (deleted_snapshot p (js_or (or_default (map_option hsEncoding (jm_get ours p)) []) ''utf8'') now)
         | Some st \<Rightarrow>
             Some \<lparr>fsRelativePath = p, fsContent = None, fsHash = hsHash st, fsEncoding = hsEncoding st, fsLastModified = now,
                   fsSize = hsSize st, fsDeleted = None, fsChangeType = Some (if before = [] then Created else Modified),
                   fsRenamedFrom = (if before = [] then truthy (jm_get by_dest p) else None), fsCopiedFrom = None\<rparr>)"

definition deltaSnapshots :: "hash_map \<Rightarrow> hash_map \<Rightarrow> (string, string) jsmap \<Rightarrow> int \<Rightarrow> file_snapshot list" where
  "deltaSnapshots ours merged renames now =
     List.map_filter (delta_snapshot ours merged renames now) (sorted_set (jm_keys ours @ jm_keys merged))"

text \<open>A write is skipped when the file already has the contents; the writes of the tree come before the deletions.\<close>

fun write_changed :: "'a work_env_scheme \<Rightarrow> file_snapshot list \<Rightarrow> work \<Rightarrow> (string + string list) \<times> work" where
  "write_changed env [] w = (Inr [], w)"
| "write_changed env (x # xs) w =
     (if hashKey (workspaceHashState env w (fsRelativePath x)) = hashKey (Some (snapshotToHashState x))
      then write_changed env xs w
      else case writeSnapshotContent env x w of
             (Some m, w1) \<Rightarrow> (Inl m, w1)
           | (None, w1) \<Rightarrow> (case write_changed env xs w1 of
                               (Inr restored, w2) \<Rightarrow> (Inr (fsRelativePath x # restored), w2) | r \<Rightarrow> r))"

definition applyPathChanges ::
    "'a work_env_scheme \<Rightarrow> hash_map \<Rightarrow> hash_map \<Rightarrow> work \<Rightarrow> (string + string list \<times> string list) \<times> work" where
  "applyPathChanges env ours merged w =
     (let changes = deltaSnapshots ours merged [] (egNow (wkEngine w));
          writes = filter (\<lambda>x. fsDeleted x \<noteq> Some True) changes;
          deletes = map fsRelativePath (filter (\<lambda>x. fsDeleted x = Some True) changes)
      in case readBlobOptions (wkEngine w) of
           Inl e \<Rightarrow> (Inl (engine_error_message e), w)
         | Inr key \<Rightarrow>
             (case check_blobs env key (egObjects (wkEngine w)) writes of
                Some m \<Rightarrow> (Inl m, w)
              | None \<Rightarrow>
                  (case write_changed env writes w of
                     (Inl m, w1) \<Rightarrow> (Inl m, w1)
                   | (Inr restored, w1) \<Rightarrow>
                       (case unlink_all env deletes w1 of
                          (Inl m, w2) \<Rightarrow> (Inl m, w2) | (Inr removed, w2) \<Rightarrow> (Inr (restored, removed), w2)))))"

section \<open>Applying the delta of a checkpoint\<close>

record delta_options =
  doOnto :: "string option"
  doInverse :: bool
  doTags :: "string list option"
  doDescription :: "string option"
  doLabel :: "string option"
  doIntent :: "string option"
  doAction :: merge_operation
  doParentId :: "string option"

record cherry_pick_result =
  cprSuccess :: bool
  cprEmpty :: bool
  cprCheckpointId :: "string option"
  cprSourceId :: string
  cprOntoId :: "string option"
  cprRestored :: "string list"
  cprRemoved :: "string list"
  cprConflicts :: "string list"
  cprMessage :: "string option"
  cprMergeInProgress :: bool

definition failedResult :: "string \<Rightarrow> string option \<Rightarrow> string option \<Rightarrow> string list \<Rightarrow> cherry_pick_result" where
  "failedResult source onto m conflicts =
     \<lparr>cprSuccess = False, cprEmpty = False, cprCheckpointId = None, cprSourceId = source, cprOntoId = onto, cprRestored = [],
      cprRemoved = [], cprConflicts = conflicts, cprMessage = m, cprMergeInProgress = False\<rparr>"

definition source_name :: "checkpoint_info \<Rightarrow> string" where
  "source_name c = js_or (or_default (cpLabel c) []) (cpDescription c)"

definition revert_title :: "checkpoint_info \<Rightarrow> string" where
  "revert_title c = ''Revert \"'' @ source_name c @ ''\"''"

definition delta_tags :: "delta_options \<Rightarrow> string \<Rightarrow> string list" where
  "delta_tags opts i = (if doInverse opts then [''revert'', i] else [''cherry-pick'', i])"

definition delta_in_progress ::
    "delta_options \<Rightarrow> checkpoint_info \<Rightarrow> string \<Rightarrow> merge_conflict list \<Rightarrow> engine \<Rightarrow> merge_state" where
  "delta_in_progress opts source onto conflicts s =
     \<lparr>msOperation = (if doAction opts = OpRevert then OpRevert else OpCherryPick), msSourceId = cpId source, msTargetId = onto,
      msSourceHeadId = Some (cpId source), msTargetHeadId = onto, msTargetBranchId = egActiveBranchId s, msLcaId = None,
      msConflictPaths = map mcPath conflicts, msAutoMergedPaths = None, msAutoMerged = None, msInventory = None,
      msPreMergeCheckpointId = Some onto, msStashId = None, msSourceName = Some (source_name source), msTargetName = None,
      msOursLabel = Some ''HEAD'', msTheirsLabel = Some (js_or (source_name source) (take 11 (cpId source))),
      msDescription = Some (if doInverse opts then revert_title source else cpDescription source),
      msLabel = cpLabel source, msIntent = cpIntent source, msTags = Some (delta_tags opts (cpId source)), msCreatedAt = None\<rparr>"

text \<open>The new checkpoint before it is bound to the line.\<close>

definition delta_checkpoint ::
    "'a work_env_scheme \<Rightarrow> delta_options \<Rightarrow> checkpoint_info \<Rightarrow> string \<Rightarrow> file_snapshot list \<Rightarrow> hash_map \<Rightarrow> engine
     \<Rightarrow> checkpoint_info" where
  "delta_checkpoint env opts source i ss merged s =
     (let tags = (case doTags opts of Some (t # ts) \<Rightarrow> t # ts | _ \<Rightarrow> delta_tags opts (cpId source))
      in (bare_checkpoint env i
            (js_or (or_default (doDescription opts) []) (if doInverse opts then revert_title source else cpDescription source))
            Delta ss (sorted_set (filter (\<lambda>p. hashKey (jm_get merged p) \<noteq> []) (jm_keys merged)))
            (set_of (filter (\<lambda>x. x \<noteq> []) (map js_trim tags))) s)
           \<lparr>cpLabel := truthy (case doLabel opts of Some l \<Rightarrow> Some l | None \<Rightarrow> cpLabel source),
            cpIntent := truthy (case doIntent opts of Some l \<Rightarrow> Some l | None \<Rightarrow> cpIntent source)\<rparr>)"

definition delta_commit ::
    "'a work_env_scheme \<Rightarrow> delta_options \<Rightarrow> checkpoint_info \<Rightarrow> string \<Rightarrow> file_snapshot list \<Rightarrow> hash_map \<Rightarrow> hash_map \<Rightarrow> work
     \<Rightarrow> (string + cherry_pick_result) \<times> work" where
  "delta_commit env opts source onto ss ours merged w =
     (case applyPathChanges env ours merged w of
        (Inl m, w1) \<Rightarrow> (Inl m, w1)
      | (Inr (restored, removed), w1) \<Rightarrow>
          (case draw_uuid env w1 of
             (uuid, w2) \<Rightarrow>
               (case draw_uuid env w2 of
                  (branch, w3) \<Rightarrow>
                    (let i = ''cp_'' @ uuid
                     in case bindCheckpointToActiveLine env branch (delta_checkpoint env opts source i ss merged (wkEngine w3)) (wkEngine w3) of
                          (c, s1) \<Rightarrow>
                            (case commit_checkpoint env (c\<lparr>cpParentCheckpointId := Some onto\<rparr>) s1 of
                               (Some m, s2) \<Rightarrow> (Inl m, w3\<lparr>wkEngine := s2\<rparr>)
                             | (None, s2) \<Rightarrow>
                                 (Inr \<lparr>cprSuccess = True, cprEmpty = False, cprCheckpointId = Some i, cprSourceId = cpId source,
                                       cprOntoId = Some onto, cprRestored = restored, cprRemoved = removed, cprConflicts = [],
                                       cprMessage = None, cprMergeInProgress = False\<rparr>,
                                  w3\<lparr>wkEngine := enforceRetentionPolicies env
                                        (append_audit (operation_action (doAction opts)) (Some i) True s2)\<rparr>))))))"

text \<open>From the three trees on, with the renames of the source.\<close>

definition delta_trees ::
    "'a work_env_scheme \<Rightarrow> delta_options \<Rightarrow> checkpoint_info \<Rightarrow> string \<Rightarrow> (string, string) jsmap \<Rightarrow> hash_map \<Rightarrow> hash_map
     \<Rightarrow> hash_map \<Rightarrow> work \<Rightarrow> (string + cherry_pick_result) \<times> work" where
  "delta_trees env opts source onto renames base theirs ours w =
     (let moved = remapHashState ours renames
      in case merge_contents env (remapHashState base renames) theirs moved w of
           (Inl m, w1) \<Rightarrow> (Inl m, w1)
         | (Inr (merged, conflicts), w1) \<Rightarrow>
             (let dirty = overlappingDirtyConflicts env w1 moved merged (Some theirs);
                  report = (\<lambda>ok. on_engine (append_audit (operation_action (doAction opts)) (Some (cpId source)) ok));
                  ss = deltaSnapshots ours merged renames (egNow (wkEngine w1))
              in if dirty \<noteq> [] then (Inr (failedResult (cpId source) (Some onto) (Some dirty_message) dirty), report False w1)
                 else if conflicts \<noteq> []
                 then (case beginConflict env (delta_in_progress opts source onto conflicts (wkEngine w1)) moved theirs merged conflicts w1 of
                         (Some m, w2) \<Rightarrow> (Inl m, w2)
                       | (None, w2) \<Rightarrow>
                           (Inr ((failedResult (cpId source) (Some onto) None (map mcPath conflicts))\<lparr>cprMergeInProgress := True\<rparr>),
                            report False w2))
                 else if ss = []
                 then (Inr ((failedResult (cpId source) (Some onto) None [])\<lparr>cprSuccess := True, cprEmpty := True\<rparr>), report True w1)
                 else delta_commit env opts source onto ss ours merged w1))"

definition applyCheckpointDelta ::
    "'a work_env_scheme \<Rightarrow> string \<Rightarrow> delta_options \<Rightarrow> work \<Rightarrow> (string + cherry_pick_result) \<times> work" where
  "applyCheckpointDelta env i opts w =
     (let s = wkEngine w
      in if \<not> ready w then (Inr (failedResult i None (Some not_ready) []), w)
         else case inProgressMergeMessage w of
           Some busy \<Rightarrow> (Inr (failedResult i None (Some busy) []), w)
         | None \<Rightarrow>
             (case or_else (find (\<lambda>c. cpId c = i) (workspaceHistory env s)) (find_cp s i) of
                None \<Rightarrow> (Inr (failedResult i None (Some (''Checkpoint '' @ i @ '' not found'')) []), w)
              | Some source \<Rightarrow>
                  (case truthy (or_else (truthy (doParentId opts)) (firstParentId source)) of
                     None \<Rightarrow> (Inr (failedResult i None (Some ''Cannot cherry-pick a root checkpoint (no parent delta)'') []), w)
                   | Some parent \<Rightarrow>
                       (case or_else (truthy (map_option js_trim (doOnto opts))) (activeHeadId env s) of
                          None \<Rightarrow> (Inr (failedResult i None (Some ''No checkpoint to apply onto'') []), w)
                        | Some onto \<Rightarrow>
                            (case (hashStateAtCheckpoint env s (if doInverse opts then i else parent),
                                   hashStateAtCheckpoint env s (if doInverse opts then parent else i), hashStateAtCheckpoint env s onto) of
                               (Some base, Some theirs, Some ours) \<Rightarrow>
                                 delta_trees env opts source onto
                                   (collectRenameMap (case readCheckpointRecord env s i of LoadOk r \<Rightarrow> snapshots_of r | _ \<Rightarrow> snapshots_of source)
                                     (doInverse opts)) base theirs ours w
                             | _ \<Rightarrow> (Inr (failedResult i (Some onto) (Some ''Could not reconstruct parent, source, or HEAD'') []), w))))))"

definition cherryPick :: "'a work_env_scheme \<Rightarrow> string \<Rightarrow> string option \<Rightarrow> work \<Rightarrow> (string + cherry_pick_result) \<times> work" where
  "cherryPick env i onto w =
     applyCheckpointDelta env i
       \<lparr>doOnto = onto, doInverse = False, doTags = None, doDescription = None, doLabel = None, doIntent = None,
        doAction = OpCherryPick, doParentId = None\<rparr> w"

definition show_int :: "int \<Rightarrow> string" where
  "show_int n = (if n < 0 then ''-'' @ show_nat (nat (- n)) else show_nat (nat n))"

definition revert_parents :: "checkpoint_info \<Rightarrow> string list" where
  "revert_parents c =
     (case or_default (cpParentCheckpointIds c) [] of
        [] \<Rightarrow> (case truthy (cpParentCheckpointId c) of None \<Rightarrow> [] | Some p \<Rightarrow> [p]) | ps \<Rightarrow> ps)"

definition revertCheckpoint ::
    "'a work_env_scheme \<Rightarrow> string \<Rightarrow> string option \<Rightarrow> int option \<Rightarrow> work \<Rightarrow> (string + cherry_pick_result) \<times> work" where
  "revertCheckpoint env i onto mainline w =
     (let s = wkEngine w
      in if \<not> ready w then (Inr (failedResult i None (Some not_ready) []), w)
         else case or_else (find (\<lambda>c. cpId c = i) (workspaceHistory env s)) (find_cp s i) of
           None \<Rightarrow> (Inr (failedResult i None (Some (''Checkpoint '' @ i @ '' not found'')) []), w)
         | Some source \<Rightarrow>
             if isMergeCheckpoint source \<and> mainline = None
             then (Inr (failedResult i None (Some ''Cannot revert a merge checkpoint without mainline (pass mainline: 1 for the first parent)'') []), w)
             else (let ps = revert_parents source; n = or_default mainline 1
                   in case truthy (if 1 \<le> n \<and> nat n \<le> length ps then Some (ps ! nat (n - 1)) else None) of
                        None \<Rightarrow> (Inr (failedResult i None (Some (''Merge checkpoint has no parent at mainline '' @ show_int n)) []), w)
                      | Some parent \<Rightarrow>
                          applyCheckpointDelta env i
                            \<lparr>doOnto = onto, doInverse = True, doTags = Some [''revert'', i], doDescription = Some (revert_title source),
                             doLabel = Some (revert_title source), doIntent = Some [], doAction = OpRevert, doParentId = Some parent\<rparr> w))"

end
