(* ===== verification/MergeFacts.thy ===== *)
theory MergeFacts
  imports CheckoutFacts CherryPick
begin

text \<open>
  Properties of merges: which files a merge may write, what it refuses, the tree it leaves, and the
  file of the merge in progress.
\<close>

section \<open>Which files are written\<close>

text \<open>The files behind a set of paths, with the temporary files beside them.\<close>

definition reaches :: "'a work_env_scheme \<Rightarrow> work \<Rightarrow> string set \<Rightarrow> string \<Rightarrow> bool" where
  "reaches env w ps k \<longleftrightarrow> (\<exists>p \<in> ps. \<exists>full. resolve_in env w p = Inr full \<and> (k = full \<or> k = restoreTempPath full))"

definition writes_within :: "'a work_env_scheme \<Rightarrow> string set \<Rightarrow> work \<Rightarrow> work \<Rightarrow> bool" where
  "writes_within env ps w w' \<longleftrightarrow> wkEngine w' = wkEngine w
     \<and> (\<forall>k. \<not> reaches env w ps k \<longrightarrow> jm_get (wkFiles w') k = jm_get (wkFiles w) k)"

lemma reaches_cong: "wkEngine v = wkEngine w \<Longrightarrow> reaches env v = reaches env w"
  by (simp add: reaches_def fun_eq_iff resolve_in_cong [of v w env])

lemma writes_within_refl [simp]: "writes_within env ps w w"
  by (simp add: writes_within_def)

lemma writes_within_trans: "writes_within env ps w v \<Longrightarrow> writes_within env ps v u \<Longrightarrow> writes_within env ps w u"
  using reaches_cong [of v w env] by (simp add: writes_within_def)

lemma writes_within_mono: "writes_within env ps w v \<Longrightarrow> ps \<subseteq> qs \<Longrightarrow> writes_within env qs w v"
  unfolding writes_within_def reaches_def by blast

lemma write_within: "writes_within env {fsRelativePath x} w (snd (writeSnapshotContent env x w))"
  by (auto simp: writeSnapshotContent_def writes_within_def reaches_def removeRestoreTempFile_def split: sum.split option.split)

lemma unlink_within: "writes_within env {p} w (snd (unlink_path env p w))"
  by (auto simp: unlink_path_def unlink_file_def writes_within_def reaches_def split: sum.split option.split)

lemma until_within:
  assumes "\<And>x v. x \<in> set xs \<Longrightarrow> writes_within env ps v (snd (f x v))"
  shows "writes_within env ps w (snd (until_error f xs w))"
  using assms
proof (induction xs arbitrary: w)
  case (Cons x xs)
  obtain e v where f: "f x w = (e, v)" by (cases "f x w")
  have "writes_within env ps w v" using Cons.prems [of x w] f by simp
  then show ?case using Cons by (cases e) (auto simp: f intro: writes_within_trans)
qed simp

definition changed_paths :: "hash_map \<Rightarrow> hash_map \<Rightarrow> string set" where
  "changed_paths ours merged = {p. hashKey (jm_get ours p) \<noteq> hashKey (jm_get merged p)}"

lemma apply_path_within: "writes_within env (changed_paths ours merged) w (snd (apply_path env ours merged now p w))"
proof (cases "p \<in> changed_paths ours merged")
  case True
  have "writes_within env {p} w (snd (apply_path env ours merged now p w))"
  proof (cases "wanted_write now merged p")
    case (Some x)
    then show ?thesis using write_within [of env x w] wanted_write_Some [OF Some] by (simp add: apply_path_def)
  qed (simp add: apply_path_def unlink_within)
  then show ?thesis by (rule writes_within_mono) (use True in simp)
qed (simp add: apply_path_def changed_paths_def)

lemma apply_tree_within: "writes_within env (changed_paths ours merged) w (snd (applyMergedHashState env ours merged w))"
  unfolding applyMergedHashState_def by (rule until_within) (rule apply_path_within)

lemma conflict_within: "writes_within env {mcPath c} w (snd (write_conflict env ours theirs l t c w))"
  by (auto simp: write_conflict_def write_plain_def writes_within_def reaches_def split: sum.split option.split)

lemma conflicts_within: "writes_within env (mcPath ` set cs) w (snd (writeConflictFiles env cs ours theirs l t w))"
  unfolding writeConflictFiles_def by (rule until_within) (rule writes_within_mono [OF conflict_within], simp)

lemma begin_within:
  assumes "beginConflict env st ours theirs merged cs w = (e, w')"
  shows "\<exists>v. writes_within env (changed_paths ours merged \<union> mcPath ` set cs) w v \<and> wkFiles w' = wkFiles v"
proof -
  let ?ps = "changed_paths ours merged \<union> mcPath ` set cs"
  obtain d v where a: "applyMergedHashState env ours merged w = (d, v)" by (metis prod.exhaust)
  have v: "writes_within env ?ps w v" using writes_within_mono [OF apply_tree_within, of ours merged ?ps env w] by (simp add: a)
  define l where "l = js_or (or_default (msOursLabel st) []) ''HEAD''"
  define t where "t = js_or (or_default (msTheirsLabel st) []) (js_or (or_default (msSourceName st) []) ''theirs'')"
  obtain d2 u where b: "writeConflictFiles env cs ours theirs l t v = (d2, u)" by (metis prod.exhaust)
  have u: "writes_within env ?ps w u"
    using writes_within_trans [OF v writes_within_mono [OF conflicts_within, of cs ?ps env v ours theirs l t]] by (simp add: b)
  show ?thesis
    using assms v u b unfolding l_def t_def
    by (auto simp: beginConflict_def a saveMergeState_def split: option.splits)
qed

section \<open>The merge of contents\<close>

lemma contents_stores:
  assumes "merge_contents env base theirs ours w = (r, w')"
  shows "stores_only w w'"
proof -
  have r: "resolve_contents env opts ours theirs cs m rem s = (x, t) \<Longrightarrow> blob_frame s t" for opts cs m rem s x t
  proof (induction cs arbitrary: m rem s)
    case (Cons c cs)
    then show ?case by (auto simp: Let_def split: option.splits sum.splits prod.splits) (blast intro: blob_frame_trans blob_frameI(3))
  qed simp
  obtain o1 s1 where o: "writeBlobOptions env (wkEngine w) = (o1, s1)" by (metis prod.exhaust)
  have "blob_frame (wkEngine w) s1" using writeBlobOptions_frame [of "wkEngine w" env] by (simp add: o)
  then show ?thesis using assms
    by (auto simp: merge_contents_def resolveContentConflicts_def o split: prod.splits sum.splits dest!: r intro: blob_frame_trans)
qed

lemma stores_same: "stores_only w w' \<Longrightarrow> wkFiles w' = wkFiles w \<and> wk_path w' = wk_path w"
  by (cases w; cases w'; cases "wkEngine w"; cases "wkEngine w'") (auto simp: stores_only_def blob_frame_def)

lemma remaining_unset:
  assumes "resolve_contents env opts ours theirs cs m rem s = (Inr (m', rem'), t)" and "distinct (map mcPath (rem @ cs))"
    and "\<forall>c \<in> set (rem @ cs). jm_get m (mcPath c) = None"
  shows "set rem' \<subseteq> set (rem @ cs) \<and> (\<forall>c \<in> set rem'. jm_get m' (mcPath c) = None)"
  using assms
proof (induction cs arbitrary: m rem s)
  case (Cons c cs)
  show ?case
  proof (cases "merged_text env s ours theirs c")
    case None
    then show ?thesis using Cons.IH [of m "rem @ [c]" s] Cons.prems by auto
  next
    case (Some x)
    obtain h objs where p: "putBlob env opts (bytesFromSnapshotContent env x ''utf8'') (egObjects s) = Inr (h, objs)"
      using Cons.prems(1) Some by (auto simp: Let_def split: sum.splits)
    show ?thesis using Cons.IH Cons.prems by (fastforce simp: Some p Let_def)
  qed
qed auto

lemma conflict_unmerged:
  assumes "merge_contents env base theirs ours w = (Inr (merged, conflicts), w')" and "c \<in> set conflicts"
  shows "jm_get merged (mcPath c) = None"
proof -
  obtain hashed cs where h: "threeWayMergeHashes base theirs ours = (hashed, cs)" by (metis prod.exhaust)
  obtain content w1 where r: "resolveContentConflicts env cs ours theirs w = (Inr (content, conflicts), w1)"
    and m: "merged = fold (\<lambda>(p, st) m. jm_set p st m) content hashed"
    using assms(1) by (auto simp: merge_contents_def h split: prod.splits sum.splits)
  obtain opts s1 s2 where s: "resolve_contents env opts ours theirs cs [] [] s1 = (Inr (content, conflicts), s2)"
    using r by (auto simp: resolveContentConflicts_def split: prod.splits sum.splits)
  have cp: "map mcPath cs = filter (\<lambda>p. merge_choice (jm_get base p) (jm_get theirs p) (jm_get ours p) = None)
      (sorted_set (jm_keys base @ jm_keys theirs @ jm_keys ours))"
    using conflict_paths [of base theirs ours] by (simp add: h)
  then have "distinct (map mcPath cs)" by simp
  from remaining_unset [OF s] this assms(2) have c: "c \<in> set cs" "jm_get content (mcPath c) = None" by auto
  then have "mcPath c \<in> set (map mcPath cs)" by simp
  then have "merge_choice (jm_get base (mcPath c)) (jm_get theirs (mcPath c)) (jm_get ours (mcPath c)) = None" unfolding cp by simp
  then have "jm_get hashed (mcPath c) = None" using merged_get [of base theirs ours "mcPath c"] by (simp add: h)
  moreover have "jm_get (fold (\<lambda>(p, st) m. jm_set p st m) xs m) q = jm_get m q" if "q \<notin> fst ` set xs" for xs m and q :: string
    using that by (induction xs arbitrary: m) auto
  moreover have "mcPath c \<notin> fst ` set content" using c(2) in_jm_keys [of "mcPath c" content] by (simp add: jm_keys_def)
  ultimately show ?thesis unfolding m by metis
qed

section \<open>Uncheckpointed changes\<close>

text \<open>The contents on the disk are in the store: those of the head, of the result or of the other side.\<close>

definition on_record :: "'a work_env_scheme \<Rightarrow> work \<Rightarrow> hash_map \<Rightarrow> hash_map \<Rightarrow> hash_map \<Rightarrow> string \<Rightarrow> string \<Rightarrow> bool" where
  "on_record env w ours merged theirs p full \<longleftrightarrow>
     (\<exists>f. jm_get (wkFiles w) full = Some f
        \<and> hashBlobBytes env (dfBytes f) \<in> {hashKey (jm_get ours p), hashKey (jm_get merged p), hashKey (jm_get theirs p)})"

lemma undirty_recorded:
  assumes "overlappingDirtyConflicts env w ours merged (Some theirs) = []" and "p \<in> changed_paths ours merged"
    and "resolve_in env w p = Inr full"
  shows "on_record env w ours merged theirs p full"
proof -
  have "p \<in> set (jm_keys ours) \<or> p \<in> set (jm_keys merged)"
    using assms(2) by (cases "jm_get ours p"; cases "jm_get merged p") (auto simp: changed_paths_def in_jm_keys)
  then have "\<not> in_the_way env w ours merged theirs p" using assms(1) by (auto simp: overlappingDirtyConflicts_def filter_empty_conv)
  then show ?thesis using assms(2,3) by (auto simp: in_the_way_def changed_paths_def read_file_def on_record_def split: if_splits)
qed

lemma commit_files:
  assumes "merge_commit env source target ps ours merged w = (r, w')"
  shows "\<exists>v. writes_within env (changed_paths ours merged) w v \<and> wkFiles w' = wkFiles v"
proof -
  obtain ss inv where h: "hashStateToSnapshots (egNow (wkEngine w)) merged ps = (ss, inv)" by (metis prod.exhaust)
  have d: "applyMergedHashState env ours merged (w\<lparr>wkDraws := n\<rparr>) = (e, v) \<Longrightarrow>
      \<exists>u. writes_within env (changed_paths ours merged) w u \<and> wkFiles v = wkFiles u" for n e v
  proof -
    assume a: "applyMergedHashState env ours merged (w\<lparr>wkDraws := n\<rparr>) = (e, v)"
    have "writes_within env (changed_paths ours merged) (w\<lparr>wkDraws := n\<rparr>) v"
      using apply_tree_within [of env ours merged "w\<lparr>wkDraws := n\<rparr>"] by (simp add: a)
    then have "writes_within env (changed_paths ours merged) w v"
      using reaches_cong [of "w\<lparr>wkDraws := n\<rparr>" w env] by (simp add: writes_within_def)
    then show ?thesis by blast
  qed
  show ?thesis
    using assms
    by (auto simp: merge_commit_def h draw_uuid_def Let_def split: if_splits prod.splits option.splits dest!: d)
      (metis writes_within_refl)+
qed

lemma trees_files:
  assumes run: "merge_trees env source target lca base theirs ours w = (r, w')"
    and mc: "merge_contents env base theirs ours w = (Inr (merged, conflicts), w1)"
    and ch: "jm_get (wkFiles w') k \<noteq> jm_get (wkFiles w) k"
  shows "overlappingDirtyConflicts env w1 ours merged (Some theirs) = []
    \<and> reaches env w1 (changed_paths ours merged \<union> mcPath ` set conflicts) k"
proof -
  note st = stores_same [OF contents_stores [OF mc]]
  let ?ps = "changed_paths ours merged \<union> mcPath ` set conflicts"
  have d: "overlappingDirtyConflicts env w1 ours merged (Some theirs) = []"
    using run ch st by (auto simp: merge_trees_def mc Let_def on_engine_def split: if_splits)
  have "\<exists>v. writes_within env ?ps w1 v \<and> wkFiles w' = wkFiles v"
  proof (cases "conflicts = []")
    case True
    then show ?thesis using run d commit_files by (fastforce simp: merge_trees_def mc Let_def intro: writes_within_mono)
  next
    case False
    then show ?thesis
      using run d begin_within by (fastforce simp: merge_trees_def mc Let_def on_engine_def split: prod.splits option.splits)
  qed
  then show ?thesis using d ch st by (auto simp: writes_within_def)
qed


text \<open>
  C16 (error): a merge that adds a file is refused on a clean working tree. When some path is absent from the
  target's head and from the disk, and the merged tree has it, the merge fails with the message about
  uncheckpointed changes and touches no file: the absent file's hash counts as \<open>undefined\<close>, which the test does not
  take for the empty key of a path that the head does not have.
\<close>

theorem merge_refuses_added_file:
  assumes mc: "merge_contents env base theirs ours w = (Inr (merged, conflicts), w1)"
    and add: "hashKey (jm_get ours p) = []" "hashKey (jm_get merged p) \<noteq> []"
    and absent: "resolve_in env w p = Inr full" "jm_get (wkFiles w) full = None"
  shows "\<exists>res w'. merge_trees env source target lca base theirs ours w = (Inr res, w') \<and> \<not> bmSuccess res
    \<and> bmMessage res = Some dirty_message \<and> p \<in> mcPath ` set (bmConflicts res) \<and> wkFiles w' = wkFiles w"
proof -
  note st = stores_same [OF contents_stores [OF mc]]
  have rs: "resolve_in env w1 = resolve_in env w" by (rule resolve_in_path) (use st in blast)
  have "in_the_way env w1 ours merged theirs p" using add absent st by (simp add: in_the_way_def rs read_file_def)
  moreover have "p \<in> set (jm_keys merged)" using add(2) by (cases "jm_get merged p") (auto simp: in_jm_keys)
  ultimately have p: "p \<in> set (overlappingDirtyConflicts env w1 ours merged (Some theirs))" by (simp add: overlappingDirtyConflicts_def)
  then have ne: "overlappingDirtyConflicts env w1 ours merged (Some theirs) \<noteq> []" by auto
  have "merge_trees env source target lca base theirs ours w
      = (Inr (merge_failed (map path_conflict (overlappingDirtyConflicts env w1 ours merged (Some theirs))) (Some dirty_message)),
         on_engine (append_audit ''branch'' (Some (brId target)) False) w1)"
    unfolding merge_trees_def mc prod.case sum.case Let_def by (simp only: ne if_True not_False_eq_True)
  then show ?thesis using p st by (simp add: merge_failed_def on_engine_def path_conflict_def image_image)
qed

section \<open>The tree that a merge leaves\<close>

lemma apply_path_effect:
  assumes run: "apply_path env ours merged now p w = (None, w')" and safe: "safe_paths env w qs" and p: "p \<in> set qs"
    and root: "root_of env w = Some rt" and ok: "unlink_ok env"
  shows "wkEngine w' = wkEngine w \<and> (\<forall>q \<in> set qs. disk_hash env w' (beneath rt q) =
    (if q = p \<and> p \<in> changed_paths ours merged then hashKey (jm_get merged p) else disk_hash env w (beneath rt q)))"
proof (cases "p \<in> changed_paths ours merged")
  case True
  have full: "resolve_in env w p = Inr (beneath rt p)" by (rule safe_resolve [OF safe p root])
  have apart: "beneath rt q \<notin> touches rt p" if "q \<in> set qs" "q \<noteq> p" for q
    using that p safe by (auto simp: touches_def safe_paths_def)
  show ?thesis
  proof (cases "wanted_write now merged p")
    case None
    then have u: "unlink_path env p w = (None, w')" using run True by (simp add: apply_path_def changed_paths_def)
    then have "w' = w \<and> jm_get (wkFiles w) (beneath rt p) = None \<or> w' = w\<lparr>wkFiles := jm_del (beneath rt p) (wkFiles w)\<rparr>"
      using ok by (auto simp: unlink_path_def full unlink_file_def unlink_ok_def split: option.splits if_splits)
    then show ?thesis using None True wanted_write_None [of now merged p] by (auto simp: disk_hash_def)
  next
    case (Some x)
    note x = wanted_write_Some [OF Some]
    have wr: "writeSnapshotContent env x w = (None, w')" using run True Some by (simp add: apply_path_def changed_paths_def)
    then have "write_all env [x] w = (None, w')" by simp
    moreover have "safe_paths env w (map fsRelativePath [x])" by (rule safe_paths_subset [OF safe]) (use p x in simp)
    ultimately have "disk_hash env w' (beneath rt p) = hashKey (jm_get merged p)"
      using write_all_effect [of env "[x]" w w' rt x] root x by simp
    moreover have "writes_only rt {p} w w'" using write_only [OF wr] full x by simp
    ultimately show ?thesis using True apart by (auto simp: writes_only_def disk_hash_def)
  qed
qed (use run in \<open>simp add: apply_path_def changed_paths_def\<close>)

lemma apply_paths_effect:
  assumes "until_error (apply_path env ours merged now) ps w = (None, w')" and "safe_paths env w qs" and "set ps \<subseteq> set qs"
    and "root_of env w = Some rt" and "unlink_ok env" and "distinct ps"
  shows "wkEngine w' = wkEngine w \<and> (\<forall>q \<in> set qs. disk_hash env w' (beneath rt q) =
    (if q \<in> set ps \<and> q \<in> changed_paths ours merged then hashKey (jm_get merged q) else disk_hash env w (beneath rt q)))"
  using assms
proof (induction ps arbitrary: w)
  case (Cons p ps)
  obtain w1 where s: "apply_path env ours merged now p w = (None, w1)" "until_error (apply_path env ours merged now) ps w1 = (None, w')"
    using Cons.prems(1) by (auto split: prod.splits option.splits)
  have p: "p \<in> set qs" using Cons.prems(3) by simp
  note e = apply_path_effect [OF s(1) Cons.prems(2) p Cons.prems(4,5)]
  then have eng: "wkEngine w1 = wkEngine w" by blast
  have safe1: "safe_paths env w1 qs" and root1: "root_of env w1 = Some rt"
    using Cons.prems(2,4) by (simp_all add: safe_paths_cong [OF eng] root_of_engine [OF eng])
  have "set ps \<subseteq> set qs" "distinct ps" "p \<notin> set ps" using Cons.prems(3,6) by simp_all
  with Cons.IH [OF s(2) safe1 _ root1 Cons.prems(5)] e show ?case by auto
qed simp

text \<open>
  C14 (functional): a merge that commits on a clean working tree leaves the merged tree. When every path of the target's head and of
  the merged tree has on the disk the contents of the target's head, then after a merge that
  recorded a checkpoint, each of them has the contents of the merged tree, and the paths that
  the merged tree does not have are gone. The paths are safe, and removing a missing file is reported as such.
\<close>

theorem merge_leaves_merged_tree:
  assumes run: "merge_trees env source target lca base theirs ours w = (Inr res, w')" and com: "bmMergeCheckpointId res = Some i"
    and mc: "merge_contents env base theirs ours w = (Inr (merged, conflicts), w1)" and root: "root_of env w = Some rt"
    and safe: "safe_paths env w (jm_keys ours @ jm_keys merged)" and ok: "unlink_ok env"
    and clean: "\<forall>p \<in> set (jm_keys ours @ jm_keys merged). disk_hash env w (beneath rt p) = hashKey (jm_get ours p)"
  shows "\<forall>p \<in> set (jm_keys ours @ jm_keys merged). disk_hash env w' (beneath rt p) = hashKey (jm_get merged p)"
proof -
  let ?qs = "jm_keys ours @ jm_keys merged"
  note st = stores_same [OF contents_stores [OF mc]]
  have c: "merge_commit env source target (jm_keys base @ jm_keys theirs @ jm_keys ours) ours merged w1 = (Inr res, w')"
    using run com by (auto simp: merge_trees_def mc Let_def merge_failed_def split: if_splits prod.splits option.splits)
  obtain w2 where a: "applyMergedHashState env ours merged (snd (draw_uuid env w1)) = (None, w2)" and w2: "wkFiles w' = wkFiles w2"
    using c com by (auto simp: merge_commit_def draw_uuid_def merge_done_def Let_def split: prod.splits if_splits option.splits)
  let ?v = "snd (draw_uuid env w1)"
  have v: "wkFiles ?v = wkFiles w" "wk_path ?v = wk_path w" using st by (simp_all add: draw_uuid_def)
  have rs: "resolve_in env ?v = resolve_in env w" by (rule resolve_in_path) (rule v(2))
  have safe': "safe_paths env ?v ?qs" and root': "root_of env ?v = Some rt"
    using safe root v(2) by (simp_all only: safe_paths_def rs root_of_def)
  have "\<forall>q \<in> set ?qs. disk_hash env w2 (beneath rt q) =
    (if q \<in> set (sorted_set ?qs) \<and> q \<in> changed_paths ours merged then hashKey (jm_get merged q) else disk_hash env ?v (beneath rt q))"
    using apply_paths_effect [OF a [unfolded applyMergedHashState_def] safe' _ root' ok] by auto
  moreover have "disk_hash env ?v = disk_hash env w" "disk_hash env w' = disk_hash env w2"
    by (simp_all add: fun_eq_iff disk_hash_def v w2)
  ultimately show ?thesis using clean by (auto simp: changed_paths_def)
qed

section \<open>The file of the merge in progress\<close>

lemma json_strings_map [simp]: "json_strings (map JStr xs) = xs"
  by (induction xs) (simp_all add: json_strings_def List.map_filter_simps)

lemma jstrings_opt [simp]: "jstrings (map_option (\<lambda>xs. JArr (map JStr xs)) v) = v"
  by (cases v) (simp_all add: jstrings_def)

lemma jlist_fields [simp]:
  "map_of (jlist k v @ rest) n = (if k = n \<and> v \<noteq> None then map_option (\<lambda>xs. JArr (map JStr xs)) v else map_of rest n)"
  by (auto simp: jlist_def split: option.split)

lemma auto_roundtrip: "amDeleted a \<noteq> Some False \<Longrightarrow> parse_auto_entry (auto_json a) = Some a"
  by (cases "amDeleted a"; cases "amHash a"; cases a) (auto simp: parse_auto_entry_def auto_json_def jopt_def)

lemma autos_roundtrip: "list_all (\<lambda>a. amDeleted a \<noteq> Some False) xs \<Longrightarrow> List.map_filter parse_auto_entry (map auto_json xs) = xs"
  by (induction xs) (simp_all add: List.map_filter_simps auto_roundtrip)

lemma find_operation: "find (\<lambda>op. operation_name op = operation_name x) [OpMerge, OpCherryPick, OpRevert] = Some x"
  by (cases x) simp_all

lemma autos_field [simp]:
  "map_of ((case v of None \<Rightarrow> [] | Some xs \<Rightarrow> [(k, JArr (map auto_json xs))]) @ rest) n
     = (if k = n \<and> v \<noteq> None then map_option (\<lambda>xs. JArr (map auto_json xs)) v else map_of rest n)"
  by (auto split: option.split)

lemma autos_opt: "\<forall>xs. v = Some xs \<longrightarrow> list_all (\<lambda>a. amDeleted a \<noteq> Some False) xs \<Longrightarrow>
    parseAutoMerged (map_option (\<lambda>xs. JArr (map auto_json xs)) v) = v"
  by (cases v) (simp_all add: parseAutoMerged_def autos_roundtrip)

lemma jstrings_some [simp]: "jstrings (Some (JArr (map JStr xs))) = Some xs"
  by (simp add: jstrings_def)

lemma merge_fields:
  "jfield (mergeStateJson st) ''operation'' = Some (JStr (operation_name (msOperation st)))"
  "jfield (mergeStateJson st) ''sourceId'' = Some (JStr (msSourceId st))"
  "jfield (mergeStateJson st) ''targetId'' = Some (JStr (msTargetId st))"
  "jfield (mergeStateJson st) ''targetHeadId'' = Some (JStr (msTargetHeadId st))"
  "jfield (mergeStateJson st) ''conflictPaths'' = Some (JArr (map JStr (msConflictPaths st)))"
  "jfield (mergeStateJson st) ''sourceHeadId'' = map_option JStr (msSourceHeadId st)"
  "jfield (mergeStateJson st) ''targetBranchId'' = map_option JStr (msTargetBranchId st)"
  "jfield (mergeStateJson st) ''lcaId'' = map_option JStr (msLcaId st)"
  "jfield (mergeStateJson st) ''preMergeCheckpointId'' = map_option JStr (msPreMergeCheckpointId st)"
  "jfield (mergeStateJson st) ''stashId'' = map_option JStr (msStashId st)"
  "jfield (mergeStateJson st) ''sourceName'' = map_option JStr (msSourceName st)"
  "jfield (mergeStateJson st) ''targetName'' = map_option JStr (msTargetName st)"
  "jfield (mergeStateJson st) ''oursLabel'' = map_option JStr (msOursLabel st)"
  "jfield (mergeStateJson st) ''theirsLabel'' = map_option JStr (msTheirsLabel st)"
  "jfield (mergeStateJson st) ''description'' = map_option JStr (msDescription st)"
  "jfield (mergeStateJson st) ''label'' = map_option JStr (msLabel st)"
  "jfield (mergeStateJson st) ''intent'' = map_option JStr (msIntent st)"
  "jfield (mergeStateJson st) ''createdAt'' = map_option JStr (msCreatedAt st)"
  "jfield (mergeStateJson st) ''autoMergedPaths'' = map_option (\<lambda>xs. JArr (map JStr xs)) (msAutoMergedPaths st)"
  "jfield (mergeStateJson st) ''inventory'' = map_option (\<lambda>xs. JArr (map JStr xs)) (msInventory st)"
  "jfield (mergeStateJson st) ''tags'' = map_option (\<lambda>xs. JArr (map JStr xs)) (msTags st)"
  "jfield (mergeStateJson st) ''autoMerged'' = map_option (\<lambda>xs. JArr (map auto_json xs)) (msAutoMerged st)"
  by (simp_all add: mergeStateJson_def del: map_of_append)

lemma mergeState_roundtrip:
  assumes "\<forall>xs. msAutoMerged st = Some xs \<longrightarrow> list_all (\<lambda>a. amDeleted a \<noteq> Some False) xs"
  shows "parseMergeState (mergeStateJson st) = Some st"
proof -
  obtain fs where "mergeStateJson st = JObj fs" by (simp add: mergeStateJson_def)
  then show ?thesis
    unfolding parseMergeState_def merge_fields
    by (simp add: find_operation autos_opt [OF assms] del: find.simps)
qed

section \<open>A sample repository\<close>

text \<open>Two branches from a baseline: the target \<open>main\<close> changed \<open>b.ts\<close>, the source \<open>try\<close> changed \<open>a.ts\<close>; the disk has the target's head.\<close>

definition sample_state :: "string \<Rightarrow> file_hash_state" where
  "sample_state t = \<lparr>hsHash = Some (sample_hash t), hsEncoding = ''utf8'', hsSize = 1, hsDeleted = Some False\<rparr>"

definition target_checkpoint :: checkpoint_info where
  "target_checkpoint = (line_checkpoint ''cp_2'' 2 (Some ''cp_1''))\<lparr>cpFileSnapshots := Some [stored ''b.ts'' ''x'']\<rparr>"

definition source_checkpoint :: checkpoint_info where
  "source_checkpoint = (line_checkpoint ''cp_3'' 3 (Some ''cp_1''))\<lparr>cpFileSnapshots := Some [stored ''a.ts'' ''y'']\<rparr>"

definition sample_forked :: work where
  "sample_forked = sample_work\<lparr>wkFiles := [(''/w/a.ts'', file_of ''x''), (''/w/b.ts'', file_of ''x'')],
     wkEngine := (wkEngine sample_work)\<lparr>
       egHistory := map (toIndexRecord sample_work_env) [sample_baseline, target_checkpoint, source_checkpoint],
       egManifests := map (\<lambda>c. line_manifest c (snapshots_of c)) [sample_baseline, target_checkpoint, source_checkpoint],
       egBranches := [sample_branch\<lparr>brHead := ''cp_2''\<rparr>, second_branch\<lparr>brHead := ''cp_3''\<rparr>], egActiveBranchId := Some ''br_1''\<rparr>\<rparr>"

definition sample_tree_of :: "string \<Rightarrow> string \<Rightarrow> hash_map" where
  "sample_tree_of a b = [(''a.ts'', sample_state a), (''b.ts'', sample_state b)]"

lemma sample_trees:
  "hashStateAtCheckpoint sample_work_env (wkEngine sample_forked) ''cp_1'' = Some (sample_tree_of ''x'' ''y'')"
  "hashStateAtCheckpoint sample_work_env (wkEngine sample_forked) ''cp_2'' = Some (sample_tree_of ''x'' ''x'')"
  "hashStateAtCheckpoint sample_work_env (wkEngine sample_forked) ''cp_3'' = Some (sample_tree_of ''y'' ''y'')"
  by code_simp+

lemma sample_lca:
  "lowestCommonAncestorId (workspaceHistory sample_work_env (wkEngine sample_forked)) ''cp_3'' ''cp_2'' = Some ''cp_1''"
  by code_simp

lemma sample_contents:
  "merge_contents sample_work_env (sample_tree_of ''x'' ''y'') (sample_tree_of ''y'' ''y'') (sample_tree_of ''x'' ''x'') sample_forked
     = (Inr (sample_tree_of ''y'' ''x'', []), sample_forked)"
  by code_simp

lemma sample_undirty:
  "overlappingDirtyConflicts sample_work_env sample_forked (sample_tree_of ''x'' ''x'') (sample_tree_of ''y'' ''x'')
     (Some (sample_tree_of ''y'' ''y'')) = []"
  by code_simp

definition sample_applied :: "string option \<times> work" where
  "sample_applied = applyMergedHashState sample_work_env (sample_tree_of ''x'' ''x'') (sample_tree_of ''y'' ''x'')
     (snd (draw_uuid sample_work_env sample_forked))"

lemma sample_applied_eval:
  "fst sample_applied = None" "jm_get (wkFiles (snd sample_applied)) ''/w/a.ts'' = Some \<lparr>dfBytes = ''y'', dfMtime = 0\<rparr>"
  "wkEngine (snd sample_applied) = wkEngine sample_forked"
  unfolding sample_applied_def by code_simp+

lemma sample_unidentical:
  "\<not> identical_to_target (fst (hashStateToSnapshots 0 (sample_tree_of ''y'' ''x'')
     (jm_keys (sample_tree_of ''x'' ''y'') @ jm_keys (sample_tree_of ''y'' ''y'') @ jm_keys (sample_tree_of ''x'' ''x'')))) (sample_tree_of ''x'' ''x'')"
  by code_simp

abbreviation sample_source :: checkpoint_branch where "sample_source \<equiv> second_branch\<lparr>brHead := ''cp_3''\<rparr>"
abbreviation sample_target :: checkpoint_branch where "sample_target \<equiv> sample_branch\<lparr>brHead := ''cp_2''\<rparr>"

definition sample_merge :: "(string + branch_merge_result) \<times> work" where
  "sample_merge = merge_trees sample_work_env sample_source sample_target ''cp_1'' (sample_tree_of ''x'' ''y'') (sample_tree_of ''y'' ''y'')
     (sample_tree_of ''x'' ''x'') sample_forked"

lemma sample_merge_branches: "mergeBranches sample_work_env ''br_2'' ''br_1'' sample_forked = sample_merge"
proof -
  have f: "findBranchById (egBranches (wkEngine sample_forked)) ''br_2'' = Some sample_source"
    "findBranchById (egBranches (wkEngine sample_forked)) ''br_1'' = Some sample_target"
    "inProgressMergeMessage sample_forked = None" "brId sample_source \<noteq> brId sample_target" "truthy (Some ''cp_1'') = Some ''cp_1''" by code_simp+
  show ?thesis using f sample_lca sample_trees by (simp add: mergeBranches_def sample_merge_def)
qed

text \<open>The commit itself is not evaluated: only its save decides the result.\<close>

lemma commit_error: "fst (commit_checkpoint env c s) = map_option engine_error_message (fst (saveCheckpointToDisk env c (s\<lparr>egHistory := egHistory s @ [c]\<rparr>)))"
  by (simp add: commit_checkpoint_def Let_def split: prod.split option.split)

lemma sample_merge_files: "jm_get (wkFiles (snd sample_merge)) ''/w/a.ts'' = Some \<lparr>dfBytes = ''y'', dfMtime = 0\<rparr>"
proof -
  obtain w2 where a: "applyMergedHashState sample_work_env (sample_tree_of ''x'' ''x'') (sample_tree_of ''y'' ''x'')
      (snd (draw_uuid sample_work_env sample_forked)) = (None, w2)" and w2: "snd sample_applied = w2"
    using sample_applied_eval(1) by (cases sample_applied) (simp add: sample_applied_def)
  have now: "egNow (wkEngine sample_forked) = 0" by code_simp
  obtain ss inventory where h: "hashStateToSnapshots 0 (sample_tree_of ''y'' ''x'')
     (jm_keys (sample_tree_of ''x'' ''y'') @ jm_keys (sample_tree_of ''y'' ''y'') @ jm_keys (sample_tree_of ''x'' ''x'')) = (ss, inventory)"
    by (metis prod.exhaust)
  have n: "\<not> identical_to_target ss (sample_tree_of ''x'' ''x'')" using sample_unidentical by (simp add: h)
  have "wkFiles (snd sample_merge) = wkFiles w2"
    using a n by (simp add: h sample_merge_def merge_trees_def sample_contents sample_undirty merge_commit_def draw_uuid_def now Let_def
        split: prod.split option.split)
  then show ?thesis using sample_applied_eval(2) w2 by simp
qed


theorem merge_refuses_added_file_witness:
  "\<exists>res w'. merge_trees sample_work_env sample_source sample_target ''cp_1'' (sample_tree_of ''x'' ''x'')
       (sample_tree_of ''x'' ''x'' @ [(''c.ts'', sample_state ''y'')]) (sample_tree_of ''x'' ''x'') sample_forked = (Inr res, w')
     \<and> \<not> bmSuccess res \<and> bmMessage res = Some dirty_message \<and> ''c.ts'' \<in> mcPath ` set (bmConflicts res) \<and> wkFiles w' = wkFiles sample_forked"
proof -
  have m: "merge_contents sample_work_env (sample_tree_of ''x'' ''x'') (sample_tree_of ''x'' ''x'' @ [(''c.ts'', sample_state ''y'')])
      (sample_tree_of ''x'' ''x'') sample_forked = (Inr (sample_tree_of ''x'' ''x'' @ [(''c.ts'', sample_state ''y'')], []), sample_forked)"
    by code_simp
  have f: "hashKey (jm_get (sample_tree_of ''x'' ''x'') ''c.ts'') = []"
    "hashKey (jm_get (sample_tree_of ''x'' ''x'' @ [(''c.ts'', sample_state ''y'')]) ''c.ts'') \<noteq> []"
    "resolve_in sample_work_env sample_forked ''c.ts'' = Inr ''/w/c.ts''" "jm_get (wkFiles sample_forked) ''/w/c.ts'' = None" by code_simp+
  show ?thesis by (rule merge_refuses_added_file [OF m f])
qed

text \<open>The save of the merge checkpoint in the sample.\<close>

lemma ensure_stored: "\<forall>x \<in> set ss. snapshotIsDeleted x \<or> truthy (fsHash x) \<noteq> None \<Longrightarrow> ensure_snapshots env ss s = (Inr ss, s)"
  by (induction ss) (auto simp: ensureSnapshotBlob_def)

lemma merged_stored: "hashStateToSnapshots now merged ps = (ss, inventory) \<Longrightarrow> \<forall>x \<in> set ss. snapshotIsDeleted x \<or> truthy (fsHash x) \<noteq> None"
  by (auto simp: hashStateToSnapshots_def Let_def is_live_def hashKey_def or_default_def truthy_None_iff deleted_snapshot_def snapshotIsDeleted_def
      in_map_filter split: option.splits)

lemma sample_merge_commits: "\<exists>i. fst sample_merge = Inr (merge_done (Some i))"
proof -
  obtain w2 where a: "applyMergedHashState sample_work_env (sample_tree_of ''x'' ''x'') (sample_tree_of ''y'' ''x'')
      (snd (draw_uuid sample_work_env sample_forked)) = (None, w2)"
    using sample_applied_eval(1) by (cases sample_applied) (simp add: sample_applied_def)
  have now: "egNow (wkEngine sample_forked) = 0" by code_simp
  obtain ss inventory where h: "hashStateToSnapshots 0 (sample_tree_of ''y'' ''x'')
     (jm_keys (sample_tree_of ''x'' ''y'') @ jm_keys (sample_tree_of ''y'' ''y'') @ jm_keys (sample_tree_of ''x'' ''x'')) = (ss, inventory)"
    by (metis prod.exhaust)
  have n: "\<not> identical_to_target ss (sample_tree_of ''x'' ''x'')" using sample_unidentical by (simp add: h)
  have e: "eeWriteError sample_work_env p = None" for p by (simp add: sample_work_env_def sample_env_simps engine_env.defs)
  have sv: "fst (commit_checkpoint sample_work_env c s) = None" if "snapshots_of c = ss" for c s
    by (simp add: commit_error saveCheckpointToDisk_def that ensure_stored [OF merged_stored [OF h]] e Let_def)
  have sn: "snapshots_of (c\<lparr>cpBranchId := x, cpParentCheckpointId := y, cpParentCheckpointIds := z\<rparr>) = snapshots_of c"
    "snapshots_of (bare_checkpoint env i d m ss inv tags s) = ss" for c x y z i d m inv tags s and env :: work_env
    by (simp_all add: snapshots_of_def bare_checkpoint_def)
  have sv': "commit_checkpoint sample_work_env c s = (x, y) \<Longrightarrow> snapshots_of c = ss \<Longrightarrow> x = None" for c s x y
    using sv [of c s] by simp
  show ?thesis
    using a n
    by (auto simp: h sample_merge_def merge_trees_def sample_contents sample_undirty merge_commit_def draw_uuid_def now Let_def
        split: prod.split option.split dest!: sv' intro!: sn(2) [THEN trans [OF sn(1)]])
qed

theorem merge_leaves_merged_tree_witness:
  "disk_hash sample_work_env (snd sample_merge) ''/w/a.ts'' = sample_hash ''y'' \<and> disk_hash sample_work_env (snd sample_merge) ''/w/b.ts'' = sample_hash ''x''"
proof -
  obtain res w' i where run: "sample_merge = (Inr res, w')" and i: "bmMergeCheckpointId res = Some i"
    using sample_merge_commits by (metis merge_done_def branch_merge_result.select_convs(2) prod.collapse)
  have f: "root_of sample_work_env sample_forked = Some ''/w''" "beneath ''/w'' ''a.ts'' = ''/w/a.ts''" "beneath ''/w'' ''b.ts'' = ''/w/b.ts''"
    "jm_keys (sample_tree_of ''x'' ''x'') @ jm_keys (sample_tree_of ''y'' ''x'') = [''a.ts'', ''b.ts'', ''a.ts'', ''b.ts'']"
    "safe_paths sample_work_env sample_forked [''a.ts'', ''b.ts'', ''a.ts'', ''b.ts'']"
    "disk_hash sample_work_env sample_forked ''/w/a.ts'' = hashKey (jm_get (sample_tree_of ''x'' ''x'') ''a.ts'')"
    "disk_hash sample_work_env sample_forked ''/w/b.ts'' = hashKey (jm_get (sample_tree_of ''x'' ''x'') ''b.ts'')"
    "hashKey (jm_get (sample_tree_of ''y'' ''x'') ''a.ts'') = sample_hash ''y''" "hashKey (jm_get (sample_tree_of ''y'' ''x'') ''b.ts'') = sample_hash ''x''"
    by code_simp+
  have ok: "unlink_ok sample_work_env" by (simp add: unlink_ok_def sample_work_env_def engine_env.defs)
  from merge_leaves_merged_tree [OF run [unfolded sample_merge_def] i sample_contents f(1) _ ok] f show ?thesis by (simp add: run)
qed

end
