(* ===== verification/Spec2Isabelle.thy ===== *)
theory Spec2Isabelle
  imports TextMerge Blame Bisect RenameDetect FileClass MergeFacts
begin

text \<open>
  Verification of the checkpoint engine of KnoxCoder
  (\<open>src/extensions/knox/src/host/checkpoints\<close>, below \<open>checkpoints\<close>).

  \<^bold>\<open>The program.\<close> KnoxCoder is an editor; its Knox extension keeps snapshots of the workspace, the
  checkpoints, so that the edits of an agent can be inspected, merged and undone. A checkpoint is a
  manifest (\<open>CheckpointInfo\<close>) that lists changed files by the hash of their contents. The contents are
  in a content-addressed object store; an index lists the checkpoints and the branches of the
  workspace. The tree of files at a checkpoint is the replay of the manifests along its lineage.
  Deleting a checkpoint folds its manifest into its successor; a collection then removes the objects
  that nothing names any more.

  \<^bold>\<open>Theories\<close>, from the leaves up:
  \<^item> \<open>KPrelude\<close>: what is used of ECMAScript (trim, case, insertion-ordered maps \<open>jsmap\<close>, sets, numbers as
    text), the interface \<open>keyed_store\<close> of maps, and lemmas on lists and options.
  \<^item> \<open>CheckpointTypes\<close> (\<open>manager/types.ts\<close>): the records and enumerations.
  \<^item> \<open>BranchLogic\<close> (\<open>manager/branchLogic.ts\<close>): branches, their stored form, the lineage of a checkpoint,
    the lowest common ancestor. \<open>HashState\<close> (same file): replay to a tree of hashes and the three-way merge
    of trees, against the interface \<open>three_way\<close>.
  \<^item> \<open>Lcs\<close>, \<open>TextMerge\<close> (same file): the alignment table, against the interface \<open>lcs_recurrence\<close>, hunks and
    the merge of texts. \<open>Blame\<close> (\<open>manager/blame.ts\<close>), \<open>Bisect\<close> (\<open>manager/bisect.ts\<close>).
  \<^item> \<open>CheckpointPath\<close> (\<open>checkpointPath.ts\<close>): the sandbox of workspace paths. \<open>PathQuery\<close>
    (\<open>manager/pathFilter.ts\<close>, \<open>manager/listQuery.ts\<close>). \<open>RenameDetect\<close>, \<open>FileClass\<close>
    (\<open>manager/renameDetect.ts\<close>, \<open>manager/fileClassification.ts\<close>). \<open>Workspace\<close> (\<open>store/workspaceStore.ts\<close>,
    \<open>manager/workspace.ts\<close>).
  \<^item> \<open>BlobStore\<close> (\<open>store/blobStore.ts\<close>, \<open>store/blobEncryption.ts\<close>): the object store, against the interface
    \<open>content_store\<close>. \<open>Integrity\<close> (\<open>store/checkpointIntegrity.ts\<close>), \<open>Replay\<close> (\<open>checkpointReplay.ts\<close>).
  \<^item> \<open>Engine\<close>, \<open>IndexStore\<close> (\<open>manager/persistence.ts\<close>, \<open>manager/blobCrypto.ts\<close>, \<open>store/stashIndex.ts\<close>): the
    record \<open>engine\<close> holds the fields of \<open>CheckpointEngineHost\<close> and the files of the store; one function per
    operation, from state to result and state. \<open>StoreSafety\<close> and \<open>IndexFacts\<close> hold their properties.
  \<^item> \<open>Retention\<close> (\<open>manager/retention.ts\<close>) and \<open>Branches\<close> (\<open>manager/branches.ts\<close>, \<open>manager/create.ts\<close>), with
    \<open>RetentionFacts\<close>, \<open>EngineRun\<close> (all operations as one step relation \<open>engine_reach\<close>), \<open>FoldTrees\<close> (deletion)
    and \<open>Recording\<close> (new checkpoints).
  \<^item> \<open>Worktree\<close> (\<open>manager/workspaceScan.ts\<close>, \<open>checkpointIgnore.ts\<close>, \<open>manager/restoreJournal.ts\<close>): the record
    \<open>work\<close> adds the files on the disk, the sets of the watcher, the journal of a restore and the merge in
    progress to the \<open>engine\<close>; the scan and the snapshot of one file. \<open>Capture\<close> (\<open>manager/capture.ts\<close>,
    \<open>manager/create.ts\<close>): the three captures and the creation of checkpoints, with \<open>CaptureFacts\<close>.
  \<^item> \<open>Restore\<close> (\<open>manager/restore.ts\<close>) with \<open>RestoreFacts\<close>; \<open>Stash\<close> (\<open>manager/stash.ts\<close>,
    \<open>store/stashIndex.ts\<close>) with \<open>StashFacts\<close>; \<open>Checkout\<close> (\<open>manager/branches.ts\<close>) with \<open>CheckoutFacts\<close>.
  \<^item> \<open>MergeState\<close> (\<open>manager/mergeState.ts\<close>, \<open>mergeBranches\<close> of \<open>manager/branches.ts\<close>) and \<open>CherryPick\<close>
    (\<open>manager/cherryPick.ts\<close>), with \<open>MergeFacts\<close>.

  \<^bold>\<open>What the theorems show.\<close> The merges report every conflict and lose no edit of either side; the
  alignment is a longest one, and blame attributes each line to the checkpoint that introduced it; the
  bisection finds the first bad checkpoint and needs no more steps than its bound; the sandbox lets no
  path out of the workspace. What is put into the store is read back after any other writes and
  collections that name it, compressed or encrypted; a saved checkpoint can be loaded after any run of
  other operations; the index is read back as it was written, and can be rebuilt from the manifests.
  Retention spares what is pinned or stashed upon; deleting a checkpoint of a line changes the tree of
  no other checkpoint; recording one extends the active line, and its tree is the tip's tree with the
  captured changes applied. Every operation keeps the state well formed. A restore that reports success
  leaves exactly the files of the checkpoint; no restore writes outside the workspace, and a crash in
  the middle of one is repaired at the next start. A stash keeps the work it was given and merges it
  back three-way. A checkout arrives or leaves the pointers alone. A merge overwrites recorded contents
  only, and leaves the merged tree. Two theorems state what the code does against its purpose: a hard
  switch stashes nothing under a running watcher (\<open>hard_switch_stashes_nothing\<close>), and a merge refuses an
  added file (\<open>merge_refuses_added_file\<close>).

  \<^bold>\<open>Conventions.\<close> An operation that can throw returns a sum with the error on the left, or an option with the
  error beside the state. Handlers run under the lock of the store, so they do not interleave. What is
  not code of the repository is a field of an environment record (\<open>node_env\<close>, \<open>blob_env\<close>, \<open>integrity_env\<close>,
  \<open>engine_env\<close>, \<open>work_env\<close>, \<open>checkout_env\<close>): the hash, the compressor, the cipher, the random source, the collation, dates, the
  sizes of JSON files, the write errors of the file system, the patterns of the ignore file. Theorems that need more of them than that they
  are functions state it (\<open>codec_ok\<close>: decompression and decryption invert their counterparts, and the hash
  has no collision on the contents at hand). Dates are milliseconds; paths are those of a POSIX host.

  \<^bold>\<open>Bounds.\<close> The step bound of \<open>bisect_run\<close> is the code's own. The search for a free branch name
  (\<open>free_suffix\<close>) has fuel one more than the number of names, which theorem \<open>whatIfBranchName_fresh\<close> shows to
  be enough. All other loops are structural or have a termination proof.

  \<^bold>\<open>Not modelled.\<close> Directories (the disk is a map from paths to files, so the removal of empty directories
  has no counterpart), atomic writes and the lock of the store (a handler is one transition), bundles and
  patches, the audit dashboard and the reports, the watchers (the sets they fill are state), the migration
  of the legacy store, the read-only views of the history, and the commands of the editor.
\<close>

end
